(* ===== verification/PyFloat.thy ===== *)
theory PyFloat
  imports Prelude Complex_Main "HOL-Library.Log_Nat"
begin

section \<open>Python floats: binary64 rounding\<close>

text \<open>
  A finite Python \<open>float\<close> is modelled by the rational number it denotes. Each arithmetic
  operation computes the exact result and rounds it with \<open>fl\<close> to the nearest number with
  a 53-bit significand, ties to the even significand, as binary64 does. The exponent is not
  bounded here: the quantities of this program (milliseconds, ratios, coordinates, rates)
  stay far from the overflow and subnormal ranges. Signed zeros are not told apart.
\<close>

subsection \<open>Rounding\<close>

definition round_half_even :: "rat \<Rightarrow> int" where
  "round_half_even x =
     (let f = \<lfloor>x\<rfloor>; r = x - of_int f
      in if r < 1 / 2 then f else if 1 / 2 < r then f + 1 else if even f then f else f + 1)"

text \<open>The binary exponent of a positive rational: the \<open>e\<close> with \<open>2 ^ e \<le> x < 2 ^ (e + 1)\<close>.\<close>

definition ilog2 :: "rat \<Rightarrow> int" where
  "ilog2 x =
     (let (n, d) = quotient_of x; k = bitlen n - bitlen d
      in if 2 powi k \<le> x then k else k - 1)"

definition fl_pos :: "rat \<Rightarrow> rat" where
  "fl_pos x = (let u = 2 powi (ilog2 x - 52) in of_int (round_half_even (x / u)) * u)"

definition fl :: "rat \<Rightarrow> rat" where
  "fl x = (if x = 0 then 0 else if x < 0 then - fl_pos (- x) else fl_pos x)"

subsection \<open>The operations the source uses\<close>

definition fadd :: "rat \<Rightarrow> rat \<Rightarrow> rat" where "fadd x y = fl (x + y)"
definition fsub :: "rat \<Rightarrow> rat \<Rightarrow> rat" where "fsub x y = fl (x - y)"
definition fmul :: "rat \<Rightarrow> rat \<Rightarrow> rat" where "fmul x y = fl (x * y)"
definition fdiv :: "rat \<Rightarrow> rat \<Rightarrow> rat" where "fdiv x y = fl (x / y)"

text \<open>The value of a decimal literal \<open>m * 10 ^ e\<close>, and an integer used as a float.\<close>

definition dec :: "int \<Rightarrow> int \<Rightarrow> rat" where "dec m e = fl (of_int m * 10 powi e)"
definition of_pyint :: "int \<Rightarrow> rat" where "of_pyint n = fl (of_int n)"

subsection \<open>Half-even rounding to an integer\<close>

lemma round_half_even_of_int [simp]: "round_half_even (of_int n) = n"
  by (simp add: round_half_even_def)

lemma round_half_even_le: "of_int (round_half_even x) \<le> x + 1 / 2"
proof -
  have "of_int \<lfloor>x\<rfloor> \<le> x" by (rule of_int_floor_le)
  then have "of_int \<lfloor>x\<rfloor> \<le> x + 1 / 2" by linarith
  then show ?thesis
    by (auto simp: round_half_even_def Let_def)
qed

lemma round_half_even_ge: "x - 1 / 2 \<le> of_int (round_half_even x)"
proof -
  have "x < of_int \<lfloor>x\<rfloor> + 1" by linarith
  then show ?thesis
    by (auto simp: round_half_even_def Let_def)
qed

lemma round_half_even_mono:
  assumes "x \<le> y"
  shows "round_half_even x \<le> round_half_even y"
proof -
  have fl_le: "\<lfloor>x\<rfloor> \<le> \<lfloor>y\<rfloor>" using assms by (rule floor_mono)
  show ?thesis
  proof (cases "\<lfloor>x\<rfloor> = \<lfloor>y\<rfloor>")
    case True
    then show ?thesis using assms
      by (simp add: round_half_even_def Let_def)
  next
    case False
    with fl_le have "\<lfloor>x\<rfloor> + 1 \<le> \<lfloor>y\<rfloor>" by simp
    moreover have "round_half_even x \<le> \<lfloor>x\<rfloor> + 1" "\<lfloor>y\<rfloor> \<le> round_half_even y"
      by (simp_all add: round_half_even_def Let_def)
    ultimately show ?thesis by linarith
  qed
qed

subsection \<open>The binary exponent\<close>

lemma bitlen_pow2_bounds: "0 < n \<Longrightarrow> (2::rat) powi (bitlen n - 1) \<le> of_int n \<and> of_int n < (2::rat) powi bitlen n"
proof -
  assume n: "0 < n"
  have b: "2 ^ nat (bitlen n - 1) \<le> n \<and> n < 2 ^ nat (bitlen n)"
    using bitlen_bounds [OF n] .
  have pos: "0 < bitlen n" using n bitlen_eq_zero_iff [of n] bitlen_nonneg [of n] by linarith
  have lo: "(2::rat) powi (bitlen n - 1) = of_int (2 ^ nat (bitlen n - 1))"
    using pos by (simp add: power_int_def)
  have hi: "(2::rat) powi bitlen n = of_int (2 ^ nat (bitlen n))"
    using pos by (simp add: power_int_def)
  show ?thesis unfolding lo hi using b by (simp only: of_int_le_iff of_int_less_iff)
qed

lemma powi2_less_iff: "(2::rat) powi a < 2 powi b \<longleftrightarrow> a < b"
  by (metis linorder_not_le one_less_numeral_iff order_less_imp_le power_int_increasing
      power_int_strict_increasing semiring_norm(76))

lemma ilog2_bounds:
  assumes "0 < x"
  shows "2 powi ilog2 x \<le> x \<and> x < 2 powi (ilog2 x + 1)"
proof -
  obtain n d where q: "quotient_of x = (n, d)" by (cases "quotient_of x")
  have d: "0 < d" using quotient_of_denom_pos [OF q] .
  have x: "x = of_int n / of_int d" using quotient_of_div [OF q] .
  have n: "0 < n" using assms d x by (simp add: zero_less_divide_iff)
  define k where "k = bitlen n - bitlen d"
  note bn = bitlen_pow2_bounds [OF n] and bd = bitlen_pow2_bounds [OF d]
  have dpos: "(0::rat) < of_int d" using d by simp
  have up: "x < 2 powi (k + 1)"
  proof -
    have "(2::rat) powi (k + 1) * 2 powi (bitlen d - 1) = 2 powi bitlen n"
      by (simp add: k_def flip: power_int_add)
    then have "of_int n < (2::rat) powi (k + 1) * 2 powi (bitlen d - 1)" using bn by simp
    also have "\<dots> \<le> 2 powi (k + 1) * of_int d" using bd by (intro mult_left_mono) auto
    finally show ?thesis using dpos by (simp add: x divide_less_eq)
  qed
  have lo: "2 powi (k - 1) \<le> x"
  proof -
    have "(2::rat) powi (k - 1) * of_int d \<le> 2 powi (k - 1) * 2 powi bitlen d"
      using bd by (intro mult_left_mono) auto
    also have "\<dots> = 2 powi (bitlen n - 1)" by (simp add: k_def flip: power_int_add)
    also have "\<dots> \<le> of_int n" using bn by simp
    finally show ?thesis using dpos by (simp add: x le_divide_eq)
  qed
  show ?thesis
    using up lo by (simp add: ilog2_def q k_def [symmetric] not_le)
qed

lemma ilog2_unique:
  assumes "2 powi e \<le> x" and "x < 2 powi (e + 1)"
  shows "ilog2 x = e"
proof -
  have "(0::rat) < 2 powi e" by simp
  then have "0 < x" using assms(1) by linarith
  note b = ilog2_bounds [OF this]
  have "(2::rat) powi ilog2 x < 2 powi (e + 1)" "(2::rat) powi e < 2 powi (ilog2 x + 1)"
    using b assms by linarith+
  then have "ilog2 x < e + 1" "e < ilog2 x + 1" by (simp_all only: powi2_less_iff)
  then show ?thesis by simp
qed

lemma ilog2_mono: "0 < x \<Longrightarrow> x \<le> y \<Longrightarrow> ilog2 x \<le> ilog2 y"
proof -
  assume "0 < x" "x \<le> y"
  then have "(2::rat) powi ilog2 x < 2 powi (ilog2 y + 1)"
    using ilog2_bounds [of x] ilog2_bounds [of y] by linarith
  then show ?thesis by (simp only: powi2_less_iff)
qed

subsection \<open>Rounding is monotone and exact on 53-bit significands\<close>

lemma powi2_split: "(2::rat) powi a = 2 powi (a - b) * 2 powi b"
  by (simp flip: power_int_add)

lemma fl_pos_significand:
  assumes "0 < x"
  shows "2 ^ 52 \<le> round_half_even (x / 2 powi (ilog2 x - 52))"
    and "round_half_even (x / 2 powi (ilog2 x - 52)) \<le> 2 ^ 53"
proof -
  let ?u = "(2::rat) powi (ilog2 x - 52)"
  have u: "0 < ?u" by simp
  note b = ilog2_bounds [OF assms]
  have "(2::rat) powi ilog2 x = 2 ^ 52 * ?u" "(2::rat) powi (ilog2 x + 1) = 2 ^ 53 * ?u"
    using powi2_split [of "ilog2 x" "ilog2 x - 52"] powi2_split [of "ilog2 x + 1" "ilog2 x - 52"]
    by simp_all
  then have "2 ^ 52 \<le> x / ?u" "x / ?u \<le> 2 ^ 53"
    using b u by (simp_all add: pos_le_divide_eq pos_divide_le_eq)
  then have "(of_int (2 ^ 52) :: rat) \<le> x / ?u" "x / ?u \<le> of_int (2 ^ 53)" by simp_all
  then show "2 ^ 52 \<le> round_half_even (x / ?u)" "round_half_even (x / ?u) \<le> 2 ^ 53"
    using round_half_even_mono round_half_even_of_int by metis+
qed

lemma fl_pos_bounds:
  assumes "0 < x"
  shows "2 powi ilog2 x \<le> fl_pos x" and "fl_pos x \<le> 2 powi (ilog2 x + 1)"
proof -
  let ?u = "(2::rat) powi (ilog2 x - 52)" and ?m = "round_half_even (x / 2 powi (ilog2 x - 52))"
  have "of_int (2 ^ 52) * ?u \<le> of_int ?m * ?u"
    using fl_pos_significand(1) [OF assms] by (intro mult_right_mono of_int_le_iff [THEN iffD2]) auto
  moreover have "of_int ?m * ?u \<le> of_int (2 ^ 53) * ?u"
    using fl_pos_significand(2) [OF assms] by (intro mult_right_mono of_int_le_iff [THEN iffD2]) auto
  ultimately show "2 powi ilog2 x \<le> fl_pos x" "fl_pos x \<le> 2 powi (ilog2 x + 1)"
    using powi2_split [of "ilog2 x" "ilog2 x - 52"] powi2_split [of "ilog2 x + 1" "ilog2 x - 52"]
    by (simp_all add: fl_pos_def Let_def)
qed

lemma fl_pos_positive: "0 < x \<Longrightarrow> 0 < fl_pos x"
  using fl_pos_bounds(1) [of x] by (meson less_le_trans zero_less_numeral zero_less_power_int)

lemma fl_pos_mono:
  assumes "0 < x" and "x \<le> y"
  shows "fl_pos x \<le> fl_pos y"
proof (cases "ilog2 x = ilog2 y")
  case True
  have "x / 2 powi (ilog2 y - 52) \<le> y / 2 powi (ilog2 y - 52)"
    using assms(2) by (intro divide_right_mono) auto
  then show ?thesis
    unfolding fl_pos_def Let_def True by (intro mult_right_mono of_int_le_iff [THEN iffD2] round_half_even_mono) auto
next
  case False
  with ilog2_mono [OF assms] have "ilog2 x + 1 \<le> ilog2 y" by simp
  then have "(2::rat) powi (ilog2 x + 1) \<le> 2 powi ilog2 y" by (meson leD leI powi2_less_iff)
  then show ?thesis
    using fl_pos_bounds(2) [OF assms(1)] fl_pos_bounds(1) [of y] assms by linarith
qed

lemma fl_zero [simp]: "fl 0 = 0"
  by (simp add: fl_def)

lemma fl_minus: "fl (- x) = - fl x"
  by (simp add: fl_def)

theorem fl_mono: "x \<le> y \<Longrightarrow> fl x \<le> fl y"
  using fl_pos_mono [of x y] fl_pos_mono [of "- y" "- x"] fl_pos_positive [of y] fl_pos_positive [of "- x"]
  by (auto simp: fl_def)

lemma fl_pos_exact:
  assumes x: "x = of_int m * 2 powi k" and m: "0 < m" "m \<le> 2 ^ 53"
  shows "fl_pos x = x"
proof -
  have pos: "0 < x" using m by (simp add: x)
  let ?e = "ilog2 x"
  let ?u = "(2::rat) powi (?e - 52)"
  have quot: "x / ?u = of_int m * 2 powi (k - ?e + 52)"
  proof -
    have "x = of_int m * 2 powi (k - ?e + 52) * ?u"
      unfolding x by (simp flip: power_int_add)
    then show ?thesis by (simp add: divide_eq_eq)
  qed
  have "\<exists>n. x / ?u = of_int n"
  proof (cases "0 \<le> k - ?e + 52")
    case True
    then have "x / ?u = of_int (m * 2 ^ nat (k - ?e + 52))"
      unfolding quot by (simp add: power_int_def)
    then show ?thesis by blast
  next
    case False
    have "(2::rat) powi (?e - k) * 2 powi k \<le> of_int m * 2 powi k"
      using ilog2_bounds [OF pos] by (simp add: x flip: power_int_add)
    then have lower: "(2::rat) powi (?e - k) \<le> of_int m" by simp
    have "(2::rat) powi 53 \<le> 2 powi (?e - k)"
      using False powi2_less_iff [of "?e - k" 53] by (simp add: not_less [symmetric])
    with lower have "(2::rat) ^ 53 \<le> of_int m" by simp
    then have "of_int (2 ^ 53) \<le> (of_int m :: rat)" by simp
    then have m53: "m = 2 ^ 53" using m(2) by (simp only: of_int_le_iff)
    have "\<not> (2::rat) powi 53 < 2 powi (?e - k)" using lower m53 by simp
    then have "?e - k = 53" using False powi2_less_iff [of 53 "?e - k"] by simp
    then have "x / ?u = of_int (2 ^ 52)" using quot m53 by (simp add: algebra_simps)
    then show ?thesis by blast
  qed
  then obtain n where n: "x / ?u = of_int n" ..
  then have "fl_pos x = of_int n * ?u" by (simp add: fl_pos_def Let_def)
  also have "\<dots> = x" using n by (simp add: field_simps)
  finally show ?thesis .
qed

theorem fl_exact:
  assumes "x = of_int m * 2 powi k" and "\<bar>m\<bar> \<le> 2 ^ 53"
  shows "fl x = x"
proof -
  consider "m = 0" | "0 < m" | "m < 0" by linarith
  then show ?thesis
  proof cases
    case 1
    then show ?thesis by (simp add: assms(1))
  next
    case 2
    then have "0 < x" by (simp add: assms(1))
    moreover have "fl_pos x = x" using 2 assms by (intro fl_pos_exact) auto
    ultimately show ?thesis by (simp add: fl_def)
  next
    case 3
    then have "x < 0" by (simp add: assms(1) mult_less_0_iff)
    with 3 assms fl_pos_exact [of "- x" "- m" k] show ?thesis by (simp add: fl_def)
  qed
qed

lemma fl_of_int: "\<bar>n\<bar> \<le> 2 ^ 53 \<Longrightarrow> fl (of_int n) = of_int n"
  using fl_exact [of "of_int n" n 0] by simp

lemma fl_one [simp]: "fl 1 = 1"
  using fl_of_int [of 1] by simp

lemma of_pyint_exact: "\<bar>n\<bar> \<le> 2 ^ 53 \<Longrightarrow> of_pyint n = of_int n"
  by (simp add: of_pyint_def fl_of_int)

lemma of_pyint_mono: "m \<le> n \<Longrightarrow> of_pyint m \<le> of_pyint n"
  by (simp add: of_pyint_def fl_mono)

lemma fl_nonneg: "0 \<le> x \<Longrightarrow> 0 \<le> fl x"
  using fl_mono [of 0 x] by simp

lemma fl_le_one: "x \<le> 1 \<Longrightarrow> fl x \<le> 1"
  using fl_mono [of x 1] by simp

text \<open>Every result of a rounding is a float: rounding it again changes nothing.\<close>

theorem fl_idem: "fl (fl x) = fl x"
proof -
  have pos: "fl_pos (fl_pos y) = fl_pos y" if "0 < y" for y
  proof -
    let ?m = "round_half_even (y / 2 powi (ilog2 y - 52))"
    have "0 < (2::int) ^ 52" by simp
    then have "0 < ?m" using fl_pos_significand(1) [OF that] by linarith
    then show ?thesis
      using fl_pos_exact [of "fl_pos y" ?m "ilog2 y - 52"] fl_pos_significand(2) [OF that]
      by (simp add: fl_pos_def Let_def)
  qed
  show ?thesis
    using pos [of x] pos [of "- x"] fl_pos_positive [of x] fl_pos_positive [of "- x"]
    by (auto simp: fl_def)
qed

end
