(* ===== verification/PyCore.thy ===== *)
theory PyCore
  imports Prelude PyFloat "HOL-Library.Char_ord"
begin

section \<open>Python exceptions, integers, strings and byte strings\<close>

text \<open>
  The parts of the Python language and standard library that the applications and the client
  use below the level of JSON: the exceptions they raise or catch, \<open>int.to_bytes\<close> and
  \<open>int.from_bytes\<close> (big-endian, the default), \<open>str(int)\<close>, \<open>str.isdigit\<close>, \<open>int(str)\<close>
  and UTF-8. A Python string is a list of characters with code points below 256 (the
  Latin-1 range), so \<open>str.encode\<close> yields one byte for ASCII and two bytes beyond it.
\<close>

datatype pyerr =
    KeyError string
  | IndexError
  | TypeError
  | ValueError
  | AttributeError
  | OverflowError
  | ZeroDivisionError
  | JSONDecodeError
  | UnicodeDecodeError
  | NotImplementedError
  | UnboundLocalError
  | RuntimeError string
  | FileNotFoundError
  | CancelledError
  | NoRespondersError
  | NatsTimeoutError
  | AsyncTimeoutError
  | OtherError
  | UserError string string  \<comment> \<open>class name and message of an exception class of the source\<close>

type_synonym 'a py = "pyerr + 'a"

subsection \<open>Integers and big-endian byte strings\<close>

fun to_bytes_be :: "nat \<Rightarrow> nat \<Rightarrow> bytes" where
  "to_bytes_be 0 n = []"
| "to_bytes_be (Suc k) n = to_bytes_be k (n div 256) @ [word_of_nat (n mod 256)]"

definition int_to_bytes :: "int \<Rightarrow> nat \<Rightarrow> bytes py" where
  "int_to_bytes n k =
     (if n < 0 then Inl OverflowError
      else if 256 ^ k \<le> n then Inl OverflowError
      else Inr (to_bytes_be k (nat n)))"

definition int_from_bytes :: "bytes \<Rightarrow> int" where
  "int_from_bytes bs = foldl (\<lambda>a b. 256 * a + uint b) 0 bs"

lemma length_to_bytes_be [simp]: "length (to_bytes_be k n) = k"
  by (induction k arbitrary: n) auto

lemma int_from_bytes_snoc [simp]: "int_from_bytes (bs @ [b]) = 256 * int_from_bytes bs + uint b"
  by (simp add: int_from_bytes_def)

lemma int_from_bytes_Nil [simp]: "int_from_bytes [] = 0"
  by (simp add: int_from_bytes_def)

lemma int_from_to_bytes_be: "n < 256 ^ k \<Longrightarrow> int_from_bytes (to_bytes_be k n) = int n"
proof (induction k arbitrary: n)
  case 0
  then show ?case by simp
next
  case (Suc k)
  then have "n div 256 < 256 ^ k" by (simp add: less_mult_imp_div_less mult.commute)
  moreover have "uint (word_of_nat (n mod 256) :: byte) = int (n mod 256)"
    by (simp add: uint_nat unat_of_nat)
  ultimately show ?case using Suc.IH by (simp add: zdiv_int zmod_int)
qed

lemma int_to_bytes_roundtrip: "int_to_bytes n k = Inr bs \<Longrightarrow> int_from_bytes bs = n"
proof -
  assume "int_to_bytes n k = Inr bs"
  then have n: "0 \<le> n" "n < 256 ^ k" and bs: "bs = to_bytes_be k (nat n)"
    by (auto simp: int_to_bytes_def split: if_splits)
  have "nat n < 256 ^ k" using n by (simp add: nat_less_iff)
  then show ?thesis using n bs by (simp add: int_from_to_bytes_be)
qed

lemma int_from_bytes_bounds: "0 \<le> int_from_bytes bs \<and> int_from_bytes bs < 256 ^ length bs"
proof (induction bs rule: rev_induct)
  case Nil
  then show ?case by simp
next
  case (snoc b bs)
  have "uint b < 256" using uint_lt2p [of b] by simp
  then show ?case using snoc by (simp add: add_nonneg_nonneg)
qed

lemma base256_unique:
  fixes x y a b :: int
  assumes "256 * x + a = 256 * y + b" "0 \<le> a" "a < 256" "0 \<le> b" "b < 256"
  shows "x = y"
  using assms by arith

lemma int_from_bytes_inject:
  "length as = length bs \<Longrightarrow> int_from_bytes as = int_from_bytes bs \<Longrightarrow> as = bs"
proof (induction as arbitrary: bs rule: rev_induct)
  case Nil
  then show ?case by simp
next
  case (snoc a as)
  then obtain b bs' where bs: "bs = bs' @ [b]" by (cases bs rule: rev_cases) auto
  have u: "0 \<le> uint a" "uint a < 256" "0 \<le> uint b" "uint b < 256"
    using uint_lt2p [of a] uint_lt2p [of b] by simp_all
  have eq: "256 * int_from_bytes as + uint a = 256 * int_from_bytes bs' + uint b"
    using snoc.prems(2) bs by simp
  have "int_from_bytes as = int_from_bytes bs'" using eq u by (rule base256_unique)
  moreover have "uint a = uint b" using eq calculation by simp
  ultimately have "as = bs'" "a = b" using snoc.IH snoc.prems(1) bs by (simp_all add: word_uint_eq_iff)
  then show ?case using bs by simp
qed

lemma int_to_from_bytes: "int_to_bytes (int_from_bytes bs) (length bs) = Inr bs"
proof -
  note b = int_from_bytes_bounds [of bs]
  then have "nat (int_from_bytes bs) < 256 ^ length bs" by (simp add: nat_less_iff)
  then have "int_from_bytes (to_bytes_be (length bs) (nat (int_from_bytes bs))) = int_from_bytes bs"
    using b by (simp add: int_from_to_bytes_be)
  then have "to_bytes_be (length bs) (nat (int_from_bytes bs)) = bs"
    by (intro int_from_bytes_inject) auto
  then show ?thesis using b by (simp add: int_to_bytes_def)
qed

subsection \<open>Decimal text\<close>

definition digit_char :: "nat \<Rightarrow> char" where
  "digit_char d = char_of (48 + d)"

definition is_digit :: "char \<Rightarrow> bool" where
  "is_digit c \<longleftrightarrow> 48 \<le> (of_char c :: nat) \<and> (of_char c :: nat) \<le> 57"

definition digit_val :: "char \<Rightarrow> nat" where
  "digit_val c = of_char c - 48"

fun dec_str :: "int \<Rightarrow> string" where
  "dec_str n =
     (if n < 10 then [digit_char (nat n)] else dec_str (n div 10) @ [digit_char (nat (n mod 10))])"

declare dec_str.simps [simp del]

definition int_str :: "int \<Rightarrow> string" where
  "int_str n = (if n < 0 then CHR ''-'' # dec_str (- n) else dec_str n)"

abbreviation nat_str :: "nat \<Rightarrow> string" where
  "nat_str n \<equiv> int_str (int n)"

definition digits_val :: "string \<Rightarrow> int" where
  "digits_val s = foldl (\<lambda>a c. 10 * a + int (digit_val c)) 0 s"

lemma digit_char_props:
  "d < 10 \<Longrightarrow> is_digit (digit_char d)"
  "d < 10 \<Longrightarrow> digit_val (digit_char d) = d"
  by (simp_all add: digit_char_def is_digit_def digit_val_def)

lemma digits_val_snoc [simp]: "digits_val (s @ [c]) = 10 * digits_val s + int (digit_val c)"
  by (simp add: digits_val_def)

lemma digits_val_Nil [simp]: "digits_val [] = 0"
  by (simp add: digits_val_def)

lemma digits_val_dec_str [simp]: "0 \<le> n \<Longrightarrow> digits_val (dec_str n) = n"
proof (induction n rule: dec_str.induct)
  case (1 n)
  show ?case
  proof (cases "n < 10")
    case True
    then show ?thesis using "1.prems"
      by (simp add: dec_str.simps [of n] digits_val_def digit_char_props nat_less_iff)
  next
    case False
    with 1 show ?thesis by (simp add: dec_str.simps [of n] digit_char_props nat_less_iff)
  qed
qed

lemma dec_str_digits: "0 \<le> n \<Longrightarrow> c \<in> set (dec_str n) \<Longrightarrow> is_digit c"
proof (induction n rule: dec_str.induct)
  case (1 n)
  then show ?case by (auto simp: dec_str.simps [of n] digit_char_props nat_less_iff split: if_splits)
qed

lemma dec_str_ne [simp]: "dec_str n \<noteq> []"
  by (simp add: dec_str.simps [of n])

lemma dec_str_hd: "0 < n \<Longrightarrow> hd (dec_str n) \<noteq> CHR ''0''"
proof (induction n rule: dec_str.induct)
  case (1 n)
  show ?case
  proof (cases "n < 10")
    case True
    then have "digit_val (hd (dec_str n)) = nat n" using "1.prems"
      by (simp add: dec_str.simps [of n] digit_char_props nat_less_iff)
    then show ?thesis using "1.prems" by (auto simp: digit_val_def)
  next
    case False
    then have "hd (dec_str n) = hd (dec_str (n div 10))" by (simp add: dec_str.simps [of n])
    then show ?thesis using 1 False by simp
  qed
qed

lemma dec_str_zero [simp]: "dec_str 0 = ''0''"
proof -
  have "digit_char 0 = CHR ''0''" by code_simp
  then show ?thesis by (simp add: dec_str.simps)
qed

lemma dec_str_inject: "0 \<le> m \<Longrightarrow> 0 \<le> n \<Longrightarrow> dec_str m = dec_str n \<longleftrightarrow> m = n"
  by (metis digits_val_dec_str)

lemma nat_str_inject: "nat_str m = nat_str n \<longleftrightarrow> m = n"
  by (simp add: int_str_def dec_str_inject)

lemma nat_str_digits: "c \<in> set (nat_str n) \<Longrightarrow> is_digit c"
  by (auto simp: int_str_def intro: dec_str_digits [rotated])

lemma nat_str_ne [simp]: "nat_str n \<noteq> []"
  by (simp add: int_str_def)

lemma int_str_inject [simp]: "int_str m = int_str n \<longleftrightarrow> m = n"
proof -
  have no_sign: "dec_str k \<noteq> CHR ''-'' # s" if "0 \<le> k" for k s
    using dec_str_digits [OF that, of "CHR ''-''"] by (auto simp: is_digit_def)
  show ?thesis
    using no_sign [of m "dec_str (- n)"] no_sign [of n "dec_str (- m)"]
      dec_str_inject [of m n] dec_str_inject [of "- m" "- n"]
    by (auto simp: int_str_def split: if_splits)
qed

lemma length_dec_str_1: "n < 10 \<Longrightarrow> length (dec_str n) = 1"
  by (simp add: dec_str.simps [of n])

lemma length_dec_str_2: "10 \<le> n \<Longrightarrow> n < 100 \<Longrightarrow> length (dec_str n) = 2"
  by (simp add: dec_str.simps [of n] length_dec_str_1)

text \<open>
  \<open>str.isdigit\<close>: every character is a decimal digit or one of the superscript digits
  (which Unicode also calls digits), and the string is not empty. \<open>int\<close> accepts the
  decimal digits only.
\<close>

definition is_superscript :: "char \<Rightarrow> bool" where
  "is_superscript c \<longleftrightarrow> (of_char c :: nat) \<in> {178, 179, 185}"

definition str_isdigit :: "string \<Rightarrow> bool" where
  "str_isdigit s \<longleftrightarrow> s \<noteq> [] \<and> list_all (\<lambda>c. is_digit c \<or> is_superscript c) s"

definition int_of_digits :: "string \<Rightarrow> int py" where
  "int_of_digits s =
     (if s \<noteq> [] \<and> list_all is_digit s then Inr (digits_val s) else Inl ValueError)"

text \<open>
  \<open>int(s)\<close> for a string: surrounding white space, a sign, and digits with single
  underscores between them.
\<close>

definition py_space :: "char \<Rightarrow> bool" where
  "py_space c \<longleftrightarrow> (let n = (of_char c :: nat)
     in 9 \<le> n \<and> n \<le> 13 \<or> 28 \<le> n \<and> n \<le> 32 \<or> n = 133 \<or> n = 160)"

definition str_strip :: "string \<Rightarrow> string" where
  "str_strip s = rev (dropWhile py_space (rev (dropWhile py_space s)))"

fun grouped_digits :: "string \<Rightarrow> string option" where
  "grouped_digits [] = None"
| "grouped_digits [c] = (if is_digit c then Some [c] else None)"
| "grouped_digits (c # d # cs) =
     (if \<not> is_digit c then None
      else map_option (\<lambda>ds. c # ds) (grouped_digits (if d = CHR ''_'' then cs else d # cs)))"

definition int_of_str :: "string \<Rightarrow> int py" where
  "int_of_str s =
     (let t = str_strip s;
          (neg, body) = (case t of
             c # cs \<Rightarrow> if c = CHR ''-'' then (True, cs) else if c = CHR ''+'' then (False, cs) else (False, t)
           | [] \<Rightarrow> (False, []))
      in case grouped_digits body of
           None \<Rightarrow> Inl ValueError
         | Some ds \<Rightarrow> Inr (if neg then - digits_val ds else digits_val ds))"

subsection \<open>UTF-8\<close>

definition encode_char :: "char \<Rightarrow> bytes" where
  "encode_char c =
     (let n = (of_char c :: nat)
      in if n < 128 then [word_of_nat n]
         else [word_of_nat (192 + n div 64), word_of_nat (128 + n mod 64)])"

definition str_encode :: "string \<Rightarrow> bytes" where
  "str_encode s = concat (map encode_char s)"

fun bytes_decode :: "bytes \<Rightarrow> string py" where
  "bytes_decode [] = Inr []"
| "bytes_decode (b # bs) =
     (if unat b < 128 then rbind (bytes_decode bs) (\<lambda>s. Inr (char_of (unat b) # s))
      else case bs of
             [] \<Rightarrow> Inl UnicodeDecodeError
           | b2 # bs' \<Rightarrow>
               if (unat b = 194 \<or> unat b = 195) \<and> 128 \<le> unat b2 \<and> unat b2 < 192
               then rbind (bytes_decode bs') (\<lambda>s. Inr (char_of ((unat b - 192) * 64 + (unat b2 - 128)) # s))
               else Inl UnicodeDecodeError)"

lemma unat_byte: "n < 256 \<Longrightarrow> unat (word_of_nat n :: byte) = n"
  by (simp add: unat_of_nat)

lemma bytes_decode_encode_char: "bytes_decode (encode_char c @ bs) = rbind (bytes_decode bs) (\<lambda>s. Inr (c # s))"
proof -
  let ?n = "of_char c :: nat"
  have n: "?n < 256" by simp
  show ?thesis
  proof (cases "?n < 128")
    case True
    then show ?thesis using unat_byte [of ?n] by (simp add: encode_char_def)
  next
    case False
    have b1: "unat (word_of_nat (192 + ?n div 64) :: byte) = 192 + ?n div 64"
      and b2: "unat (word_of_nat (128 + ?n mod 64) :: byte) = 128 + ?n mod 64"
      using n by (intro unat_byte, linarith)+
    have "?n div 64 = 2 \<or> ?n div 64 = 3" using False n by linarith
    moreover have "?n div 64 * 64 + ?n mod 64 = ?n" by simp
    ultimately show ?thesis using False b1 b2 by (simp add: encode_char_def Let_def)
  qed
qed

lemma bytes_decode_encode [simp]: "bytes_decode (str_encode s) = Inr s"
  by (induction s) (simp_all add: str_encode_def bytes_decode_encode_char)

lemma str_encode_eq_Nil [simp]: "str_encode s = [] \<longleftrightarrow> s = []"
  by (cases s) (auto simp: str_encode_def encode_char_def Let_def)

lemma str_encode_inject [simp]: "str_encode s = str_encode t \<longleftrightarrow> s = t"
  by (metis bytes_decode_encode sum.inject(2))

subsection \<open>Exceptions as text\<close>

text \<open>
  \<open>str(e)\<close> of an exception class of the source is the message given to it; the wording of
  the interpreter's own messages is the argument \<open>msg\<close>.
\<close>

definition exc_str :: "(pyerr \<Rightarrow> string) \<Rightarrow> pyerr \<Rightarrow> string" where
  "exc_str msg e = (case e of UserError cls m \<Rightarrow> m | RuntimeError m \<Rightarrow> m | _ \<Rightarrow> msg e)"

end
