(* ===== verification/PyJson.thy ===== *)
theory PyJson
  imports PyCore
begin

section \<open>JSON: values, \<open>json.dumps\<close> and \<open>json.loads\<close>\<close>

text \<open>
  The values that the clients send, the workers pass on and the functions read and store;
  the text \<open>json.dumps\<close> writes for them with its default settings (ASCII only, separators
  \<open>", "\<close> and \<open>": "\<close>), and the scanner behind \<open>json.loads\<close>. An object keeps its keys in
  insertion order; a repeated key keeps its first position and its last value, as a Python
  \<open>dict\<close> does. Strings hold code points below 256 (see \<open>PyCore\<close>), so an escape for a
  larger one is rejected.
\<close>

datatype json =
    JNull
  | JBool bool
  | JInt int
  | JFloat rat
  | JNaN
  | JInf bool  \<comment> \<open>\<open>True\<close> for the negative infinity\<close>
  | JStr string
  | JArr "json list"
  | JObj "(string \<times> json) list"

abbreviation quote_char :: char where "quote_char \<equiv> CHR 0x22"
abbreviation backslash :: char where "backslash \<equiv> CHR 0x5C"

subsection \<open>The text of a float\<close>

text \<open>
  \<open>float.__repr__\<close>: the shortest decimal that rounds to the float, tried from one to
  seventeen significant digits; positional notation for decimal points from -3 to 16,
  scientific notation outside.
\<close>

definition ilog10 :: "rat \<Rightarrow> int" where
  "ilog10 x =
     (let (n, d) = quotient_of x; k = int (length (dec_str n)) - int (length (dec_str d))
      in if 10 powi k \<le> x then k else k - 1)"

fun shortest_from :: "nat \<Rightarrow> nat \<Rightarrow> rat \<Rightarrow> int \<times> int" where
  "shortest_from 0 n x = (let q = ilog10 x - 16 in (round_half_even (x / 10 powi q), q))"
| "shortest_from (Suc k) n x =
     (let q = ilog10 x - int n; m = round_half_even (x / 10 powi q)
      in if fl (of_int m * 10 powi q) = x then (m, q) else shortest_from k (Suc n) x)"

definition strip_zeros :: "string \<Rightarrow> string" where
  "strip_zeros ds = rev (dropWhile (\<lambda>c. c = CHR ''0'') (rev ds))"

definition exponent_str :: "int \<Rightarrow> string" where
  "exponent_str e =
     (let ds = dec_str \<bar>e\<bar>
      in (if e < 0 then ''-'' else ''+'') @ (if length ds < 2 then CHR ''0'' # ds else ds))"

definition pos_float_repr :: "rat \<Rightarrow> string" where
  "pos_float_repr x =
     (let (m, q) = shortest_from 16 0 x;
          all = dec_str m;
          ds = strip_zeros all;
          point = int (length all) + q
      in if -4 < point \<and> point \<le> 16
         then if point \<le> 0 then ''0.'' @ replicate (nat (- point)) CHR ''0'' @ ds
              else if int (length ds) \<le> point
                   then ds @ replicate (nat point - length ds) CHR ''0'' @ ''.0''
                   else take (nat point) ds @ ''.'' @ drop (nat point) ds
         else take 1 ds @ (if length ds \<le> 1 then [] else CHR ''.'' # drop 1 ds)
              @ ''e'' @ exponent_str (point - 1))"

definition float_repr :: "rat \<Rightarrow> string" where
  "float_repr x =
     (if x = 0 then ''0.0'' else if x < 0 then CHR ''-'' # pos_float_repr (- x) else pos_float_repr x)"

subsection \<open>\<open>json.dumps\<close>\<close>

definition hex_char :: "nat \<Rightarrow> char" where
  "hex_char d = (if d < 10 then char_of (48 + d) else char_of (87 + d))"

definition escape_char :: "char \<Rightarrow> string" where
  "escape_char c =
     (if c = quote_char then [backslash, quote_char]
      else if c = backslash then [backslash, backslash]
      else if c = CHR 0x0A then [backslash, CHR ''n'']
      else if c = CHR 0x0D then [backslash, CHR ''r'']
      else if c = CHR 0x09 then [backslash, CHR ''t'']
      else if c = CHR 0x0C then [backslash, CHR ''f'']
      else if c = CHR 0x08 then [backslash, CHR ''b'']
      else let n = (of_char c :: nat)
           in if 32 \<le> n \<and> n \<le> 126 then [c]
              else [backslash, CHR ''u'', CHR ''0'', CHR ''0'', hex_char (n div 16), hex_char (n mod 16)])"

definition dump_str :: "string \<Rightarrow> string" where
  "dump_str s = quote_char # concat (map escape_char s) @ [quote_char]"

fun dumps :: "json \<Rightarrow> string"
  and dump_elems :: "json list \<Rightarrow> string"
  and dump_members :: "(string \<times> json) list \<Rightarrow> string" where
  "dumps JNull = ''null''"
| "dumps (JBool b) = (if b then ''true'' else ''false'')"
| "dumps (JInt n) = int_str n"
| "dumps (JFloat x) = float_repr x"
| "dumps JNaN = ''NaN''"
| "dumps (JInf neg) = (if neg then ''-Infinity'' else ''Infinity'')"
| "dumps (JStr s) = dump_str s"
| "dumps (JArr xs) = ''['' @ dump_elems xs @ '']''"
| "dumps (JObj kvs) = ''{'' @ dump_members kvs @ ''}''"
| "dump_elems [] = ''''"
| "dump_elems [x] = dumps x"
| "dump_elems (x # y # ys) = dumps x @ '', '' @ dump_elems (y # ys)"
| "dump_members [] = ''''"
| "dump_members [(k, v)] = dump_str k @ '': '' @ dumps v"
| "dump_members ((k, v) # m # ms) = dump_str k @ '': '' @ dumps v @ '', '' @ dump_members (m # ms)"

subsection \<open>\<open>json.loads\<close>: the scanner\<close>

definition is_ws :: "char \<Rightarrow> bool" where
  "is_ws c \<longleftrightarrow> c = CHR '' '' \<or> c = CHR 0x09 \<or> c = CHR 0x0A \<or> c = CHR 0x0D"

abbreviation skip_ws :: "string \<Rightarrow> string" where
  "skip_ws s \<equiv> dropWhile is_ws s"

definition hex_val :: "char \<Rightarrow> nat option" where
  "hex_val c =
     (let n = (of_char c :: nat)
      in if 48 \<le> n \<and> n \<le> 57 then Some (n - 48)
         else if 97 \<le> n \<and> n \<le> 102 then Some (n - 87)
         else if 65 \<le> n \<and> n \<le> 70 then Some (n - 55)
         else None)"

fun unescape :: "char \<Rightarrow> char option" where
  "unescape c =
     (if c = quote_char then Some quote_char
      else if c = backslash then Some backslash
      else if c = CHR ''/'' then Some (CHR ''/'')
      else if c = CHR ''b'' then Some (CHR 0x08)
      else if c = CHR ''f'' then Some (CHR 0x0C)
      else if c = CHR ''n'' then Some (CHR 0x0A)
      else if c = CHR ''r'' then Some (CHR 0x0D)
      else if c = CHR ''t'' then Some (CHR 0x09)
      else None)"

text \<open>The rest of a string after its opening quote; control characters are refused (strict).\<close>

fun scan_str :: "string \<Rightarrow> (string \<times> string) option" where
  "scan_str [] = None"
| "scan_str (c # cs) =
     (if c = quote_char then Some ([], cs)
      else if c = backslash then
        (case cs of
           [] \<Rightarrow> None
         | e # es \<Rightarrow>
             if e = CHR ''u'' then
               (case es of
                  a # b # x # y # rest \<Rightarrow>
                    (case (hex_val a, hex_val b, hex_val x, hex_val y) of
                       (Some 0, Some 0, Some h, Some l) \<Rightarrow>
                         map_option (\<lambda>(s, r). (char_of (16 * h + l) # s, r)) (scan_str rest)
                     | _ \<Rightarrow> None)
                | _ \<Rightarrow> None)
             else (case unescape e of
                     None \<Rightarrow> None
                   | Some d \<Rightarrow> map_option (\<lambda>(s, r). (d # s, r)) (scan_str es)))
      else if (of_char c :: nat) < 32 then None
      else map_option (\<lambda>(s, r). (c # s, r)) (scan_str cs))"

text \<open>
  The number scanner follows the regular expression of the library: an optional sign, \<open>0\<close>
  or digits without a leading zero, an optional fraction, an optional exponent.
\<close>

definition scan_frac :: "string \<Rightarrow> string \<times> string" where
  "scan_frac s =
     (case s of
        c # cs \<Rightarrow> if c = CHR ''.'' \<and> takeWhile is_digit cs \<noteq> []
                  then (takeWhile is_digit cs, dropWhile is_digit cs) else ([], s)
      | [] \<Rightarrow> ([], s))"

definition scan_exp :: "string \<Rightarrow> int option \<times> string" where
  "scan_exp s =
     (case s of
        c # cs \<Rightarrow>
          if c = CHR ''e'' \<or> c = CHR ''E'' then
            let (neg, ds) = (case cs of
                               d # es \<Rightarrow> if d = CHR ''-'' then (True, es)
                                         else if d = CHR ''+'' then (False, es) else (False, cs)
                             | [] \<Rightarrow> (False, cs));
                e = digits_val (takeWhile is_digit ds)
            in if takeWhile is_digit ds = [] then (None, s)
               else (Some (if neg then - e else e), dropWhile is_digit ds)
          else (None, s)
      | [] \<Rightarrow> (None, s))"

text \<open>A decimal too large for a float is an infinity.\<close>

definition float_of_decimal :: "bool \<Rightarrow> int \<Rightarrow> int \<Rightarrow> json" where
  "float_of_decimal neg m e =
     (let x = dec m e
      in if 2 ^ 1024 \<le> x then JInf neg else JFloat (if neg then - x else x))"

definition scan_int_part :: "string \<Rightarrow> (string \<times> string) option" where
  "scan_int_part s =
     (case s of
        [] \<Rightarrow> None
      | c # cs \<Rightarrow> if c = CHR ''0'' then Some ([c], cs)
                  else if is_digit c then Some (takeWhile is_digit s, dropWhile is_digit s)
                  else None)"

definition scan_number :: "string \<Rightarrow> (json \<times> string) option" where
  "scan_number s =
     (let (neg, s1) = (case s of c # cs \<Rightarrow> if c = CHR ''-'' then (True, cs) else (False, s) | [] \<Rightarrow> (False, s))
      in case scan_int_part s1 of
           None \<Rightarrow> None
         | Some (ip, s2) \<Rightarrow>
             let (fr, s3) = scan_frac s2; (ex, s4) = scan_exp s3
             in if fr = [] \<and> ex = None
                then let n = digits_val ip in Some (JInt (if neg then - n else n), s4)
                else Some (float_of_decimal neg (digits_val (ip @ fr))
                             ((case ex of None \<Rightarrow> 0 | Some e \<Rightarrow> e) - int (length fr)), s4))"

definition strip_prefix :: "string \<Rightarrow> string \<Rightarrow> string option" where
  "strip_prefix p s = (if take (length p) s = p then Some (drop (length p) s) else None)"

definition scan_literal :: "string \<Rightarrow> (json \<times> string) option" where
  "scan_literal s =
     (case strip_prefix ''null'' s of Some r \<Rightarrow> Some (JNull, r) | None \<Rightarrow>
     (case strip_prefix ''true'' s of Some r \<Rightarrow> Some (JBool True, r) | None \<Rightarrow>
     (case strip_prefix ''false'' s of Some r \<Rightarrow> Some (JBool False, r) | None \<Rightarrow>
     (case scan_number s of Some r \<Rightarrow> Some r | None \<Rightarrow>
     (case strip_prefix ''NaN'' s of Some r \<Rightarrow> Some (JNaN, r) | None \<Rightarrow>
     (case strip_prefix ''Infinity'' s of Some r \<Rightarrow> Some (JInf False, r) | None \<Rightarrow>
     (case strip_prefix ''-Infinity'' s of Some r \<Rightarrow> Some (JInf True, r) | None \<Rightarrow> None)))))))"

text \<open>
  Values, array elements and object members. Every call consumes a character before it
  calls again, so as much fuel as the text is long is enough.
\<close>

fun scan_value :: "nat \<Rightarrow> string \<Rightarrow> (json \<times> string) option"
  and scan_elems :: "nat \<Rightarrow> string \<Rightarrow> (json list \<times> string) option"
  and scan_members :: "nat \<Rightarrow> string \<Rightarrow> ((string \<times> json) list \<times> string) option" where
  "scan_value 0 s = None"
| "scan_value (Suc f) s =
     (case s of
        [] \<Rightarrow> None
      | c # cs \<Rightarrow>
          if c = quote_char then map_option (\<lambda>(t, r). (JStr t, r)) (scan_str cs)
          else if c = CHR ''{'' then
            (case skip_ws cs of
               [] \<Rightarrow> None
             | d # ds \<Rightarrow> if d = CHR ''}'' then Some (JObj [], ds)
                         else map_option (\<lambda>(kvs, r). (JObj (dict_of kvs), r)) (scan_members f (d # ds)))
          else if c = CHR ''['' then
            (case skip_ws cs of
               [] \<Rightarrow> None
             | d # ds \<Rightarrow> if d = CHR '']'' then Some (JArr [], ds)
                         else map_option (\<lambda>(xs, r). (JArr xs, r)) (scan_elems f (d # ds)))
          else scan_literal s)"
| "scan_elems 0 s = None"
| "scan_elems (Suc f) s =
     (case scan_value f s of
        None \<Rightarrow> None
      | Some (v, r) \<Rightarrow>
          (case skip_ws r of
             [] \<Rightarrow> None
           | c # cs \<Rightarrow>
               if c = CHR '']'' then Some ([v], cs)
               else if c = CHR '','' then map_option (\<lambda>(vs, r'). (v # vs, r')) (scan_elems f (skip_ws cs))
               else None))"
| "scan_members 0 s = None"
| "scan_members (Suc f) s =
     (case s of
        [] \<Rightarrow> None
      | q # qs \<Rightarrow>
          if q \<noteq> quote_char then None
          else case scan_str qs of
                 None \<Rightarrow> None
               | Some (k, r) \<Rightarrow>
                   (case skip_ws r of
                      [] \<Rightarrow> None
                    | c # cs \<Rightarrow>
                        if c \<noteq> CHR '':'' then None
                        else case scan_value f (skip_ws cs) of
                               None \<Rightarrow> None
                             | Some (v, r2) \<Rightarrow>
                                 (case skip_ws r2 of
                                    [] \<Rightarrow> None
                                  | d # ds \<Rightarrow>
                                      if d = CHR ''}'' then Some ([(k, v)], ds)
                                      else if d = CHR '','' then
                                        map_option (\<lambda>(ms, r'). ((k, v) # ms, r'))
                                          (scan_members f (skip_ws ds))
                                      else None)))"

text \<open>\<open>json.loads\<close>: one value, surrounded by white space only.\<close>

definition loads :: "string \<Rightarrow> json py" where
  "loads s =
     (case scan_value (Suc (length s)) (skip_ws s) of
        None \<Rightarrow> Inl JSONDecodeError
      | Some (v, r) \<Rightarrow> if skip_ws r = [] then Inr v else Inl JSONDecodeError)"

subsection \<open>Access to values\<close>

text \<open>\<open>v[k]\<close> with a string key: the key of a dict; a sequence takes no string index.\<close>

definition jget :: "json \<Rightarrow> string \<Rightarrow> json py" where
  "jget v k = (case v of JObj kvs \<Rightarrow> of_option (KeyError k) (map_of kvs k) | _ \<Rightarrow> Inl TypeError)"

text \<open>\<open>v.get(k, d)\<close>: only a dict has the method.\<close>

definition jget_default :: "json \<Rightarrow> string \<Rightarrow> json \<Rightarrow> json py" where
  "jget_default v k d =
     (case v of JObj kvs \<Rightarrow> Inr (case map_of kvs k of None \<Rightarrow> d | Some x \<Rightarrow> x) | _ \<Rightarrow> Inl AttributeError)"

text \<open>The truth value of a Python object.\<close>

fun truthy :: "json \<Rightarrow> bool" where
  "truthy JNull = False"
| "truthy (JBool b) = b"
| "truthy (JInt n) = (n \<noteq> 0)"
| "truthy (JFloat x) = (x \<noteq> 0)"
| "truthy JNaN = True"
| "truthy (JInf _) = True"
| "truthy (JStr s) = (s \<noteq> [])"
| "truthy (JArr xs) = (xs \<noteq> [])"
| "truthy (JObj kvs) = (kvs \<noteq> [])"

text \<open>A number as an operand of arithmetic and comparison: \<open>bool\<close> is an \<open>int\<close>.\<close>

fun as_number :: "json \<Rightarrow> rat option" where
  "as_number (JBool b) = Some (if b then 1 else 0)"
| "as_number (JInt n) = Some (of_int n)"
| "as_number (JFloat x) = Some x"
| "as_number _ = None"

text \<open>\<open>repr\<close> and \<open>str\<close> of a value, and \<open>int\<close> of a value.\<close>

definition repr_char :: "char \<Rightarrow> char \<Rightarrow> string" where
  "repr_char q c =
     (let n = (of_char c :: nat)
      in if c = backslash \<or> c = q then [backslash, c]
         else if c = CHR 0x0A then [backslash, CHR ''n'']
         else if c = CHR 0x0D then [backslash, CHR ''r'']
         else if c = CHR 0x09 then [backslash, CHR ''t'']
         else if n < 32 \<or> 127 \<le> n \<and> n \<le> 160 \<or> n = 173
              then [backslash, CHR ''x'', hex_char (n div 16), hex_char (n mod 16)]
         else [c])"

definition str_repr :: "string \<Rightarrow> string" where
  "str_repr s =
     (let q = (if CHR 0x27 \<in> set s \<and> quote_char \<notin> set s then quote_char else CHR 0x27)
      in q # concat (map (repr_char q) s) @ [q])"

fun py_repr :: "json \<Rightarrow> string"
  and repr_elems :: "json list \<Rightarrow> string"
  and repr_members :: "(string \<times> json) list \<Rightarrow> string" where
  "py_repr JNull = ''None''"
| "py_repr (JBool b) = (if b then ''True'' else ''False'')"
| "py_repr (JInt n) = int_str n"
| "py_repr (JFloat x) = float_repr x"
| "py_repr JNaN = ''nan''"
| "py_repr (JInf neg) = (if neg then ''-inf'' else ''inf'')"
| "py_repr (JStr s) = str_repr s"
| "py_repr (JArr xs) = ''['' @ repr_elems xs @ '']''"
| "py_repr (JObj kvs) = ''{'' @ repr_members kvs @ ''}''"
| "repr_elems [] = []"
| "repr_elems [x] = py_repr x"
| "repr_elems (x # y # ys) = py_repr x @ '', '' @ repr_elems (y # ys)"
| "repr_members [] = []"
| "repr_members [(k, v)] = str_repr k @ '': '' @ py_repr v"
| "repr_members ((k, v) # m # ms) = str_repr k @ '': '' @ py_repr v @ '', '' @ repr_members (m # ms)"

fun py_str :: "json \<Rightarrow> string" where
  "py_str (JStr s) = s"
| "py_str v = py_repr v"

definition rat_trunc :: "rat \<Rightarrow> int" where
  "rat_trunc x = (if x < 0 then - \<lfloor>- x\<rfloor> else \<lfloor>x\<rfloor>)"

fun py_int :: "json \<Rightarrow> int py" where
  "py_int (JInt n) = Inr n"
| "py_int (JBool b) = Inr (if b then 1 else 0)"
| "py_int (JFloat x) = Inr (rat_trunc x)"
| "py_int JNaN = Inl ValueError"
| "py_int (JInf _) = Inl OverflowError"
| "py_int (JStr s) = int_of_str s"
| "py_int _ = Inl TypeError"

text \<open>Iteration over a value, and a string tested for membership in a value.\<close>

definition py_iter :: "json \<Rightarrow> json list py" where
  "py_iter v =
     (case v of
        JArr xs \<Rightarrow> Inr xs
      | JStr s \<Rightarrow> Inr (map (\<lambda>c. JStr [c]) s)
      | JObj kvs \<Rightarrow> Inr (map (\<lambda>(k, _). JStr k) kvs)
      | _ \<Rightarrow> Inl TypeError)"

fun is_substring :: "string \<Rightarrow> string \<Rightarrow> bool" where
  "is_substring p [] = (p = [])"
| "is_substring p (c # cs) = (take (length p) (c # cs) = p \<or> is_substring p cs)"

definition str_in :: "string \<Rightarrow> json \<Rightarrow> bool py" where
  "str_in s v =
     (case v of
        JArr xs \<Rightarrow> Inr (JStr s \<in> set xs)
      | JStr t \<Rightarrow> Inr (is_substring s t)
      | JObj kvs \<Rightarrow> Inr (s \<in> fst ` set kvs)
      | _ \<Rightarrow> Inl TypeError)"

text \<open>Equality: numbers compare by value, a dict does not depend on the order of its keys.\<close>

fun py_eq :: "json \<Rightarrow> json \<Rightarrow> bool"
  and eq_elems :: "json list \<Rightarrow> json list \<Rightarrow> bool"
  and eq_members :: "(string \<times> json) list \<Rightarrow> (string \<times> json) list \<Rightarrow> bool" where
  "py_eq (JArr xs) v = (case v of JArr ys \<Rightarrow> eq_elems xs ys | _ \<Rightarrow> False)"
| "py_eq (JObj kvs) v = (case v of JObj ms \<Rightarrow> length kvs = length ms \<and> eq_members kvs ms | _ \<Rightarrow> False)"
| "py_eq JNaN v = False"
| "py_eq JNull v = (v = JNull)"
| "py_eq (JStr s) v = (v = JStr s)"
| "py_eq (JInf b) v = (v = JInf b)"
| "py_eq (JBool b) v = (as_number v = Some (if b then 1 else 0))"
| "py_eq (JInt n) v = (as_number v = Some (of_int n))"
| "py_eq (JFloat x) v = (as_number v = Some x)"
| "eq_elems [] ys = (ys = [])"
| "eq_elems (x # xs) ys = (case ys of [] \<Rightarrow> False | z # zs \<Rightarrow> py_eq x z \<and> eq_elems xs zs)"
| "eq_members [] ms = True"
| "eq_members ((k, v) # kvs) ms =
     ((case map_of ms k of None \<Rightarrow> False | Some w \<Rightarrow> py_eq v w) \<and> eq_members kvs ms)"

text \<open>The order \<open><\<close>: numbers, strings, and lists by their first difference.\<close>

definition num_key :: "json \<Rightarrow> (int \<times> rat) option" where
  "num_key v = (case v of JInf neg \<Rightarrow> Some (if neg then -1 else 1, 0) | _ \<Rightarrow> map_option (Pair 0) (as_number v))"

definition num_lt :: "json \<Rightarrow> json \<Rightarrow> bool option" where
  "num_lt v w =
     (if (v = JNaN \<or> num_key v \<noteq> None) \<and> (w = JNaN \<or> num_key w \<noteq> None)
      then Some (case (num_key v, num_key w) of
                   (Some (a, x), Some (b, y)) \<Rightarrow> a < b \<or> a = b \<and> x < y | _ \<Rightarrow> False)
      else None)"

fun str_lt :: "string \<Rightarrow> string \<Rightarrow> bool" where
  "str_lt s [] = False"
| "str_lt [] (c # cs) = True"
| "str_lt (b # bs) (c # cs) =
     ((of_char b :: nat) < of_char c \<or> b = c \<and> str_lt bs cs)"

lemma str_lt_irrefl [simp]: "\<not> str_lt s s"
  by (induction s) auto

lemma str_lt_trans: "str_lt s t \<Longrightarrow> str_lt t u \<Longrightarrow> str_lt s u"
proof (induction s t arbitrary: u rule: str_lt.induct)
  case (3 b bs c cs)
  then show ?case by (cases u) (auto intro: order_less_trans)
next
  case (2 c cs)
  then show ?case by (cases u) auto
qed simp

lemma str_lt_total: "str_lt s t \<or> s = t \<or> str_lt t s"
proof (induction s t rule: str_lt.induct)
  case (1 s)
  then show ?case by (cases s) auto
next
  case (3 b bs c cs)
  then show ?case by (metis linorder_neqE_nat of_char_eq_iff str_lt.simps(3))
qed simp

lemma not_str_lt: "\<not> str_lt t s \<longleftrightarrow> str_lt s t \<or> s = t"
  using str_lt_total [of s t] str_lt_trans [of s t s] by auto

fun py_lt :: "json \<Rightarrow> json \<Rightarrow> bool py"
  and lt_elems :: "json list \<Rightarrow> json list \<Rightarrow> bool py" where
  "py_lt v w =
     (case v of
        JArr xs \<Rightarrow> (case w of JArr ys \<Rightarrow> lt_elems xs ys | _ \<Rightarrow> Inl TypeError)
      | JStr s \<Rightarrow> (case w of JStr t \<Rightarrow> Inr (str_lt s t) | _ \<Rightarrow> Inl TypeError)
      | _ \<Rightarrow> of_option TypeError (num_lt v w))"
| "lt_elems [] ys = Inr (ys \<noteq> [])"
| "lt_elems (x # xs) ys =
     (case ys of [] \<Rightarrow> Inr False | z # zs \<Rightarrow> if py_eq x z then lt_elems xs zs else py_lt x z)"

text \<open>\<open>v - 1\<close> and \<open>v < 0\<close>.\<close>

fun py_decr :: "json \<Rightarrow> json py" where
  "py_decr (JInt n) = Inr (JInt (n - 1))"
| "py_decr (JBool b) = Inr (JInt (if b then 0 else -1))"
| "py_decr (JFloat x) = Inr (JFloat (fsub x 1))"
| "py_decr JNaN = Inr JNaN"
| "py_decr (JInf b) = Inr (JInf b)"
| "py_decr _ = Inl TypeError"

fun py_negative :: "json \<Rightarrow> bool" where
  "py_negative (JInt n) = (n < 0)"
| "py_negative (JFloat x) = (x < 0)"
| "py_negative (JInf b) = b"
| "py_negative _ = False"

text \<open>\<open>v[k] = x\<close> with a string key.\<close>

definition jset :: "json \<Rightarrow> string \<Rightarrow> json \<Rightarrow> json py" where
  "jset v k x = (case v of JObj kvs \<Rightarrow> Inr (JObj (AList.update k x kvs)) | _ \<Rightarrow> Inl TypeError)"

subsection \<open>Round trip\<close>

fun wf_json :: "json \<Rightarrow> bool" where
  "wf_json (JFloat x) = False"
| "wf_json (JArr xs) = list_all wf_json xs"
| "wf_json (JObj kvs) = (distinct (map fst kvs) \<and> list_all (\<lambda>(k, v). wf_json v) kvs)"
| "wf_json _ = True"

lemma char_code_cong: "(of_char c :: nat) = of_char d \<Longrightarrow> c = d"
  by simp

lemma hex_val_hex_char [simp]: "d < 16 \<Longrightarrow> hex_val (hex_char d) = Some d"
  by (auto simp: hex_val_def hex_char_def Let_def)

lemma scan_str_escape:
  "scan_str (escape_char c @ t) = map_option (\<lambda>(s, r). (c # s, r)) (scan_str t)"
proof -
  let ?n = "of_char c :: nat"
  have n: "?n < 256" by simp
  have hex: "char_of (16 * (?n div 16) + ?n mod 16) = c" by simp
  have h0: "hex_val (CHR ''0'') = Some 0" by code_simp
  have "?n div 16 < 16" using n by linarith
  then have hv: "hex_val (hex_char (?n div 16)) = Some (?n div 16)"
    "hex_val (hex_char (?n mod 16)) = Some (?n mod 16)" by simp_all
  have uq: "CHR ''u'' \<noteq> quote_char" "CHR ''u'' \<noteq> backslash" "backslash \<noteq> quote_char" by simp_all
  show ?thesis
    using hex hv h0 by (simp add: escape_char_def Let_def del: of_char_mod_256)
qed

lemma scan_str_dump: "scan_str (concat (map escape_char s) @ quote_char # t) = Some (s, t)"
  by (induction s) (simp_all add: scan_str_escape)

definition num_stop :: "string \<Rightarrow> bool" where
  "num_stop s \<longleftrightarrow> (case s of [] \<Rightarrow> True
     | c # _ \<Rightarrow> \<not> is_digit c \<and> c \<noteq> CHR ''.'' \<and> c \<noteq> CHR ''e'' \<and> c \<noteq> CHR ''E'')"

lemma num_stop_simps [simp]:
  "num_stop []" "num_stop (CHR '','' # s)" "num_stop (CHR '']'' # s)" "num_stop (CHR ''}'' # s)"
  by (simp_all add: num_stop_def is_digit_def)

lemma scan_int_part_dec_str:
  assumes "0 \<le> n" and "num_stop r"
  shows "scan_int_part (dec_str n @ r) = Some (dec_str n, r)"
proof (cases "n = 0")
  case True
  then show ?thesis by (simp add: scan_int_part_def)
next
  case False
  obtain c cs where c: "dec_str n = c # cs" by (cases "dec_str n") auto
  have dig: "\<forall>x\<in>set (dec_str n). is_digit x" using dec_str_digits assms(1) by blast
  have "c \<noteq> CHR ''0''" "is_digit c" using dec_str_hd [of n] assms(1) False c dig by auto
  moreover have "(case r of [] \<Rightarrow> True | y # _ \<Rightarrow> \<not> is_digit y)"
    using assms(2) by (auto simp: num_stop_def split: list.splits)
  ultimately show ?thesis
    using takeWhile_append_stop [OF dig] dropWhile_append_stop [OF dig]
    by (simp add: scan_int_part_def c)
qed

lemma scan_number_int_str:
  assumes "num_stop r"
  shows "scan_number (int_str n @ r) = Some (JInt n, r)"
proof -
  have fr: "scan_frac r = ([], r)" and ex: "scan_exp r = (None, r)"
    using assms by (auto simp: scan_frac_def scan_exp_def num_stop_def split: list.splits)
  show ?thesis
  proof (cases "n < 0")
    case True
    then show ?thesis using scan_int_part_dec_str [of "- n" r] assms fr ex
      by (simp add: scan_number_def int_str_def)
  next
    case False
    obtain c cs where c: "dec_str n = c # cs" by (cases "dec_str n") auto
    have "is_digit c" using dec_str_digits [of n c] False c by simp
    then have "c \<noteq> CHR ''-''" by (auto simp: is_digit_def)
    then show ?thesis
      using scan_int_part_dec_str [of n r] digits_val_dec_str [of n] assms fr ex False c
      by (simp add: scan_number_def int_str_def)
  qed
qed

lemma int_str_hd: "\<exists>c cs. int_str n = c # cs \<and> (c = CHR ''-'' \<or> is_digit c)"
proof (cases "n < 0")
  case True
  then show ?thesis by (simp add: int_str_def)
next
  case False
  obtain c cs where c: "dec_str n = c # cs" by (cases "dec_str n") auto
  have "is_digit c" using dec_str_digits [of n c] False c by simp
  with c False show ?thesis by (simp add: int_str_def)
qed

lemma strip_prefix_hd: "c \<noteq> d \<Longrightarrow> strip_prefix (c # p) (d # s) = None"
  by (simp add: strip_prefix_def)

lemma scan_literal_int_str:
  assumes "num_stop r"
  shows "scan_literal (int_str n @ r) = Some (JInt n, r)"
proof -
  obtain c cs where c: "int_str n = c # cs" "c = CHR ''-'' \<or> is_digit c" using int_str_hd by blast
  then have "c \<noteq> CHR ''n''" "c \<noteq> CHR ''t''" "c \<noteq> CHR ''f''" by (auto simp: is_digit_def)
  then show ?thesis using scan_number_int_str [OF assms, of n] c
    by (simp add: scan_literal_def strip_prefix_hd)
qed

lemma scan_literal_words:
  "scan_literal (''null'' @ r) = Some (JNull, r)"
  "scan_literal (''true'' @ r) = Some (JBool True, r)"
  "scan_literal (''false'' @ r) = Some (JBool False, r)"
  "scan_literal (''NaN'' @ r) = Some (JNaN, r)"
  "scan_literal (''Infinity'' @ r) = Some (JInf False, r)"
  "scan_literal (''-Infinity'' @ r) = Some (JInf True, r)"
  by (simp_all add: scan_literal_def strip_prefix_def scan_number_def scan_int_part_def is_digit_def)

text \<open>No value starts with white space or a closing bracket.\<close>

lemma dumps_hd:
  "wf_json v \<Longrightarrow> \<exists>c cs. dumps v = c # cs \<and> \<not> is_ws c \<and> c \<noteq> CHR '']'' \<and> c \<noteq> CHR ''}''"
proof (cases v)
  case (JInt n)
  then show ?thesis using int_str_hd [of n] by (auto simp: is_ws_def is_digit_def)
qed (auto simp: is_ws_def dump_str_def)

lemma scan_value_other:
  "c \<noteq> quote_char \<Longrightarrow> c \<noteq> CHR ''{'' \<Longrightarrow> c \<noteq> CHR ''['' \<Longrightarrow>
     scan_value (Suc f) (c # cs) = scan_literal (c # cs)"
  by simp

lemma scan_value_dumps:
  "wf_json v \<Longrightarrow> num_stop r \<Longrightarrow> length (dumps v) \<le> f \<Longrightarrow>
     scan_value f (dumps v @ r) = Some (v, r)"
  "list_all wf_json xs \<Longrightarrow> xs \<noteq> [] \<Longrightarrow> length (dump_elems xs) < f \<Longrightarrow>
     scan_elems f (dump_elems xs @ CHR '']'' # r) = Some (xs, r)"
  "list_all (\<lambda>(k, v). wf_json v) kvs \<Longrightarrow> kvs \<noteq> [] \<Longrightarrow> length (dump_members kvs) < f \<Longrightarrow>
     scan_members f (dump_members kvs @ CHR ''}'' # r) = Some (kvs, r)"
proof (induction v and xs and kvs arbitrary: f r and f r and f r
    rule: dumps_dump_elems_dump_members.induct)
  case 1
  then obtain g where "f = Suc g" by (cases f) auto
  then show ?case using scan_literal_words(1) [of r] by simp
next
  case (2 b)
  then obtain g where "f = Suc g" by (cases f) (auto split: if_splits)
  then show ?case using scan_literal_words(2,3) [of r] by simp
next
  case (3 n)
  obtain c cs where c: "int_str n = c # cs" "c = CHR ''-'' \<or> is_digit c" using int_str_hd by blast
  with 3 obtain g where "f = Suc g" by (cases f) auto
  moreover have "c \<noteq> quote_char" "c \<noteq> CHR ''{''" "c \<noteq> CHR ''[''" using c(2) by (auto simp: is_digit_def)
  ultimately show ?case using scan_literal_int_str [OF "3.prems"(2), of n] c(1) by simp
next
  case (4 x)
  then show ?case by simp
next
  case 5
  then obtain g where "f = Suc g" by (cases f) auto
  then show ?case using scan_literal_words(4) [of r] by simp
next
  case (6 neg)
  then obtain g where "f = Suc g" by (cases f) (auto split: if_splits)
  then show ?case using scan_literal_words(5,6) [of r] by simp
next
  case (7 s)
  then obtain g where "f = Suc g" by (cases f) (auto simp: dump_str_def)
  then show ?case by (simp add: dump_str_def scan_str_dump)
next
  case (8 xs)
  then obtain g where f: "f = Suc g" by (cases f) auto
  show ?case
  proof (cases xs)
    case Nil
    then show ?thesis by (simp add: f is_ws_def)
  next
    case (Cons x ys)
    with "8.prems" have "wf_json x" by simp
    then obtain c cs where c: "dumps x = c # cs" "\<not> is_ws c" "c \<noteq> CHR '']''"
      using dumps_hd by blast
    then obtain ds where ds: "dump_elems xs = c # ds" by (cases ys) (auto simp: Cons)
    have "scan_elems g (dump_elems xs @ CHR '']'' # r) = Some (xs, r)"
      using "8.IH" "8.prems" f Cons by simp
    then show ?thesis using c ds by (simp add: f)
  qed
next
  case (9 kvs)
  then obtain g where f: "f = Suc g" by (cases f) auto
  show ?case
  proof (cases kvs)
    case Nil
    then show ?thesis by (simp add: f is_ws_def)
  next
    case (Cons m ms)
    obtain k v where m: "m = (k, v)" by (cases m)
    obtain ds where ds: "dump_members kvs = quote_char # ds"
      by (cases ms) (auto simp: Cons m dump_str_def)
    have "scan_members g (dump_members kvs @ CHR ''}'' # r) = Some (kvs, r)"
      using "9.IH" "9.prems" f Cons by simp
    moreover have "dict_of kvs = kvs" using "9.prems" by simp
    ultimately show ?thesis using ds by (simp add: f is_ws_def)
  qed
next
  case 10
  then show ?case by simp
next
  case (11 x)
  then obtain g where f: "f = Suc g" by (cases f) auto
  show ?case using "11.IH" [of "CHR '']'' # r" g] "11.prems" by (simp add: f is_ws_def)
next
  case (12 x y ys)
  then obtain g where f: "f = Suc g" by (cases f) auto
  from "12.prems" have "wf_json y" by simp
  then obtain c cs where c: "dumps y = c # cs" "\<not> is_ws c" using dumps_hd by blast
  then obtain ds where ds: "dump_elems (y # ys) = c # ds" by (cases ys) auto
  have "scan_value g (dumps x @ '', '' @ dump_elems (y # ys) @ CHR '']'' # r)
      = Some (x, '', '' @ dump_elems (y # ys) @ CHR '']'' # r)"
    using "12.IH"(1) [of "'', '' @ dump_elems (y # ys) @ CHR '']'' # r" g] "12.prems" f by simp
  moreover have "scan_elems g (dump_elems (y # ys) @ CHR '']'' # r) = Some (y # ys, r)"
    using "12.IH"(2) [of g r] "12.prems" f by simp
  ultimately show ?case using c(2) ds by (simp add: f is_ws_def)
next
  case 13
  then show ?case by simp
next
  case (14 k v)
  then obtain g where f: "f = Suc g" by (cases f) auto
  from "14.prems" have "wf_json v" by simp
  then obtain c cs where c: "dumps v = c # cs" "\<not> is_ws c" using dumps_hd by blast
  show ?case using "14.IH" [of "CHR ''}'' # r" g] "14.prems" c
    by (simp add: f is_ws_def dump_str_def scan_str_dump)
next
  case (15 k v m ms)
  then obtain g where f: "f = Suc g" by (cases f) auto
  from "15.prems" have "wf_json v" by simp
  then obtain c cs where c: "dumps v = c # cs" "\<not> is_ws c" using dumps_hd by blast
  obtain ds where ds: "dump_members (m # ms) = quote_char # ds"
    by (cases m; cases ms) (auto simp: dump_str_def)
  have "scan_value g (dumps v @ '', '' @ dump_members (m # ms) @ CHR ''}'' # r)
      = Some (v, '', '' @ dump_members (m # ms) @ CHR ''}'' # r)"
    using "15.IH"(1) [of "'', '' @ dump_members (m # ms) @ CHR ''}'' # r" g] "15.prems" f
    by (simp add: dump_str_def)
  moreover have "scan_members g (dump_members (m # ms) @ CHR ''}'' # r) = Some (m # ms, r)"
    using "15.IH"(2) [of g r] "15.prems" f by (simp add: dump_str_def)
  ultimately show ?case using c ds
    by (simp add: f is_ws_def dump_str_def scan_str_dump)
qed

theorem loads_dumps: "wf_json v \<Longrightarrow> loads (dumps v) = Inr v"
proof -
  assume wf: "wf_json v"
  then obtain c cs where c: "dumps v = c # cs" "\<not> is_ws c" using dumps_hd by blast
  have "scan_value (Suc (length (dumps v))) (dumps v @ []) = Some (v, [])"
    using wf by (intro scan_value_dumps(1)) auto
  then show ?thesis using c by (simp add: loads_def)
qed

end
