(* ===== verification/PyText.thy ===== *)
theory PyText
  imports PyJson
begin

section \<open>Texts: numbers read from text, formatting and splitting\<close>

text \<open>
  \<open>float(str)\<close>, the format \<open>g\<close>, \<open>str.join\<close>, \<open>str.split\<close>, \<open>str.replace\<close> of a
  character and the case functions, as the client and the benchmark programs use them. A
  Python number that may be a float of any kind is a \<open>json\<close> value, whose constructors tell
  the finite floats from the others.
\<close>

definition char_lower :: "char \<Rightarrow> char" where
  "char_lower c =
     (let n = (of_char c :: nat)
      in if 65 \<le> n \<and> n \<le> 90 \<or> 192 \<le> n \<and> n \<le> 222 \<and> n \<noteq> 215 then char_of (n + 32) else c)"

definition str_lower :: "string \<Rightarrow> string" where
  "str_lower s = map char_lower s"

fun str_join :: "string \<Rightarrow> string list \<Rightarrow> string" where
  "str_join sep [] = []"
| "str_join sep [s] = s"
| "str_join sep (s # t # ts) = s @ sep @ str_join sep (t # ts)"

definition replace_char :: "char \<Rightarrow> string \<Rightarrow> string \<Rightarrow> string" where
  "replace_char c r s = concat (map (\<lambda>d. if d = c then r else [d]) s)"

text \<open>\<open>str.split()\<close>: the maximal runs of characters that are no white space.\<close>

fun split_ws :: "string \<Rightarrow> string \<Rightarrow> string list" where
  "split_ws word [] = (if word = [] then [] else [word])"
| "split_ws word (c # cs) =
     (if py_space c then (if word = [] then split_ws [] cs else word # split_ws [] cs)
      else split_ws (word @ [c]) cs)"

definition str_split :: "string \<Rightarrow> string list" where
  "str_split s = split_ws [] s"

lemma split_ws_words:
  "list_all (\<lambda>c. \<not> py_space c) word \<Longrightarrow> w \<in> set (split_ws word s) \<Longrightarrow>
     w \<noteq> [] \<and> list_all (\<lambda>c. \<not> py_space c) w"
proof (induction s arbitrary: word)
  case Nil
  then show ?case by (simp split: if_splits)
next
  case (Cons c cs)
  show ?case
  proof (cases "py_space c")
    case True
    with Cons.prems Cons.IH [of "[]"] show ?thesis by (auto split: if_splits)
  next
    case False
    with Cons.prems Cons.IH [of "word @ [c]"] show ?thesis by simp
  qed
qed

lemma str_split_words: "w \<in> set (str_split s) \<Longrightarrow> w \<noteq> [] \<and> list_all (\<lambda>c. \<not> py_space c) w"
  unfolding str_split_def by (rule split_ws_words [of "[]"]) simp_all

definition split_sign :: "string \<Rightarrow> bool \<times> string" where
  "split_sign s =
     (case s of
        c # cs \<Rightarrow> if c = CHR ''-'' then (True, cs) else if c = CHR ''+'' then (False, cs) else (False, s)
      | [] \<Rightarrow> (False, []))"

text \<open>Digits with single underscores between them; no digit at all counts as none.\<close>

definition opt_digits :: "string \<Rightarrow> string option" where
  "opt_digits s = (if s = [] then Some [] else grouped_digits s)"

definition number_char :: "char \<Rightarrow> bool" where
  "number_char c \<longleftrightarrow> is_digit c \<or> c = CHR ''_''"

definition float_exponent :: "string \<Rightarrow> int option" where
  "float_exponent s =
     (case s of
        [] \<Rightarrow> Some 0
      | c # cs \<Rightarrow>
          if c = CHR ''e'' \<or> c = CHR ''E'' then
            (let (neg, ds) = split_sign cs
             in map_option (\<lambda>d. if neg then - digits_val d else digits_val d) (grouped_digits ds))
          else None)"

definition float_of_str :: "string \<Rightarrow> json py" where
  "float_of_str s =
     (let (neg, body) = split_sign (str_strip s);
          ip = takeWhile number_char body;
          rest = dropWhile number_char body;
          (fp, rest2) = (case rest of
             c # cs \<Rightarrow> if c = CHR ''.'' then (takeWhile number_char cs, dropWhile number_char cs) else ([], rest)
           | [] \<Rightarrow> ([], []))
      in if str_lower body = ''inf'' \<or> str_lower body = ''infinity'' then Inr (JInf neg)
         else if str_lower body = ''nan'' then Inr JNaN
         else if ip = [] \<and> fp = [] then Inl ValueError
         else case (opt_digits ip, opt_digits fp, float_exponent rest2) of
                (Some i, Some f, Some e) \<Rightarrow> Inr (float_of_decimal neg (digits_val (i @ f)) (e - int (length f)))
              | _ \<Rightarrow> Inl ValueError)"

text \<open>The format \<open>g\<close>: six significant digits without trailing zeros.\<close>

definition pos_fmt_g :: "rat \<Rightarrow> string" where
  "pos_fmt_g x =
     (let e0 = ilog10 x;
          m0 = round_half_even (x / 10 powi (e0 - 5));
          (m, e) = (if m0 = 1000000 then (100000, e0 + 1) else (m0, e0));
          ds = dec_str m;
          frac = (\<lambda>s. let z = strip_zeros s in if z = [] then [] else CHR ''.'' # z)
      in if -4 \<le> e \<and> e < 6
         then if 0 \<le> e then take (nat (e + 1)) ds @ frac (drop (nat (e + 1)) ds)
              else ''0'' @ frac (replicate (nat (- e - 1)) CHR ''0'' @ ds)
         else take 1 ds @ frac (drop 1 ds) @ ''e'' @ exponent_str e)"

definition rat_fmt_g :: "rat \<Rightarrow> string" where
  "rat_fmt_g x = (if x = 0 then ''0'' else if x < 0 then CHR ''-'' # pos_fmt_g (- x) else pos_fmt_g x)"

fun fmt_g :: "json \<Rightarrow> string" where
  "fmt_g (JFloat x) = rat_fmt_g x"
| "fmt_g (JInt n) = rat_fmt_g (of_pyint n)"
| "fmt_g (JBool b) = (if b then ''1'' else ''0'')"
| "fmt_g (JInf neg) = (if neg then ''-inf'' else ''inf'')"
| "fmt_g JNaN = ''nan''"
| "fmt_g _ = []"

text \<open>A number times a positive integer.\<close>

fun num_times :: "json \<Rightarrow> int \<Rightarrow> json" where
  "num_times (JFloat x) n = JFloat (fmul x (of_pyint n))"
| "num_times (JInt m) n = JInt (m * n)"
| "num_times (JBool b) n = JInt (if b then n else 0)"
| "num_times v n = v"

text \<open>Indexing a Python list: a negative index counts from the end.\<close>

definition py_index :: "'a list \<Rightarrow> int \<Rightarrow> 'a py" where
  "py_index xs i =
     (let j = (if i < 0 then i + int (length xs) else i)
      in if 0 \<le> j \<and> j < int (length xs) then Inr (xs ! nat j) else Inl IndexError)"

end
