(* ===== verification/Client.thy ===== *)
theory Client
  imports PyText
begin

section \<open>The Python client: configuration, connection and registration\<close>

text \<open>
  \<open>detersl_client/__init__.py\<close>, the class \<open>AsyncDeterSLClient\<close>, without its metrics side
  (\<open>ClientMetrics\<close>). The NATS library is not part of the repository: the function \<open>net\<close>
  answers every network action, with bytes or with an exception, from the history of the
  actions so far, so that it ranges over every behaviour of the server. The actions, the sleeps
  and the printed lines are recorded in a trace. Environment variables and files are
  the functions \<open>env\<close> and \<open>fs\<close>.
\<close>

subsection \<open>State\<close>

type_synonym environ = "string \<Rightarrow> string option"

text \<open>The task that runs the pull loop: alive, returned, or ended by an exception.\<close>

datatype task = TaskRunning | TaskReturned | TaskRaised pyerr

text \<open>
  The object. An \<open>asyncio.Event\<close> is a number; \<open>set_events\<close> are those that are set and
  \<open>next_event\<close> is the number of the next one. A batch waiter shares its set of
  pending ids with the call that waits: it is kept under the number of its event.
\<close>

record client =
  url :: string
  core_subject :: string
  invoke_subject :: string
  metrics_subject :: string
  metrics_durable :: string
  publish_async_max_pending :: int
  registration_timeout_s :: json
  registration_max_retries :: int
  registration_retry_backoff_s :: json
  metrics_pull_batch :: int
  metrics_pull_timeout_s :: json
  metrics_wait_timeout_s :: json
  nc :: bool
  js :: bool
  metrics_by_id :: "(int, json) pydict"
  num_received :: int
  metrics_events :: "(int, nat) pydict"
  metrics_batch_waiters :: "(nat \<times> int set) list"
  metrics_task :: "task option"
  metrics_sub :: bool
  metrics_stop :: nat
  set_events :: "nat set"
  next_event :: nat

text \<open>The arguments of the constructor; \<open>None\<close> stands for an argument that is \<open>None\<close>.\<close>

record client_args =
  arg_url :: "string option"
  arg_base_subject :: "string option"
  arg_core_subject :: "string option"
  arg_invoke_subject :: "string option"
  arg_metrics_subject :: "string option"
  arg_metrics_durable :: string
  arg_publish_async_max_pending :: int
  arg_registration_timeout_s :: "json option"
  arg_registration_max_retries :: "int option"
  arg_registration_retry_backoff_s :: "json option"
  arg_metrics_pull_batch :: int
  arg_metrics_pull_timeout_s :: json
  arg_metrics_wait_timeout_s :: json

definition default_args :: client_args where
  "default_args = \<lparr>arg_url = None, arg_base_subject = None, arg_core_subject = None,
     arg_invoke_subject = None, arg_metrics_subject = None, arg_metrics_durable = ''detersl-status'',
     arg_publish_async_max_pending = 50000, arg_registration_timeout_s = None,
     arg_registration_max_retries = None, arg_registration_retry_backoff_s = None,
     arg_metrics_pull_batch = 1000, arg_metrics_pull_timeout_s = JFloat (dec 1 (-1)),
     arg_metrics_wait_timeout_s = JFloat 120\<rparr>"

subsection \<open>Configuration\<close>

text \<open>\<open>a or b or \<dots> or z\<close>: \<open>None\<close> and the empty string are skipped, the last one is taken as it is.\<close>

fun first_set :: "string option list \<Rightarrow> string \<Rightarrow> string" where
  "first_set [] z = z"
| "first_set (None # os) z = first_set os z"
| "first_set (Some s # os) z = (if s = [] then first_set os z else s)"

definition env_get :: "environ \<Rightarrow> string \<Rightarrow> string \<Rightarrow> string" where
  "env_get env k d = (case env k of None \<Rightarrow> d | Some s \<Rightarrow> s)"

definition default_nats_url :: "environ \<Rightarrow> string" where
  "default_nats_url env = first_set [env ''NATS_URL'', env ''NATSURL''] ''nats://localhost:4222''"

definition default_base_subject :: "environ \<Rightarrow> string" where
  "default_base_subject env = env_get env ''SUBJECT'' ''detersl.worker''"

definition client_init :: "environ \<Rightarrow> client_args \<Rightarrow> client py" where
  "client_init env a =
     (let base = first_set [arg_base_subject a] (default_base_subject env)
      in rbind (case arg_registration_timeout_s a of
                  Some t \<Rightarrow> Inr t
                | None \<Rightarrow> float_of_str (env_get env ''REGISTRATION_TIMEOUT_S'' ''20'')) (\<lambda>timeout_s.
         rbind (case arg_registration_max_retries a of
                  Some n \<Rightarrow> Inr n
                | None \<Rightarrow> int_of_str (env_get env ''REGISTRATION_MAX_RETRIES'' ''5'')) (\<lambda>max_retries.
         rbind (case arg_registration_retry_backoff_s a of
                  Some t \<Rightarrow> Inr t
                | None \<Rightarrow> float_of_str (env_get env ''REGISTRATION_RETRY_BACKOFF_S'' ''1'')) (\<lambda>backoff_s.
         Inr \<lparr>url = first_set [arg_url a] (default_nats_url env),
              core_subject = first_set [arg_core_subject a, env ''CORE_SUBJECT''] (base @ ''.core''),
              invoke_subject = first_set [arg_invoke_subject a] (base @ ''.invoke''),
              metrics_subject = first_set [arg_metrics_subject a, env ''STATUS_SUBJECT'',
                env ''METRICS_SUBJECT''] (base @ ''.status''),
              metrics_durable = arg_metrics_durable a,
              publish_async_max_pending = arg_publish_async_max_pending a,
              registration_timeout_s = timeout_s,
              registration_max_retries = max 1 max_retries,
              registration_retry_backoff_s = backoff_s,
              metrics_pull_batch = arg_metrics_pull_batch a,
              metrics_pull_timeout_s = arg_metrics_pull_timeout_s a,
              metrics_wait_timeout_s = arg_metrics_wait_timeout_s a,
              nc = False, js = False, metrics_by_id = [], num_received = 0,
              metrics_events = [], metrics_batch_waiters = [], metrics_task = None,
              metrics_sub = False, metrics_stop = 0, set_events = {}, next_event = 1\<rparr>))))"

definition coerce_request_id :: "json \<Rightarrow> int option py" where
  "coerce_request_id v =
     (case v of
        JInt n \<Rightarrow> Inr (Some n)
      | JBool b \<Rightarrow> Inr (Some (if b then 1 else 0))
      | JStr s \<Rightarrow> if str_isdigit s then rbind (int_of_digits s) (\<lambda>n. Inr (Some n)) else Inr None
      | _ \<Rightarrow> Inr None)"

subsection \<open>The network\<close>

datatype action =
    ConnectTo string
  | PullSubscribe string string
  | Unsubscribe
  | Flush
  | CloseConnection
  | Request string bytes json  \<comment> \<open>subject, payload, timeout\<close>
  | PublishAsync string bytes
  | Sleep json
  | Print string

type_synonym net = "action list \<Rightarrow> bytes py"

record session =
  self :: client
  trace :: "action list"

type_synonym 'a client_op = "(session, pyerr, 'a) eff"

definition get_self :: "client client_op" where
  "get_self = (\<lambda>s. (Inr (self s), s))"

definition update_self :: "(client \<Rightarrow> client) \<Rightarrow> unit client_op" where
  "update_self f = (\<lambda>s. (Inr (), s\<lparr>self := f (self s)\<rparr>))"

definition note_action :: "action \<Rightarrow> unit client_op" where
  "note_action a = (\<lambda>s. (Inr (), s\<lparr>trace := trace s @ [a]\<rparr>))"

definition perform :: "net \<Rightarrow> action \<Rightarrow> bytes client_op" where
  "perform net a = (\<lambda>s. (net (trace s @ [a]), s\<lparr>trace := trace s @ [a]\<rparr>))"

lemma client_op_eval [simp, py_monad]:
  "get_self s = (Inr (self s), s)"
  "update_self f s = (Inr (), s\<lparr>self := f (self s)\<rparr>)"
  "note_action a s = (Inr (), s\<lparr>trace := trace s @ [a]\<rparr>)"
  "perform net a s = (net (trace s @ [a]), s\<lparr>trace := trace s @ [a]\<rparr>)"
  by (simp_all add: get_self_def update_self_def note_action_def perform_def)

subsection \<open>Connecting and closing\<close>

definition not_connected :: pyerr where
  "not_connected = RuntimeError ''DeterSL client is not connected''"

definition require_connection :: "unit client_op" where
  "require_connection =
     pbind get_self (\<lambda>c. if \<not> nc c \<or> \<not> js c then throw not_connected else ret ())"

text \<open>\<open>installed\<close> tells whether the package \<open>nats-py\<close> can be imported.\<close>

definition load_nats :: "bool \<Rightarrow> unit client_op" where
  "load_nats installed =
     (if installed then ret ()
      else throw (RuntimeError ''detersl_client requires the `nats-py` package at runtime''))"

definition start_metrics :: "net \<Rightarrow> unit client_op" where
  "start_metrics net =
     pbind require_connection (\<lambda>_.
     pbind get_self (\<lambda>c.
     if metrics_task c \<noteq> None then ret ()
     else pbind (update_self (\<lambda>c. c\<lparr>metrics_stop := next_event c, next_event := next_event c + 1\<rparr>)) (\<lambda>_.
          pbind (perform net (PullSubscribe (metrics_subject c) (metrics_durable c))) (\<lambda>_.
          update_self (\<lambda>c. c\<lparr>metrics_sub := True, metrics_task := Some TaskRunning\<rparr>)))))"

definition connect :: "net \<Rightarrow> bool \<Rightarrow> bool \<Rightarrow> unit client_op" where
  "connect net installed start =
     pbind get_self (\<lambda>c.
     pbind (if nc c then ret ()
            else pbind (load_nats installed) (\<lambda>_.
                 pbind (perform net (ConnectTo (url c))) (\<lambda>_.
                 update_self (\<lambda>c. c\<lparr>nc := True, js := True\<rparr>)))) (\<lambda>_.
     if start then start_metrics net else ret ()))"

text \<open>
  Awaiting the task after cancelling it: a running loop ends, by its own \<open>break\<close> or by the
  \<open>CancelledError\<close> that is caught here; a task that was ended by an exception raises it.
\<close>

definition await_cancelled :: "task \<Rightarrow> pyerr option" where
  "await_cancelled t =
     (case t of TaskRaised e \<Rightarrow> if e = CancelledError then None else Some e | _ \<Rightarrow> None)"

definition stop_metrics :: "net \<Rightarrow> unit client_op" where
  "stop_metrics net =
     pbind get_self (\<lambda>c.
     case metrics_task c of
       None \<Rightarrow> ret ()
     | Some t \<Rightarrow>
         pbind (update_self (\<lambda>c. c\<lparr>set_events := insert (metrics_stop c) (set_events c), metrics_task := None\<rparr>)) (\<lambda>_.
         case await_cancelled t of
           Some e \<Rightarrow> throw e
         | None \<Rightarrow>
             if \<not> metrics_sub c then ret ()
             else pbind (ptry (perform net Unsubscribe) (\<lambda>e. ret [])) (\<lambda>_.
                  update_self (\<lambda>c. c\<lparr>metrics_sub := False\<rparr>))))"

definition close :: "net \<Rightarrow> unit client_op" where
  "close net =
     pbind (stop_metrics net) (\<lambda>_.
     pbind get_self (\<lambda>c.
     if \<not> nc c then ret ()
     else pbind (ptry (pbind (ptry (perform net Flush) (\<lambda>e. ret [])) (\<lambda>_.
                       perform net CloseConnection)) (\<lambda>e. ret [])) (\<lambda>_.
          update_self (\<lambda>c. c\<lparr>nc := False, js := False\<rparr>))))"

text \<open>\<open>async with client:\<close> runs its body between \<open>__aenter__\<close> and \<open>__aexit__\<close>.\<close>

definition aenter :: "net \<Rightarrow> bool \<Rightarrow> unit client_op" where
  "aenter net installed = connect net installed False"

definition aexit :: "net \<Rightarrow> unit client_op" where
  "aexit net = close net"

subsection \<open>Requests with retries\<close>

text \<open>
  \<open>bytes.decode(errors="replace")\<close>; the replacement character lies outside the characters
  of the model, so the text of malformed bytes is the argument \<open>malformed\<close>.
\<close>

definition decode_replace :: "(bytes \<Rightarrow> string) \<Rightarrow> bytes \<Rightarrow> string" where
  "decode_replace malformed b = (case bytes_decode b of Inr s \<Rightarrow> s | Inl e \<Rightarrow> malformed b)"

definition is_error_body :: "json \<Rightarrow> bool" where
  "is_error_body body =
     (case body of JObj kvs \<Rightarrow> (case map_of kvs ''status'' of Some v \<Rightarrow> v = JStr ''error'' | None \<Rightarrow> False) | _ \<Rightarrow> False)"

text \<open>What the reply of a registration means.\<close>

definition registration_reply :: "string \<Rightarrow> string \<Rightarrow> json client_op" where
  "registration_reply label raw_response =
     (let body = (case loads raw_response of Inl e \<Rightarrow> JNull | Inr v \<Rightarrow> v)
      in if is_error_body body
         then let error = (case body of
                             JObj kvs \<Rightarrow> (case map_of kvs ''error'' of Some v \<Rightarrow> py_str v | None \<Rightarrow> raw_response)
                           | _ \<Rightarrow> raw_response)
              in if is_substring ''already registered'' error
                 then pbind (note_action (Print (label @ '' already registered: '' @ error))) (\<lambda>_. ret body)
                 else throw (RuntimeError (label @ '' registration failed: '' @ error))
         else pbind (note_action (Print (label @ '' registered: '' @
                       (if raw_response = [] then ''<empty response>'' else raw_response)))) (\<lambda>_.
              ret (if body = JNull then JStr raw_response else body)))"

definition is_nats_error :: "pyerr \<Rightarrow> bool" where
  "is_nats_error e \<longleftrightarrow> e = NoRespondersError \<or> e = NatsTimeoutError"

fun retry_loop ::
  "net \<Rightarrow> (bytes \<Rightarrow> string) \<Rightarrow> string \<Rightarrow> bytes \<Rightarrow> string \<Rightarrow> nat \<Rightarrow> int \<Rightarrow> json client_op" where
  "retry_loop net malformed subject encoded label 0 attempt =
     throw (RuntimeError (label @ '' registration failed unexpectedly''))"
| "retry_loop net malformed subject encoded label (Suc n) attempt =
     pbind get_self (\<lambda>c.
     ptry
       (pbind (perform net (Request subject encoded (registration_timeout_s c))) (\<lambda>data.
        registration_reply label (decode_replace malformed data)))
       (\<lambda>e.
        if \<not> is_nats_error e then throw e
        else let failure = (if e = NoRespondersError then ''had no responders'' else ''timed out'');
                 delay = num_times (registration_retry_backoff_s c) attempt
             in if attempt = registration_max_retries c
                then throw (RuntimeError (label @ '' '' @ failure @ '' after ''
                       @ int_str (registration_max_retries c) @ '' attempts with a ''
                       @ fmt_g (registration_timeout_s c) @ ''s timeout''))
                else pbind (note_action (Print (label @ '' registration '' @ failure @ '' (attempt ''
                       @ int_str attempt @ ''/'' @ int_str (registration_max_retries c)
                       @ ''); retrying in '' @ fmt_g delay @ ''s''))) (\<lambda>_.
                     pbind (note_action (Sleep delay)) (\<lambda>_.
                     retry_loop net malformed subject encoded label n (attempt + 1)))))"

definition request_with_retries ::
  "net \<Rightarrow> (bytes \<Rightarrow> string) \<Rightarrow> string \<Rightarrow> json \<Rightarrow> string \<Rightarrow> json client_op" where
  "request_with_retries net malformed subject payload label =
     pbind require_connection (\<lambda>_.
     pbind get_self (\<lambda>c.
     retry_loop net malformed subject (str_encode (dumps payload)) label (nat (registration_max_retries c)) 1))"

subsection \<open>Registration, invocation and the resource query\<close>

definition path_join :: "string \<Rightarrow> string \<Rightarrow> string" where
  "path_join dir f = (if take 1 f = ''/'' then f else dir @ ''/'' @ f)"

definition register_function ::
  "net \<Rightarrow> (bytes \<Rightarrow> string) \<Rightarrow> (string \<Rightarrow> string py) \<Rightarrow> string \<Rightarrow> string \<Rightarrow> json client_op" where
  "register_function net malformed fs function_name function_dir =
     pbind (pure_eff (fs (path_join function_dir (function_name @ ''.json'')))) (\<lambda>text.
     pbind (pure_eff (loads text)) (\<lambda>payload.
     pbind get_self (\<lambda>c.
     request_with_retries net malformed (core_subject c @ ''.register_wasm'') payload
       (''function '' @ function_name))))"

definition register_functions ::
  "net \<Rightarrow> (bytes \<Rightarrow> string) \<Rightarrow> (string \<Rightarrow> string py) \<Rightarrow> string list \<Rightarrow> string \<Rightarrow> unit client_op" where
  "register_functions net malformed fs function_names function_dir =
     pbind (pmap (\<lambda>n. register_function net malformed fs n function_dir) function_names) (\<lambda>_. ret ())"

definition register_workflow :: "net \<Rightarrow> (bytes \<Rightarrow> string) \<Rightarrow> (string \<times> json) list \<Rightarrow> json client_op" where
  "register_workflow net malformed payload =
     (let workflow_id = (case map_of payload ''id'' of Some v \<Rightarrow> py_str v | None \<Rightarrow> ''<unknown>'')
      in pbind get_self (\<lambda>c.
         request_with_retries net malformed (core_subject c @ ''.register_workflow'') (JObj payload)
           (''workflow '' @ workflow_id)))"

definition register_workflows ::
  "net \<Rightarrow> (bytes \<Rightarrow> string) \<Rightarrow> (string \<times> json) list list \<Rightarrow> unit client_op" where
  "register_workflows net malformed workflows =
     pbind (pmap (register_workflow net malformed) workflows) (\<lambda>_. ret ())"

definition get_resource_request :: "net \<Rightarrow> string \<Rightarrow> json \<Rightarrow> bytes client_op" where
  "get_resource_request net resource_name timeout_s =
     pbind require_connection (\<lambda>_.
     pbind get_self (\<lambda>c.
     perform net (Request (core_subject c @ ''.get_resource'')
       (str_encode (dumps (JObj [(''res_name'', JStr resource_name)]))) timeout_s)))"

definition publish_invocation :: "net \<Rightarrow> json \<Rightarrow> bytes client_op" where
  "publish_invocation net payload =
     pbind require_connection (\<lambda>_.
     pbind get_self (\<lambda>c.
     perform net (PublishAsync (invoke_subject c) (str_encode (dumps payload)))))"

definition invocation_payload :: "string \<Rightarrow> (string \<times> json) list \<Rightarrow> bool option \<Rightarrow> json" where
  "invocation_payload workflow_id workflow_input can_abort =
     JObj ([(''workflow_id'', JStr workflow_id), (''input'', JObj workflow_input)]
       @ (case can_abort of None \<Rightarrow> [] | Some b \<Rightarrow> [(''can_abort'', JBool b)]))"

definition invoke_workflow ::
  "net \<Rightarrow> string \<Rightarrow> (string \<times> json) list \<Rightarrow> bool option \<Rightarrow> bytes client_op" where
  "invoke_workflow net workflow_id workflow_input can_abort =
     publish_invocation net (invocation_payload workflow_id workflow_input can_abort)"

text \<open>
  \<open>publish_invocations\<close> publishes every payload and then collects the acknowledgements in
  the order in which they complete: \<open>completed\<close> is that order of the futures, and
  \<open>ack_seq i\<close> the sequence number of the i-th one, or the exception it carries.
\<close>

definition publish_invocations ::
  "net \<Rightarrow> (nat \<Rightarrow> int py) \<Rightarrow> (nat \<Rightarrow> nat list) \<Rightarrow> json list \<Rightarrow> int list client_op" where
  "publish_invocations net ack_seq completed payloads =
     pbind (pmap (publish_invocation net) payloads) (\<lambda>futures.
     pure_eff (rmap ack_seq (completed (length futures))))"

subsection \<open>Lemmas on retries\<close>

definition is_request :: "action \<Rightarrow> bool" where
  "is_request a \<longleftrightarrow> (case a of Request _ _ _ \<Rightarrow> True | _ \<Rightarrow> False)"

definition is_sleep :: "action \<Rightarrow> bool" where
  "is_sleep a \<longleftrightarrow> (case a of Sleep _ \<Rightarrow> True | _ \<Rightarrow> False)"

lemma is_action_simps [simp]:
  "is_request (Request a b c)" "\<not> is_request (Sleep t)" "\<not> is_request (Print l)"
  "is_sleep (Sleep t)" "\<not> is_sleep (Request a b c)" "\<not> is_sleep (Print l)"
  by (simp_all add: is_request_def is_sleep_def)

lemma registration_reply_cases:
  "(\<exists>b l. registration_reply label raw s = (Inr b, s\<lparr>trace := trace s @ [Print l]\<rparr>))
   \<or> (\<exists>m. registration_reply label raw s = (Inl (RuntimeError m), s))"
  by (auto simp add: registration_reply_def pbind_eval Let_def)

lemma registration_reply_outcome:
  "\<exists>ts. snd (registration_reply label raw s) = s\<lparr>trace := trace s @ ts\<rparr>
      \<and> filter is_request ts = [] \<and> filter is_sleep ts = []
      \<and> (\<forall>e. fst (registration_reply label raw s) = Inl e \<longrightarrow> \<not> is_nats_error e)"
  using registration_reply_cases [of label raw s]
proof (elim disjE exE)
  fix b l
  assume "registration_reply label raw s = (Inr b, s\<lparr>trace := trace s @ [Print l]\<rparr>)"
  then show ?thesis by (intro exI [of _ "[Print l]"]) simp
next
  fix m
  assume "registration_reply label raw s = (Inl (RuntimeError m), s)"
  then show ?thesis by (intro exI [of _ "[]"]) (simp add: is_nats_error_def)
qed

lemma retry_loop_outcome:
  assumes "0 < n" and "attempt + int n = registration_max_retries (self s) + 1"
  shows "\<exists>m ts. snd (retry_loop net malformed subject enc label n attempt s) = s\<lparr>trace := trace s @ ts\<rparr>
      \<and> 1 \<le> m \<and> m \<le> n
      \<and> filter is_request ts = replicate m (Request subject enc (registration_timeout_s (self s)))
      \<and> filter is_sleep ts = map (\<lambda>k. Sleep (num_times (registration_retry_backoff_s (self s)) (attempt + int k))) [0..<m - 1]
      \<and> (\<forall>e. fst (retry_loop net malformed subject enc label n attempt s) = Inl e \<longrightarrow> \<not> is_nats_error e)"
  using assms
proof (induction n arbitrary: attempt s)
  case 0
  then show ?case by simp
next
  case (Suc n)
  define req where "req = Request subject enc (registration_timeout_s (self s))"
  define s1 where "s1 = s\<lparr>trace := trace s @ [req]\<rparr>"
  show ?case
  proof (cases "net (trace s @ [req])")
    case (Inr data)
    obtain r s2 where rr: "registration_reply label (decode_replace malformed data) s1 = (r, s2)" by fastforce
    with registration_reply_outcome [of label "decode_replace malformed data" s1]
    obtain ts where ts: "s2 = s1\<lparr>trace := trace s1 @ ts\<rparr>" "filter is_request ts = []" "filter is_sleep ts = []"
      "\<forall>e. r = Inl e \<longrightarrow> \<not> is_nats_error e" by auto
    have "retry_loop net malformed subject enc label (Suc n) attempt s = (r, s2)"
      using Inr rr ts(4) by (cases r) (simp_all add: pbind_eval ptry_eval req_def s1_def)
    then show ?thesis using ts
      by (intro exI [of _ 1] exI [of _ "req # ts"]) (simp add: s1_def req_def)
  next
    case (Inl e)
    show ?thesis
    proof (cases "is_nats_error e \<and> attempt \<noteq> registration_max_retries (self s)")
      case False
      then have "retry_loop net malformed subject enc label (Suc n) attempt s = (Inl e, s1) \<and> \<not> is_nats_error e
        \<or> (\<exists>m. retry_loop net malformed subject enc label (Suc n) attempt s = (Inl (RuntimeError m), s1))"
        using Inl by (auto simp: pbind_eval ptry_eval req_def s1_def Let_def)
      then show ?thesis
        by (intro exI [of _ 1] exI [of _ "[req]"]) (auto simp: s1_def req_def is_nats_error_def)
    next
      case True
      define delay where "delay = num_times (registration_retry_backoff_s (self s)) attempt"
      from Suc.prems True have "0 < n" by (cases n) auto
      obtain line where step: "retry_loop net malformed subject enc label (Suc n) attempt s
          = retry_loop net malformed subject enc label n (attempt + 1)
              (s\<lparr>trace := trace s @ [req, Print line, Sleep delay]\<rparr>)"
        using Inl True by (simp add: pbind_eval ptry_eval req_def delay_def Let_def)
      from Suc.IH [OF \<open>0 < n\<close>, of "attempt + 1" "s\<lparr>trace := trace s @ [req, Print line, Sleep delay]\<rparr>"] Suc.prems
      obtain m ts where r: "snd (retry_loop net malformed subject enc label (Suc n) attempt s)
            = s\<lparr>trace := trace s @ [req, Print line, Sleep delay] @ ts\<rparr>"
        "1 \<le> m" "m \<le> n" "filter is_request ts = replicate m req"
        "filter is_sleep ts = map (\<lambda>k. Sleep (num_times (registration_retry_backoff_s (self s)) (attempt + 1 + int k))) [0..<m - 1]"
        "\<forall>e. fst (retry_loop net malformed subject enc label (Suc n) attempt s) = Inl e \<longrightarrow> \<not> is_nats_error e"
        unfolding step by (auto simp: req_def)
      have "[0..<m] = 0 # map Suc [0..<m - 1]" using r(2) by (simp add: map_Suc_upt upt_conv_Cons)
      then have "filter is_sleep ([req, Print line, Sleep delay] @ ts)
          = map (\<lambda>k. Sleep (num_times (registration_retry_backoff_s (self s)) (attempt + int k))) [0..<Suc m - 1]"
        using r(5) by (simp add: req_def delay_def add.assoc)
      then show ?thesis using r
        by (intro exI [of _ "Suc m"] exI [of _ "[req, Print line, Sleep delay] @ ts"]) (simp add: req_def)
    qed
  qed
qed

subsection \<open>Lemmas on closing\<close>

lemma stop_metrics_none: "metrics_task (self s) = None \<Longrightarrow> stop_metrics net s = (Inr (), s)"
  by (simp add: stop_metrics_def pbind_eval)

lemma stop_metrics_raised:
  "metrics_task (self s) = Some t \<Longrightarrow> await_cancelled t = Some e \<Longrightarrow>
     stop_metrics net s = (Inl e, s\<lparr>self := (self s)\<lparr>set_events := insert (metrics_stop (self s)) (set_events (self s)),
       metrics_task := None\<rparr>\<rparr>)"
  by (simp add: stop_metrics_def pbind_eval)

lemma stop_metrics_clean:
  assumes "metrics_task (self s) = Some t" and "await_cancelled t = None"
  shows "\<exists>s'. stop_metrics net s = (Inr (), s') \<and> metrics_task (self s') = None \<and> nc (self s') = nc (self s)"
  using assms by (simp add: stop_metrics_def pbind_eval ptry_eval split: sum.splits prod.splits)

lemma close_no_task:
  "metrics_task (self s) = None \<Longrightarrow>
     \<exists>s'. close net s = (Inr (), s') \<and> metrics_task (self s') = None \<and> \<not> nc (self s')"
  by (simp add: close_def stop_metrics_none pbind_eval ptry_eval split: sum.splits prod.splits)

lemma close_split: "close net s = (case stop_metrics net s of (Inl e, s') \<Rightarrow> (Inl e, s') | (Inr u, s') \<Rightarrow>
    if metrics_task (self s') = None then close net s' else close net s)"
  using stop_metrics_none [of _ net]
  by (auto simp: close_def pbind_eval split: prod.splits sum.splits)

subsection \<open>Properties\<close>

text \<open>
  C24: Registration retries are bounded and back off linearly. Whatever the server answers, a
  registration sends the same request between once and \<open>registration_max_retries\<close> times,
  sleeps between two requests for the backoff times the number of the attempt, changes nothing
  of the client, and never lets a NATS error escape.
\<close>

theorem registration_retries_bounded:
  assumes "nc (self s)" and "js (self s)" and "1 \<le> registration_max_retries (self s)"
  shows "\<exists>m ts. snd (request_with_retries net malformed subject payload label s) = s\<lparr>trace := trace s @ ts\<rparr>
      \<and> 1 \<le> m \<and> int m \<le> registration_max_retries (self s)
      \<and> filter is_request ts = replicate m (Request subject (str_encode (dumps payload)) (registration_timeout_s (self s)))
      \<and> filter is_sleep ts = map (\<lambda>k. Sleep (num_times (registration_retry_backoff_s (self s)) (1 + int k))) [0..<m - 1]
      \<and> (\<forall>e. fst (request_with_retries net malformed subject payload label s) = Inl e \<longrightarrow> \<not> is_nats_error e)"
proof -
  let ?n = "nat (registration_max_retries (self s))"
  have "request_with_retries net malformed subject payload label s
      = retry_loop net malformed subject (str_encode (dumps payload)) label ?n 1 s"
    using assms(1,2) by (simp add: request_with_retries_def require_connection_def pbind_eval)
  moreover have "0 < ?n" "1 + int ?n = registration_max_retries (self s) + 1" using assms(3) by simp_all
  note retry_loop_outcome [OF this, of net malformed subject "str_encode (dumps payload)" label]
  ultimately show ?thesis using assms(3) by (auto simp: le_nat_iff)
qed

definition demo_client :: client where
  "demo_client = \<lparr>url = [], core_subject = ''c'', invoke_subject = ''i'', metrics_subject = ''s'',
     metrics_durable = [], publish_async_max_pending = 1, registration_timeout_s = JInt 20,
     registration_max_retries = 2, registration_retry_backoff_s = JInt 3, metrics_pull_batch = 1,
     metrics_pull_timeout_s = JInt 1, metrics_wait_timeout_s = JInt 1, nc = True, js = True,
     metrics_by_id = [], num_received = 0, metrics_events = [], metrics_batch_waiters = [],
     metrics_task = None, metrics_sub = False, metrics_stop = 0, set_events = {}, next_event = 1\<rparr>"

theorem registration_retries_bounded_witness:
  "\<exists>m ts. trace (snd (request_with_retries (\<lambda>_. Inl NoRespondersError) (\<lambda>_. []) ''c.r'' JNull ''f''
            \<lparr>self = demo_client, trace = []\<rparr>)) = ts
      \<and> 1 \<le> m \<and> int m \<le> 2 \<and> filter is_request ts = replicate m (Request ''c.r'' (str_encode (dumps JNull)) (JInt 20))"
  using registration_retries_bounded [of "\<lparr>self = demo_client, trace = []\<rparr>" "\<lambda>_. Inl NoRespondersError"
      "\<lambda>_. []" "''c.r''" JNull "''f''"]
  by (auto simp: demo_client_def simp del: dumps.simps)

text \<open>
  Closing. If the pull task is alive, has returned or was never started, \<open>close\<close> succeeds
  whatever the network does and leaves the client without task and connection. If the task was
  ended by an exception, the first \<open>close\<close> raises that exception and the connection stays open;
  only a second \<open>close\<close> ends it.
\<close>

lemma close_outcome:
  "case metrics_task (self s) of
     Some (TaskRaised e) \<Rightarrow>
       if e = CancelledError then fst (close net s) = Inr () \<and> \<not> nc (self (snd (close net s)))
       else fst (close net s) = Inl e \<and> nc (self (snd (close net s))) = nc (self s)
            \<and> fst (close net (snd (close net s))) = Inr ()
            \<and> \<not> nc (self (snd (close net (snd (close net s)))))
   | _ \<Rightarrow> fst (close net s) = Inr () \<and> metrics_task (self (snd (close net s))) = None
          \<and> \<not> nc (self (snd (close net s)))"
proof (cases "metrics_task (self s)")
  case None
  then show ?thesis using close_no_task [OF None, of net] by auto
next
  case (Some t)
  show ?thesis
  proof (cases "await_cancelled t")
    case None
    from stop_metrics_clean [OF Some None, of net] obtain s1 where s1: "stop_metrics net s = (Inr (), s1)"
      "metrics_task (self s1) = None" by blast
    with close_no_task [OF s1(2), of net] close_split [of net s] Some None show ?thesis
      by (auto simp: await_cancelled_def split: task.splits if_splits)
  next
    case raised: (Some e)
    then have t: "t = TaskRaised e" "e \<noteq> CancelledError"
      by (auto simp: await_cancelled_def split: task.splits if_splits)
    obtain s1 where s1: "stop_metrics net s = (Inl e, s1)" "metrics_task (self s1) = None" "nc (self s1) = nc (self s)"
      using stop_metrics_raised [OF Some raised, of net] by simp
    have "close net s = (Inl e, s1)" using s1(1) by (simp add: close_def pbind_eval)
    with close_no_task [OF s1(2), of net] s1(3) t Some show ?thesis by auto
  qed
qed

text \<open>
  Without configuration the client talks to the worker's default subjects, an explicit
  argument wins over the environment, and at least one attempt is made whatever is configured.
\<close>

lemma client_configuration:
  assumes "client_init env a = Inr c"
  shows "1 \<le> registration_max_retries c \<and> \<not> nc c \<and> metrics_by_id c = []
    \<and> (\<forall>u. arg_url a = Some u \<and> u \<noteq> [] \<longrightarrow> url c = u)
    \<and> (arg_url a = None \<and> env ''NATS_URL'' = None \<and> env ''NATSURL'' = None \<longrightarrow> url c = ''nats://localhost:4222'')
    \<and> (arg_base_subject a = None \<and> env ''SUBJECT'' = None \<longrightarrow>
         (arg_invoke_subject a = None \<longrightarrow> invoke_subject c = ''detersl.worker.invoke'')
       \<and> (arg_core_subject a = None \<and> env ''CORE_SUBJECT'' = None \<longrightarrow> core_subject c = ''detersl.worker.core'')
       \<and> (arg_metrics_subject a = None \<and> env ''STATUS_SUBJECT'' = None \<and> env ''METRICS_SUBJECT'' = None
            \<longrightarrow> metrics_subject c = ''detersl.worker.status''))"
  using assms
  by (auto simp: client_init_def rbind_Inr_iff Let_def default_base_subject_def default_nats_url_def env_get_def)

end
