(* ===== verification/ClientMetrics.thy ===== *)
theory ClientMetrics
  imports Client
begin

section \<open>The Python client: metrics and waiting for completions\<close>

text \<open>
  The pull loop and the two waiting operations of \<open>AsyncDeterSLClient\<close>. The operations of an
  \<open>asyncio\<close> program interleave at their \<open>await\<close>s only; every definition below is a stretch of
  code between two of them, and \<open>sys_next\<close> interleaves the stretches of any number of
  waiting calls with those of the pull loop.
\<close>

subsection \<open>Messages\<close>

definition set_event :: "nat \<Rightarrow> client \<Rightarrow> client" where
  "set_event e c = c\<lparr>set_events := insert e (set_events c)\<rparr>"

definition notify_one :: "int \<Rightarrow> nat \<times> int set \<Rightarrow> client \<Rightarrow> client" where
  "notify_one rid = (\<lambda>(e, pending) c. if pending - {rid} = {} then set_event e c else c)"

definition notify_waiters :: "int \<Rightarrow> client \<Rightarrow> client" where
  "notify_waiters rid c =
     fold (notify_one rid) (metrics_batch_waiters c)
       (c\<lparr>metrics_batch_waiters := map (\<lambda>(e, pending). (e, pending - {rid})) (metrics_batch_waiters c)\<rparr>)"

definition record_metric :: "int \<Rightarrow> json \<Rightarrow> client \<Rightarrow> client" where
  "record_metric rid payload c =
     (let c1 = c\<lparr>num_received := num_received c + 1,
                 metrics_by_id := AList.update rid payload (metrics_by_id c)\<rparr>;
          c2 = (case map_of (metrics_events c1) rid of Some e \<Rightarrow> set_event e c1 | None \<Rightarrow> c1)
      in notify_waiters rid c2)"

definition handle_msg :: "bytes \<Rightarrow> client \<Rightarrow> unit py \<times> client" where
  "handle_msg data c =
     (case rbind (bytes_decode data) loads of
        Inl e \<Rightarrow> (Inl e, c)
      | Inr payload \<Rightarrow>
          (case payload of
             JObj kvs \<Rightarrow>
               (case coerce_request_id (case map_of kvs ''request_id'' of Some v \<Rightarrow> v | None \<Rightarrow> JNull) of
                  Inl e \<Rightarrow> (Inl e, c)
                | Inr None \<Rightarrow> (Inr (), c)
                | Inr (Some rid) \<Rightarrow> (Inr (), record_metric rid payload c))
           | _ \<Rightarrow> (Inl AttributeError, c)))"

subsection \<open>The pull loop\<close>

text \<open>
  What a fetch brings. Every message of a batch is acknowledged, also the one whose handling
  raises; the last component counts the acknowledgements.
\<close>

datatype fetch = Messages "bytes list" | FetchTimeout | FetchCancelled | FetchRaised pyerr

fun process_batch :: "bytes list \<Rightarrow> client \<Rightarrow> nat \<Rightarrow> unit py \<times> client \<times> nat" where
  "process_batch [] c acks = (Inr (), c, acks)"
| "process_batch (m # ms) c acks =
     (case handle_msg m c of
        (Inl e, c') \<Rightarrow> (Inl e, c', acks + 1)
      | (Inr u, c') \<Rightarrow> process_batch ms c' (acks + 1))"

fun metrics_pull_loop :: "fetch list \<Rightarrow> client \<Rightarrow> nat \<Rightarrow> task \<times> client \<times> nat" where
  "metrics_pull_loop [] c acks = (TaskRunning, c, acks)"
| "metrics_pull_loop (f # fs) c acks =
     (if metrics_stop c \<in> set_events c then (TaskReturned, c, acks)
      else case f of
             FetchTimeout \<Rightarrow> metrics_pull_loop fs c acks
           | FetchCancelled \<Rightarrow> (TaskReturned, c, acks)
           | FetchRaised e \<Rightarrow> (TaskRaised e, c, acks)
           | Messages ms \<Rightarrow>
               (case process_batch ms c acks of
                  (Inl e, c', acks') \<Rightarrow> (TaskRaised e, c', acks')
                | (Inr u, c', acks') \<Rightarrow> metrics_pull_loop fs c' acks'))"

subsection \<open>Waiting\<close>

text \<open>
  Each operation up to its \<open>await\<close>: either it returns at once (\<open>Inl\<close>), or it waits for an
  event (\<open>Inr\<close>).
\<close>

definition wait_for_request_start :: "int \<Rightarrow> client \<Rightarrow> (json + nat) \<times> client" where
  "wait_for_request_start rid c =
     (case map_of (metrics_by_id c) rid of
        Some payload \<Rightarrow> (Inl payload, c)
      | None \<Rightarrow>
          let fresh = next_event c; c1 = c\<lparr>next_event := fresh + 1\<rparr>
          in case map_of (metrics_events c) rid of
               Some e \<Rightarrow> (Inr e, c1)
             | None \<Rightarrow> (Inr fresh, c1\<lparr>metrics_events := AList.update rid fresh (metrics_events c)\<rparr>))"

definition wait_for_request_end :: "int \<Rightarrow> bool \<Rightarrow> client \<Rightarrow> json option" where
  "wait_for_request_end rid timed_out c = (if timed_out then None else map_of (metrics_by_id c) rid)"

definition collect_metrics :: "int list \<Rightarrow> client \<Rightarrow> (int, json) pydict py" where
  "collect_metrics ids c =
     rbind (rmap (\<lambda>i. rbind (of_option (KeyError (int_str i)) (map_of (metrics_by_id c) i)) (\<lambda>p. Inr (i, p))) ids)
       (\<lambda>kvs. Inr (dict_of kvs))"

definition wait_for_requests_start :: "int list \<Rightarrow> client \<Rightarrow> ((int, json) pydict py + nat) \<times> client" where
  "wait_for_requests_start ids c =
     (if ids = [] then (Inl (Inr []), c)
      else let pending = {i \<in> set ids. map_of (metrics_by_id c) i = None}
           in if pending = {} then (Inl (collect_metrics ids c), c)
              else let e = next_event c
                   in (Inr e, c\<lparr>next_event := e + 1,
                        metrics_batch_waiters := metrics_batch_waiters c @ [(e, pending)]\<rparr>))"

definition remove_waiter :: "nat \<Rightarrow> client \<Rightarrow> client" where
  "remove_waiter e c =
     c\<lparr>metrics_batch_waiters := filter (\<lambda>(e', _). e' \<noteq> e) (metrics_batch_waiters c)\<rparr>"

text \<open>
  The text of the timeout. \<open>as_list\<close> is the order in which a set of integers is listed;
  \<open>meta\<close> is the mapping of the ids, when the argument was one.
\<close>

definition timeout_message ::
  "(int set \<Rightarrow> int list) \<Rightarrow> json \<Rightarrow> (int, json) pydict option \<Rightarrow> int list \<Rightarrow> int set \<Rightarrow> client \<Rightarrow> string" where
  "timeout_message as_list wait_timeout meta ids pending c =
     (let missing = as_list pending;
          sample = str_join '', '' (map int_str (take 10 missing));
          sample_status = str_join '', '' (map (\<lambda>i. int_str i @ ''='' @
            (if map_of (metrics_by_id c) i \<noteq> None then ''seen'' else ''unseen'')) (take 10 missing));
          extra = (case (meta, missing) of
                     (Some d, i # _) \<Rightarrow> ''; first missing request: '' @ int_str i @ '' : '' @
                       (case map_of d i of Some v \<Rightarrow> py_str v | None \<Rightarrow> ''None'')
                   | _ \<Rightarrow> [])
      in ''Timed out after '' @ py_str wait_timeout @ ''s waiting for '' @
         nat_str (length missing) @ ''/'' @ nat_str (length ids) @ '' workflow completions'' @
         (if sample = [] then [] else ''; first missing request_ids: '' @ sample) @ extra @
         (if sample_status = [] then [] else ''; metrics_by_id status: '' @ sample_status) @
         ''; total received metrics so far: '' @ nat_str (length (metrics_by_id c)) @ ''; '' @
         ''total received messages: '' @ int_str (num_received c))"

definition wait_for_requests_end ::
  "(int set \<Rightarrow> int list) \<Rightarrow> json option \<Rightarrow> (int, json) pydict option \<Rightarrow> int list \<Rightarrow> nat \<Rightarrow> bool \<Rightarrow> client
     \<Rightarrow> (int, json) pydict py \<times> client" where
  "wait_for_requests_end as_list timeout meta ids e timed_out c =
     (let wait_timeout = (case timeout of Some t \<Rightarrow> t | None \<Rightarrow> metrics_wait_timeout_s c);
          pending = (case map_of (metrics_batch_waiters c) e of Some p \<Rightarrow> p | None \<Rightarrow> {});
          c' = remove_waiter e c
      in if timed_out then (Inl (RuntimeError (timeout_message as_list wait_timeout meta ids pending c)), c')
         else (collect_metrics ids c', c'))"

subsection \<open>Interleavings\<close>

datatype wait_call = WaitOne int nat | WaitMany "int list" nat

datatype loop_pc = Idle | Fetching | InBatch "bytes list"

record sys =
  cl :: client
  calls :: "wait_call list"
  loop :: loop_pc
  acked :: nat

datatype sys_event =
    CallOne int
  | CallMany "int list"
  | Finish nat bool  \<comment> \<open>the position of the call, and whether it timed out\<close>
  | StartLoop
  | StopLoop
  | FetchDone fetch
  | HandleNext
  | EndBatch

definition call_event :: "wait_call \<Rightarrow> nat" where
  "call_event w = (case w of WaitOne i e \<Rightarrow> e | WaitMany is e \<Rightarrow> e)"

definition finish_call :: "wait_call \<Rightarrow> client \<Rightarrow> client" where
  "finish_call w c = (case w of WaitOne i e \<Rightarrow> c | WaitMany is e \<Rightarrow> remove_waiter e c)"

definition drop_nth :: "nat \<Rightarrow> 'a list \<Rightarrow> 'a list" where
  "drop_nth i xs = take i xs @ drop (Suc i) xs"

fun sys_next :: "sys_event \<Rightarrow> sys \<Rightarrow> sys option" where
  "sys_next (CallOne i) s =
     (case wait_for_request_start i (cl s) of
        (Inl p, c) \<Rightarrow> Some (s\<lparr>cl := c\<rparr>)
      | (Inr e, c) \<Rightarrow> Some (s\<lparr>cl := c, calls := calls s @ [WaitOne i e]\<rparr>))"
| "sys_next (CallMany is) s =
     (case wait_for_requests_start is (cl s) of
        (Inl p, c) \<Rightarrow> Some (s\<lparr>cl := c\<rparr>)
      | (Inr e, c) \<Rightarrow> Some (s\<lparr>cl := c, calls := calls s @ [WaitMany is e]\<rparr>))"
| "sys_next (Finish k timed_out) s =
     (if k < length (calls s) \<and> (timed_out \<or> call_event (calls s ! k) \<in> set_events (cl s))
      then Some (s\<lparr>cl := finish_call (calls s ! k) (cl s), calls := drop_nth k (calls s)\<rparr>)
      else None)"
| "sys_next StartLoop s =
     (if loop s = Idle
      then Some (s\<lparr>loop := Fetching, cl := (cl s)\<lparr>metrics_stop := next_event (cl s),
             next_event := next_event (cl s) + 1, metrics_task := Some TaskRunning\<rparr>\<rparr>)
      else None)"
| "sys_next StopLoop s = Some (s\<lparr>cl := set_event (metrics_stop (cl s)) (cl s)\<rparr>)"
| "sys_next (FetchDone f) s =
     (if loop s \<noteq> Fetching then None
      else if metrics_stop (cl s) \<in> set_events (cl s)
           then Some (s\<lparr>loop := Idle, cl := (cl s)\<lparr>metrics_task := Some TaskReturned\<rparr>\<rparr>)
      else case f of
             FetchTimeout \<Rightarrow> Some s
           | FetchCancelled \<Rightarrow> Some (s\<lparr>loop := Idle, cl := (cl s)\<lparr>metrics_task := Some TaskReturned\<rparr>\<rparr>)
           | FetchRaised e \<Rightarrow> Some (s\<lparr>loop := Idle, cl := (cl s)\<lparr>metrics_task := Some (TaskRaised e)\<rparr>\<rparr>)
           | Messages ms \<Rightarrow> Some (s\<lparr>loop := InBatch ms\<rparr>))"
| "sys_next HandleNext s =
     (case loop s of
        InBatch (m # ms) \<Rightarrow>
          (case handle_msg m (cl s) of
             (Inr u, c) \<Rightarrow> Some (s\<lparr>cl := c, loop := InBatch ms, acked := acked s + 1\<rparr>)
           | (Inl e, c) \<Rightarrow> Some (s\<lparr>cl := c\<lparr>metrics_task := Some (TaskRaised e)\<rparr>, loop := Idle, acked := acked s + 1\<rparr>))
      | _ \<Rightarrow> None)"
| "sys_next EndBatch s = (if loop s = InBatch [] then Some (s\<lparr>loop := Fetching\<rparr>) else None)"

text \<open>The states that a freshly built client reaches.\<close>

inductive sys_reach :: "client \<Rightarrow> sys \<Rightarrow> bool" for c0 where
  init: "sys_reach c0 \<lparr>cl = c0, calls = [], loop = Idle, acked = 0\<rparr>"
| step: "sys_reach c0 s \<Longrightarrow> sys_next ev s = Some s' \<Longrightarrow> sys_reach c0 s'"

subsection \<open>The invariant of the waiters\<close>

definition received :: "client \<Rightarrow> int set" where
  "received c = dom (map_of (metrics_by_id c))"

definition waiters_ok :: "client \<Rightarrow> bool" where
  "waiters_ok c \<longleftrightarrow>
     distinct (map fst (metrics_batch_waiters c)) \<and>
     (\<forall>e pending. (e, pending) \<in> set (metrics_batch_waiters c) \<longrightarrow>
        e < next_event c \<and> e \<noteq> metrics_stop c \<and> pending \<inter> received c = {} \<and> (e \<in> set_events c \<longleftrightarrow> pending = {}))"

definition events_ok :: "client \<Rightarrow> bool" where
  "events_ok c \<longleftrightarrow>
     distinct (map fst (metrics_events c)) \<and> inj_on snd (set (metrics_events c)) \<and>
     (\<forall>i e. (i, e) \<in> set (metrics_events c) \<longrightarrow>
        e < next_event c \<and> e \<noteq> metrics_stop c \<and> e \<notin> fst ` set (metrics_batch_waiters c)
        \<and> (e \<in> set_events c \<longleftrightarrow> i \<in> received c))"

definition numbers_ok :: "client \<Rightarrow> bool" where
  "numbers_ok c \<longleftrightarrow> metrics_stop c < next_event c \<and> (\<forall>e \<in> set_events c. e < next_event c)"

lemma waiters_okD:
  assumes "waiters_ok c" and "(e, p) \<in> set (metrics_batch_waiters c)"
  shows "e < next_event c" "e \<noteq> metrics_stop c" "i \<in> p \<Longrightarrow> i \<notin> received c" "e \<in> set_events c \<longleftrightarrow> p = {}"
  using assms unfolding waiters_ok_def by blast+

lemma events_okD:
  assumes "events_ok c" and "(i, e) \<in> set (metrics_events c)"
  shows "e < next_event c" "e \<noteq> metrics_stop c" "e \<notin> fst ` set (metrics_batch_waiters c)"
    "e \<in> set_events c \<longleftrightarrow> i \<in> received c"
  using assms unfolding events_ok_def by blast+

definition call_ok :: "client \<Rightarrow> wait_call \<Rightarrow> bool" where
  "call_ok c w \<longleftrightarrow>
     (case w of
        WaitOne i e \<Rightarrow> (i, e) \<in> set (metrics_events c)
      | WaitMany is e \<Rightarrow> (\<exists>p. (e, p) \<in> set (metrics_batch_waiters c) \<and> set is \<subseteq> received c \<union> p \<and> p \<subseteq> set is))"

lemma call_ok_simps [simp]:
  "call_ok c (WaitOne i e) \<longleftrightarrow> (i, e) \<in> set (metrics_events c)"
  "call_ok c (WaitMany is e) \<longleftrightarrow> (\<exists>p. (e, p) \<in> set (metrics_batch_waiters c) \<and> set is \<subseteq> received c \<union> p \<and> p \<subseteq> set is)"
  by (simp_all add: call_ok_def)

definition many_events :: "wait_call list \<Rightarrow> nat list" where
  "many_events ws = map call_event (filter (\<lambda>w. case w of WaitMany _ _ \<Rightarrow> True | _ \<Rightarrow> False) ws)"

definition sys_inv :: "sys \<Rightarrow> bool" where
  "sys_inv s \<longleftrightarrow> waiters_ok (cl s) \<and> events_ok (cl s) \<and> numbers_ok (cl s)
     \<and> list_all (call_ok (cl s)) (calls s) \<and> distinct (many_events (calls s))"

lemma set_event_frame [simp]:
  "metrics_by_id (set_event e c) = metrics_by_id c" "metrics_events (set_event e c) = metrics_events c"
  "metrics_batch_waiters (set_event e c) = metrics_batch_waiters c" "next_event (set_event e c) = next_event c"
  "metrics_stop (set_event e c) = metrics_stop c" "set_events (set_event e c) = insert e (set_events c)"
  "num_received (set_event e c) = num_received c"
  by (simp_all add: set_event_def)

lemma notify_fold:
  "metrics_by_id (fold (notify_one rid) ws c) = metrics_by_id c"
  "metrics_events (fold (notify_one rid) ws c) = metrics_events c"
  "metrics_batch_waiters (fold (notify_one rid) ws c) = metrics_batch_waiters c"
  "next_event (fold (notify_one rid) ws c) = next_event c"
  "metrics_stop (fold (notify_one rid) ws c) = metrics_stop c"
  "num_received (fold (notify_one rid) ws c) = num_received c"
  by (induction ws arbitrary: c) (simp_all add: notify_one_def split: prod.splits)

lemma notify_fold_events:
  "set_events (fold (notify_one rid) ws c) = set_events c \<union> {e. \<exists>p. (e, p) \<in> set ws \<and> p - {rid} = {}}"
proof (induction ws arbitrary: c)
  case Nil
  then show ?case by simp
next
  case (Cons w ws)
  obtain e p where "w = (e, p)" by (cases w)
  with Cons [of "notify_one rid (e, p) c"] show ?case by (auto simp: notify_one_def)
qed

lemma record_metric_frame [simp]:
  "metrics_by_id (record_metric i p c) = AList.update i p (metrics_by_id c)"
  "metrics_events (record_metric i p c) = metrics_events c"
  "metrics_batch_waiters (record_metric i p c) = map (\<lambda>(e, q). (e, q - {i})) (metrics_batch_waiters c)"
  "next_event (record_metric i p c) = next_event c"
  "metrics_stop (record_metric i p c) = metrics_stop c"
  "num_received (record_metric i p c) = num_received c + 1"
  by (simp_all add: record_metric_def notify_waiters_def notify_fold Let_def split: option.splits)

lemma record_metric_events:
  "set_events (record_metric i p c) = set_events c \<union> set_option (map_of (metrics_events c) i)
     \<union> {e. \<exists>q. (e, q) \<in> set (metrics_batch_waiters c) \<and> q - {i} = {}}"
  by (auto simp: record_metric_def notify_waiters_def notify_fold_events Let_def split: option.splits)

lemma received_record [simp]: "received (record_metric i p c) = insert i (received c)"
  by (simp add: received_def map_of_update)

lemma record_metric_waiters_ok:
  assumes "waiters_ok c" and "events_ok c"
  shows "waiters_ok (record_metric i p c)"
proof -
  have uniq: "q = q'" if "(e, q) \<in> set (metrics_batch_waiters c)" "(e, q') \<in> set (metrics_batch_waiters c)" for e q q'
    using assms(1) that by (metis eq_key_imp_eq_value waiters_ok_def)
  have fst_eq: "map (fst \<circ> (\<lambda>(e, q). (e, q - {i}))) ws = map fst ws" for ws :: "(nat \<times> int set) list"
    by (induction ws) auto
  have iff: "e \<in> set_events (record_metric i p c) \<longleftrightarrow> q - {i} = {}"
    if w: "(e, q) \<in> set (metrics_batch_waiters c)" for e q
  proof -
    have "e \<notin> set_option (map_of (metrics_events c) i)"
      using assms(2) w by (force simp: events_ok_def dest: map_of_SomeD)
    moreover have "e \<in> set_events c \<longleftrightarrow> q = {}" using assms(1) w by (auto simp: waiters_ok_def)
    moreover have "(\<exists>q'. (e, q') \<in> set (metrics_batch_waiters c) \<and> q' - {i} = {}) \<longleftrightarrow> q - {i} = {}"
      using uniq w by blast
    ultimately show ?thesis by (auto simp: record_metric_events)
  qed
  moreover have "(q - {i}) \<inter> insert i (received c) = {}"
    if "(e, q) \<in> set (metrics_batch_waiters c)" for e q
    using waiters_okD(3) [OF assms(1) that] by blast
  ultimately show ?thesis using assms(1) waiters_okD(1,2) [OF assms(1)]
    by (fastforce simp: waiters_ok_def fst_eq)
qed

lemma record_metric_events_ok:
  assumes "events_ok c"
  shows "events_ok (record_metric i p c)"
proof -
  have iff: "e \<in> set_events (record_metric i p c) \<longleftrightarrow> j \<in> insert i (received c)"
    if w: "(j, e) \<in> set (metrics_events c)" for j e
  proof -
    have "e \<notin> fst ` set (metrics_batch_waiters c)" "e \<in> set_events c \<longleftrightarrow> j \<in> received c"
      using assms w by (auto simp: events_ok_def)
    moreover have "e \<in> set_option (map_of (metrics_events c) i) \<longleftrightarrow> j = i"
    proof
      assume "e \<in> set_option (map_of (metrics_events c) i)"
      then have "(i, e) \<in> set (metrics_events c)" by (auto dest: map_of_SomeD)
      then show "j = i" using assms w inj_onD [of snd "set (metrics_events c)" "(i, e)" "(j, e)"]
        by (simp add: events_ok_def)
    next
      assume "j = i"
      then show "e \<in> set_option (map_of (metrics_events c) i)" using assms w by (simp add: events_ok_def)
    qed
    ultimately show ?thesis by (auto simp: record_metric_events image_iff)
  qed
  have "fst ` (\<lambda>(e, q). (e, q - {i})) ` W = fst ` W" for W :: "(nat \<times> int set) set" by force
  with assms iff show ?thesis by (auto simp: events_ok_def)
qed

lemma record_metric_numbers_ok:
  assumes "numbers_ok c" and "events_ok c" and "waiters_ok c"
  shows "numbers_ok (record_metric i p c)"
  using assms by (auto simp: numbers_ok_def record_metric_events events_ok_def waiters_ok_def dest!: map_of_SomeD)

lemma record_metric_call_ok: "call_ok c w \<Longrightarrow> call_ok (record_metric i p c) w"
  by (force simp: call_ok_def split: wait_call.splits)

lemma fresh_simps:
  assumes "numbers_ok c" and "waiters_ok c" and "events_ok c"
  shows "next_event c \<noteq> metrics_stop c" "next_event c \<notin> set_events c"
    "next_event c \<notin> fst ` set (metrics_batch_waiters c)" "next_event c \<notin> snd ` set (metrics_events c)"
  using assms(1) waiters_okD(1) [OF assms(2), of "next_event c"] events_okD(1) [OF assms(3), of _ "next_event c"]
  by (auto simp: numbers_ok_def)

lemma wait_one_inv:
  assumes "wait_for_request_start i c = (r, c')" and inv: "numbers_ok c" "waiters_ok c" "events_ok c"
  shows "numbers_ok c' \<and> waiters_ok c' \<and> events_ok c' \<and> (\<forall>w. call_ok c w \<longrightarrow> call_ok c' w)
    \<and> (\<forall>e. r = Inr e \<longrightarrow> (i, e) \<in> set (metrics_events c'))"
proof (cases "map_of (metrics_by_id c) i")
  case (Some p)
  then show ?thesis using assms by (auto simp: wait_for_request_start_def)
next
  case None
  then have i: "i \<notin> received c" by (simp add: received_def domIff)
  show ?thesis
  proof (cases "map_of (metrics_events c) i")
    case (Some e)
    with None assms(1) have "r = Inr e" "c' = c\<lparr>next_event := next_event c + 1\<rparr>"
      by (simp_all add: wait_for_request_start_def Let_def)
    moreover from this have "received c' = received c" by (simp add: received_def)
    ultimately show ?thesis using inv Some
      by (auto simp: numbers_ok_def waiters_ok_def events_ok_def call_ok_def intro: less_SucI dest: map_of_SomeD
          split: wait_call.splits)
  next
    case no_event: None
    then have new: "i \<notin> fst ` set (metrics_events c)" by (simp add: map_of_eq_None_iff)
    define e where "e = next_event c"
    from None no_event assms(1) have r: "r = Inr e"
      "c' = c\<lparr>next_event := e + 1, metrics_events := metrics_events c @ [(i, e)]\<rparr>"
      using update_snoc [OF new] by (simp_all add: wait_for_request_start_def Let_def e_def)
    then have rec: "received c' = received c" by (simp add: received_def)
    note fresh = fresh_simps [OF inv, folded e_def]
    have "inj_on snd (set (metrics_events c')) " using inv(3) fresh(4) r(2)
      by (auto simp: events_ok_def inj_on_def)
    moreover have "numbers_ok c'" "waiters_ok c'"
      using inv r(2) rec by (auto simp: numbers_ok_def waiters_ok_def e_def intro: less_SucI)
    moreover have "call_ok c' w" if "call_ok c w" for w
      using that r(2) rec by (auto simp: call_ok_def split: wait_call.splits)
    ultimately show ?thesis using inv r i new fresh rec by (auto simp: events_ok_def e_def intro: less_SucI)
  qed
qed

lemma wait_many_inv:
  assumes "wait_for_requests_start is c = (r, c')" and inv: "numbers_ok c" "waiters_ok c" "events_ok c"
  shows "numbers_ok c' \<and> waiters_ok c' \<and> events_ok c' \<and> (\<forall>w. call_ok c w \<longrightarrow> call_ok c' w)
    \<and> (\<forall>e. r = Inr e \<longrightarrow> e = next_event c \<and> call_ok c' (WaitMany is e))"
proof -
  define pending where "pending = {i \<in> set is. map_of (metrics_by_id c) i = None}"
  show ?thesis
  proof (cases "is = [] \<or> pending = {}")
    case True
    then show ?thesis using assms by (auto simp: wait_for_requests_start_def pending_def Let_def split: if_splits)
  next
    case False
    define e where "e = next_event c"
    from False assms(1) have r: "r = Inr e"
      "c' = c\<lparr>next_event := e + 1, metrics_batch_waiters := metrics_batch_waiters c @ [(e, pending)]\<rparr>"
      by (auto simp: wait_for_requests_start_def pending_def [symmetric] e_def Let_def)
    note fresh = fresh_simps [OF inv, folded e_def]
    have "pending \<inter> received c = {}" "set is \<subseteq> received c \<union> pending" "pending \<subseteq> set is"
      by (auto simp: pending_def received_def)
    moreover have rec: "received c' = received c" using r(2) by (simp add: received_def)
    ultimately have "waiters_ok c'" "call_ok c' (WaitMany is e)" using inv(2) r fresh False
      by (auto simp: waiters_ok_def call_ok_def e_def intro: less_SucI)
    moreover have "numbers_ok c'" "events_ok c'"
      using inv r fresh rec by (auto simp: numbers_ok_def events_ok_def e_def intro: less_SucI)
    moreover have "call_ok c' w" if "call_ok c w" for w
      using that r(2) rec by (auto simp: call_ok_def split: wait_call.splits)
    ultimately show ?thesis using r by (simp add: e_def)
  qed
qed

lemma remove_waiter_inv:
  assumes "numbers_ok c" and "waiters_ok c" and "events_ok c"
  shows "numbers_ok (remove_waiter e c)" "waiters_ok (remove_waiter e c)" "events_ok (remove_waiter e c)"
proof -
  show "numbers_ok (remove_waiter e c)" using assms by (simp add: numbers_ok_def remove_waiter_def)
  show "waiters_ok (remove_waiter e c)"
    using assms by (auto simp: waiters_ok_def remove_waiter_def received_def distinct_map_filter)
  show "events_ok (remove_waiter e c)"
    using assms by (auto simp: events_ok_def remove_waiter_def received_def)
qed

lemma remove_waiter_call_ok:
  "call_ok c w \<Longrightarrow> (\<And>is. w \<noteq> WaitMany is e) \<Longrightarrow> call_ok (remove_waiter e c) w"
  by (auto simp: call_ok_def remove_waiter_def received_def split: wait_call.splits)

lemma record_metric_inv:
  assumes "numbers_ok c" "waiters_ok c" "events_ok c"
  shows "numbers_ok (record_metric i p c)" "waiters_ok (record_metric i p c)" "events_ok (record_metric i p c)"
  using assms record_metric_numbers_ok record_metric_waiters_ok record_metric_events_ok by blast+

lemma handle_msg_cases:
  "handle_msg m c = (r, c') \<Longrightarrow> c' = c \<or> (\<exists>i p. c' = record_metric i p c)"
  by (auto simp: handle_msg_def split: sum.splits json.splits option.splits)

text \<open>The invariant does not read the task.\<close>

lemma task_frame [simp]:
  "numbers_ok (c\<lparr>metrics_task := t\<rparr>) = numbers_ok c" "waiters_ok (c\<lparr>metrics_task := t\<rparr>) = waiters_ok c"
  "events_ok (c\<lparr>metrics_task := t\<rparr>) = events_ok c" "call_ok (c\<lparr>metrics_task := t\<rparr>) w = call_ok c w"
  by (cases w; simp add: numbers_ok_def waiters_ok_def events_ok_def received_def)+

lemma start_loop_inv:
  fixes c :: client and t :: "task option"
  defines "c' \<equiv> c\<lparr>metrics_stop := next_event c, next_event := next_event c + 1, metrics_task := t\<rparr>"
  assumes "numbers_ok c" "waiters_ok c" "events_ok c"
  shows "numbers_ok c'" "waiters_ok c'" "events_ok c'" "call_ok c' w = call_ok c w"
proof -
  have rec: "received c' = received c" by (simp add: c'_def received_def)
  have c': "metrics_by_id c' = metrics_by_id c" "metrics_events c' = metrics_events c"
    "metrics_batch_waiters c' = metrics_batch_waiters c" "next_event c' = Suc (next_event c)"
    "metrics_stop c' = next_event c" "set_events c' = set_events c"
    by (simp_all add: c'_def)
  show "numbers_ok c'" using assms(2) c' by (auto simp: numbers_ok_def intro: less_SucI)
  show "waiters_ok c'" using assms(3) waiters_okD(1) [OF assms(3)] c' rec
    by (auto simp: waiters_ok_def intro: less_SucI)
  show "events_ok c'" using assms(4) events_okD(1) [OF assms(4)] c' rec
    by (auto simp: events_ok_def intro: less_SucI)
  show "call_ok c' w = call_ok c w" using c' rec by (cases w) simp_all
qed

lemma stop_loop_inv:
  assumes "numbers_ok c" "waiters_ok c" "events_ok c"
  defines "c' \<equiv> set_event (metrics_stop c) c"
  shows "numbers_ok c'" "waiters_ok c'" "events_ok c'" "call_ok c' w = call_ok c w"
proof -
  have rec: "received c' = received c" by (simp add: c'_def received_def)
  have "e \<in> set_events c' \<longleftrightarrow> p = {}" if "(e, p) \<in> set (metrics_batch_waiters c)" for e p
    using waiters_okD(2,4) [OF assms(2) that] by (simp add: c'_def)
  then show "waiters_ok c'" using assms(2) rec by (simp add: waiters_ok_def c'_def)
  have "e \<in> set_events c' \<longleftrightarrow> i \<in> received c" if "(i, e) \<in> set (metrics_events c)" for i e
    using events_okD(2,4) [OF assms(3) that] by (simp add: c'_def)
  then show "events_ok c'" using assms(3) rec by (simp add: events_ok_def c'_def)
  show "numbers_ok c'" using assms(1) by (auto simp: numbers_ok_def c'_def)
  show "call_ok c' w = call_ok c w" using rec by (cases w) (simp_all add: c'_def)
qed

lemma many_events_append [simp]: "many_events (ws @ vs) = many_events ws @ many_events vs"
  by (simp add: many_events_def)

lemma many_events_simps [simp]:
  "many_events [] = []" "many_events (WaitOne i e # ws) = many_events ws"
  "many_events (WaitMany is e # ws) = e # many_events ws"
  by (simp_all add: many_events_def call_event_def)

lemma many_events_waiters:
  "list_all (call_ok c) ws \<Longrightarrow> set (many_events ws) \<subseteq> fst ` set (metrics_batch_waiters c)"
proof (induction ws)
  case (Cons w ws)
  then show ?case
    by (cases w) (auto simp del: call_ok_simps, auto intro: rev_image_eqI)
qed simp

lemma finish_inv:
  assumes inv: "numbers_ok c" "waiters_ok c" "events_ok c" "list_all (call_ok c) ws" "distinct (many_events ws)"
    and "k < length ws"
  defines "c' \<equiv> finish_call (ws ! k) c"
  shows "numbers_ok c' \<and> waiters_ok c' \<and> events_ok c' \<and> list_all (call_ok c') (drop_nth k ws)
    \<and> distinct (many_events (drop_nth k ws))"
proof -
  have ws: "ws = take k ws @ ws ! k # drop (Suc k) ws" using assms(6) by (rule id_take_nth_drop)
  have "list_all (call_ok c) (take k ws @ ws ! k # drop (Suc k) ws)"
    "distinct (many_events (take k ws @ ws ! k # drop (Suc k) ws))"
    using inv(4,5) by (simp_all only: ws [symmetric])
  then have all: "list_all (call_ok c) (drop_nth k ws)" and dist: "distinct (many_events (drop_nth k ws))"
    and own: "\<And>is e. ws ! k = WaitMany is e \<Longrightarrow> e \<notin> set (many_events (drop_nth k ws))"
    by (cases "ws ! k"; simp add: drop_nth_def)+
  show ?thesis
  proof (cases "ws ! k")
    case (WaitOne i e)
    then show ?thesis using inv all dist by (simp add: c'_def finish_call_def)
  next
    case (WaitMany ids e)
    from own [OF this] have "w \<noteq> WaitMany js e" if "w \<in> set (drop_nth k ws)" for w js
      using that by (force simp: many_events_def call_event_def)
    then have "list_all (call_ok (remove_waiter e c)) (drop_nth k ws)"
      using all remove_waiter_call_ok by (simp add: list_all_iff)
    then show ?thesis using dist remove_waiter_inv [OF inv(1-3)] WaitMany
      by (simp add: c'_def finish_call_def)
  qed
qed

lemma sys_inv_step: "sys_inv s \<Longrightarrow> sys_next ev s = Some s' \<Longrightarrow> sys_inv s'"
proof (cases ev)
  case (CallOne i)
  assume a: "sys_inv s" "sys_next ev s = Some s'"
  obtain r c' where w: "wait_for_request_start i (cl s) = (r, c')" by fastforce
  with a CallOne wait_one_inv [OF w] show ?thesis
    by (auto simp: sys_inv_def list_all_iff split: sum.splits)
next
  case (CallMany ids)
  assume a: "sys_inv s" "sys_next ev s = Some s'"
  obtain r c' where w: "wait_for_requests_start ids (cl s) = (r, c')" by fastforce
  have "next_event (cl s) \<notin> set (many_events (calls s))"
    using many_events_waiters [of "cl s" "calls s"] fresh_simps(3) [of "cl s"] a(1) by (auto simp: sys_inv_def)
  with a CallMany w wait_many_inv [OF w] show ?thesis
    by (auto simp: sys_inv_def list_all_iff simp del: call_ok_simps split: sum.splits)
next
  case (Finish k b)
  assume "sys_inv s" "sys_next ev s = Some s'"
  with Finish finish_inv [of "cl s" "calls s" k] show ?thesis
    by (auto simp: sys_inv_def split: if_splits)
next
  case StartLoop
  assume "sys_inv s" "sys_next ev s = Some s'"
  with StartLoop start_loop_inv [of "cl s"] show ?thesis
    by (auto simp: sys_inv_def list_all_iff split: if_splits)
next
  case StopLoop
  assume "sys_inv s" "sys_next ev s = Some s'"
  with StopLoop stop_loop_inv [of "cl s"] show ?thesis by (auto simp: sys_inv_def list_all_iff)
next
  case (FetchDone f)
  assume "sys_inv s" "sys_next ev s = Some s'"
  with FetchDone show ?thesis
    by (auto simp: sys_inv_def list_all_iff split: if_splits fetch.splits)
next
  case HandleNext
  assume a: "sys_inv s" "sys_next ev s = Some s'"
  then obtain m ms where l: "loop s = InBatch (m # ms)"
    using HandleNext by (auto split: loop_pc.splits list.splits)
  obtain r c' where h: "handle_msg m (cl s) = (r, c')" by fastforce
  have ok: "numbers_ok c' \<and> waiters_ok c' \<and> events_ok c' \<and> list_all (call_ok c') (calls s)"
    using handle_msg_cases [OF h] a(1) record_metric_inv [of "cl s"] record_metric_call_ok
    by (auto simp: sys_inv_def list_all_iff)
  with a HandleNext l h show ?thesis
    by (auto simp: sys_inv_def list_all_iff split: sum.splits)
next
  case EndBatch
  assume "sys_inv s" "sys_next ev s = Some s'"
  with EndBatch show ?thesis by (auto simp: sys_inv_def split: if_splits)
qed

lemma sys_inv_init:
  "client_init env a = Inr c0 \<Longrightarrow> sys_inv \<lparr>cl = c0, calls = [], loop = Idle, acked = 0\<rparr>"
  by (auto simp: client_init_def rbind_Inr_iff Let_def sys_inv_def numbers_ok_def waiters_ok_def events_ok_def)

lemma sys_reach_inv: "sys_reach c0 s \<Longrightarrow> client_init env a = Inr c0 \<Longrightarrow> sys_inv s"
  by (induction rule: sys_reach.induct) (auto intro: sys_inv_init sys_inv_step)

subsection \<open>Sequences of messages\<close>

definition metric_message :: "int \<times> (string \<times> json) list \<Rightarrow> bytes" where
  "metric_message = (\<lambda>(i, kvs). str_encode (dumps (JObj kvs)))"

definition is_metric :: "int \<times> (string \<times> json) list \<Rightarrow> bool" where
  "is_metric = (\<lambda>(i, kvs). wf_json (JObj kvs) \<and> map_of kvs ''request_id'' = Some (JInt i))"

lemma handle_metric:
  "is_metric m \<Longrightarrow> handle_msg (metric_message m) c = (Inr (), record_metric (fst m) (JObj (snd m)) c)"
  by (cases m) (simp add: is_metric_def metric_message_def handle_msg_def loads_dumps coerce_request_id_def
      del: dumps.simps wf_json.simps)

lemma process_metrics:
  "list_all is_metric ms \<Longrightarrow> process_batch (map metric_message ms) c n =
     (Inr (), fold (\<lambda>m. record_metric (fst m) (JObj (snd m))) ms c, n + length ms)"
  by (induction ms arbitrary: c n) (simp_all add: handle_metric)

lemma fold_record_metrics:
  "map_of (metrics_by_id (fold (\<lambda>m. record_metric (fst m) (JObj (snd m))) ms c)) =
     map_of (metrics_by_id c) ++ map_of (rev (map (\<lambda>m. (fst m, JObj (snd m))) ms))"
  "num_received (fold (\<lambda>m. record_metric (fst m) (JObj (snd m))) ms c) = num_received c + int (length ms)"
  by (induction ms arbitrary: c) (simp_all add: map_of_update)

lemma fold_record_stop:
  "metrics_stop (fold (\<lambda>m. record_metric (fst m) (JObj (snd m))) ms c) = metrics_stop c"
  by (induction ms arbitrary: c) simp_all

lemma collect_metrics_all:
  "set ids \<subseteq> received c \<Longrightarrow>
     collect_metrics ids c = Inr (dict_of (map (\<lambda>i. (i, the (map_of (metrics_by_id c) i))) ids))"
  unfolding collect_metrics_def
  by (subst rmap_all_Inr [where g = "\<lambda>i. (i, the (map_of (metrics_by_id c) i))"]) (auto simp: received_def)

lemma received_remove [simp]: "received (remove_waiter e c) = received c"
  "metrics_by_id (remove_waiter e c) = metrics_by_id c"
  by (simp_all add: received_def remove_waiter_def)

subsection \<open>Properties\<close>

text \<open>
  C12: Waiting for completions is sound and misses nothing. However any number of waiting calls
  interleaves with the deliveries, the stops and the restarts of the pull loop: a call that is
  woken returns the metrics of every id it asked for, without a \<open>KeyError\<close>, and a call whose
  ids have all been received is woken.
\<close>

theorem waiters_complete:
  assumes "client_init env a = Inr c0" and "sys_reach c0 s"
  shows "(WaitMany ids e \<in> set (calls s) \<longrightarrow>
            (e \<in> set_events (cl s) \<longleftrightarrow> set ids \<subseteq> received (cl s))
            \<and> (e \<in> set_events (cl s) \<longrightarrow>
                 fst (wait_for_requests_end as_list t meta ids e False (cl s)) =
                   Inr (dict_of (map (\<lambda>i. (i, the (map_of (metrics_by_id (cl s)) i))) ids))))
       \<and> (WaitOne i e \<in> set (calls s) \<longrightarrow>
            (e \<in> set_events (cl s) \<longleftrightarrow> i \<in> received (cl s))
            \<and> (e \<in> set_events (cl s) \<longrightarrow> wait_for_request_end i False (cl s) \<noteq> None))"
proof -
  have inv: "sys_inv s" using sys_reach_inv [OF assms(2,1)] .
  then have w: "waiters_ok (cl s)" "events_ok (cl s)" "\<forall>w\<in>set (calls s). call_ok (cl s) w"
    by (auto simp: sys_inv_def list_all_iff)
  have many: "e \<in> set_events (cl s) \<longleftrightarrow> set ids \<subseteq> received (cl s)" if "WaitMany ids e \<in> set (calls s)"
  proof -
    from w(3) that obtain p where p: "(e, p) \<in> set (metrics_batch_waiters (cl s))"
      "set ids \<subseteq> received (cl s) \<union> p" "p \<subseteq> set ids" by fastforce
    with waiters_okD(3,4) [OF w(1) p(1)] show ?thesis by blast
  qed
  have one: "e \<in> set_events (cl s) \<longleftrightarrow> i \<in> received (cl s)" if "WaitOne i e \<in> set (calls s)"
    using w(3) that events_okD(4) [OF w(2)] by fastforce
  have woken: "fst (wait_for_requests_end as_list t meta ids e False (cl s)) =
      Inr (dict_of (map (\<lambda>i. (i, the (map_of (metrics_by_id (cl s)) i))) ids))" if "set ids \<subseteq> received (cl s)"
    using collect_metrics_all [of ids "remove_waiter e (cl s)"] that by (simp add: wait_for_requests_end_def Let_def)
  have single: "wait_for_request_end i False (cl s) \<noteq> None" if "i \<in> received (cl s)"
    using that by (auto simp: wait_for_request_end_def received_def)
  from many one woken single show ?thesis by blast
qed

definition sys_run :: "sys_event list \<Rightarrow> sys \<Rightarrow> sys option" where
  "sys_run evs s = fold (\<lambda>ev so. Option.bind so (sys_next ev)) evs (Some s)"

lemma sys_run_reach: "sys_reach c0 s \<Longrightarrow> sys_run evs s = Some s' \<Longrightarrow> sys_reach c0 s'"
proof (induction evs arbitrary: s)
  case Nil
  then show ?case by (simp add: sys_run_def)
next
  case (Cons ev evs)
  have none: "fold (\<lambda>ev so. Option.bind so (sys_next ev)) evs None = None" for evs
    by (induction evs) simp_all
  from Cons.prems(2) none obtain t where "sys_next ev s = Some t" "sys_run evs t = Some s'"
    by (cases "sys_next ev s") (auto simp: sys_run_def)
  then show ?case using Cons sys_reach.step by blast
qed

definition plain_args :: client_args where
  "plain_args = default_args\<lparr>arg_registration_timeout_s := Some (JInt 20),
     arg_registration_max_retries := Some 5, arg_registration_retry_backoff_s := Some (JInt 1)\<rparr>"

definition plain_client :: client where
  "plain_client = (case client_init (\<lambda>_. None) plain_args of Inr c \<Rightarrow> c | Inl e \<Rightarrow> demo_client)"

lemma plain_client_init: "client_init (\<lambda>_. None) plain_args = Inr plain_client"
  by (simp add: plain_client_def plain_args_def client_init_def default_args_def env_get_def Let_def)

lemma waiting_run:
  "\<exists>s. sys_run [StartLoop, CallMany [7, 8], CallOne 7] \<lparr>cl = plain_client, calls = [], loop = Idle, acked = 0\<rparr> = Some s
     \<and> calls s = [WaitMany [7, 8] 2, WaitOne 7 3]"
  by (simp add: sys_run_def plain_client_def plain_args_def client_init_def default_args_def env_get_def Let_def
      wait_for_requests_start_def wait_for_request_start_def Collect_conv_if) blast

theorem waiters_complete_witness:
  "\<exists>s. sys_reach plain_client s \<and> WaitMany [7, 8] 2 \<in> set (calls s)
     \<and> (2 \<in> set_events (cl s) \<longleftrightarrow> set [7, 8] \<subseteq> received (cl s))"
proof -
  obtain s where s: "sys_run [StartLoop, CallMany [7, 8], CallOne 7]
      \<lparr>cl = plain_client, calls = [], loop = Idle, acked = 0\<rparr> = Some s"
    "calls s = [WaitMany [7, 8] 2, WaitOne 7 3]" using waiting_run by blast
  have "sys_reach plain_client s" using sys_run_reach [OF sys_reach.init s(1)] .
  with waiters_complete [OF plain_client_init this, of "[7, 8]" 2 "\<lambda>_. []" None None 7] s(2)
  show ?thesis by auto
qed

text \<open>
  C25: Deliveries. A batch of well-formed metrics messages is acknowledged message by message,
  every one is counted, and afterwards each id holds the metrics of its last message, what was
  known before being kept for the other ids.
\<close>

theorem batch_is_recorded:
  assumes "list_all is_metric ms"
  shows "\<exists>c'. process_batch (map metric_message ms) c n = (Inr (), c', n + length ms)
     \<and> num_received c' = num_received c + int (length ms)
     \<and> map_of (metrics_by_id c') =
         map_of (metrics_by_id c) ++ map_of (rev (map (\<lambda>m. (fst m, JObj (snd m))) ms))"
  using process_metrics [OF assms] fold_record_metrics by blast

theorem batch_is_recorded_witness:
  "\<exists>c'. process_batch (map metric_message [(7, [(''request_id'', JInt 7)])]) demo_client 0 = (Inr (), c', 1)
     \<and> map_of (metrics_by_id c') 7 = Some (JObj [(''request_id'', JInt 7)])"
proof -
  have "list_all is_metric [(7, [(''request_id'', JInt 7)])]" by (simp add: is_metric_def)
  from batch_is_recorded [OF this, of demo_client 0] show ?thesis by (auto simp: demo_client_def)
qed

text \<open>
  C26: One malformed status message ends the pull loop. A message that is no JSON is
  acknowledged and ends the task with the exception of the parser: the rest of its batch and
  every later message are never processed, while the client keeps what it had recorded.
\<close>

theorem malformed_message_kills_loop:
  assumes "list_all is_metric ms" and "bytes_decode bad = Inr text" and "loads text = Inl JSONDecodeError"
    and "metrics_stop c \<notin> set_events c"
  shows "metrics_pull_loop (Messages (map metric_message ms @ bad # rest) # fs) c n =
     (TaskRaised JSONDecodeError, fold (\<lambda>m. record_metric (fst m) (JObj (snd m))) ms c, n + length ms + 1)"
proof -
  have "handle_msg bad c' = (Inl JSONDecodeError, c')" for c'
    using assms(2,3) by (simp add: handle_msg_def)
  then have "process_batch (map metric_message ms @ bad # rest) c n =
      (Inl JSONDecodeError, fold (\<lambda>m. record_metric (fst m) (JObj (snd m))) ms c, n + length ms + 1)"
    using assms(1) by (induction ms arbitrary: c n) (simp_all add: handle_metric)
  then show ?thesis using assms(4) by simp
qed

theorem malformed_message_kills_loop_witness:
  "fst (metrics_pull_loop [Messages [[], metric_message (7, [(''request_id'', JInt 7)])]] demo_client 0)
     = TaskRaised JSONDecodeError"
  using malformed_message_kills_loop [of "[]" "[]" "[]" demo_client
      "[metric_message (7, [(''request_id'', JInt 7)])]" "[]" 0]
  by (simp add: demo_client_def loads_def)

text \<open>
  Which request ids are understood. A number, or a text of decimal digits, is the id it
  denotes; any other value is skipped, except that a text that holds a superscript digit passes
  the test \<open>isdigit\<close> and then raises, because \<open>int\<close> refuses it.
\<close>

lemma coerce_request_id_cases:
  "coerce_request_id (JInt n) = Inr (Some n)
   \<and> coerce_request_id (JStr (nat_str k)) = Inr (Some (int k))
   \<and> (coerce_request_id v = Inl e \<longleftrightarrow>
        e = ValueError \<and> (\<exists>s. v = JStr s \<and> str_isdigit s \<and> (\<exists>c\<in>set s. is_superscript c \<and> \<not> is_digit c)))"
proof -
  have "str_isdigit (nat_str k)" by (simp add: str_isdigit_def list_all_iff nat_str_digits)
  moreover have "int_of_digits (nat_str k) = Inr (int k)"
    using nat_str_digits [of _ k] digits_val_dec_str [of "int k"]
    by (simp add: int_of_digits_def list_all_iff int_str_def)
  moreover have "int_of_digits s = Inl e \<longleftrightarrow> e = ValueError \<and> (\<exists>c\<in>set s. is_superscript c \<and> \<not> is_digit c)"
    if "str_isdigit s" for s
    using that by (auto simp: int_of_digits_def str_isdigit_def list_all_iff)
  ultimately show ?thesis
    by (cases v) (auto simp: coerce_request_id_def rbind_Inl_iff)
qed

end
