(* ===== verification/Metrics.thy ===== *)
theory Metrics
  imports PyText "HOL-Library.Multiset"
begin

section \<open>The metrics programs of the applications\<close>

text \<open>
  \<open>calculate_metrics.py\<close> of the YCSB and of the hotel application. The rows of
  \<open>client_requests.csv\<close> are the argument \<open>rows\<close>; the operations of pandas and numpy that the
  programs call are the record \<open>stats\<close>: the sort by completion time (unstable in pandas), the
  percentile and the average. The result is the path and the value of the file that is written.
\<close>

subsection \<open>Rows and the operations of the libraries\<close>

record req_row =
  row_id :: string
  row_latency :: rat
  row_completed :: nat

record stats_ops =
  sort_completed :: "req_row list \<Rightarrow> req_row list"
  np_percentile :: "rat list \<Rightarrow> int \<Rightarrow> rat"
  np_average :: "rat list \<Rightarrow> rat"

definition sorts_rows :: "stats_ops \<Rightarrow> bool" where
  "sorts_rows st \<longleftrightarrow> (\<forall>rows. mset (sort_completed st rows) = mset rows
     \<and> sorted (map row_completed (sort_completed st rows)))"

subsection \<open>Throughput\<close>

text \<open>
  The loop over the completion times. \<open>start\<close> is \<open>None\<close> for minus infinity, and the dict of
  the counts, whose keys are 0, 1, 2, and so on in this order, is the list of its values; a
  key that is missing raises.
\<close>

definition bump_last :: "nat list \<Rightarrow> nat list py" where
  "bump_last vs = (if vs = [] then Inl (KeyError ''-1'') else Inr (butlast vs @ [last vs + 1]))"

fun throughput_loop :: "nat \<Rightarrow> nat option \<Rightarrow> nat list \<Rightarrow> nat list \<Rightarrow> nat list py" where
  "throughput_loop granularity start vs [] = Inr vs"
| "throughput_loop granularity start vs (t # ts) =
     (if (case start of None \<Rightarrow> True | Some s \<Rightarrow> int granularity < int t - int s)
      then throughput_loop granularity (Some t) (vs @ [1]) ts
      else rbind (bump_last vs) (\<lambda>vs'. throughput_loop granularity start vs' ts))"

definition throughput_vals :: "nat list \<Rightarrow> nat list py" where
  "throughput_vals ts = throughput_loop 1000 None [] ts"

subsection \<open>The report\<close>

definition after_warmup :: "int \<Rightarrow> req_row list \<Rightarrow> req_row list py" where
  "after_warmup warmup_seconds rows =
     (case rows of
        [] \<Rightarrow> Inl IndexError
      | r # rs \<Rightarrow> Inr (filter (\<lambda>x. warmup_seconds * 1000 \<le> int (row_completed x) - int (row_completed r)) rows))"

definition duplicate_rows :: "req_row list \<Rightarrow> req_row list" where
  "duplicate_rows rows = filter (\<lambda>r. 1 < length (filter (\<lambda>x. row_id x = row_id r) rows)) rows"

definition latency_report :: "stats_ops \<Rightarrow> rat list \<Rightarrow> json" where
  "latency_report st runtime =
     JObj (map (\<lambda>p. (int_str p, JFloat (np_percentile st runtime p))) [10, 20, 30, 40, 50, 60, 70, 80, 90, 95, 99]
       @ [(''max'', JFloat (Max (set runtime))), (''min'', JFloat (Min (set runtime))),
          (''mean'', JFloat (np_average st runtime))])"

definition metrics_report :: "stats_ops \<Rightarrow> int \<Rightarrow> req_row list \<Rightarrow> json py" where
  "metrics_report st warmup_seconds rows =
     (let origin = sort_completed st rows;
          unique = distinct (map row_id origin)
      in rbind (after_warmup warmup_seconds origin) (\<lambda>input_msgs.
         if input_msgs = [] then Inl ValueError
         else let runtime = map row_latency input_msgs
              in rbind (throughput_vals (map row_completed input_msgs)) (\<lambda>vals.
                 Inr (JObj [(''duplicate_requests'', JBool (\<not> unique)),
                   (''exactly_once_output'', JBool unique),
                   (''latency (ms)'', latency_report st runtime),
                   (''missed messages'', JInt 0),
                   (''throughput'', JObj [(''max'', JInt (int (Max (set vals)))),
                      (''avg'', JFloat (fdiv (of_pyint (int (sum_list vals))) (of_pyint (int (length vals))))),
                      (''TPS'', JArr (map (\<lambda>v. JInt (int v)) vals))]),
                   (''duplicate_messages'', JInt (int (length (duplicate_rows origin))))]))))"

subsection \<open>The two programs\<close>

definition ycsb_exp_name :: "int \<Rightarrow> json \<Rightarrow> int \<Rightarrow> string" where
  "ycsb_exp_name input_rate zipf_const client_threads =
     (if num_lt (JFloat 0) zipf_const = Some True
      then ''ycsbt_zipf_'' @ py_str zipf_const @ ''_'' @ int_str (input_rate * client_threads)
      else ''ycsbt_uni_'' @ int_str (input_rate * client_threads))"

definition ycsb_metrics_main ::
  "stats_ops \<Rightarrow> req_row list \<Rightarrow> int \<Rightarrow> int \<Rightarrow> json \<Rightarrow> int \<Rightarrow> int \<Rightarrow> string \<Rightarrow> bool \<Rightarrow> (string \<times> json) py" where
  "ycsb_metrics_main st rows n_keys input_rate zipf_const client_threads warmup_seconds save_dir validate =
     rbind (metrics_report st warmup_seconds rows) (\<lambda>res_dict.
     if validate then Inl ValueError
     else Inr (save_dir @ ''/'' @ ycsb_exp_name input_rate zipf_const client_threads @ ''.json'', res_dict))"

definition hotel_metrics_main ::
  "stats_ops \<Rightarrow> req_row list \<Rightarrow> string \<Rightarrow> int \<Rightarrow> int \<Rightarrow> int \<Rightarrow> (string \<times> json) py" where
  "hotel_metrics_main st rows save_dir input_rate warmup_seconds client_threads =
     rbind (metrics_report st warmup_seconds rows) (\<lambda>res_dict.
     Inr (save_dir @ ''/d_hotel_reservation_'' @ int_str (input_rate * client_threads) @ ''.json'', res_dict))"

text \<open>The command lines. \<open>argv\<close> includes the name of the program.\<close>

definition argv_get :: "string list \<Rightarrow> nat \<Rightarrow> string py" where
  "argv_get argv i = of_option IndexError (nth_opt argv i)"

definition ycsb_metrics_cli ::
  "stats_ops \<Rightarrow> (string \<Rightarrow> req_row list) \<Rightarrow> string list \<Rightarrow> (string \<times> json) py" where
  "ycsb_metrics_cli st read_csv argv =
     (if length argv \<noteq> 8 then Inl ValueError
      else rbind (int_of_str (argv ! 2)) (\<lambda>warmup_seconds.
           rbind (int_of_str (argv ! 3)) (\<lambda>n_keys.
           rbind (int_of_str (argv ! 4)) (\<lambda>input_rate.
           rbind (float_of_str (argv ! 5)) (\<lambda>zipf_const.
           rbind (int_of_str (argv ! 6)) (\<lambda>client_threads.
           ycsb_metrics_main st (read_csv (argv ! 1)) n_keys input_rate zipf_const client_threads
             warmup_seconds (argv ! 1) (str_lower (argv ! 7) = ''true'')))))))"

definition hotel_metrics_cli ::
  "stats_ops \<Rightarrow> (string \<Rightarrow> req_row list) \<Rightarrow> string list \<Rightarrow> (string \<times> json) py" where
  "hotel_metrics_cli st read_csv argv =
     rbind (argv_get argv 1) (\<lambda>save_dir.
     rbind (rbind (argv_get argv 2) int_of_str) (\<lambda>input_rate.
     rbind (rbind (argv_get argv 3) int_of_str) (\<lambda>warmup_seconds.
     rbind (rbind (argv_get argv 4) int_of_str) (\<lambda>client_threads.
     hotel_metrics_main st (read_csv save_dir) save_dir input_rate warmup_seconds client_threads))))"

subsection \<open>Lemmas on the throughput\<close>

text \<open>
  The groups of the loop: each starts with its first time and holds the following times up to
  one second later.
\<close>

function groups :: "nat \<Rightarrow> nat list \<Rightarrow> nat list list" where
  "groups g [] = []"
| "groups g (t # ts) =
     (t # takeWhile (\<lambda>u. int u - int t \<le> int g) ts) # groups g (dropWhile (\<lambda>u. int u - int t \<le> int g) ts)"
  by pat_completeness auto

termination
  by (relation "measure (\<lambda>(g, ts). length ts)") (auto simp: le_imp_less_Suc length_dropWhile_le)

lemma throughput_loop_run:
  "throughput_loop g (Some s) (vs @ [n]) ts =
     throughput_loop g (Some s) (vs @ [n + length (takeWhile (\<lambda>u. int u - int s \<le> int g) ts)])
       (dropWhile (\<lambda>u. int u - int s \<le> int g) ts)"
  by (induction ts arbitrary: n) (auto simp: bump_last_def)

lemma throughput_loop_groups:
  assumes "case start of None \<Rightarrow> True | Some s \<Rightarrow> (case ts of [] \<Rightarrow> True | t # _ \<Rightarrow> int g < int t - int s)"
  shows "throughput_loop g start vs ts = Inr (vs @ map length (groups g ts))"
  using assms
proof (induction g ts arbitrary: start vs rule: groups.induct)
  case (1 g)
  then show ?case by simp
next
  case (2 g t ts)
  let ?P = "\<lambda>u. int u - int t \<le> int g"
  have "throughput_loop g start vs (t # ts) = throughput_loop g (Some t) (vs @ [1]) ts"
    using 2(2) by (cases start) auto
  also have "\<dots> = throughput_loop g (Some t) (vs @ [1 + length (takeWhile ?P ts)]) (dropWhile ?P ts)"
    by (rule throughput_loop_run)
  also have "\<dots> = Inr ((vs @ [1 + length (takeWhile ?P ts)]) @ map length (groups g (dropWhile ?P ts)))"
  proof (rule 2(1))
    show "case Some t of None \<Rightarrow> True | Some s \<Rightarrow> (case dropWhile ?P ts of [] \<Rightarrow> True | t # _ \<Rightarrow> int g < int t - int s)"
    proof (cases "dropWhile ?P ts")
      case (Cons u us)
      with hd_dropWhile [of ?P ts] have "\<not> ?P u" by simp
      with Cons show ?thesis by simp
    next
      case Nil
      then show ?thesis by (simp only: list.case option.case)
    qed
  qed
  finally show ?case by simp
qed

lemma concat_groups: "concat (groups g ts) = ts"
  by (induction g ts rule: groups.induct) simp_all

lemma groups_within:
  "xs \<in> set (groups g ts) \<Longrightarrow> xs \<noteq> [] \<and> (\<forall>u\<in>set xs. int u - int (hd xs) \<le> int g)"
proof (induction g ts rule: groups.induct)
  case (2 g t ts)
  then consider "xs = t # takeWhile (\<lambda>u. int u - int t \<le> int g) ts"
    | "xs \<in> set (groups g (dropWhile (\<lambda>u. int u - int t \<le> int g) ts))" by auto
  then show ?case
  proof cases
    case 1
    then show ?thesis using set_takeWhileD by fastforce
  next
    case a: 2
    then show ?thesis using 2 by blast
  qed
qed simp

lemma groups_ne: "groups g ts = [] \<longleftrightarrow> ts = []"
  by (cases ts) auto

lemma sum_lengths: "sum_list (map length xss) = length (concat xss)"
  by (induction xss) auto

subsection \<open>Properties\<close>

text \<open>
  The throughput counts every sample once. For any sequence of completion times the loop
  never misses a bucket; the buckets split the sequence, in order, into groups that span at
  most one second from their first time, and their counts add up to the number of samples.
\<close>

lemma throughput_partition:
  "\<exists>gs. throughput_vals ts = Inr (map length gs) \<and> concat gs = ts
      \<and> (\<forall>g\<in>set gs. g \<noteq> [] \<and> (\<forall>u\<in>set g. int u - int (hd g) \<le> 1000))
      \<and> sum_list (map length gs) = length ts"
proof -
  have "throughput_vals ts = Inr (map length (groups 1000 ts))"
    unfolding throughput_vals_def using throughput_loop_groups [where start = None and ts = ts and g = 1000 and vs = "[]"] by simp
  then show ?thesis
    using groups_within [of _ 1000 ts] sum_lengths [of "groups 1000 ts"]
    by (intro exI [of _ "groups 1000 ts"]) (simp add: concat_groups)
qed

text \<open>
  The warmup filter. After a sort by completion time the report is computed from exactly
  the samples that completed at least the warmup time after the first one; with no sample at
  all, or with none left, the program raises instead of writing a file.
\<close>

lemma metrics_report_samples:
  assumes "sorts_rows st" and "sort_completed st rows = r # rs"
  shows "(\<forall>x\<in>set rows. row_completed r \<le> row_completed x)
    \<and> (\<exists>ms. after_warmup w (sort_completed st rows) = Inr ms
         \<and> mset ms = filter_mset (\<lambda>x. w * 1000 \<le> int (row_completed x) - int (row_completed r)) (mset rows)
         \<and> ((\<exists>d. metrics_report st w rows = Inr d) \<longleftrightarrow> ms \<noteq> []))"
proof -
  have s: "mset (r # rs) = mset rows" "sorted (map row_completed (r # rs))"
    using assms unfolding sorts_rows_def by metis+
  have "row_completed r \<le> row_completed x" if "x \<in> set rows" for x
    using s that mset_eq_setD [OF s(1)] by auto
  moreover define ms where "ms = filter (\<lambda>x. w * 1000 \<le> int (row_completed x) - int (row_completed r)) (r # rs)"
  have a: "after_warmup w (sort_completed st rows) = Inr ms" using assms(2) by (simp add: after_warmup_def ms_def)
  moreover have "mset ms = filter_mset (\<lambda>x. w * 1000 \<le> int (row_completed x) - int (row_completed r)) (mset rows)"
    unfolding ms_def mset_filter s(1) ..
  moreover have "(\<exists>d. metrics_report st w rows = Inr d) \<longleftrightarrow> ms \<noteq> []"
    using a throughput_loop_groups [where start = None and ts = "map row_completed ms" and g = 1000 and vs = "[]"]
    by (simp add: metrics_report_def throughput_vals_def Let_def)
  ultimately show ?thesis by blast
qed

definition plain_stats :: stats_ops where
  "plain_stats = \<lparr>sort_completed = sort_key row_completed, np_percentile = (\<lambda>xs p. 0), np_average = (\<lambda>xs. 0)\<rparr>"

end
