(* ===== verification/Bench.thy ===== *)
theory Bench
  imports ClientMetrics Metrics
begin

section \<open>The common parts of the benchmark clients\<close>

text \<open>
  The four programs \<open>client-nats.py\<close> share their structure: initial data is written through a
  workflow, worker processes issue requests at a given pace and collect the acknowledgements,
  and the main program waits for the completions and computes the latencies. The parts that
  they spell alike are modelled here, each program instantiates them. The clock, the timers and
  the order in which futures complete are arguments.
\<close>

subsection \<open>Composing client operations\<close>

definition pfinally :: "'a client_op \<Rightarrow> unit client_op \<Rightarrow> 'a client_op" where
  "pfinally m fin =
     (\<lambda>s. case m s of (r, s1) \<Rightarrow> (case fin s1 of (Inl e, s2) \<Rightarrow> (Inl e, s2) | (Inr u, s2) \<Rightarrow> (r, s2)))"

text \<open>
  \<open>wait_for_requests\<close> run to its end: while it waits, the pull loop works off the fetches
  \<open>arrivals\<close>; if the event is not set by then, the wait times out.
\<close>

definition wait_for_requests ::
  "(int set \<Rightarrow> int list) \<Rightarrow> (action list \<Rightarrow> fetch list) \<Rightarrow> json option \<Rightarrow> (int, json) pydict option
     \<Rightarrow> int list \<Rightarrow> (int, json) pydict client_op" where
  "wait_for_requests as_list arrivals timeout meta ids =
     (\<lambda>s. case wait_for_requests_start ids (self s) of
        (Inl r, c) \<Rightarrow> (r, s\<lparr>self := c\<rparr>)
      | (Inr e, c) \<Rightarrow>
          (case metrics_pull_loop (arrivals (trace s)) c 0 of
             (t, c1, acks) \<Rightarrow>
               let c2 = c1\<lparr>metrics_task := Some t\<rparr>
               in case wait_for_requests_end as_list timeout meta ids e (e \<notin> set_events c2) c2 of
                    (r, c3) \<Rightarrow> (r, s\<lparr>self := c3\<rparr>)))"

text \<open>
  What a run finds of the outside world. Acknowledgements and arrivals depend, as the answers of
  the network do, on the actions so far.
\<close>

record world =
  w_net :: net
  w_installed :: bool
  w_malformed :: "bytes \<Rightarrow> string"
  w_fs :: "string \<Rightarrow> string py"
  w_as_list :: "int set \<Rightarrow> int list"
  w_ack_seq :: "action list \<Rightarrow> nat \<Rightarrow> int py"
  w_completed :: "action list \<Rightarrow> nat \<Rightarrow> nat list"
  w_arrivals :: "action list \<Rightarrow> fetch list"

definition bench_client_args :: "json \<Rightarrow> client_args" where
  "bench_client_args wait_timeout =
     default_args\<lparr>arg_publish_async_max_pending := 50000, arg_metrics_pull_batch := 1000,
       arg_metrics_pull_timeout_s := JFloat (dec 1 (-1)), arg_metrics_wait_timeout_s := wait_timeout\<rparr>"

subsection \<open>Workflows and initial data\<close>

definition task_json :: "string \<Rightarrow> (string \<times> string) list \<Rightarrow> json" where
  "task_json func resources =
     JObj [(''type'', JStr ''Task''), (''func_id'', JStr func),
           (''resources'', JObj (map (\<lambda>(k, v). (k, JStr v)) resources))]"

definition workflow_json :: "string \<Rightarrow> json list \<Rightarrow> (string \<times> json) list" where
  "workflow_json wid tasks = [(''id'', JStr wid), (''tasks'', JArr tasks)]"

definition write_payload :: "string \<Rightarrow> string \<times> json \<Rightarrow> json" where
  "write_payload workflow_id = (\<lambda>(key, value).
     JObj [(''workflow_id'', JStr workflow_id), (''input'', JObj [(''key'', JStr key), (''value'', value)])])"

text \<open>
  The ids are waited for as a list, or as the mapping of each id to its position, whose values
  only show in the text of a timeout.
\<close>

definition index_of_ids :: "int list \<Rightarrow> (int, json) pydict" where
  "index_of_ids ids = dict_of (map (\<lambda>i. (ids ! i, JInt (int i))) [0..<length ids])"

definition init_data :: "world \<Rightarrow> string \<Rightarrow> bool \<Rightarrow> (string \<times> json) list \<Rightarrow> unit client_op" where
  "init_data w workflow_id as_mapping entries =
     (\<lambda>s. pbind (publish_invocations (w_net w) (w_ack_seq w (trace s)) (w_completed w (trace s))
              (map (write_payload workflow_id) entries)) (\<lambda>req_ids.
           pbind (if as_mapping
                  then wait_for_requests (w_as_list w) (w_arrivals w) None (Some (index_of_ids req_ids))
                         (map fst (index_of_ids req_ids))
                  else wait_for_requests (w_as_list w) (w_arrivals w) None None req_ids) (\<lambda>_. ret ())) s)"

subsection \<open>The paced requests of one worker\<close>

type_synonym request = "string \<times> (string \<times> json) list \<times> bool option"

record 'm bench =
  b_seconds :: int
  b_rate :: int
  b_sleeps_per_second :: int
  b_sleep_time :: json
  b_elapsed :: "nat \<Rightarrow> rat"  \<comment> \<open>the duration of each second, by the timer\<close>
  b_request :: "nat \<Rightarrow> request py"
  b_meta :: "nat \<Rightarrow> request \<Rightarrow> 'm"

definition bench_step :: "'m bench \<Rightarrow> int" where
  "bench_step b = max 1 (b_rate b div b_sleeps_per_second b)"

fun run_requests :: "net \<Rightarrow> 'm bench \<Rightarrow> int list \<Rightarrow> nat \<Rightarrow> 'm list client_op" where
  "run_requests net b [] n = ret []"
| "run_requests net b (i # is) n =
     pbind (if i mod bench_step b = 0 then note_action (Sleep (b_sleep_time b)) else ret ()) (\<lambda>_.
     pbind (pure_eff (b_request b n)) (\<lambda>(wid, inp, can_abort).
     pbind (invoke_workflow net wid inp can_abort) (\<lambda>_.
     pbind (run_requests net b is (n + 1)) (\<lambda>ms.
     ret (b_meta b n (wid, inp, can_abort) # ms)))))"

fun run_seconds :: "net \<Rightarrow> 'm bench \<Rightarrow> nat \<Rightarrow> nat \<Rightarrow> nat \<Rightarrow> 'm list client_op" where
  "run_seconds net b 0 second n = ret []"
| "run_seconds net b (Suc k) second n =
     pbind (run_requests net b [0..b_rate b - 1] n) (\<lambda>ms.
     pbind (if b_elapsed b second < 1 then note_action (Sleep (JFloat (fsub 1 (b_elapsed b second)))) else ret ()) (\<lambda>_.
     pbind (run_seconds net b k (second + 1) (n + length ms)) (\<lambda>ms'.
     ret (ms @ ms'))))"

text \<open>The acknowledgements arrive in some order; each stores its metadata under its number.\<close>

definition collect_acks :: "world \<Rightarrow> action list \<Rightarrow> 'm list \<Rightarrow> (int, 'm) pydict py" where
  "collect_acks w tr ms =
     rbind (rmap (\<lambda>i. rbind (w_ack_seq w tr i) (\<lambda>q. Inr (q, ms ! i))) (w_completed w tr (length ms)))
       (\<lambda>kvs. Inr (dict_of kvs))"

definition bench_runner :: "world \<Rightarrow> 'm bench \<Rightarrow> (int, 'm) pydict client_op" where
  "bench_runner w b =
     pbind (connect (w_net w) (w_installed w) False) (\<lambda>_.
     pfinally
       (pbind (run_seconds (w_net w) b (nat (b_seconds b)) 0 0) (\<lambda>ms s. pure_eff (collect_acks w (trace s) ms) s))
       (close (w_net w)))"

text \<open>
  \<open>run_pool\<close> runs one worker per process and returns the results in the order of the workers;
  an exception of one of them is raised.
\<close>

definition run_pool :: "(int \<Rightarrow> 'r py) \<Rightarrow> int \<Rightarrow> 'r list py" where
  "run_pool worker threads = rmap worker [0..threads - 1]"

definition merge_results :: "(int, 'm) pydict list \<Rightarrow> (int, 'm) pydict" where
  "merge_results ds = dict_of (concat ds)"

text \<open>\<open>v - n\<close> for a JSON value and an integer.\<close>

fun py_minus :: "json \<Rightarrow> int \<Rightarrow> json py" where
  "py_minus (JInt m) n = Inr (JInt (m - n))"
| "py_minus (JBool b) n = Inr (JInt ((if b then 1 else 0) - n))"
| "py_minus (JFloat x) n = Inr (JFloat (fsub x (of_pyint n)))"
| "py_minus JNaN n = Inr JNaN"
| "py_minus (JInf b) n = Inr (JInf b)"
| "py_minus _ n = Inl TypeError"

subsection \<open>The completions and the rows of the CSV file\<close>

text \<open>
  What the YCSB and the hotel program keep of a request: the dict with the keys \<open>op\<close> and
  \<open>started_at_ms\<close>, to which the completion adds two keys.
\<close>

record req_meta =
  m_op :: string
  m_started :: int
  m_completed :: "json option"
  m_latency :: "json option"

definition meta_json :: "req_meta \<Rightarrow> json" where
  "meta_json m = JObj ([(''op'', JStr (m_op m)), (''started_at_ms'', JInt (m_started m))]
     @ (case m_completed m of None \<Rightarrow> [] | Some v \<Rightarrow> [(''completed_at_ms'', v)])
     @ (case m_latency m of None \<Rightarrow> [] | Some v \<Rightarrow> [(''latency_ms'', v)]))"

fun add_completions :: "(int, json) pydict \<Rightarrow> (int, req_meta) pydict \<Rightarrow> (int, req_meta) pydict py" where
  "add_completions [] results = Inr results"
| "add_completions ((key, resp) # ms) results =
     rbind (jget resp ''completed_at'') (\<lambda>completed_at_ms.
     rbind (of_option (KeyError (int_str key)) (map_of results key)) (\<lambda>m.
     rbind (py_minus completed_at_ms (m_started m)) (\<lambda>latency_ms.
     add_completions ms (AList.update key
       (m\<lparr>m_completed := Some completed_at_ms, m_latency := Some latency_ms\<rparr>) results))))"

record csv_row =
  csv_id :: int
  csv_latency :: json
  csv_completed :: json
  csv_op :: string

definition csv_rows :: "(int, req_meta) pydict \<Rightarrow> csv_row list py" where
  "csv_rows results =
     rbind (rmap (\<lambda>(k, m). of_option (KeyError ''latency_ms'') (m_latency m)) results) (\<lambda>latencies.
     rbind (rmap (\<lambda>(k, m). of_option (KeyError ''completed_at_ms'') (m_completed m)) results) (\<lambda>completions.
     Inr (map (\<lambda>i. \<lparr>csv_id = fst (results ! i), csv_latency = latencies ! i,
                       csv_completed = completions ! i, csv_op = m_op (snd (results ! i))\<rparr>)
            [0..<length results])))"

text \<open>
  The main program after the start of the metrics: \<open>init\<close> registers and writes the initial data,
  \<open>pool\<close> is what the worker processes return. The rows are sorted and written by pandas.
\<close>

definition client_main ::
  "world \<Rightarrow> bool \<Rightarrow> unit client_op \<Rightarrow> (int, req_meta) pydict list py \<Rightarrow> csv_row list client_op" where
  "client_main w as_mapping init pool =
     pbind (connect (w_net w) (w_installed w) True) (\<lambda>_.
     pfinally
       (pbind init (\<lambda>_.
        pbind (pure_eff pool) (\<lambda>ds.
        pbind (let results = merge_results ds
               in wait_for_requests (w_as_list w) (w_arrivals w) None
                    (if as_mapping then Some (map (\<lambda>(k, m). (k, meta_json m)) results) else None)
                    (map fst results)) (\<lambda>workflow_metrics.
        pbind (pure_eff (add_completions workflow_metrics (merge_results ds))) (\<lambda>results.
        pure_eff (csv_rows results))))))
       (close (w_net w)))"

subsection \<open>Lemmas\<close>

definition is_publish :: "action \<Rightarrow> bool" where
  "is_publish a \<longleftrightarrow> (case a of PublishAsync _ _ \<Rightarrow> True | _ \<Rightarrow> False)"

lemma is_publish_simps [simp]: "is_publish (PublishAsync a b)" "\<not> is_publish (Sleep t)"
  by (simp_all add: is_publish_def)

lemma invoke_workflow_Inr:
  assumes "invoke_workflow net wid inp ca s = (Inr r, s')"
  shows "s' = s\<lparr>trace := trace s @ [PublishAsync (invoke_subject (self s))
           (str_encode (dumps (invocation_payload wid inp ca)))]\<rparr>"
  using assms
  by (auto simp: invoke_workflow_def publish_invocation_def require_connection_def pbind_Inr_iff split: if_splits)

lemma run_requests_count:
  "run_requests net b is n s = (Inr ms, s') \<Longrightarrow>
     \<exists>ts. s' = s\<lparr>trace := trace s @ ts\<rparr> \<and> length ms = length is \<and> length (filter is_publish ts) = length is"
proof (induction "is" arbitrary: n s ms)
  case Nil
  then show ?case by (intro exI [of _ "[]"]) simp
next
  case (Cons i js)
  define pre where "pre = (if i mod bench_step b = 0 then [Sleep (b_sleep_time b)] else [])"
  define s1 where "s1 = s\<lparr>trace := trace s @ pre\<rparr>"
  have s1: "s1 = s\<lparr>trace := trace s @ pre\<rparr>" "filter is_publish pre = []"
    "(if i mod bench_step b = 0 then note_action (Sleep (b_sleep_time b)) else ret ()) s = (Inr (), s1)"
    by (simp_all add: s1_def pre_def)
  from Cons.prems s1(3) obtain wid inp ca r s2 ms' where r:
    "invoke_workflow net wid inp ca s1 = (Inr r, s2)"
    "run_requests net b js (n + 1) s2 = (Inr ms', s')" "ms = b_meta b n (wid, inp, ca) # ms'"
    by (auto simp: pbind_Inr_iff)
  from Cons.IH [OF r(2)] obtain ts where ts: "s' = s2\<lparr>trace := trace s2 @ ts\<rparr>" "length ms' = length js"
    "length (filter is_publish ts) = length js" by blast
  show ?case using invoke_workflow_Inr [OF r(1)] s1(1,2) ts r(3)
    by (intro exI [of _ "pre @ [PublishAsync (invoke_subject (self s1))
      (str_encode (dumps (invocation_payload wid inp ca)))] @ ts"]) simp
qed

lemma run_seconds_count:
  "run_seconds net b k second n s = (Inr ms, s') \<Longrightarrow>
     \<exists>ts. s' = s\<lparr>trace := trace s @ ts\<rparr> \<and> length ms = k * nat (b_rate b) \<and> length (filter is_publish ts) = k * nat (b_rate b)"
proof (induction k arbitrary: second n s ms)
  case 0
  then show ?case by (intro exI [of _ "[]"]) simp
next
  case (Suc k)
  then obtain ms1 s1 s2 ms2 where r:
    "run_requests net b [0..b_rate b - 1] n s = (Inr ms1, s1)"
    "(if b_elapsed b second < 1 then note_action (Sleep (JFloat (fsub 1 (b_elapsed b second)))) else ret ()) s1 = (Inr (), s2)"
    "run_seconds net b k (second + 1) (n + length ms1) s2 = (Inr ms2, s')" "ms = ms1 @ ms2"
    by (auto simp: pbind_Inr_iff)
  from run_requests_count [OF r(1)] obtain ts1 where t1: "s1 = s\<lparr>trace := trace s @ ts1\<rparr>"
    "length ms1 = nat (b_rate b)" "length (filter is_publish ts1) = nat (b_rate b)" by auto
  define mid where "mid = (if b_elapsed b second < 1 then [Sleep (JFloat (fsub 1 (b_elapsed b second)))] else [])"
  have mid: "s2 = s1\<lparr>trace := trace s1 @ mid\<rparr>" "filter is_publish mid = []"
    using r(2) by (auto simp: mid_def split: if_splits)
  from Suc.IH [OF r(3)] obtain ts2 where "s' = s2\<lparr>trace := trace s2 @ ts2\<rparr>"
    "length ms2 = k * nat (b_rate b)" "length (filter is_publish ts2) = k * nat (b_rate b)" by blast
  with t1 mid r(4) show ?case by (intro exI [of _ "ts1 @ mid @ ts2"]) simp
qed

text \<open>Operations that publish nothing, and operations that leave the pull task alone.\<close>

definition published :: "session \<Rightarrow> nat" where
  "published s = length (filter is_publish (trace s))"

lemma published_ops:
  "preserves (\<lambda>s. published s = k) get_self"
  "preserves (\<lambda>s. published s = k) (update_self f)"
  "\<not> is_publish a \<Longrightarrow> preserves (\<lambda>s. published s = k) (perform net a)"
  by (simp_all add: preserves_def published_def)

lemma task_ops:
  "preserves (\<lambda>s. metrics_task (self s) = None) get_self"
  "preserves (\<lambda>s. metrics_task (self s) = None) (perform net a)"
  "preserves (\<lambda>s. metrics_task (self s) = None) (note_action a)"
  by (simp_all add: preserves_def)

lemma published_stop: "preserves (\<lambda>s. published s = k) (stop_metrics net)"
  unfolding stop_metrics_def
  by (auto intro!: preserves_pbind preserves_ptry published_ops simp: is_publish_def split: option.splits)

lemma published_close: "preserves (\<lambda>s. published s = k) (close net)"
  unfolding close_def
  by (auto intro!: preserves_pbind preserves_ptry published_ops published_stop simp: is_publish_def)

lemma connect_plain:
  "connect net inst False s = (Inr u, s0) \<Longrightarrow> published s0 = published s \<and> metrics_task (self s0) = metrics_task (self s)"
  by (auto simp: connect_def load_nats_def pbind_Inr_iff published_def is_publish_def split: if_splits)

lemma task_invoke: "preserves (\<lambda>s. metrics_task (self s) = None) (invoke_workflow net wid inp ca)"
  unfolding invoke_workflow_def publish_invocation_def require_connection_def
  by (auto intro!: preserves_pbind task_ops)

lemma task_run_requests: "preserves (\<lambda>s. metrics_task (self s) = None) (run_requests net b is n)"
  by (induction "is" arbitrary: n) (auto intro!: preserves_pbind task_ops task_invoke split: prod.splits)

lemma task_run_seconds: "preserves (\<lambda>s. metrics_task (self s) = None) (run_seconds net b k second n)"
  by (induction k arbitrary: second n) (auto intro!: preserves_pbind task_ops task_run_requests)

subsection \<open>Lemmas on completions and rows\<close>

definition completes :: "json \<Rightarrow> req_meta \<Rightarrow> req_meta \<Rightarrow> bool" where
  "completes resp m m' \<longleftrightarrow> (\<exists>t l. jget resp ''completed_at'' = Inr t \<and> py_minus t (m_started m) = Inr l
     \<and> m' = m\<lparr>m_completed := Some t, m_latency := Some l\<rparr>)"

lemma update_keys_same: "map_of d k = Some v \<Longrightarrow> map fst (AList.update k w d) = map fst d"
  by (induction d) (auto split: if_splits)

lemma add_completions_spec:
  "add_completions ms results = Inr results' \<Longrightarrow> distinct (map fst ms) \<Longrightarrow>
     map fst results' = map fst results
   \<and> (\<forall>k. k \<notin> fst ` set ms \<longrightarrow> map_of results' k = map_of results k)
   \<and> (\<forall>k resp. (k, resp) \<in> set ms \<longrightarrow>
        (\<exists>m m'. map_of results k = Some m \<and> map_of results' k = Some m' \<and> completes resp m m'))"
proof (induction ms results rule: add_completions.induct)
  case (1 results)
  then show ?case by simp
next
  case (2 key resp ms results)
  from "2.prems"(1) obtain t m l where r: "jget resp ''completed_at'' = Inr t" "map_of results key = Some m"
    "py_minus t (m_started m) = Inr l"
    "add_completions ms (AList.update key (m\<lparr>m_completed := Some t, m_latency := Some l\<rparr>) results) = Inr results'"
    by (auto simp: rbind_Inr_iff)
  let ?m' = "m\<lparr>m_completed := Some t, m_latency := Some l\<rparr>"
  have key: "key \<notin> fst ` set ms" "distinct (map fst ms)" using "2.prems"(2) by auto
  note IH = "2.IH" [OF r(4) key(2)]
  have IH: "map fst results' = map fst (AList.update key ?m' results)"
    "\<And>k. k \<notin> fst ` set ms \<Longrightarrow> map_of results' k = map_of (AList.update key ?m' results) k"
    "\<And>k rs. (k, rs) \<in> set ms \<Longrightarrow> \<exists>n n'. map_of (AList.update key ?m' results) k = Some n
       \<and> map_of results' k = Some n' \<and> completes rs n n'"
    using IH by auto
  have "completes resp m ?m'" using r by (auto simp: completes_def)
  moreover have "map_of results' key = Some ?m'" using IH(2) [OF key(1)] by (simp add: map_of_update)
  moreover have "k \<noteq> key" if "(k, rs) \<in> set ms" for k rs using key(1) that by force
  ultimately show ?case
    using IH(1,2) IH(3) update_keys_same [OF r(2)] r(2) by (auto simp: map_of_update)
qed

lemma csv_rows_spec:
  assumes "csv_rows results = Inr rows"
  shows "length rows = length results" and "i < length results \<Longrightarrow>
     csv_id (rows ! i) = fst (results ! i) \<and> csv_op (rows ! i) = m_op (snd (results ! i))
   \<and> m_latency (snd (results ! i)) = Some (csv_latency (rows ! i))
   \<and> m_completed (snd (results ! i)) = Some (csv_completed (rows ! i))"
proof -
  obtain ls cs where ls: "rmap (\<lambda>(k, m). of_option (KeyError ''latency_ms'') (m_latency m)) results = Inr ls"
    "rmap (\<lambda>(k, m). of_option (KeyError ''completed_at_ms'') (m_completed m)) results = Inr cs"
    "rows = map (\<lambda>i. \<lparr>csv_id = fst (results ! i), csv_latency = ls ! i,
       csv_completed = cs ! i, csv_op = m_op (snd (results ! i))\<rparr>) [0..<length results]"
    using assms by (auto simp: csv_rows_def rbind_Inr_iff)
  show "length rows = length results" by (simp add: ls(3))
  show "i < length results \<Longrightarrow>
     csv_id (rows ! i) = fst (results ! i) \<and> csv_op (rows ! i) = m_op (snd (results ! i))
   \<and> m_latency (snd (results ! i)) = Some (csv_latency (rows ! i))
   \<and> m_completed (snd (results ! i)) = Some (csv_completed (rows ! i))"
    using rmap_Inr_nth [OF ls(1), of i] rmap_Inr_nth [OF ls(2), of i] by (simp add: ls(3) split: prod.splits)
qed

lemma collect_metrics_keys:
  assumes "collect_metrics ids c = Inr d" and "distinct ids"
  shows "map fst d = ids" and "(i, p) \<in> set d \<Longrightarrow> map_of (metrics_by_id c) i = Some p"
proof -
  obtain kvs where k: "rmap (\<lambda>i. rbind (of_option (KeyError (int_str i)) (map_of (metrics_by_id c) i)) (\<lambda>p. Inr (i, p))) ids = Inr kvs"
    "d = dict_of kvs" using assms(1) by (auto simp: collect_metrics_def rbind_Inr_iff)
  have n: "\<exists>p. map_of (metrics_by_id c) (ids ! j) = Some p \<and> kvs ! j = (ids ! j, p)" if "j < length ids" for j
    using rmap_Inr_nth [OF k(1) that] by (auto simp: rbind_Inr_iff)
  have l: "length kvs = length ids" using rmap_Inr_length [OF k(1)] .
  have f: "map fst kvs = ids" by (rule nth_equalityI) (use l n in force)+
  then have d: "d = kvs" using k(2) assms(2) by simp
  show "map fst d = ids" using f d by simp
  show "(i, p) \<in> set d \<Longrightarrow> map_of (metrics_by_id c) i = Some p"
    using n l unfolding d by (fastforce simp: in_set_conv_nth)
qed

lemma wait_for_requests_Inr:
  assumes "wait_for_requests al arr tmo meta ids s = (Inr d, s')" and "distinct ids"
  shows "map fst d = ids" and "(i, p) \<in> set d \<Longrightarrow> map_of (metrics_by_id (self s')) i = Some p"
proof -
  have "\<exists>c. collect_metrics ids c = Inr d \<and> metrics_by_id (self s') = metrics_by_id c"
    using assms(1)
    by (auto simp: wait_for_requests_def wait_for_requests_start_def wait_for_requests_end_def Let_def
        collect_metrics_def split: if_splits sum.splits prod.splits)
  with collect_metrics_keys [OF _ assms(2)] show "map fst d = ids"
    and "(i, p) \<in> set d \<Longrightarrow> map_of (metrics_by_id (self s')) i = Some p" by auto
qed

subsection \<open>Lemmas on the main program\<close>

lemma merge_results_keys [simp]: "distinct (map fst (merge_results ds))"
  by (simp add: merge_results_def)

lemma by_id_ops:
  "preserves (\<lambda>s. metrics_by_id (self s) = d) get_self"
  "preserves (\<lambda>s. metrics_by_id (self s) = d) (perform net a)"
  "(\<And>c. metrics_by_id (f c) = metrics_by_id c) \<Longrightarrow> preserves (\<lambda>s. metrics_by_id (self s) = d) (update_self f)"
  by (simp_all add: preserves_def)

lemma stop_metrics_by_id: "preserves (\<lambda>s. metrics_by_id (self s) = d) (stop_metrics net)"
  unfolding stop_metrics_def
  by (auto intro!: preserves_pbind preserves_ptry by_id_ops split: option.splits)

lemma close_by_id: "preserves (\<lambda>s. metrics_by_id (self s) = d) (close net)"
  unfolding close_def
  by (auto intro!: preserves_pbind preserves_ptry by_id_ops stop_metrics_by_id)

lemma close_Inr: "close net s = (Inr u, s') \<Longrightarrow> \<not> nc (self s')"
  by (auto simp: close_def pbind_Inr_iff split: if_splits)

lemma pfinally_Inr:
  "pfinally m fin s = (Inr x, s') \<longleftrightarrow> (\<exists>t u. m s = (Inr x, t) \<and> fin t = (Inr u, s'))"
  by (auto simp: pfinally_def split: prod.splits sum.splits)

definition row_of :: "client \<Rightarrow> (int, req_meta) pydict \<Rightarrow> csv_row \<Rightarrow> bool" where
  "row_of c results row \<longleftrightarrow> (\<exists>m resp. map_of results (csv_id row) = Some m \<and> csv_op row = m_op m
     \<and> map_of (metrics_by_id c) (csv_id row) = Some resp
     \<and> jget resp ''completed_at'' = Inr (csv_completed row)
     \<and> py_minus (csv_completed row) (m_started m) = Inr (csv_latency row))"

lemma client_main_rows:
  assumes "client_main w mp init pool s = (Inr rows, s')"
  shows "\<not> nc (self s') \<and> (\<exists>ds. pool = Inr ds \<and> map csv_id rows = map fst (merge_results ds)
     \<and> (\<forall>row\<in>set rows. row_of (self s') (merge_results ds) row))"
proof -
  define meta where "meta ds = (if mp then Some (map (\<lambda>(k, m). (k, meta_json m)) (merge_results ds)) else None)" for ds
  from assms obtain s0 t where c1: "pbind init (\<lambda>_. pbind (pure_eff pool) (\<lambda>ds.
        pbind (wait_for_requests (w_as_list w) (w_arrivals w) None (meta ds) (map fst (merge_results ds))) (\<lambda>workflow_metrics.
        pbind (pure_eff (add_completions workflow_metrics (merge_results ds))) (\<lambda>results.
        pure_eff (csv_rows results))))) s0 = (Inr rows, t)"
     and c2: "\<exists>u. close (w_net w) t = (Inr u, s')"
    unfolding client_main_def pbind_Inr_iff [of "connect _ _ _"] pfinally_Inr Let_def meta_def [symmetric]
    by blast
  obtain u where r5: "close (w_net w) t = (Inr u, s')" using c2 by blast
  from c1 obtain ds s1 wm where r: "pool = Inr ds"
    "wait_for_requests (w_as_list w) (w_arrivals w) None (meta ds) (map fst (merge_results ds)) s1 = (Inr wm, t)"
    "rbind (add_completions wm (merge_results ds)) csv_rows = Inr rows"
    by (auto simp: pbind_Inr_iff rbind_Inr_iff)
  from r(3) obtain results' where r3: "add_completions wm (merge_results ds) = Inr results'" "csv_rows results' = Inr rows"
    by (auto simp: rbind_Inr_iff)
  define res where "res = merge_results ds"
  have res: "distinct (map fst res)" by (simp add: res_def)
  note w = r(2) [folded res_def]
  have wm: "map fst wm = map fst res" "\<And>i p. (i, p) \<in> set wm \<Longrightarrow> map_of (metrics_by_id (self t)) i = Some p"
    using wait_for_requests_Inr [OF w res] by auto
  have same: "metrics_by_id (self s') = metrics_by_id (self t)"
    using close_by_id [of "metrics_by_id (self t)" "w_net w"] r5 unfolding preserves_def by (metis snd_conv)
  have dwm: "distinct (map fst wm)" using wm(1) res by simp
  note ac = add_completions_spec [OF r3(1) dwm]
  have keys: "map fst results' = map fst res" using ac by (simp add: res_def)
  note cr = csv_rows_spec [OF r3(2)]
  have ids: "map csv_id rows = map fst res"
    using keys [symmetric] cr by (intro nth_equalityI) (auto simp flip: keys)
  have "row_of (self s') res row" if "row \<in> set rows" for row
  proof -
    from that obtain i where i: "i < length results'" "row = rows ! i" using cr(1) by (auto simp: in_set_conv_nth)
    obtain k m' where km: "results' ! i = (k, m')" by (cases "results' ! i")
    have "distinct (map fst results')" using keys res by simp
    then have m': "map_of results' k = Some m'" using i km by (metis map_of_eq_Some_iff nth_mem)
    have "k \<in> set (map fst wm)" using wm(1) keys i km by (metis fst_conv length_map nth_map nth_mem)
    then obtain resp where resp: "(k, resp) \<in> set wm" by auto
    have "\<exists>m m'. map_of res k = Some m \<and> map_of results' k = Some m' \<and> completes resp m m'"
      unfolding res_def using ac resp by blast
    then obtain m where "map_of res k = Some m" "completes resp m m'" using m' by auto
    then show ?thesis using cr(2) [OF i(1)] km i(2) wm(2) [OF resp] same
      by (auto simp: row_of_def completes_def)
  qed
  then show ?thesis using close_Inr [OF r5] ids r(1) by (auto simp: res_def)
qed

subsection \<open>Properties\<close>

text \<open>
  C36: A worker keeps its rate and closes its connection. Once connected, whatever the network,
  the clock and the acknowledgements do, the worker ends with its connection closed; if it
  returns, it has published exactly \<open>rate\<close> requests for each of its seconds, and one with a
  cooperating network does return.
\<close>

theorem bench_runner_rate:
  assumes "connect (w_net w) (w_installed w) False s = (Inr (), s0)" and "metrics_task (self s) = None"
  shows "\<not> nc (self (snd (bench_runner w b s)))
    \<and> (\<forall>d. fst (bench_runner w b s) = Inr d \<longrightarrow>
          published (snd (bench_runner w b s)) = published s + nat (b_seconds b) * nat (b_rate b))"
proof -
  obtain r s1 where r: "run_seconds (w_net w) b (nat (b_seconds b)) 0 0 s0 = (r, s1)" by fastforce
  have "metrics_task (self s1) = None"
    using task_run_seconds [of "w_net w" b "nat (b_seconds b)" 0 0] connect_plain [OF assms(1)] assms(2) r
    unfolding preserves_def by (metis snd_conv)
  then obtain s2 where c: "close (w_net w) s1 = (Inr (), s2)" "\<not> nc (self s2)"
    using close_no_task by blast
  have "published s2 = published s1"
    using published_close [of "published s1" "w_net w"] c(1) unfolding preserves_def by (metis snd_conv)
  moreover have "published s1 = published s + nat (b_seconds b) * nat (b_rate b)" if "r = Inr ms" for ms
    using run_seconds_count [of "w_net w" b "nat (b_seconds b)" 0 0 s0 ms s1] r that connect_plain [OF assms(1)]
    by (auto simp: published_def)
  moreover have "snd (bench_runner w b s) = s2"
    and "fst (bench_runner w b s) = rbind r (collect_acks w (trace s1))"
    using assms(1) r c(1)
    by (cases r; simp add: bench_runner_def pbind_eval pfinally_def split: prod.splits sum.splits)+
  ultimately show ?thesis using c(2) by (cases r) auto
qed

definition quiet_world :: world where
  "quiet_world = \<lparr>w_net = (\<lambda>_. Inr []), w_installed = True, w_malformed = (\<lambda>_. []), w_fs = (\<lambda>_. Inr ''null''),
     w_as_list = (\<lambda>_. []), w_ack_seq = (\<lambda>_ i. Inr (int i + 1)), w_completed = (\<lambda>_ n. rev [0..<n]), w_arrivals = (\<lambda>_. [])\<rparr>"

definition tiny_bench :: "nat bench" where
  "tiny_bench = \<lparr>b_seconds = 2, b_rate = 3, b_sleeps_per_second = 10, b_sleep_time = JFloat 0,
     b_elapsed = (\<lambda>_. 0), b_request = (\<lambda>n. Inr (''w'', [], None)), b_meta = (\<lambda>n _. n)\<rparr>"

definition fresh_session :: session where
  "fresh_session = \<lparr>self = plain_client, trace = []\<rparr>"

lemma fresh_session_simps:
  "metrics_task (self fresh_session) = None" "nc (self fresh_session) = False" "trace fresh_session = []"
  by (simp_all add: fresh_session_def plain_client_def plain_args_def client_init_def default_args_def
      env_get_def Let_def)

lemma tiny_bench_returns:
  "fst (bench_runner quiet_world tiny_bench fresh_session)
     = Inr [(6, 5), (5, 4), (4, 3), (3, 2), (2, 1), (1, 0)]"
  by code_simp

theorem bench_runner_rate_witness:
  "published (snd (bench_runner quiet_world tiny_bench fresh_session)) = 6"
proof -
  obtain s0 where "connect (w_net quiet_world) (w_installed quiet_world) False fresh_session = (Inr (), s0)"
    by (simp add: connect_def load_nats_def quiet_world_def pbind_eval fresh_session_simps)
  from bench_runner_rate [OF this fresh_session_simps(1), of tiny_bench] tiny_bench_returns
  show ?thesis by (simp add: tiny_bench_def published_def fresh_session_simps)
qed

subsection \<open>Runs against a quiet network\<close>

lemma quiet_request:
  assumes "nc (self s)" and "js (self s)" and "1 \<le> registration_max_retries (self s)"
  shows "\<exists>r s'. request_with_retries (\<lambda>_. Inr []) mal subject payload label s = (Inr r, s') \<and> self s' = self s"
proof -
  have "loads [] = Inl JSONDecodeError" by code_simp
  moreover obtain k where "nat (registration_max_retries (self s)) = Suc k"
    using assms(3) by (cases "nat (registration_max_retries (self s))") auto
  ultimately show ?thesis using assms(1,2)
    by (simp add: request_with_retries_def require_connection_def pbind_eval ptry_eval decode_replace_def
        registration_reply_def is_error_body_def Let_def)
qed

lemma quiet_registrations:
  assumes "nc (self s)" and "js (self s)" and "1 \<le> registration_max_retries (self s)"
  shows "\<exists>s'. pbind (register_functions (\<lambda>_. Inr []) mal (\<lambda>_. Inr ''null'') fs dir) (\<lambda>_.
      pbind (register_workflow (\<lambda>_. Inr []) mal w1) (\<lambda>_. pbind (register_workflow (\<lambda>_. Inr []) mal w2) (\<lambda>_. ret ()))) s
      = (Inr (), s') \<and> self s' = self s"
proof -
  have null: "loads ''null'' = Inr JNull" by code_simp
  have wf: "\<exists>r s'. register_workflow (\<lambda>_. Inr []) mal wf t = (Inr r, s') \<and> self s' = self s"
    if "self t = self s" for t wf
    using quiet_request [of t] assms that by (auto simp: register_workflow_def Let_def pbind_eval)
  have fn: "\<exists>r s'. register_function (\<lambda>_. Inr []) mal (\<lambda>_. Inr ''null'') f dir t = (Inr r, s') \<and> self s' = self s"
    if "self t = self s" for t f
    using quiet_request [of t] assms that by (auto simp: register_function_def Let_def pbind_eval null)
  have fns: "\<exists>r s'. pmap (\<lambda>n. register_function (\<lambda>_. Inr []) mal (\<lambda>_. Inr ''null'') n dir) fs t = (Inr r, s') \<and> self s' = self s"
    if "self t = self s" for t
    using that
  proof (induction fs arbitrary: t)
    case Nil
    then show ?case by simp
  next
    case (Cons f fs)
    from fn [OF Cons.prems, of f] obtain r s' where "register_function (\<lambda>_. Inr []) mal (\<lambda>_. Inr ''null'') f dir t = (Inr r, s')"
      "self s' = self s" by blast
    with Cons.IH [OF this(2)] show ?case by (auto simp: pbind_eval)
  qed
  from fns [OF refl] obtain r s1 where s1: "pmap (\<lambda>n. register_function (\<lambda>_. Inr []) mal (\<lambda>_. Inr ''null'') n dir) fs s = (Inr r, s1)"
    "self s1 = self s" by blast
  from wf [OF s1(2), of w1] obtain r1 s2 where s2: "register_workflow (\<lambda>_. Inr []) mal w1 s1 = (Inr r1, s2)" "self s2 = self s" by blast
  from wf [OF s2(2), of w2] obtain r2 s3 where s3: "register_workflow (\<lambda>_. Inr []) mal w2 s2 = (Inr r2, s3)" "self s3 = self s" by blast
  from s1 s2 s3 show ?thesis by (simp add: register_functions_def pbind_eval)
qed

lemma close_outcome_running:
  assumes "metrics_task (self t) = Some TaskRunning"
  shows "\<exists>s. close net t = (Inr (), s)"
proof -
  from stop_metrics_clean [OF assms, of net] obtain s1 where "stop_metrics net t = (Inr (), s1)" "metrics_task (self s1) = None"
    by (auto simp: await_cancelled_def)
  with close_no_task [of s1 net] close_split [of net t] show ?thesis by auto
qed

lemma quiet_world_simps: "w_net quiet_world = (\<lambda>_. Inr [])" "w_fs quiet_world = (\<lambda>_. Inr ''null'')"
  by (simp_all add: quiet_world_def)

lemma init_data_Nil: "init_data quiet_world wid False [] = ret ()"
  by (simp add: init_data_def publish_invocations_def wait_for_requests_def wait_for_requests_start_def
      pbind_eval quiet_world_def fun_eq_iff)

lemma default_client: "\<exists>c. client_init (\<lambda>_. None) (bench_client_args v) = Inr c"
proof -
  have "float_of_str ''20'' = Inr (float_of_decimal False (digits_val ''20'') 0)"
    "float_of_str ''1'' = Inr (float_of_decimal False (digits_val ''1'') 0)"
    by (simp_all add: float_of_str_def split_sign_def str_strip_def py_space_def number_char_def is_digit_def
        str_lower_def char_lower_def opt_digits_def float_exponent_def)
  moreover have "int_of_str ''5'' = Inr 5" by code_simp
  ultimately show ?thesis
    by (simp add: client_init_def bench_client_args_def default_args_def env_get_def Let_def)
qed

end
