(* ===== verification/PyRandom.thy ===== *)
theory PyRandom
  imports PyCore
begin

section \<open>Random numbers\<close>

text \<open>
  The module \<open>random\<close> is not modelled: the numbers that it would give at each position of its
  stream are an argument of the generators, of which \<open>rng_ok\<close> states the documented ranges.
\<close>

text \<open>
  A draw moves the position in the stream; \<open>random.randint\<close> refuses an empty range.
\<close>

record rng =
  rng_float :: "nat \<Rightarrow> rat"
  rng_int :: "nat \<Rightarrow> int \<Rightarrow> int \<Rightarrow> int"

definition rng_ok :: "rng \<Rightarrow> bool" where
  "rng_ok g \<longleftrightarrow> (\<forall>n. 0 \<le> rng_float g n \<and> rng_float g n < 1)
     \<and> (\<forall>n a b. a \<le> b \<longrightarrow> a \<le> rng_int g n a b \<and> rng_int g n a b \<le> b)"

type_synonym 'a draw = "(nat, pyerr, 'a) eff"

definition random_float :: "rng \<Rightarrow> rat draw" where
  "random_float g = (\<lambda>n. (Inr (rng_float g n), n + 1))"

definition randint :: "rng \<Rightarrow> int \<Rightarrow> int \<Rightarrow> int draw" where
  "randint g a b = (\<lambda>n. if b < a then (Inl ValueError, n) else (Inr (rng_int g n a b), n + 1))"

text \<open>\<open>random.randrange(n)\<close>.\<close>

definition randrange :: "rng \<Rightarrow> int \<Rightarrow> int draw" where
  "randrange g n = randint g 0 (n - 1)"

text \<open>A draw that always succeeds, with a value that satisfies \<open>P\<close>.\<close>

lemma randint_ok: "rng_ok g \<Longrightarrow> a \<le> b \<Longrightarrow> \<exists>x. randint g a b n = (Inr x, n + 1) \<and> a \<le> x \<and> x \<le> b"
  by (simp add: randint_def rng_ok_def)

definition yields :: "('r \<Rightarrow> bool) \<Rightarrow> 'r draw \<Rightarrow> bool" where
  "yields P m \<longleftrightarrow> (\<forall>n. \<exists>r n'. m n = (Inr r, n') \<and> P r)"

lemma yields_randint:
  "rng_ok g \<Longrightarrow> a \<le> b \<Longrightarrow> (\<And>x. a \<le> x \<Longrightarrow> x \<le> b \<Longrightarrow> yields P (k x)) \<Longrightarrow> yields P (pbind (randint g a b) k)"
  unfolding yields_def
proof
  fix n
  assume a: "rng_ok g" "a \<le> b" "\<And>x. a \<le> x \<Longrightarrow> x \<le> b \<Longrightarrow> \<forall>n. \<exists>r n'. k x n = (Inr r, n') \<and> P r"
  from randint_ok [OF a(1,2), of n] obtain x where "randint g a b n = (Inr x, n + 1)" "a \<le> x" "x \<le> b" by blast
  with a(3) [of x] show "\<exists>r n'. pbind (randint g a b) k n = (Inr r, n') \<and> P r" by (simp add: pbind_eval)
qed

lemma yields_float: "(\<And>x. yields P (k x)) \<Longrightarrow> yields P (pbind (random_float g) k)"
  by (simp add: yields_def pbind_eval random_float_def)

lemma yields_ret: "P r \<Longrightarrow> yields P (ret r)"
  by (simp add: yields_def)

lemmas yields_rules = yields_randint yields_float yields_ret

definition low_rng :: rng where
  "low_rng = \<lparr>rng_float = (\<lambda>_. 0), rng_int = (\<lambda>_ a b. a)\<rparr>"

lemma low_rng_ok: "rng_ok low_rng"
  by (simp add: rng_ok_def low_rng_def)

end
