(* ===== verification/ChoiceBench.thy ===== *)
theory ChoiceBench
  imports Bench PyRandom
begin

section \<open>The choice benchmark program\<close>

text \<open>
  \<open>applications/microbenchmarks/choice-bench/client-nats.py\<close>: the settings, the checkout
  workflows with and without a choice, the requests, the workers, and the summary with its
  percentiles. The helpers that the abort benchmark spells alike are used there from here.
  \<open>statistics.fmean\<close> is an argument of the summary.
\<close>

subsection \<open>Numbers and orderings\<close>

text \<open>The format \<open>.6f\<close>, and \<open>rstrip\<close> of a character.\<close>

definition pad_zeros :: "nat \<Rightarrow> string \<Rightarrow> string" where
  "pad_zeros n s = replicate (n - length s) CHR ''0'' @ s"

definition pos_fmt_6f :: "rat \<Rightarrow> string" where
  "pos_fmt_6f x =
     (let n = round_half_even (x * 1000000)
      in int_str (n div 1000000) @ ''.'' @ pad_zeros 6 (int_str (n mod 1000000)))"

fun fmt_6f :: "json \<Rightarrow> string" where
  "fmt_6f (JFloat x) = (if x < 0 then CHR ''-'' # pos_fmt_6f (- x) else pos_fmt_6f x)"
| "fmt_6f (JInf neg) = (if neg then ''-inf'' else ''inf'')"
| "fmt_6f _ = ''nan''"

definition rstrip :: "char \<Rightarrow> string \<Rightarrow> string" where
  "rstrip c s = rev (dropWhile (\<lambda>d. d = c) (rev s))"

definition format_filename_number :: "json \<Rightarrow> string" where
  "format_filename_number value =
     (let text = rstrip (CHR ''.'') (rstrip (CHR ''0'') (fmt_6f value));
          text = (if text = [] then ''0'' else text)
      in replace_char (CHR ''.'') ''_'' text)"

text \<open>\<open>min\<close>, \<open>max\<close> and the stable \<open>sorted\<close> by a key; comparisons may raise.\<close>

fun py_best :: "(json \<Rightarrow> json \<Rightarrow> bool py) \<Rightarrow> json \<Rightarrow> json list \<Rightarrow> json py" where
  "py_best better b [] = Inr b"
| "py_best better b (x # xs) = rbind (better x b) (\<lambda>t. py_best better (if t then x else b) xs)"

definition py_max :: "json list \<Rightarrow> json py" where
  "py_max xs = (case xs of [] \<Rightarrow> Inl ValueError | x # xs \<Rightarrow> py_best (\<lambda>a b. py_lt b a) x xs)"

fun insert_after :: "('a \<Rightarrow> json) \<Rightarrow> 'a \<Rightarrow> 'a list \<Rightarrow> 'a list py" where
  "insert_after key x [] = Inr [x]"
| "insert_after key x (y # ys) =
     rbind (py_lt (key x) (key y)) (\<lambda>less.
     if less then Inr (x # y # ys) else rbind (insert_after key x ys) (\<lambda>zs. Inr (y # zs)))"

fun sort_into :: "('a \<Rightarrow> json) \<Rightarrow> 'a list \<Rightarrow> 'a list \<Rightarrow> 'a list py" where
  "sort_into key ys [] = Inr ys"
| "sort_into key ys (x # xs) = rbind (insert_after key x ys) (\<lambda>zs. sort_into key zs xs)"

definition py_sorted :: "('a \<Rightarrow> json) \<Rightarrow> 'a list \<Rightarrow> 'a list py" where
  "py_sorted key xs = sort_into key [] xs"

text \<open>A number used as a float.\<close>

fun num_float :: "json \<Rightarrow> rat py" where
  "num_float (JFloat x) = Inr x"
| "num_float (JInt n) = Inr (of_pyint n)"
| "num_float (JBool b) = Inr (if b then 1 else 0)"
| "num_float _ = Inl OverflowError"

text \<open>
  The percentile of a sorted list. Infinite latencies cannot be weighted in the model, where
  a float is finite; they end in an error.
\<close>

definition percentile :: "json list \<Rightarrow> rat \<Rightarrow> json py" where
  "percentile values pct =
     (if values = [] then Inr JNull
      else if length values = 1 then Inr (values ! 0)
      else let rank = fmul (fdiv pct 100) (of_pyint (int (length values) - 1));
               low = \<lfloor>rank\<rfloor>; high = \<lceil>rank\<rceil>
           in if low = high then py_index values low
              else let weight = fsub rank (of_pyint low)
                   in rbind (rbind (py_index values low) num_float) (\<lambda>a.
                      rbind (rbind (py_index values high) num_float) (\<lambda>b.
                      Inr (JFloat (fadd (fmul a (fsub 1 weight)) (fmul b weight))))))"

text \<open>The throughput over the window from the first start to the last completion.\<close>

definition throughput_rps :: "nat \<Rightarrow> json \<Rightarrow> json" where
  "throughput_rps n window =
     (if num_lt (JInt 0) window = Some True
      then case num_float window of
             Inr w \<Rightarrow> JFloat (fdiv (of_pyint (int n)) (fdiv w 1000))
           | Inl e \<Rightarrow> JFloat 0
      else JNull)"

subsection \<open>Settings\<close>

record choice_settings =
  run_with_choice :: bool
  c_save_dir :: string
  c_threads :: int
  c_messages_per_second :: int
  c_seconds :: int
  c_warmup_seconds :: int
  manual_review_ratio :: json

definition choice_settings_of :: "string list \<Rightarrow> choice_settings py" where
  "choice_settings_of argv =
     rbind (argv_get argv 1) (\<lambda>choice.
     rbind (argv_get argv 2) (\<lambda>dir.
     rbind (rbind (argv_get argv 3) int_of_str) (\<lambda>threads.
     rbind (rbind (argv_get argv 4) int_of_str) (\<lambda>rate.
     rbind (rbind (argv_get argv 5) int_of_str) (\<lambda>secs.
     rbind (rbind (argv_get argv 6) int_of_str) (\<lambda>warmup.
     rbind (rbind (argv_get argv 7) float_of_str) (\<lambda>ratio.
     Inr \<lparr>run_with_choice = (str_lower choice = ''true''), c_save_dir = dir, c_threads = threads,
          c_messages_per_second = rate, c_seconds = secs, c_warmup_seconds = warmup,
          manual_review_ratio = ratio\<rparr>)))))))"

definition total_throughput :: "choice_settings \<Rightarrow> int" where
  "total_throughput cs = c_threads cs * c_messages_per_second cs"

definition run_type :: "choice_settings \<Rightarrow> string" where
  "run_type cs = (if run_with_choice cs then ''with-choice'' else ''no-choice'')"

definition run_file_tag :: "choice_settings \<Rightarrow> string" where
  "run_file_tag cs =
     ''type_'' @ replace_char (CHR ''-'') ''_'' (run_type cs) @ ''_ratio_'' @
     format_filename_number (manual_review_ratio cs) @ ''_total_tput_'' @ int_str (total_throughput cs)"

text \<open>The namespace that \<open>parse_args\<close> builds from the settings and the constants.\<close>

record choice_args =
  variant :: string
  args_settings :: choice_settings
  num_hotels :: int
  num_flights :: int
  seed :: int
  init_capacity :: "int option"
  args_can_abort :: "bool option"

definition parse_args :: "choice_settings \<Rightarrow> choice_args" where
  "parse_args cs =
     \<lparr>variant = (if run_with_choice cs then ''with-choice'' else ''no-choice''), args_settings = cs,
      num_hotels = 200, num_flights = 200, seed = 230143093, init_capacity = Some 1000, args_can_abort = None\<rparr>"

definition choice_client_args :: client_args where
  "choice_client_args = bench_client_args (JFloat 600)"

subsection \<open>Workflows and initial data\<close>

definition checkout_tail :: "json list" where
  "checkout_tail =
     [task_json ''reserve-hotel'' [(''hotel_data'', ''&hotel_id:w'')],
      task_json ''reserve-flight'' [(''flight_data'', ''&flight_id:w'')],
      task_json ''create-order''
        [(''hotel_id'', ''$hotel_id''), (''flight_id'', ''$flight_id''), (''user_id'', ''$user_id''),
         (''order_key'', ''&order_key:w'')]]"

definition review_rule :: "bool \<Rightarrow> json list \<Rightarrow> json" where
  "review_rule value tasks =
     JObj [(''variable'', JStr ''$manual_review''), (''bool_eq'', JBool value), (''tasks'', JArr tasks)]"

definition cb_write_string_workflow :: "(string \<times> json) list" where
  "cb_write_string_workflow = workflow_json ''cb_write_string''
     [task_json ''write-string'' [(''key'', ''&key:w''), (''value'', ''$value'')]]"

definition checkout_no_choice_workflow :: "(string \<times> json) list" where
  "checkout_no_choice_workflow = workflow_json ''checkout_no_choice'' checkout_tail"

definition checkout_with_choice_workflow :: "(string \<times> json) list" where
  "checkout_with_choice_workflow = workflow_json ''checkout_with_choice''
     [JObj [(''type'', JStr ''Choice''),
            (''choices'', JArr
              [review_rule True
                 (task_json ''write-string'' [(''key'', ''&_review_log:w''), (''value'', ''$review_payload'')] # checkout_tail),
               review_rule False checkout_tail])]]"

definition initial_capacity :: "choice_settings \<Rightarrow> int option \<Rightarrow> int" where
  "initial_capacity cs capacity =
     (case capacity of
        Some n \<Rightarrow> n
      | None \<Rightarrow> max 1000 (c_threads cs * c_messages_per_second cs * (c_seconds cs + max (c_warmup_seconds cs) 1) * 2))"

definition stock_entries :: "string \<Rightarrow> int \<Rightarrow> int \<Rightarrow> (string \<times> json) list" where
  "stock_entries prefix n capacity =
     map (\<lambda>i. (prefix @ int_str i, JObj [(''Cap'', JInt capacity), (''Customers'', JArr [])])) [0..n - 1]"

definition choice_bench_init :: "world \<Rightarrow> string \<Rightarrow> choice_args \<Rightarrow> unit client_op" where
  "choice_bench_init w function_dir a =
     pbind (register_functions (w_net w) (w_malformed w) (w_fs w)
              [''write-string'', ''reserve-hotel'', ''reserve-flight'', ''create-order''] function_dir) (\<lambda>_.
     pbind (pmap (register_workflow (w_net w) (w_malformed w))
              [cb_write_string_workflow, checkout_no_choice_workflow, checkout_with_choice_workflow]) (\<lambda>_.
     let capacity = initial_capacity (args_settings a) (Some 1000)
     in pbind (init_data w ''cb_write_string'' False (stock_entries ''hotel'' 200 capacity)) (\<lambda>_.
        init_data w ''cb_write_string'' False (stock_entries ''flight'' 200 capacity))))"

subsection \<open>Requests and workers\<close>

definition order_key :: "int \<Rightarrow> int \<Rightarrow> string" where
  "order_key worker_id seq_no = ''order-'' @ int_str worker_id @ ''-'' @ int_str seq_no"

definition make_request_input :: "int \<Rightarrow> int \<Rightarrow> choice_args \<Rightarrow> rng \<Rightarrow> request draw" where
  "make_request_input worker_id seq_no a g =
     (let workflow_id = (if variant a = ''no-choice'' then ''checkout_no_choice'' else ''checkout_with_choice'')
      in pbind (random_float g) (\<lambda>u.
         pbind (randrange g (num_hotels a)) (\<lambda>h.
         pbind (randrange g (num_flights a)) (\<lambda>f.
         let manual_review = (num_lt (JFloat u) (manual_review_ratio (args_settings a)) = Some True);
             key = order_key worker_id seq_no
         in ret (workflow_id,
             [(''hotel_id'', JStr (''hotel'' @ int_str h)), (''flight_id'', JStr (''flight'' @ int_str f)),
              (''user_id'', JStr ''benchmark-user''), (''order_key'', JStr key),
              (''manual_review'', JBool manual_review),
              (''_review_log'', JStr (''review-log-'' @ int_str worker_id @ ''-'' @ int_str seq_no)),
              (''review_payload'', JObj [(''order_key'', JStr key), (''reason'', JStr ''manual-review''),
                 (''worker'', JInt worker_id), (''sequence'', JInt seq_no)])],
             args_can_abort a)))))"

text \<open>The first \<open>k\<close> requests of a worker, up to the first exception.\<close>

fun drawn_requests :: "(int \<Rightarrow> request draw) \<Rightarrow> nat \<Rightarrow> int \<Rightarrow> nat \<Rightarrow> request py list" where
  "drawn_requests mk 0 seq_no pos = []"
| "drawn_requests mk (Suc k) seq_no pos =
     (case mk seq_no pos of
        (Inl e, pos') \<Rightarrow> [Inl e]
      | (Inr r, pos') \<Rightarrow> Inr r # drawn_requests mk k (seq_no + 1) pos')"

record choice_meta =
  cm_workflow_id :: string
  cm_worker_id :: int
  cm_sequence :: int
  cm_order_key :: json
  cm_manual_review :: json
  cm_started :: int

record bench_process =
  bp_world :: world
  bp_rng :: "int \<Rightarrow> rng"  \<comment> \<open>the generator that a seed gives\<close>
  bp_epoch_ms :: "nat \<Rightarrow> int"
  bp_elapsed :: "nat \<Rightarrow> rat"

definition input_of :: "(string \<times> json) list \<Rightarrow> string \<Rightarrow> json" where
  "input_of inp k = (case map_of inp k of Some v \<Rightarrow> v | None \<Rightarrow> JNull)"

definition choice_bench :: "int \<Rightarrow> choice_args \<Rightarrow> bench_process \<Rightarrow> choice_meta bench" where
  "choice_bench worker_id a p =
     (let cs = args_settings a;
          rs = drawn_requests (\<lambda>n. make_request_input worker_id n a (bp_rng p (seed a + worker_id)))
                 (nat (c_seconds cs) * nat (c_messages_per_second cs)) 0 0
      in \<lparr>b_seconds = c_seconds cs, b_rate = c_messages_per_second cs, b_sleeps_per_second = 10,
          b_sleep_time = JFloat (dec 85 (-4)), b_elapsed = bp_elapsed p,
          b_request = (\<lambda>n. case nth_opt rs n of Some r \<Rightarrow> r | None \<Rightarrow> Inl OtherError),
          b_meta = (\<lambda>n (wid, inp, ca).
            \<lparr>cm_workflow_id = wid, cm_worker_id = worker_id, cm_sequence = int n,
             cm_order_key = input_of inp ''order_key'', cm_manual_review = input_of inp ''manual_review'',
             cm_started = bp_epoch_ms p n\<rparr>)\<rparr>)"

definition choice_run_worker :: "environ \<Rightarrow> choice_args \<Rightarrow> (int \<Rightarrow> bench_process) \<Rightarrow> int \<Rightarrow> (int, choice_meta) pydict py" where
  "choice_run_worker env a procs worker_id =
     rbind (client_init env choice_client_args) (\<lambda>c.
     fst (bench_runner (bp_world (procs worker_id)) (choice_bench worker_id a (procs worker_id)) \<lparr>self = c, trace = []\<rparr>))"

subsection \<open>The summary\<close>

record choice_record =
  r_request_id :: int
  r_meta :: choice_meta
  r_completed :: json
  r_latency :: json

definition choice_after_warmup :: "int \<Rightarrow> choice_record list \<Rightarrow> choice_record list" where
  "choice_after_warmup warmup_seconds records =
     (let first_start_ms = Min ((\<lambda>r. cm_started (r_meta r)) ` set records)
      in filter (\<lambda>r. first_start_ms + warmup_seconds * 1000 \<le> cm_started (r_meta r)) records)"

definition run_header :: "choice_settings \<Rightarrow> (string \<times> json) list" where
  "run_header cs =
     [(''type'', JStr (run_type cs)), (''with_choice'', JBool (run_with_choice cs)),
      (''ratio'', manual_review_ratio cs), (''manual_review_ratio'', manual_review_ratio cs)]"

definition latency_summary :: "(json list \<Rightarrow> json py) \<Rightarrow> json list \<Rightarrow> json py" where
  "latency_summary fmean latencies =
     rbind (fmean latencies) (\<lambda>mean.
     rbind (percentile latencies 50) (\<lambda>p50.
     rbind (percentile latencies 95) (\<lambda>p95.
     rbind (percentile latencies 99) (\<lambda>p99.
     Inr (JObj [(''mean'', mean), (''min'', hd latencies), (''p50'', p50), (''p95'', p95), (''p99'', p99),
                (''max'', last latencies)])))))"

definition build_summary :: "(json list \<Rightarrow> json py) \<Rightarrow> choice_settings \<Rightarrow> choice_record list \<Rightarrow> (string \<times> json) list py" where
  "build_summary fmean cs records =
     (if records = []
      then Inr (run_header cs @ [(''total_throughput'', JInt (total_throughput cs)), (''requests_total'', JInt 0),
             (''requests_after_warmup'', JInt 0)])
      else let first_start_ms = Min ((\<lambda>r. cm_started (r_meta r)) ` set records);
               filtered = choice_after_warmup (c_warmup_seconds cs) records
           in rbind (py_sorted (\<lambda>v. v) (map r_latency filtered)) (\<lambda>latencies.
              let summary = run_header cs @
                   [(''threads'', JInt (c_threads cs)), (''messages_per_second'', JInt (c_messages_per_second cs)),
                    (''total_throughput'', JInt (total_throughput cs)), (''seconds'', JInt (c_seconds cs)),
                    (''warmup_seconds'', JInt (c_warmup_seconds cs)),
                    (''requests_total'', JInt (int (length records))),
                    (''requests_after_warmup'', JInt (int (length filtered))),
                    (''first_started_at_ms'', JInt first_start_ms),
                    (''warmup_cutoff_ms'', JInt (first_start_ms + c_warmup_seconds cs * 1000))]
              in if latencies = [] then Inr summary
                 else rbind (py_max (map r_completed filtered)) (\<lambda>last_completed.
                      rbind (py_minus last_completed (Min ((\<lambda>r. cm_started (r_meta r)) ` set filtered))) (\<lambda>window.
                      rbind (latency_summary fmean latencies) (\<lambda>latency.
                      Inr (summary @
                        [(''latency_ms'', latency),
                         (''throughput_rps_after_warmup'', throughput_rps (length filtered) window),
                         (''manual_review_taken_after_warmup'',
                          JInt (int (length (filter (\<lambda>r. truthy (cm_manual_review (r_meta r))) filtered))))]))))))"

subsection \<open>The main program\<close>

text \<open>The two files: the rows in the order of their completion, and the summary.\<close>

record choice_outputs =
  csv_file :: "string \<times> choice_record list"
  summary_file :: "string \<times> json"

definition write_outputs :: "choice_settings \<Rightarrow> choice_record list \<Rightarrow> (string \<times> json) list \<Rightarrow> choice_outputs py" where
  "write_outputs cs records summary =
     rbind (py_sorted r_completed records) (\<lambda>rows.
     Inr \<lparr>csv_file = (path_join (c_save_dir cs) (''client_requests_'' @ run_file_tag cs @ ''.csv''), rows),
          summary_file = (path_join (c_save_dir cs) (''summary_'' @ run_file_tag cs @ ''.json''), JObj summary)\<rparr>)"

definition choice_record_of :: "(int, json) pydict \<Rightarrow> int \<times> choice_meta \<Rightarrow> choice_record py" where
  "choice_record_of workflow_metrics = (\<lambda>(request_id, m).
     rbind (of_option (KeyError (int_str request_id)) (map_of workflow_metrics request_id)) (\<lambda>metric.
     rbind (jget metric ''completed_at'') (\<lambda>completed_at_ms.
     rbind (py_minus completed_at_ms (cm_started m)) (\<lambda>latency.
     Inr \<lparr>r_request_id = request_id, r_meta = m, r_completed = completed_at_ms, r_latency = latency\<rparr>))))"

definition choice_main ::
  "environ \<Rightarrow> (json list \<Rightarrow> json py) \<Rightarrow> string \<Rightarrow> choice_settings \<Rightarrow> world \<Rightarrow> (int \<Rightarrow> bench_process)
     \<Rightarrow> (choice_outputs py \<times> session) py" where
  "choice_main env fmean function_dir cs w procs =
     (let a = parse_args cs
      in rbind (client_init env choice_client_args) (\<lambda>c.
         Inr (pbind (connect (w_net w) (w_installed w) True) (\<lambda>_.
           pfinally
             (pbind (choice_bench_init w function_dir a) (\<lambda>_.
              pbind (pure_eff (run_pool (choice_run_worker env a procs) (c_threads cs))) (\<lambda>worker_results.
              let request_meta = merge_results worker_results
              in pbind (wait_for_requests (w_as_list w) (w_arrivals w) None None (map fst request_meta)) (\<lambda>workflow_metrics.
                 pbind (pure_eff (rmap (choice_record_of workflow_metrics) request_meta)) (\<lambda>records.
                 pbind (pure_eff (build_summary fmean cs records)) (\<lambda>summary.
                 pure_eff (write_outputs cs records summary)))))))
             (close (w_net w))) \<lparr>self = c, trace = []\<rparr>)))"

subsection \<open>Lemmas on order keys\<close>

lemma split_digits:
  "list_all is_digit as \<Longrightarrow> list_all is_digit bs \<Longrightarrow>
     as @ CHR ''-'' # xs = bs @ CHR ''-'' # ys \<longleftrightarrow> as = bs \<and> xs = ys"
proof (induction as arbitrary: bs)
  case Nil
  then show ?case by (cases bs) (auto simp: is_digit_def)
next
  case (Cons a as)
  then show ?case by (cases bs) (auto simp: is_digit_def)
qed

lemma int_str_all_digits: "0 \<le> n \<Longrightarrow> list_all is_digit (int_str n)"
  using dec_str_digits [of n] by (auto simp: int_str_def list_all_iff)

lemma order_key_inject:
  "0 \<le> w \<Longrightarrow> 0 \<le> w' \<Longrightarrow> order_key w n = order_key w' n' \<longleftrightarrow> w = w' \<and> n = n'"
  using split_digits [of "int_str w" "int_str w'" "int_str n" "int_str n'"] int_str_all_digits [of w] int_str_all_digits [of w']
  by (simp add: order_key_def)

subsection \<open>Lemmas on percentiles\<close>

lemma percentile_rank_bounds:
  fixes len :: nat
  assumes "0 \<le> pct" "pct \<le> 100" "1 \<le> len" "len \<le> 2 ^ 53"
  defines "rank \<equiv> fmul (fdiv pct 100) (of_pyint (int len - 1))"
  shows "0 \<le> \<lfloor>rank\<rfloor>" and "\<lceil>rank\<rceil> \<le> int len - 1" and "pct = 100 \<Longrightarrow> rank = of_int (int len - 1)"
proof -
  have exact: "of_pyint (int len - 1) = of_int (int len - 1)" "fl (of_int (int len - 1)) = of_int (int len - 1)"
    using assms(3,4) by (intro of_pyint_exact fl_of_int; simp)+
  define q where "q = fdiv pct 100"
  have q: "0 \<le> q" "q \<le> 1"
    using assms(1,2) by (auto simp: q_def fdiv_def intro: fl_nonneg fl_le_one)
  have n: "(0::rat) \<le> of_int (int len - 1)" using assms(3) by simp
  have "0 \<le> q * of_int (int len - 1)" using q(1) n by simp
  then have "0 \<le> rank" unfolding rank_def fmul_def exact(1) q_def [symmetric] by (rule fl_nonneg)
  then show "0 \<le> \<lfloor>rank\<rfloor>" by simp
  have "q * of_int (int len - 1) \<le> of_int (int len - 1)" using q(2) n mult_right_mono [of q 1] by simp
  then have "rank \<le> fl (of_int (int len - 1))"
    unfolding rank_def fmul_def exact(1) q_def [symmetric] by (rule fl_mono)
  then show "\<lceil>rank\<rceil> \<le> int len - 1" unfolding exact(2) ceiling_le_iff .
  show "pct = 100 \<Longrightarrow> rank = of_int (int len - 1)"
    using exact by (simp add: rank_def fmul_def fdiv_def)
qed

lemma py_index_Inr: "0 \<le> i \<Longrightarrow> i < int (length xs) \<Longrightarrow> py_index xs i = Inr (xs ! nat i)"
  by (simp add: py_index_def)

lemma percentile_total:
  assumes "values \<noteq> []" and "length values \<le> 2 ^ 53" and "0 \<le> pct" and "pct \<le> 100"
    and "\<forall>v\<in>set values. \<exists>x. num_float v = Inr x"
  shows "\<exists>v. percentile values pct = Inr v" and "pct = 100 \<Longrightarrow> percentile values pct = Inr (last values)"
    and "pct = 0 \<Longrightarrow> percentile values pct = Inr (hd values)"
proof -
  define rank where "rank = fmul (fdiv pct 100) (of_pyint (int (length values) - 1))"
  have len: "1 \<le> length values" using assms(1) by (cases "values") auto
  note b = percentile_rank_bounds [OF assms(3,4) len assms(2), folded rank_def]
  have lh: "\<lfloor>rank\<rfloor> \<le> \<lceil>rank\<rceil>" by (rule floor_le_ceiling)
  have fc: "\<lfloor>rank\<rfloor> < int (length values)" using b(2) lh by linarith
  define low high where "low = \<lfloor>rank\<rfloor>" and "high = \<lceil>rank\<rceil>"
  have idx: "py_index values low = Inr (values ! nat low)" "py_index values high = Inr (values ! nat high)"
    using b(1,2) lh fc by (auto simp: low_def high_def intro!: py_index_Inr)
  have "nat low < length values" "nat high < length values" using b(1,2) lh fc len by (auto simp: low_def high_def)
  then obtain x y where xy: "num_float (values ! nat low) = Inr x" "num_float (values ! nat high) = Inr y"
    using assms(5) by (meson nth_mem)
  have eq: "percentile values pct = (if length values = 1 then Inr (values ! 0)
      else if low = high then py_index values low
      else let weight = fsub rank (of_pyint low) in Inr (JFloat (fadd (fmul x (fsub 1 weight)) (fmul y weight))))"
    using assms(1) idx xy by (simp add: percentile_def rank_def low_def high_def Let_def)
  then show "\<exists>v. percentile values pct = Inr v" using idx by (simp add: Let_def)
  show "percentile values pct = Inr (last values)" if "pct = 100"
  proof -
    have "rank = of_int (int (length values) - 1)" using b(3) [OF that] .
    then have "low = int (length values) - 1" "high = low" by (simp_all add: low_def high_def)
    moreover have "nat (int (length values) - 1) = length values - 1" by simp
    ultimately show ?thesis using eq idx assms(1) by (auto simp: last_conv_nth)
  qed
  show "percentile values pct = Inr (hd values)" if "pct = 0"
  proof -
    have "rank = 0" using that by (simp add: rank_def fmul_def fdiv_def)
    then have "low = 0" "high = 0" by (simp_all add: low_def high_def)
    then show ?thesis using eq idx assms(1) by (auto simp: hd_conv_nth)
  qed
qed

subsection \<open>Lemmas on sorting and extrema of integers\<close>

lemma py_lt_ints [simp]: "py_lt (JInt a) (JInt b) = Inr (a < b)"
  by (simp add: num_lt_def num_key_def)

declare py_lt.simps [simp del]

lemma insert_after_ints:
  "sorted xs \<Longrightarrow> \<exists>zs. insert_after (\<lambda>v. v) (JInt x) (map JInt xs) = Inr (map JInt zs) \<and> sorted zs
     \<and> mset zs = add_mset x (mset xs)"
proof (induction xs)
  case Nil
  then show ?case by (intro exI [of _ "[x]"]) simp
next
  case (Cons y ys)
  show ?case
  proof (cases "x < y")
    case True
    then show ?thesis using Cons.prems by (intro exI [of _ "x # y # ys"]) auto
  next
    case False
    from Cons obtain zs where zs: "insert_after (\<lambda>v. v) (JInt x) (map JInt ys) = Inr (map JInt zs)" "sorted zs"
      "mset zs = add_mset x (mset ys)" by auto
    have "set zs = insert x (set ys)" using zs(3) by (metis set_mset_add_mset_insert set_mset_mset)
    then show ?thesis using zs False Cons.prems by (intro exI [of _ "y # zs"]) auto
  qed
qed

lemma sort_into_ints:
  "sorted ys \<Longrightarrow> \<exists>zs. sort_into (\<lambda>v. v) (map JInt ys) (map JInt xs) = Inr (map JInt zs) \<and> sorted zs
     \<and> mset zs = mset ys + mset xs"
proof (induction xs arbitrary: ys)
  case Nil
  then show ?case by (intro exI [of _ ys]) simp
next
  case (Cons x xs)
  from insert_after_ints [OF Cons.prems, of x] obtain ys' where y: "sorted ys'" "mset ys' = add_mset x (mset ys)"
    "insert_after (\<lambda>v. v) (JInt x) (map JInt ys) = Inr (map JInt ys')" by blast
  from Cons.IH [OF y(1)] y show ?case by auto
qed

lemma py_sorted_ints: "py_sorted (\<lambda>v. v) (map JInt xs) = Inr (map JInt (sort xs))"
proof -
  obtain zs where "py_sorted (\<lambda>v. v) (map JInt xs) = Inr (map JInt zs)" "sorted zs" "mset zs = mset xs"
    using sort_into_ints [of "[]" xs] by (auto simp: py_sorted_def)
  then show ?thesis by (metis properties_for_sort)
qed

lemma py_best_ints: "\<exists>m. py_best (\<lambda>a b. py_lt b a) (JInt b) (map JInt xs) = Inr (JInt m)"
  by (induction xs arbitrary: b) auto

lemma py_max_ints: "xs \<noteq> [] \<Longrightarrow> \<exists>m. py_max (map JInt xs) = Inr (JInt m)"
  using py_best_ints by (cases xs) (auto simp: py_max_def)

lemma latency_summary_total:
  assumes "xs \<noteq> []" "length xs \<le> 2 ^ 53" "\<exists>v. fmean (map JInt xs) = Inr v"
  shows "\<exists>v. latency_summary fmean (map JInt xs) = Inr v"
  using assms percentile_total(1) [of "map JInt xs" 50] percentile_total(1) [of "map JInt xs" 95]
    percentile_total(1) [of "map JInt xs" 99]
  by (fastforce simp: latency_summary_def)

subsection \<open>Properties\<close>

text \<open>
  Percentiles stay inside the list. For a list of finite numbers, not longer than the
  integers that a float holds exactly, every percentile from 0 to 100 is computed without an
  index error in spite of the rounded rank, the 0th is the first and the 100th the last value.
\<close>

lemma percentile_defined:
  assumes "values \<noteq> []" and "length values \<le> 2 ^ 53" and "0 \<le> pct" and "pct \<le> 100"
    and "\<forall>v\<in>set values. \<exists>x. num_float v = Inr x"
  shows "(\<exists>v. percentile values pct = Inr v) \<and> percentile values 0 = Inr (hd values)
    \<and> percentile values 100 = Inr (last values)"
  using percentile_total(1) [OF assms] percentile_total(2) [OF assms(1,2) _ _ assms(5), of 100]
    percentile_total(3) [OF assms(1,2) _ _ assms(5), of 0] by simp

text \<open>
  The requests of the choice benchmark. Every draw yields a checkout of one of the hotels
  and flights that the initial data holds, marked for review or not, and its order key
  identifies the worker and the number of the request: no two requests of a run share an order.
\<close>

lemma choice_requests_valid:
  assumes "rng_ok g" and "0 \<le> w" and "0 \<le> w'"
  shows "\<exists>inp h f b pos'. make_request_input w n (parse_args cs) g pos =
       (Inr (if run_with_choice cs then ''checkout_with_choice'' else ''checkout_no_choice'', inp, None), pos')
     \<and> map_of inp ''hotel_id'' = Some (JStr h) \<and> h \<in> fst ` set (stock_entries ''hotel'' 200 cap)
     \<and> map_of inp ''flight_id'' = Some (JStr f) \<and> f \<in> fst ` set (stock_entries ''flight'' 200 cap)
     \<and> map_of inp ''manual_review'' = Some (JBool b)
     \<and> map_of inp ''order_key'' = Some (JStr (order_key w n))
     \<and> (order_key w n = order_key w' n' \<longleftrightarrow> w = w' \<and> n = n')"
proof -
  obtain h where h: "randint g 0 (200 - 1) (pos + 1) = (Inr h, pos + 2)" "0 \<le> h" "h \<le> 199"
    using randint_ok [OF assms(1), of 0 199 "pos + 1"] by auto
  obtain f where f: "randint g 0 (200 - 1) (pos + 2) = (Inr f, pos + 3)" "0 \<le> f" "f \<le> 199"
    using randint_ok [OF assms(1), of 0 199 "pos + 2"] by auto
  have stock: "p @ int_str i \<in> fst ` set (stock_entries p 200 cap)" if "0 \<le> i" "i \<le> 199" for p i
    using that by (force simp: stock_entries_def)
  show ?thesis
    using h f stock [of h "''hotel''"] stock [of f "''flight''"] order_key_inject [OF assms(2,3)]
    by (simp add: make_request_input_def pbind_eval random_float_def randrange_def parse_args_def Let_def
        del: upto_aux_rec)
qed

definition demo_settings :: choice_settings where
  "demo_settings = \<lparr>run_with_choice = True, c_save_dir = ''out'', c_threads = 2, c_messages_per_second = 10,
     c_seconds = 1, c_warmup_seconds = 1, manual_review_ratio = JFloat (1 / 2)\<rparr>"

text \<open>
  The summary of a run with integer times. It never raises, counts all requests and those
  that started at least the warmup after the first one, at least one of them when there is no
  warmup, and holds the latencies and the throughput exactly when such a request exists.
\<close>

lemma choice_summary_complete:
  assumes "records \<noteq> []" and "length records \<le> 2 ^ 53" and "\<And>xs. xs \<noteq> [] \<Longrightarrow> \<exists>v. fmean xs = Inr v"
    and "map r_latency records = map JInt ls" and "map r_completed records = map JInt ts"
  shows "\<exists>s. build_summary fmean cs records = Inr s
     \<and> map_of s ''requests_total'' = Some (JInt (int (length records)))
     \<and> map_of s ''requests_after_warmup'' = Some (JInt (int (length (choice_after_warmup (c_warmup_seconds cs) records))))
     \<and> (map_of s ''latency_ms'' \<noteq> None \<longleftrightarrow> choice_after_warmup (c_warmup_seconds cs) records \<noteq> [])
     \<and> (c_warmup_seconds cs \<le> 0 \<longrightarrow> choice_after_warmup (c_warmup_seconds cs) records \<noteq> [])"
proof -
  define fs where "fs = choice_after_warmup (c_warmup_seconds cs) records"
  have sub: "set fs \<subseteq> set records" "length fs \<le> length records"
    by (auto simp: fs_def choice_after_warmup_def Let_def)
  define lat com where "lat r = (case r_latency r of JInt n \<Rightarrow> n | _ \<Rightarrow> 0)"
    and "com r = (case r_completed r of JInt n \<Rightarrow> n | _ \<Rightarrow> 0)" for r :: choice_record
  have ints: "r_latency r = JInt (lat r)" "r_completed r = JInt (com r)" if "r \<in> set records" for r
  proof -
    have "r_latency r \<in> set (map JInt ls)" "r_completed r \<in> set (map JInt ts)"
      using that unfolding assms(4,5) [symmetric] by simp_all
    then show "r_latency r = JInt (lat r)" "r_completed r = JInt (com r)" by (auto simp: lat_def com_def)
  qed
  have ls: "map r_latency fs = map JInt (map lat fs)" "map r_completed fs = map JInt (map com fs)"
    using ints sub(1) by auto
  have first: "fs \<noteq> []" if "c_warmup_seconds cs \<le> 0"
  proof -
    have "Min ((\<lambda>r. cm_started (r_meta r)) ` set records) \<in> (\<lambda>r. cm_started (r_meta r)) ` set records"
      using assms(1) by (intro Min_in) auto
    with that show ?thesis by (force simp: fs_def choice_after_warmup_def Let_def filter_empty_conv)
  qed
  show ?thesis
  proof (cases "fs = []")
    case True
    then have "\<not> c_warmup_seconds cs \<le> 0" using first by blast
    with True show ?thesis using assms(1)
      by (simp add: build_summary_def run_header_def fs_def [symmetric] py_sorted_def Let_def)
  next
    case False
    obtain m where m: "py_max (map JInt (map com fs)) = Inr (JInt m)" using False py_max_ints [of "map com fs"] by auto
    have "length (sort (map lat fs)) \<le> 2 ^ 53" using sub(2) assms(2) by simp
    moreover have ne: "sort (map lat fs) \<noteq> []" using False by (metis length_0_conv length_map length_sort)
    ultimately obtain v where v: "latency_summary fmean (map JInt (sort (map lat fs))) = Inr v"
      using latency_summary_total [of "sort (map lat fs)" fmean] False assms(3) by (auto simp del: map_map)
    show ?thesis using False ne assms(1) first m v py_sorted_ints [of "map lat fs"]
      by (simp add: build_summary_def run_header_def fs_def [symmetric] ls Let_def del: map_map)
  qed
qed

definition demo_record :: choice_record where
  "demo_record = \<lparr>r_request_id = 4, r_meta = \<lparr>cm_workflow_id = ''w'', cm_worker_id = 0, cm_sequence = 0,
     cm_order_key = JStr ''o'', cm_manual_review = JBool True, cm_started = 100\<rparr>, r_completed = JInt 130, r_latency = JInt 30\<rparr>"

end
