(* ===== verification/AbortBench.thy ===== *)
theory AbortBench
  imports ChoiceBench
begin

section \<open>The abort benchmark program\<close>

text \<open>
  \<open>applications/microbenchmarks/abort-bench/client-nats.py\<close>: the two cases, the checkout workflow
  with an injected failure, the requests, the inspection of the committed orders, the summaries of
  the cases and their comparison. \<open>format_filename_number\<close> and \<open>percentile\<close> are spelled as in the
  choice benchmark and taken from there.
\<close>

subsection \<open>Settings and cases\<close>

record abort_settings =
  ab_save_dir :: string
  ab_threads :: int
  ab_messages_per_second :: int
  ab_seconds :: int
  ab_warmup_seconds :: int
  failure_rate :: json
  run_id :: string

text \<open>\<open>epoch_ms\<close> is the clock when the module is loaded.\<close>

definition abort_settings_of :: "int \<Rightarrow> string list \<Rightarrow> abort_settings py" where
  "abort_settings_of epoch_ms argv =
     rbind (argv_get argv 1) (\<lambda>dir.
     rbind (rbind (argv_get argv 2) int_of_str) (\<lambda>threads.
     rbind (rbind (argv_get argv 3) int_of_str) (\<lambda>rate.
     rbind (rbind (argv_get argv 4) int_of_str) (\<lambda>secs.
     rbind (rbind (argv_get argv 5) int_of_str) (\<lambda>warmup.
     rbind (rbind (argv_get argv 6) float_of_str) (\<lambda>failures.
     Inr \<lparr>ab_save_dir = dir, ab_threads = threads, ab_messages_per_second = rate, ab_seconds = secs,
          ab_warmup_seconds = warmup, failure_rate = failures, run_id = ''run-'' @ int_str epoch_ms\<rparr>))))))"

definition ab_total_throughput :: "abort_settings \<Rightarrow> int" where
  "ab_total_throughput s = ab_threads s * ab_messages_per_second s"

definition ab_run_file_tag :: "abort_settings \<Rightarrow> string" where
  "ab_run_file_tag s =
     ''total_tput_'' @ int_str (ab_total_throughput s) @ ''_abort_'' @
     format_filename_number (num_times (failure_rate s) 100) @ ''pct_'' @ run_id s"

record case_config =
  case_name :: string
  case_can_abort :: bool

definition all_cases :: "case_config list" where
  "all_cases = [\<lparr>case_name = ''aborting'', case_can_abort = True\<rparr>,
                \<lparr>case_name = ''non-aborting'', case_can_abort = False\<rparr>]"

definition ab_num_hotels :: int where "ab_num_hotels = 10000"
definition ab_num_flights :: int where "ab_num_flights = 10000"
definition ab_capacity :: int where "ab_capacity = 10000"
definition ab_seed :: int where "ab_seed = 230143093"

subsection \<open>Workflows and initial data\<close>

definition write_workflow_id :: string where
  "write_workflow_id = ''non_abort_hotel_bench_write_string''"

definition checkout_workflow_id :: string where
  "checkout_workflow_id = ''non_abort_hotel_bench_checkout''"

definition checkout_workflow :: "(string \<times> json) list" where
  "checkout_workflow = workflow_json checkout_workflow_id
     [task_json ''reserve-hotel'' [(''hotel_data'', ''&hotel_id:w''), (''should_fail'', ''$should_fail'')],
      task_json ''reserve-flight'' [(''flight_data'', ''&flight_id:w'')],
      task_json ''create-order''
        [(''hotel_id'', ''$hotel_id''), (''flight_id'', ''$flight_id''), (''user_id'', ''$user_id''),
         (''order_key'', ''&order_key:w'')]]"

definition ab_write_workflow :: "(string \<times> json) list" where
  "ab_write_workflow = workflow_json write_workflow_id
     [task_json ''write-string'' [(''key'', ''&key:w''), (''value'', ''$value'')]]"

definition register_application :: "world \<Rightarrow> string \<Rightarrow> unit client_op" where
  "register_application w function_dir =
     pbind (register_functions (w_net w) (w_malformed w) (w_fs w)
              [''write-string'', ''reserve-hotel'', ''reserve-flight'', ''create-order''] function_dir) (\<lambda>_.
     pbind (pmap (register_workflow (w_net w) (w_malformed w)) [ab_write_workflow, checkout_workflow]) (\<lambda>_. ret ()))"

definition prepare_case_data :: "world \<Rightarrow> unit client_op" where
  "prepare_case_data w =
     pbind (init_data w write_workflow_id False (stock_entries ''hotel'' ab_num_hotels ab_capacity)) (\<lambda>_.
     init_data w write_workflow_id False (stock_entries ''flight'' ab_num_flights ab_capacity))"

subsection \<open>Requests and workers\<close>

definition ab_order_key :: "abort_settings \<Rightarrow> case_config \<Rightarrow> int \<Rightarrow> int \<Rightarrow> string" where
  "ab_order_key s cc worker_id seq_no = case_name cc @ ''-'' @ run_id s @ ''-'' @ order_key worker_id seq_no"

definition ab_make_request_input :: "abort_settings \<Rightarrow> case_config \<Rightarrow> int \<Rightarrow> int \<Rightarrow> rng \<Rightarrow> request draw" where
  "ab_make_request_input s cc worker_id seq_no g =
     pbind (randrange g ab_num_hotels) (\<lambda>h.
     pbind (randrange g ab_num_flights) (\<lambda>f.
     pbind (random_float g) (\<lambda>u.
     ret (checkout_workflow_id,
          [(''hotel_id'', JStr (''hotel'' @ int_str h)), (''flight_id'', JStr (''flight'' @ int_str f)),
           (''user_id'', JStr ''benchmark-user''),
           (''should_fail'', JBool (num_lt (JFloat u) (failure_rate s) = Some True)),
           (''order_key'', JStr (ab_order_key s cc worker_id seq_no))],
          Some (case_can_abort cc)))))"

record abort_meta =
  am_case :: case_config
  am_worker_id :: int
  am_sequence :: int
  am_hotel_id :: json
  am_flight_id :: json
  am_requested_failure :: json
  am_order_key :: json
  am_started :: int

definition abort_bench :: "abort_settings \<Rightarrow> case_config \<Rightarrow> int \<Rightarrow> bench_process \<Rightarrow> abort_meta bench" where
  "abort_bench s cc worker_id p =
     (let rs = drawn_requests (\<lambda>n. ab_make_request_input s cc worker_id n (bp_rng p (ab_seed + worker_id)))
                 (nat (ab_seconds s) * nat (ab_messages_per_second s)) 0 0
      in \<lparr>b_seconds = ab_seconds s, b_rate = ab_messages_per_second s, b_sleeps_per_second = 10,
          b_sleep_time = JFloat (dec 85 (-4)), b_elapsed = bp_elapsed p,
          b_request = (\<lambda>n. case nth_opt rs n of Some r \<Rightarrow> r | None \<Rightarrow> Inl OtherError),
          b_meta = (\<lambda>n (wid, inp, ca).
            \<lparr>am_case = cc, am_worker_id = worker_id, am_sequence = int n,
             am_hotel_id = input_of inp ''hotel_id'', am_flight_id = input_of inp ''flight_id'',
             am_requested_failure = input_of inp ''should_fail'', am_order_key = input_of inp ''order_key'',
             am_started = bp_epoch_ms p n\<rparr>)\<rparr>)"

definition abort_run_worker ::
  "environ \<Rightarrow> abort_settings \<Rightarrow> case_config \<Rightarrow> (int \<Rightarrow> bench_process) \<Rightarrow> int \<Rightarrow> (int, abort_meta) pydict py" where
  "abort_run_worker env s cc procs worker_id =
     rbind (client_init env choice_client_args) (\<lambda>c.
     fst (bench_runner (bp_world (procs worker_id)) (abort_bench s cc worker_id (procs worker_id)) \<lparr>self = c, trace = []\<rparr>))"

subsection \<open>The inspection of the orders\<close>

text \<open>
  Every order is read from the worker; it counts as committed when the answer is not empty. The
  order in which the concurrent reads complete only permutes the dict that is built.
\<close>

definition fetch_one :: "net \<Rightarrow> string \<Rightarrow> (string \<times> bool) client_op" where
  "fetch_one net key =
     pbind (get_resource_request net key (JFloat 10)) (\<lambda>data. ret (key, data \<noteq> []))"

definition inspect_order_commits :: "net \<Rightarrow> string list \<Rightarrow> (string, bool) pydict client_op" where
  "inspect_order_commits net order_keys =
     pbind (pmap (fetch_one net) order_keys) (\<lambda>kvs. ret (dict_of kvs))"

subsection \<open>The summary of a case\<close>

record abort_record =
  ar_request_id :: int
  ar_meta :: abort_meta
  ar_completed :: int
  ar_latency :: int
  ar_failed :: bool
  ar_order_committed :: bool

definition abort_after_warmup :: "int \<Rightarrow> abort_record list \<Rightarrow> abort_record list" where
  "abort_after_warmup warmup_seconds records =
     (let first_start_ms = Min ((\<lambda>r. am_started (ar_meta r)) ` set records)
      in filter (\<lambda>r. first_start_ms + warmup_seconds * 1000 \<le> am_started (ar_meta r)) records)"

definition count_json :: "('a \<Rightarrow> bool) \<Rightarrow> 'a list \<Rightarrow> json" where
  "count_json P xs = JInt (int (length (filter P xs)))"

definition share :: "('a \<Rightarrow> bool) \<Rightarrow> 'a list \<Rightarrow> json" where
  "share P xs = JFloat (fdiv (of_pyint (int (length (filter P xs)))) (of_pyint (int (length xs))))"

definition requested :: "abort_record \<Rightarrow> bool" where
  "requested r = truthy (am_requested_failure (ar_meta r))"

definition case_header :: "abort_settings \<Rightarrow> case_config \<Rightarrow> abort_record list \<Rightarrow> (string \<times> json) list" where
  "case_header s cc records =
     [(''case_name'', JStr (case_name cc)), (''can_abort'', JBool (case_can_abort cc)),
      (''run_id'', JStr (run_id s)), (''run_file_tag'', JStr (ab_run_file_tag s)),
      (''configured_failure_rate'', failure_rate s), (''configured_total_throughput'', JInt (ab_total_throughput s)),
      (''threads'', JInt (ab_threads s)), (''messages_per_second'', JInt (ab_messages_per_second s)),
      (''seconds'', JInt (ab_seconds s)), (''warmup_seconds'', JInt (ab_warmup_seconds s)),
      (''num_hotels'', JInt ab_num_hotels), (''num_flights'', JInt ab_num_flights), (''capacity'', JInt ab_capacity),
      (''requests_total'', JInt (int (length records))),
      (''requested_failures_total'', count_json requested records),
      (''orders_committed_total'', count_json ar_order_committed records),
      (''workflow_failed_total'', count_json ar_failed records)]"

definition warmup_counts :: "abort_settings \<Rightarrow> abort_record list \<Rightarrow> abort_record list \<Rightarrow> (string \<times> json) list" where
  "warmup_counts s records filtered =
     (let first_start_ms = Min ((\<lambda>r. am_started (ar_meta r)) ` set records)
      in [(''first_started_at_ms'', JInt first_start_ms),
          (''warmup_cutoff_ms'', JInt (first_start_ms + ab_warmup_seconds s * 1000)),
          (''requests_after_warmup'', JInt (int (length filtered))),
          (''requested_failures_after_warmup'', count_json requested filtered),
          (''orders_committed_after_warmup'', count_json ar_order_committed filtered),
          (''workflow_failed_after_warmup'', count_json ar_failed filtered),
          (''requested_failure_rate_sampled_total'', share requested records),
          (''observed_workflow_failure_rate_total'', share ar_failed records)]
         @ (if filtered = [] then []
            else [(''requested_failure_rate_sampled_after_warmup'', share requested filtered),
                  (''observed_workflow_failure_rate_after_warmup'', share ar_failed filtered)]))"

definition ab_build_summary ::
  "(json list \<Rightarrow> json py) \<Rightarrow> abort_settings \<Rightarrow> abort_record list \<Rightarrow> case_config \<Rightarrow> (string \<times> json) list py" where
  "ab_build_summary fmean s records cc =
     (if records = [] then Inr (case_header s cc records @ [(''requests_after_warmup'', JInt 0)])
      else let filtered = abort_after_warmup (ab_warmup_seconds s) records;
               summary = case_header s cc records @ warmup_counts s records filtered;
               latencies = sort (map ar_latency filtered)
           in if latencies = [] then Inr summary
              else let window = Max (ar_completed ` set filtered) - Min ((\<lambda>r. am_started (ar_meta r)) ` set filtered)
                   in rbind (latency_summary fmean (map JInt latencies)) (\<lambda>latency.
                      Inr (summary @ [(''latency_ms'', latency),
                        (''throughput_rps_after_warmup'', throughput_rps (length filtered) (JInt window))])))"

subsection \<open>The comparison of the cases\<close>

definition get_or_null :: "(string \<times> json) list \<Rightarrow> string \<Rightarrow> json" where
  "get_or_null d k = (case map_of d k of Some v \<Rightarrow> v | None \<Rightarrow> JNull)"

text \<open>The difference and, when the divisor is not zero, the ratio of two numbers.\<close>

definition num_compare :: "string \<Rightarrow> string \<Rightarrow> json \<Rightarrow> json \<Rightarrow> (string \<times> json) list py" where
  "num_compare delta ratio v base =
     rbind (num_float v) (\<lambda>x. rbind (num_float base) (\<lambda>y.
     Inr ([(delta, JFloat (fsub x y))] @ (if y = 0 then [] else [(ratio, JFloat (fdiv x y))]))))"

definition compared_keys :: "string list" where
  "compared_keys = [''requests_after_warmup'', ''requested_failures_after_warmup'',
     ''workflow_failed_after_warmup'', ''orders_committed_after_warmup'']"

definition comparison_of :: "(string \<times> json) list \<Rightarrow> (string \<times> json) list \<Rightarrow> (string \<times> json) list py" where
  "comparison_of aborting non_aborting =
     (let counts = concat (map (\<lambda>k. [(''aborting_'' @ k, get_or_null aborting k),
                                      (''non_aborting_'' @ k, get_or_null non_aborting k)]) compared_keys);
          al = get_or_null aborting ''latency_ms''; nl = get_or_null non_aborting ''latency_ms'';
          at1 = get_or_null aborting ''throughput_rps_after_warmup'';
          nt = get_or_null non_aborting ''throughput_rps_after_warmup''
      in rbind (if truthy al \<and> truthy nl
                then rbind (jget nl ''mean'') (\<lambda>nm. rbind (jget al ''mean'') (\<lambda>am.
                     num_compare ''latency_mean_delta_ms'' ''latency_mean_ratio'' nm am))
                else Inr []) (\<lambda>latency.
         rbind (if at1 \<noteq> JNull \<and> nt \<noteq> JNull
                then num_compare ''throughput_delta_rps'' ''throughput_ratio'' nt at1
                else Inr []) (\<lambda>throughput.
         Inr (counts @ latency @ throughput))))"

definition summary_named :: "string \<Rightarrow> (string \<times> json) list list \<Rightarrow> (string \<times> json) list option" where
  "summary_named name summaries =
     (case filter (\<lambda>d. map_of d ''case_name'' = Some (JStr name)) summaries of [] \<Rightarrow> None | ds \<Rightarrow> Some (last ds))"

definition first_field :: "(string \<times> json) list list \<Rightarrow> string \<Rightarrow> json py" where
  "first_field summaries k = (case summaries of [] \<Rightarrow> Inr JNull | d # _ \<Rightarrow> jget (JObj d) k)"

definition build_suite_summary :: "(string \<times> json) list list \<Rightarrow> (string \<times> json) list py" where
  "build_suite_summary case_summaries =
     rbind (case (summary_named ''aborting'' case_summaries, summary_named ''non-aborting'' case_summaries) of
              (Some a, Some n) \<Rightarrow> comparison_of a n
            | _ \<Rightarrow> Inr []) (\<lambda>comparison.
     rbind (rmap (\<lambda>k. rbind (first_field case_summaries k) (\<lambda>v. Inr (k, v)))
              [''run_id'', ''run_file_tag'', ''configured_failure_rate'', ''configured_total_throughput'']) (\<lambda>header.
     Inr (header @ [(''case_summaries'', JArr (map JObj case_summaries)), (''comparison'', JObj comparison)])))"

subsection \<open>The main program\<close>

definition abort_record_of :: "(int, json) pydict \<Rightarrow> (string, bool) pydict \<Rightarrow> int \<times> abort_meta \<Rightarrow> abort_record py" where
  "abort_record_of workflow_metrics order_commits = (\<lambda>(request_id, m).
     rbind (of_option (KeyError (int_str request_id)) (map_of workflow_metrics request_id)) (\<lambda>metric.
     rbind (rbind (jget metric ''completed_at'') py_int) (\<lambda>completed_at_ms.
     rbind (jget_default metric ''failed'' (JBool False)) (\<lambda>failed.
     Inr \<lparr>ar_request_id = request_id, ar_meta = m, ar_completed = completed_at_ms,
          ar_latency = completed_at_ms - am_started m, ar_failed = truthy failed,
          ar_order_committed = (map_of order_commits (py_str (am_order_key m)) = Some True)\<rparr>))))"

text \<open>A case: its summary, and the file it writes.\<close>

definition run_case ::
  "environ \<Rightarrow> (json list \<Rightarrow> json py) \<Rightarrow> abort_settings \<Rightarrow> world \<Rightarrow> (case_config \<Rightarrow> int \<Rightarrow> bench_process)
     \<Rightarrow> case_config \<Rightarrow> ((string \<times> json) list \<times> (string \<times> json)) client_op" where
  "run_case env fmean s w procs cc =
     pbind (prepare_case_data w) (\<lambda>_.
     pbind (pure_eff (run_pool (abort_run_worker env s cc (procs cc)) (ab_threads s))) (\<lambda>worker_results.
     let request_meta = merge_results worker_results
     in pbind (wait_for_requests (w_as_list w) (w_arrivals w) None None (map fst request_meta)) (\<lambda>workflow_metrics.
        pbind (inspect_order_commits (w_net w) (map (\<lambda>(i, m). py_str (am_order_key m)) request_meta)) (\<lambda>order_commits.
        pbind (pure_eff (rmap (abort_record_of workflow_metrics order_commits) request_meta)) (\<lambda>records.
        pbind (pure_eff (ab_build_summary fmean s records cc)) (\<lambda>summary.
        ret (summary, (path_join (path_join (ab_save_dir s) (case_name cc))
                         (''summary_'' @ ab_run_file_tag s @ ''.json''), JObj summary))))))))"

definition abort_main ::
  "environ \<Rightarrow> (json list \<Rightarrow> json py) \<Rightarrow> string \<Rightarrow> abort_settings \<Rightarrow> world \<Rightarrow> (case_config \<Rightarrow> int \<Rightarrow> bench_process)
     \<Rightarrow> ((string \<times> json) list py \<times> session) py" where
  "abort_main env fmean function_dir s w procs =
     rbind (client_init env choice_client_args) (\<lambda>c.
     Inr (pbind (connect (w_net w) (w_installed w) True) (\<lambda>_.
       pfinally
         (pbind (register_application w function_dir) (\<lambda>_.
          pbind (pmap (run_case env fmean s w procs) all_cases) (\<lambda>results.
          pbind (pure_eff (build_suite_summary (map fst results))) (\<lambda>suite_summary.
          ret (map snd results @
               [(path_join (ab_save_dir s) (''comparison_'' @ ab_run_file_tag s @ ''.json''), JObj suite_summary)])))))
         (close (w_net w))) \<lparr>self = c, trace = []\<rparr>))"

subsection \<open>Lemmas\<close>

lemma all_cases_cases: "cc \<in> set all_cases \<Longrightarrow>
    cc = \<lparr>case_name = ''aborting'', case_can_abort = True\<rparr> \<or> cc = \<lparr>case_name = ''non-aborting'', case_can_abort = False\<rparr>"
  by (auto simp: all_cases_def)

lemma ab_order_key_inject:
  assumes "cc \<in> set all_cases" and "cc' \<in> set all_cases" and "0 \<le> w" and "0 \<le> w'"
  shows "ab_order_key s cc w n = ab_order_key s cc' w' n' \<longleftrightarrow> cc = cc' \<and> w = w' \<and> n = n'"
  using all_cases_cases [OF assms(1)] all_cases_cases [OF assms(2)] order_key_inject [OF assms(3,4)]
  by (auto simp: ab_order_key_def)

lemma fl_eq_0: "0 \<le> x \<Longrightarrow> fl x = 0 \<longleftrightarrow> x = 0"
  using fl_pos_positive [of x] by (cases "x = 0") (auto simp: fl_def)

lemma case_header_fields:
  "map_of (case_header s cc records) ''requests_total'' = Some (JInt (int (length records)))"
  "map_of (case_header s cc records) ''requested_failures_total'' = Some (count_json requested records)"
  "map_of (case_header s cc records) ''orders_committed_total'' = Some (count_json ar_order_committed records)"
  "map_of (case_header s cc records) ''workflow_failed_total'' = Some (count_json ar_failed records)"
  "map_of (case_header s cc records) ''requests_after_warmup'' = None"
  "map_of (case_header s cc records) ''observed_workflow_failure_rate_total'' = None"
  by (simp_all add: case_header_def)

lemma warmup_counts_fields:
  "map_of (warmup_counts s records filtered) ''requests_after_warmup'' = Some (JInt (int (length filtered)))"
  "map_of (warmup_counts s records filtered) ''observed_workflow_failure_rate_total'' = Some (share ar_failed records)"
  by (simp_all add: warmup_counts_def Let_def)

lemma share_bounds:
  assumes "xs \<noteq> []"
  shows "\<exists>x. share P xs = JFloat x \<and> 0 \<le> x \<and> x \<le> 1 \<and> (x = 0 \<longleftrightarrow> filter P xs = [])"
proof -
  let ?k = "int (length (filter P xs))" and ?n = "int (length xs)"
  have "(0::int) < ?n" using assms by simp
  have le: "of_pyint ?k \<le> of_pyint ?n" by (rule of_pyint_mono) simp
  have n: "0 < of_pyint ?n" using assms fl_pos_positive [of "of_int ?n"] by (simp add: of_pyint_def fl_def)
  have k: "0 \<le> of_pyint ?k" "of_pyint ?k = 0 \<longleftrightarrow> filter P xs = []"
    using fl_pos_positive [of "of_int ?k"] by (auto simp: of_pyint_def fl_def)
  let ?q = "of_pyint ?k / of_pyint ?n"
  have q: "0 \<le> ?q" "?q \<le> 1" "?q = 0 \<longleftrightarrow> filter P xs = []" using k n le by (auto simp: divide_le_eq_1)
  have "fl ?q = 0 \<longleftrightarrow> ?q = 0" using q(1) by (rule fl_eq_0)
  then show ?thesis using q by (auto simp: share_def fdiv_def fl_nonneg fl_le_one)
qed

lemma ab_build_summary_total:
  assumes "records \<noteq> []" and "length records \<le> 2 ^ 53" and "\<And>xs. xs \<noteq> [] \<Longrightarrow> \<exists>v. fmean xs = Inr v"
  shows "\<exists>rest. ab_build_summary fmean s records cc
     = Inr (case_header s cc records @ warmup_counts s records (abort_after_warmup (ab_warmup_seconds s) records) @ rest)"
proof -
  define fs where "fs = abort_after_warmup (ab_warmup_seconds s) records"
  show ?thesis
  proof (cases "fs = []")
    case True
    then show ?thesis using assms(1) by (simp add: ab_build_summary_def fs_def [symmetric] Let_def)
  next
    case False
    then have ne: "sort (map ar_latency fs) \<noteq> []" by (metis length_0_conv length_map length_sort)
    have "length fs \<le> length records" by (simp add: fs_def abort_after_warmup_def Let_def)
    then have "length (sort (map ar_latency fs)) \<le> 2 ^ 53" using assms(2) by simp
    with latency_summary_total [OF ne, of fmean] ne assms(3)
    obtain v where "latency_summary fmean (map JInt (sort (map ar_latency fs))) = Inr v" by auto
    with ne assms(1) show ?thesis by (simp add: ab_build_summary_def fs_def [symmetric] Let_def)
  qed
qed

subsection \<open>Properties\<close>

text \<open>
  The orders of the two cases never mix. Every draw yields a checkout of an initial hotel and
  flight whose abort mode is that of its case, and the order keys of a run are equal only for the
  same case, worker and number: an order that the first case commits cannot be taken for one of
  the second.
\<close>

lemma abort_requests_valid:
  assumes "rng_ok g" and "cc \<in> set all_cases" and "cc' \<in> set all_cases" and "0 \<le> w" and "0 \<le> w'"
  shows "\<exists>inp h f b pos'. ab_make_request_input s cc w n g pos =
       (Inr (checkout_workflow_id, inp, Some (case_can_abort cc)), pos')
     \<and> map_of inp ''hotel_id'' = Some (JStr h) \<and> h \<in> fst ` set (stock_entries ''hotel'' ab_num_hotels cap)
     \<and> map_of inp ''flight_id'' = Some (JStr f) \<and> f \<in> fst ` set (stock_entries ''flight'' ab_num_flights cap)
     \<and> map_of inp ''should_fail'' = Some (JBool b)
     \<and> map_of inp ''order_key'' = Some (JStr (ab_order_key s cc w n))
     \<and> (ab_order_key s cc w n = ab_order_key s cc' w' n' \<longleftrightarrow> cc = cc' \<and> w = w' \<and> n = n')"
proof -
  obtain h where h: "randint g 0 (ab_num_hotels - 1) pos = (Inr h, pos + 1)" "0 \<le> h" "h < ab_num_hotels"
    using randint_ok [OF assms(1), of 0 "ab_num_hotels - 1" pos] by (auto simp: ab_num_hotels_def)
  obtain f where f: "randint g 0 (ab_num_flights - 1) (pos + 1) = (Inr f, pos + 2)" "0 \<le> f" "f < ab_num_flights"
    using randint_ok [OF assms(1), of 0 "ab_num_flights - 1" "pos + 1"] by (auto simp: ab_num_flights_def)
  have stock: "p @ int_str i \<in> fst ` set (stock_entries p m cap)" if "0 \<le> i" "i < m" for p i m
    using that by (force simp: stock_entries_def)
  show ?thesis
    using h f stock [OF h(2,3), of "''hotel''"] stock [OF f(2,3), of "''flight''"]
      ab_order_key_inject [OF assms(2-5)]
    by (simp add: ab_make_request_input_def pbind_eval random_float_def randrange_def)
qed

definition demo_abort :: abort_settings where
  "demo_abort = \<lparr>ab_save_dir = ''out'', ab_threads = 1, ab_messages_per_second = 1, ab_seconds = 1,
     ab_warmup_seconds = 0, failure_rate = JFloat (1 / 2), run_id = ''run-1''\<rparr>"

text \<open>
  The summary of a case. It never raises on a non-empty run; it holds the numbers of all
  requests, of the requested failures, the committed orders and the failed workflows, and the
  observed failure rate is a number from 0 to 1 that is 0 exactly when no workflow failed.
\<close>

lemma abort_summary_counts:
  assumes "records \<noteq> []" and "length records \<le> 2 ^ 53" and "\<And>xs. xs \<noteq> [] \<Longrightarrow> \<exists>v. fmean xs = Inr v"
  shows "\<exists>x d. ab_build_summary fmean s records cc = Inr d
     \<and> map_of d ''requests_total'' = Some (JInt (int (length records)))
     \<and> map_of d ''requested_failures_total'' = Some (JInt (int (length (filter requested records))))
     \<and> map_of d ''orders_committed_total'' = Some (JInt (int (length (filter ar_order_committed records))))
     \<and> map_of d ''workflow_failed_total'' = Some (JInt (int (length (filter ar_failed records))))
     \<and> map_of d ''requests_after_warmup'' = Some (JInt (int (length (abort_after_warmup (ab_warmup_seconds s) records))))
     \<and> map_of d ''observed_workflow_failure_rate_total'' = Some (JFloat x)
     \<and> 0 \<le> x \<and> x \<le> 1 \<and> (x = 0 \<longleftrightarrow> filter ar_failed records = [])"
proof -
  define w where "w = warmup_counts s records (abort_after_warmup (ab_warmup_seconds s) records)"
  obtain rest where
    d: "ab_build_summary fmean s records cc = Inr (case_header s cc records @ w @ rest)"
    using ab_build_summary_total [OF assms(1,2), of fmean s cc, folded w_def] assms(3) by blast
  obtain x where x: "share ar_failed records = JFloat x" "0 \<le> x" "x \<le> 1" "x = 0 \<longleftrightarrow> filter ar_failed records = []"
    using share_bounds [OF assms(1), of ar_failed] by blast
  have w: "map_of w ''requests_after_warmup'' = Some (JInt (int (length (abort_after_warmup (ab_warmup_seconds s) records))))"
    "map_of w ''observed_workflow_failure_rate_total'' = Some (JFloat x)"
    unfolding w_def warmup_counts_fields x(1) by (rule refl)+
  show ?thesis
    using x(2-4) w
    by (intro exI [of _ x] exI [of _ "case_header s cc records @ w @ rest"])
      (simp only: d map_of_append map_add_def case_header_fields count_json_def option.case simp_thms)
qed

definition demo_abort_record :: abort_record where
  "demo_abort_record = \<lparr>ar_request_id = 7, ar_meta = \<lparr>am_case = \<lparr>case_name = ''aborting'', case_can_abort = True\<rparr>,
     am_worker_id = 0, am_sequence = 0, am_hotel_id = JStr ''hotel1'', am_flight_id = JStr ''flight1'',
     am_requested_failure = JBool True, am_order_key = JStr ''k'', am_started = 10\<rparr>, ar_completed = 30, ar_latency = 20,
     ar_failed = True, ar_order_committed = False\<rparr>"

end
