(* ===== verification/Storage.thy ===== *)
theory Storage
  imports PyCore
begin

section \<open>Versioned resources and the key-value interface\<close>

text \<open>
  The worker keeps every key in a \<open>Resource\<close> (\<open>src/storage/resource.hpp\<close>): committed
  bytes and, while an invocation runs, an uncommitted version or an uncommitted deletion. A
  function sees the keys bound to its task through a \<open>ResourceStorage\<close>
  (\<open>src/storage/kv.hpp\<close>), which refuses writes to read-only keys, behind the host object
  \<open>WasmExecEnvKV\<close> (\<open>src/execution/wasm/wasm_kv.hpp\<close>) that serves the imports
  \<open>get\<close>, \<open>set\<close> and \<open>delete\<close> of the function's world (\<open>kv.py\<close>).

  The Rust layer between the two is not part of the repository. Its only freedom the
  functions can notice is whether an empty slice becomes \<open>None\<close> or an empty byte string;
  the flag \<open>host\<close> ranges over both.
\<close>

subsection \<open>Resource\<close>

record resource =
  committed :: bytes
  uncommitted :: "bytes option"
  committed_deleted :: bool
  uncommitted_deleted :: bool

definition new_resource :: resource where
  "new_resource = \<lparr>committed = [], uncommitted = None, committed_deleted = False,
     uncommitted_deleted = False\<rparr>"

definition get_data :: "resource \<Rightarrow> bytes" where
  "get_data r =
     (case uncommitted r of
        Some b \<Rightarrow> if \<not> uncommitted_deleted r then b else committed r
      | None \<Rightarrow> committed r)"

definition set_data :: "bytes \<Rightarrow> resource \<Rightarrow> resource" where
  "set_data b r = r\<lparr>uncommitted := Some b, uncommitted_deleted := False\<rparr>"

definition free_data :: "resource \<Rightarrow> resource" where
  "free_data r = r\<lparr>committed := [], committed_deleted := True, uncommitted := None,
     uncommitted_deleted := False\<rparr>"

definition delete_data :: "resource \<Rightarrow> resource" where
  "delete_data r = r\<lparr>uncommitted := None, uncommitted_deleted := True\<rparr>"

definition commit_uncommitted :: "resource \<Rightarrow> resource" where
  "commit_uncommitted r =
     (let r' = (if uncommitted_deleted r then r\<lparr>committed := [], committed_deleted := True\<rparr>
                else case uncommitted r of
                       Some b \<Rightarrow> r\<lparr>committed := b, committed_deleted := False\<rparr>
                     | None \<Rightarrow> r)
      in r'\<lparr>uncommitted := None, uncommitted_deleted := False\<rparr>)"

definition abort_uncommitted :: "resource \<Rightarrow> resource" where
  "abort_uncommitted r = r\<lparr>uncommitted := None, uncommitted_deleted := False\<rparr>"

definition is_deleted :: "resource \<Rightarrow> bool" where
  "is_deleted r =
     (if uncommitted_deleted r then True
      else if uncommitted r \<noteq> None then False
      else committed_deleted r)"

definition readable :: "resource \<Rightarrow> bool" where
  "readable r =
     (if uncommitted_deleted r then False
      else if uncommitted r \<noteq> None then True
      else \<not> committed_deleted r)"

text \<open>
  The copy operations of \<open>BaseBytes\<close> (\<open>src/storage/bytes.hpp\<close>): the copy constructor
  and the copy assignment both append the other byte string to the data they hold.
\<close>

definition bytes_copy :: "bytes \<Rightarrow> bytes" where
  "bytes_copy other = [] @ other"

definition bytes_copy_assign :: "bytes \<Rightarrow> bytes \<Rightarrow> bytes" where
  "bytes_copy_assign this other = this @ other"

text \<open>\<open>std::optional\<close> assigns in place when both sides hold a value, and else constructs.\<close>

definition optional_copy_assign :: "bytes option \<Rightarrow> bytes option \<Rightarrow> bytes option" where
  "optional_copy_assign this other =
     (case other of
        None \<Rightarrow> None
      | Some b \<Rightarrow> Some (case this of None \<Rightarrow> bytes_copy b | Some a \<Rightarrow> bytes_copy_assign a b))"

definition resource_copy_assign :: "resource \<Rightarrow> resource \<Rightarrow> resource" where
  "resource_copy_assign r t =
     \<lparr>committed = bytes_copy_assign (committed r) (committed t),
      uncommitted = optional_copy_assign (uncommitted r) (uncommitted t),
      committed_deleted = committed_deleted t,
      uncommitted_deleted = uncommitted_deleted t\<rparr>"

lemmas resource_ops =
  get_data_def set_data_def free_data_def delete_data_def commit_uncommitted_def
  abort_uncommitted_def is_deleted_def readable_def Let_def

text \<open>What a reader may assume of a resource in every state the operations reach.\<close>

definition resource_inv :: "resource \<Rightarrow> bool" where
  "resource_inv r \<longleftrightarrow>
     (uncommitted_deleted r \<longrightarrow> uncommitted r = None) \<and>
     (committed_deleted r \<longrightarrow> committed r = [])"

lemma resource_inv_ops [simp, intro]:
  "resource_inv new_resource"
  "resource_inv r \<Longrightarrow> resource_inv (set_data b r)"
  "resource_inv (free_data r)"
  "resource_inv r \<Longrightarrow> resource_inv (delete_data r)"
  "resource_inv r \<Longrightarrow> resource_inv (commit_uncommitted r)"
  "resource_inv r \<Longrightarrow> resource_inv (abort_uncommitted r)"
  by (auto simp: resource_inv_def new_resource_def resource_ops split: option.splits)

text \<open>
  The abstract value of a resource: what is committed, and what the running invocation would
  commit. \<open>None\<close> is a deleted value.
\<close>

definition committed_value :: "resource \<Rightarrow> bytes option" where
  "committed_value r = (if committed_deleted r then None else Some (committed r))"

definition pending_value :: "resource \<Rightarrow> bytes option" where
  "pending_value r =
     (if uncommitted_deleted r then None
      else case uncommitted r of Some b \<Rightarrow> Some b | None \<Rightarrow> committed_value r)"

lemma pending_value_ops:
  "pending_value (set_data b r) = Some b"
  "pending_value (delete_data r) = None"
  "pending_value (commit_uncommitted r) = pending_value r"
  "pending_value (abort_uncommitted r) = committed_value r"
  by (auto simp: pending_value_def committed_value_def resource_ops split: option.splits)

lemma committed_value_ops:
  "committed_value (set_data b r) = committed_value r"
  "committed_value (delete_data r) = committed_value r"
  "committed_value (commit_uncommitted r) = pending_value r"
  "committed_value (abort_uncommitted r) = committed_value r"
  by (auto simp: pending_value_def committed_value_def resource_ops split: option.splits)

lemma readable_iff: "readable r \<longleftrightarrow> pending_value r \<noteq> None"
  by (auto simp: pending_value_def committed_value_def readable_def split: option.splits)

lemma is_deleted_iff: "is_deleted r \<longleftrightarrow> pending_value r = None"
  by (auto simp: pending_value_def committed_value_def is_deleted_def split: option.splits)

lemma get_data_readable: "readable r \<Longrightarrow> pending_value r = Some (get_data r)"
  by (auto simp: pending_value_def committed_value_def readable_def get_data_def
      split: option.splits if_splits)

subsection \<open>ResourceStorage\<close>

text \<open>
  The resources are pointers into the acquired cowns; the model keeps the resources
  themselves and hands them back when the function returns.
\<close>

record storage =
  local_resources :: "string \<rightharpoonup> resource"
  read_only_resources :: "string set"

definition get_resource :: "storage \<Rightarrow> string \<Rightarrow> resource option" where
  "get_resource st key = local_resources st key"

definition set_resource :: "string \<Rightarrow> bytes \<Rightarrow> storage \<Rightarrow> storage" where
  "set_resource key data st =
     (case local_resources st key of
        None \<Rightarrow> st
      | Some r \<Rightarrow>
          if key \<in> read_only_resources st then st
          else st\<lparr>local_resources := (local_resources st)(key \<mapsto> set_data data r)\<rparr>)"

definition delete_resource :: "string \<Rightarrow> storage \<Rightarrow> storage" where
  "delete_resource key st =
     (case local_resources st key of
        None \<Rightarrow> st
      | Some r \<Rightarrow>
          if key \<in> read_only_resources st then st
          else st\<lparr>local_resources := (local_resources st)(key \<mapsto> delete_data r)\<rparr>)"

subsection \<open>The host object behind the function's imports\<close>

definition host_get :: "bool \<Rightarrow> string \<Rightarrow> storage \<Rightarrow> bytes option" where
  "host_get host key st =
     (let slice = (case get_resource st key of
                     None \<Rightarrow> []
                   | Some r \<Rightarrow> if \<not> readable r then [] else get_data r)
      in if slice = [] \<and> host then None else Some slice)"

definition host_set :: "string \<Rightarrow> bytes \<Rightarrow> storage \<Rightarrow> storage" where
  "host_set key data st = set_resource key data st"

definition host_delete :: "string \<Rightarrow> storage \<Rightarrow> bool \<times> storage" where
  "host_delete key st = (True, delete_resource key st)"

text \<open>A key the function may write: bound to the task and not read-only.\<close>

definition writable :: "string \<Rightarrow> storage \<Rightarrow> bool" where
  "writable key st \<longleftrightarrow> key \<in> dom (local_resources st) \<and> key \<notin> read_only_resources st"

lemma set_resource_frame [simp]:
  "read_only_resources (set_resource k b st) = read_only_resources st"
  "dom (local_resources (set_resource k b st)) = dom (local_resources st)"
  by (auto simp: set_resource_def split: option.splits)

lemma delete_resource_frame [simp]:
  "read_only_resources (delete_resource k st) = read_only_resources st"
  "dom (local_resources (delete_resource k st)) = dom (local_resources st)"
  by (auto simp: delete_resource_def split: option.splits)

lemma set_resource_refused: "\<not> writable k st \<Longrightarrow> set_resource k b st = st"
  by (auto simp: set_resource_def writable_def split: option.splits)

lemma set_resource_local:
  "local_resources (set_resource k b st) k' =
     (if k' = k \<and> writable k st then map_option (set_data b) (local_resources st k)
      else local_resources st k')"
  by (auto simp: set_resource_def writable_def split: option.splits)

lemma writable_set [simp]: "writable k' (set_resource k b st) = writable k' st"
  by (simp add: writable_def)

lemma readable_set_data [simp]: "readable (set_data b r)" "get_data (set_data b r) = b"
  by (simp_all add: resource_ops)

subsection \<open>The interface of the functions\<close>

text \<open>
  What the functions use of the key-value interface, and the laws they may rely on. A write to
  a key that may not be written is dropped without an error.
\<close>

locale kv_interface =
  fixes kget :: "string \<Rightarrow> 's \<Rightarrow> bytes option"
    and kset :: "string \<Rightarrow> bytes \<Rightarrow> 's \<Rightarrow> 's"
    and kwritable :: "string \<Rightarrow> 's \<Rightarrow> bool"
  assumes kget_kset_same: "kwritable k s \<Longrightarrow> b \<noteq> [] \<Longrightarrow> kget k (kset k b s) = Some b"
    and kget_kset_other: "k' \<noteq> k \<Longrightarrow> kget k' (kset k b s) = kget k' s"
    and kset_refused: "\<not> kwritable k s \<Longrightarrow> kset k b s = s"
    and kwritable_kset: "kwritable k' (kset k b s) = kwritable k' s"
begin

lemmas kv_simps = kget_kset_same kget_kset_other kset_refused kwritable_kset

lemma kget_kset_cases:
  "b \<noteq> [] \<Longrightarrow> kget k' (kset k b s) = (if k' = k \<and> kwritable k s then Some b else kget k' s)"
  by (cases "k' = k"; cases "kwritable k s") (simp_all add: kv_simps)

lemma kset_keeps_readonly: "\<not> kwritable k' s \<Longrightarrow> kget k' (kset k b s) = kget k' s"
  by (cases "k' = k") (simp_all add: kv_simps)

end

interpretation rs: kv_interface "host_get host" host_set writable for host
proof
  fix k b s
  assume "writable k s" "(b :: bytes) \<noteq> []"
  then show "host_get host k (host_set k b s) = Some b"
    by (auto simp: host_get_def host_set_def get_resource_def set_resource_local writable_def Let_def)
next
  fix k k' :: string and b s
  assume "k' \<noteq> k"
  then show "host_get host k' (host_set k b s) = host_get host k' s"
    by (simp add: host_get_def host_set_def get_resource_def set_resource_local)
next
  fix k b s
  assume "\<not> writable k s"
  then show "host_set k b s = s" by (simp add: host_set_def set_resource_refused)
next
  fix k k' b s
  show "writable k' (host_set k b s) = writable k' s" by (simp add: host_set_def)
qed

subsection \<open>What aborting restores\<close>

text \<open>
  Two storages that bind the same keys in the same modes and whose resources agree once their
  uncommitted parts are dropped: the relation between the storage a function started from
  and any storage it can reach.
\<close>

definition same_committed :: "storage \<Rightarrow> storage \<Rightarrow> bool" where
  "same_committed st st' \<longleftrightarrow>
     read_only_resources st' = read_only_resources st \<and>
     (\<forall>k. map_option abort_uncommitted (local_resources st' k)
          = map_option abort_uncommitted (local_resources st k)) \<and>
     (\<forall>k. \<not> writable k st \<longrightarrow> local_resources st' k = local_resources st k)"

lemma abort_set_data [simp]:
  "abort_uncommitted (set_data b r) = abort_uncommitted r"
  "abort_uncommitted (delete_data r) = abort_uncommitted r"
  "abort_uncommitted (abort_uncommitted r) = abort_uncommitted r"
  by (simp_all add: abort_uncommitted_def set_data_def delete_data_def)

lemma same_committed_refl [simp, intro]: "same_committed st st"
  by (simp add: same_committed_def)

lemma same_committed_dom: "same_committed st st' \<Longrightarrow> dom (local_resources st') = dom (local_resources st)"
  unfolding same_committed_def dom_def by (metis map_option_is_None)

lemma same_committed_writable: "same_committed st st' \<Longrightarrow> writable k st' = writable k st"
  by (simp add: writable_def same_committed_dom) (simp add: same_committed_def)

lemma same_committed_set [intro]:
  assumes "same_committed st st'"
  shows "same_committed st (host_set k b st')"
proof (cases "writable k st")
  case True
  then have w: "writable k st'" using assms same_committed_writable by simp
  have "map_option abort_uncommitted (local_resources (host_set k b st') j)
      = map_option abort_uncommitted (local_resources st' j)" for j
    by (simp add: host_set_def set_resource_local w option.map_comp comp_def)
  moreover have "local_resources (host_set k b st') j = local_resources st' j" if "\<not> writable j st" for j
    using True that by (auto simp: host_set_def set_resource_local)
  ultimately show ?thesis using assms by (simp add: same_committed_def host_set_def)
next
  case False
  then have "\<not> writable k st'" using assms same_committed_writable by simp
  then show ?thesis using assms by (simp add: host_set_def set_resource_refused)
qed

subsection \<open>Properties\<close>


text \<open>
  C11: Read-only enforcement. No sequence of \<open>set\<close> and \<open>delete\<close> calls of a function changes
  a resource that is bound read-only, or makes a key appear that was not bound.
\<close>

datatype kv_call = CallSet string bytes | CallDelete string

fun run_call :: "kv_call \<Rightarrow> storage \<Rightarrow> storage" where
  "run_call (CallSet k b) st = host_set k b st"
| "run_call (CallDelete k) st = snd (host_delete k st)"

lemma run_call_protects:
  "\<not> writable k st \<Longrightarrow> local_resources (run_call c st) k = local_resources st k"
  by (cases c) (auto simp: host_set_def host_delete_def set_resource_local delete_resource_def
      writable_def split: option.splits)

lemma run_call_writable [simp]: "writable k (run_call c st) = writable k st"
  by (cases c) (simp_all add: host_set_def host_delete_def writable_def)

theorem read_only_protected:
  assumes "\<not> writable k st"
  shows "local_resources (fold run_call cs st) k = local_resources st k"
  using assms by (induction cs arbitrary: st) (simp_all add: run_call_protects)

theorem read_only_protected_witness:
  "local_resources
     (fold run_call [CallSet ''a'' [1], CallDelete ''a'']
       \<lparr>local_resources = [''a'' \<mapsto> new_resource], read_only_resources = {''a''}\<rparr>) ''a''
   = Some new_resource"
  using read_only_protected [of "''a''"
      "\<lparr>local_resources = [''a'' \<mapsto> new_resource], read_only_resources = {''a''}\<rparr>"
      "[CallSet ''a'' [1], CallDelete ''a'']"]
  by (simp add: writable_def)

end
