(* ===== verification/FunctionApi.thy ===== *)
theory FunctionApi
  imports PyJson Storage
begin

section \<open>The world of a function: events, outputs and the key-value imports\<close>

text \<open>
  The types of \<open>wit_world/exports/func_handler.py\<close> and the imports of
  \<open>wit_world/imports/kv.py\<close> as the functions under \<open>applications/*/function\<close> use them.
  The key-value operations are the arguments \<open>kget\<close> and \<open>kset\<close> of every function: the
  worker's storage provides them (\<open>Storage\<close>). A function is a computation over the
  storage that ends in an exception or an \<open>Output\<close>; the effects made before an exception
  stay in the storage, and it is the runner that aborts them.
\<close>

record event =
  event_data :: string

record func_output =
  output_data :: string

definition Output :: "string \<Rightarrow> func_output" where
  "Output s = \<lparr>output_data = s\<rparr>"

lemma Output_inject [simp]: "Output a = Output b \<longleftrightarrow> a = b"
  by (simp add: Output_def)

definition kv_get :: "(string \<Rightarrow> 's \<Rightarrow> bytes option) \<Rightarrow> string \<Rightarrow> ('s, pyerr, bytes option) eff" where
  "kv_get kget key = (\<lambda>s. (Inr (kget key s), s))"

definition kv_set :: "(string \<Rightarrow> bytes \<Rightarrow> 's \<Rightarrow> 's) \<Rightarrow> string \<Rightarrow> bytes \<Rightarrow> ('s, pyerr, unit) eff" where
  "kv_set kset key value = (\<lambda>s. (Inr (), kset key value s))"

lemma kv_eval [simp, py_monad]:
  "kv_get kget k s = (Inr (kget k s), s)"
  "kv_set kset k b s = (Inr (), kset k b s)"
  by (simp_all add: kv_get_def kv_set_def)

text \<open>\<open>get(key).decode()\<close>: a missing value is \<open>None\<close>, which has no such method.\<close>

definition get_decoded :: "(string \<Rightarrow> 's \<Rightarrow> bytes option) \<Rightarrow> string \<Rightarrow> ('s, pyerr, string) eff" where
  "get_decoded kget key =
     pbind (kv_get kget key) (\<lambda>v. case v of None \<Rightarrow> throw AttributeError | Some b \<Rightarrow> pure_eff (bytes_decode b))"

text \<open>\<open>json.loads(get(key).decode())\<close>.\<close>

definition get_json :: "(string \<Rightarrow> 's \<Rightarrow> bytes option) \<Rightarrow> string \<Rightarrow> ('s, pyerr, json) eff" where
  "get_json kget key = pbind (get_decoded kget key) (\<lambda>t. pure_eff (loads t))"

text \<open>
  The preamble of the functions: parse the event and take its two parts. When the text is no
  JSON, the handler binds only \<open>data\<close>, so the variables stay unbound and their first use
  raises; a missing part raises at once.
\<close>

definition load_resources :: "event \<Rightarrow> json py py" where
  "load_resources ev =
     (case loads (event_data ev) of
        Inl e \<Rightarrow> Inr (Inl UnboundLocalError)
      | Inr d \<Rightarrow> rbind (jget d ''resources'') (\<lambda>r. Inr (Inr r)))"

definition load_fields :: "event \<Rightarrow> (json py \<times> json py) py" where
  "load_fields ev =
     (case loads (event_data ev) of
        Inl e \<Rightarrow> Inr (Inl UnboundLocalError, Inl UnboundLocalError)
      | Inr d \<Rightarrow> rbind (jget d ''resources'') (\<lambda>r. rbind (jget d ''values'') (\<lambda>v. Inr (Inr r, Inr v))))"

text \<open>Subscripting a variable that may be unbound.\<close>

definition var_get :: "json py \<Rightarrow> string \<Rightarrow> json py" where
  "var_get x k = rbind x (\<lambda>v. jget v k)"

text \<open>A key named by a value: strings are the only keys the storage holds; \<open>kv.get\<close> refuses others.\<close>

definition key_of :: "json \<Rightarrow> string py" where
  "key_of v = (case v of JStr s \<Rightarrow> Inr s | _ \<Rightarrow> Inl TypeError)"

text \<open>The event text that the worker builds for a task: the resource names and the values.\<close>

definition task_event :: "(string \<times> json) list \<Rightarrow> (string \<times> json) list \<Rightarrow> event" where
  "task_event rs vs = \<lparr>event_data = dumps (JObj [(''resources'', JObj rs), (''values'', JObj vs)])\<rparr>"

lemma loads_task_event:
  assumes "wf_json (JObj rs)" and "wf_json (JObj vs)"
  shows "loads (event_data (task_event rs vs)) = Inr (JObj [(''resources'', JObj rs), (''values'', JObj vs)])"
  using assms by (simp add: task_event_def loads_dumps del: dumps.simps)

lemma load_task_event [simp]:
  assumes "wf_json (JObj rs)" and "wf_json (JObj vs)"
  shows "load_resources (task_event rs vs) = Inr (Inr (JObj rs))"
    and "load_fields (task_event rs vs) = Inr (Inr (JObj rs), Inr (JObj vs))"
  using loads_task_event [OF assms]
  by (simp_all add: load_resources_def load_fields_def jget_def del: wf_json.simps)

subsection \<open>Functions change uncommitted data only\<close>

text \<open>
  A computation whose only effects are \<open>set\<close> calls leads from a storage to one that differs
  from it in uncommitted data. The rules below cover the ways the functions are built.
\<close>

named_theorems uncommitted_only "computations that change uncommitted data only"

definition stages_only :: "(storage, pyerr, 'a) eff \<Rightarrow> bool" where
  "stages_only m \<longleftrightarrow> (\<forall>st. preserves (same_committed st) m)"

lemma stages_only_simps [uncommitted_only]:
  "stages_only (ret x)" "stages_only (throw e)" "stages_only (pure_eff r)"
  "stages_only (kv_get kget k)" "stages_only (kv_set host_set k b)"
  by (auto simp: stages_only_def preserves_def)

lemma stages_only_pbind [uncommitted_only]:
  "stages_only m \<Longrightarrow> (\<And>x. stages_only (f x)) \<Longrightarrow> stages_only (pbind m f)"
  by (simp add: stages_only_def preserves_pbind)

lemma stages_only_ptry [uncommitted_only]:
  "stages_only m \<Longrightarrow> (\<And>e. stages_only (h e)) \<Longrightarrow> stages_only (ptry m h)"
  by (simp add: stages_only_def preserves_ptry)

lemma stages_only_splits [uncommitted_only]:
  "(c \<Longrightarrow> stages_only m) \<Longrightarrow> (\<not> c \<Longrightarrow> stages_only n) \<Longrightarrow> stages_only (if c then m else n)"
  "(v = None \<Longrightarrow> stages_only m) \<Longrightarrow> (\<And>x. v = Some x \<Longrightarrow> stages_only (f x)) \<Longrightarrow>
     stages_only (case v of None \<Rightarrow> m | Some x \<Rightarrow> f x)"
  "(\<And>a b. p = (a, b) \<Longrightarrow> stages_only (g a b)) \<Longrightarrow> stages_only (case p of (a, b) \<Rightarrow> g a b)"
  by (auto split: option.splits prod.splits)

lemma stages_only_pmap [uncommitted_only]:
  "(\<And>x. stages_only (f x)) \<Longrightarrow> stages_only (pmap f xs)"
  by (induction xs) (auto intro!: uncommitted_only)

lemma stages_only_get [uncommitted_only]:
  "stages_only (get_decoded kget k)" "stages_only (get_json kget k)"
  by (auto simp: get_decoded_def get_json_def intro!: uncommitted_only)

lemma stages_only_same_committed: "stages_only m \<Longrightarrow> same_committed st (snd (m st))"
  by (auto simp: stages_only_def preserves_def)

end
