(* ===== verification/HotelFunctions.thy ===== *)
theory HotelFunctions
  imports FunctionApi
begin

section \<open>The functions of the hotel reservation application\<close>

text \<open>
  The eight modules under \<open>applications/hotel-reservation/function\<close>. The numeric kernels of
  numpy are compiled code that is not part of the repository: they are the record \<open>np_ops\<close>,
  an argument of the functions that use them. The wording of the interpreter's own exception
  messages is the argument \<open>msg\<close> (see \<open>exc_str\<close>).
\<close>

type_synonym 's getter = "string \<Rightarrow> 's \<Rightarrow> bytes option"
type_synonym 's setter = "string \<Rightarrow> bytes \<Rightarrow> 's \<Rightarrow> 's"
type_synonym 's handler = "event \<Rightarrow> ('s, pyerr, func_output) eff"

subsection \<open>Storing values: \<open>write-string\<close> and \<open>create-order\<close>\<close>

definition write_string_handle :: "'s setter \<Rightarrow> 's handler" where
  "write_string_handle kset ev =
     (case rbind (loads (event_data ev)) (\<lambda>d. rbind (jget d ''resources'') (\<lambda>r.
           rbind (jget d ''values'') (\<lambda>v. Inr (r, v)))) of
        Inl e \<Rightarrow> ret (Output ''invalid event data'')
      | Inr (resources, values) \<Rightarrow>
          pbind (pure_eff (jget resources ''key'')) (\<lambda>k.
          pbind (pure_eff (jget values ''value'')) (\<lambda>value.
          let key = py_str k;
              payload = (case value of
                           JStr s \<Rightarrow> (case loads s of Inl _ \<Rightarrow> None | Inr _ \<Rightarrow> Some s)
                         | _ \<Rightarrow> Some (dumps value))
          in case payload of
               None \<Rightarrow> ret (Output ''invalid json value'')
             | Some p \<Rightarrow> pbind (kv_set kset key (str_encode p)) (\<lambda>_. ret (Output p)))))"

definition order_json :: "json \<Rightarrow> json \<Rightarrow> json \<Rightarrow> json" where
  "order_json flight_id hotel_id user_id =
     JObj [(''FlightId'', flight_id), (''HotelId'', hotel_id), (''UserId'', user_id)]"

definition create_order_handle :: "'s setter \<Rightarrow> 's handler" where
  "create_order_handle kset ev =
     pbind (pure_eff (load_fields ev)) (\<lambda>(resources, values).
     pbind (pure_eff (var_get resources ''order_key'')) (\<lambda>order_key.
     pbind (pure_eff (var_get values ''flight_id'')) (\<lambda>flight_id.
     pbind (pure_eff (var_get values ''hotel_id'')) (\<lambda>hotel_id.
     pbind (pure_eff (var_get values ''user_id'')) (\<lambda>user_id.
     pbind (pure_eff (key_of order_key)) (\<lambda>key.
     pbind (kv_set kset key (str_encode (dumps (order_json flight_id hotel_id user_id)))) (\<lambda>_.
     ret (Output ''success''))))))))"

subsection \<open>Reservations: \<open>reserve-flight\<close> and \<open>reserve-hotel\<close>\<close>

definition not_enough_space :: "string \<Rightarrow> string \<Rightarrow> pyerr" where
  "not_enough_space what key =
     UserError ''NotEnoughSpace'' (''Not enough space: for '' @ what @ '': '' @ key)"

definition success_json :: json where
  "success_json = JObj [(''success'', JBool True)]"

definition failure_json :: "string \<Rightarrow> json" where
  "failure_json e = JObj [(''success'', JBool False), (''error'', JStr e)]"

text \<open>The body of the \<open>try\<close> block: both modules differ in two words only.\<close>

definition reserve_body ::
  "'s getter \<Rightarrow> 's setter \<Rightarrow> string \<Rightarrow> string \<Rightarrow> json py \<Rightarrow> ('s, pyerr, json) eff" where
  "reserve_body kget kset field what resources =
     pbind (pure_eff (var_get resources field)) (\<lambda>k.
     let key = py_str k
     in pbind (get_json kget key) (\<lambda>d.
        pbind (pure_eff (rbind (jget d ''Cap'') py_decr)) (\<lambda>cap.
        pbind (pure_eff (jset d ''Cap'' cap)) (\<lambda>d'.
        if py_negative cap then throw (not_enough_space what key)
        else pbind (kv_set kset key (str_encode (dumps d'))) (\<lambda>_. ret success_json)))))"

definition reserve_handle ::
  "'s getter \<Rightarrow> 's setter \<Rightarrow> (pyerr \<Rightarrow> string) \<Rightarrow> string \<Rightarrow> string \<Rightarrow> 's handler" where
  "reserve_handle kget kset msg field what ev =
     pbind (pure_eff (load_resources ev)) (\<lambda>resources.
     pbind (ptry (reserve_body kget kset field what resources)
              (\<lambda>e. ret (failure_json (exc_str msg e)))) (\<lambda>data.
     ret (Output (dumps data))))"

definition reserve_flight_handle :: "'s getter \<Rightarrow> 's setter \<Rightarrow> (pyerr \<Rightarrow> string) \<Rightarrow> 's handler" where
  "reserve_flight_handle kget kset msg ev = reserve_handle kget kset msg ''flight_data'' ''flight'' ev"

definition reserve_hotel_handle :: "'s getter \<Rightarrow> 's setter \<Rightarrow> (pyerr \<Rightarrow> string) \<Rightarrow> 's handler" where
  "reserve_hotel_handle kget kset msg ev = reserve_handle kget kset msg ''hotel_data'' ''hotel'' ev"

subsection \<open>Login: \<open>get-user\<close>\<close>

definition get_user_handle :: "'s getter \<Rightarrow> (pyerr \<Rightarrow> string) \<Rightarrow> 's handler" where
  "get_user_handle kget msg ev =
     pbind (pure_eff (load_fields ev)) (\<lambda>(resources, values).
     pbind (ptry
       (pbind (pure_eff (var_get resources ''username'')) (\<lambda>u.
        pbind (get_decoded kget (py_str u)) (\<lambda>stored_password.
        pbind (pure_eff (var_get values ''password'')) (\<lambda>tentative.
        ret (JObj [(''success'', JBool (tentative = JStr stored_password))])))))
       (\<lambda>e. ret (failure_json (exc_str msg e)))) (\<lambda>data.
     ret (Output (dumps data))))"

subsection \<open>Rates: \<open>get-rates\<close>\<close>

definition geo_to_rate :: "string \<Rightarrow> string" where
  "geo_to_rate k = (if take 3 k = ''geo'' then ''rate'' @ drop 3 k else k)"

text \<open>One step of the comprehension: only a string has \<open>startswith\<close>.\<close>

definition rate_plan :: "json \<Rightarrow> json \<Rightarrow> string option py" where
  "rate_plan rate_keys h =
     (case h of
        JStr k \<Rightarrow> rbind (str_in (geo_to_rate k) rate_keys)
                    (\<lambda>b. Inr (if b then Some (geo_to_rate k) else None))
      | _ \<Rightarrow> Inl AttributeError)"

definition rate_plans :: "json \<Rightarrow> json \<Rightarrow> string list py" where
  "rate_plans rate_keys hotel_ids =
     rbind (py_iter hotel_ids) (\<lambda>hs. rbind (rmap (rate_plan rate_keys) hs)
       (\<lambda>ps. Inr (concat (map (\<lambda>p. case p of None \<Rightarrow> [] | Some k \<Rightarrow> [k]) ps))))"

definition get_rates_handle :: "'s getter \<Rightarrow> (pyerr \<Rightarrow> string) \<Rightarrow> 's handler" where
  "get_rates_handle kget msg ev =
     pbind (pure_eff (load_fields ev)) (\<lambda>(resources, values).
     ptry
       (pbind (pure_eff (rbind (var_get resources ''hotel_ids'') key_of)) (\<lambda>key.
        pbind (get_json kget key) (\<lambda>d.
        pbind (pure_eff (jget d ''HotelIds'')) (\<lambda>hotel_ids.
        pbind (pure_eff (var_get values ''rate_keys'')) (\<lambda>rate_keys.
        pbind (pure_eff (rate_plans rate_keys hotel_ids)) (\<lambda>res_plans.
        ret (Output (dumps (JArr (map JStr res_plans))))))))))
       (\<lambda>e. ret (Output (''error: '' @ exc_str msg e))))"

subsection \<open>Distances\<close>

text \<open>
  The operations of numpy: conversion of a JSON value to a float, the elementary functions,
  and \<open>argsort\<close>, whose order among equal elements numpy leaves open.
\<close>

record np_ops =
  np_float :: "json \<Rightarrow> rat py"
  np_radians :: "rat \<Rightarrow> rat"
  np_sin :: "rat \<Rightarrow> rat"
  np_cos :: "rat \<Rightarrow> rat"
  np_arcsin :: "rat \<Rightarrow> rat"
  np_sqrt :: "rat \<Rightarrow> rat"
  np_argsort :: "rat list \<Rightarrow> nat list"

definition np_clip :: "rat \<Rightarrow> rat \<Rightarrow> rat \<Rightarrow> rat" where
  "np_clip x lo hi = min (max x lo) hi"

definition haversine_km :: "np_ops \<Rightarrow> rat \<Rightarrow> rat \<Rightarrow> rat \<Rightarrow> rat \<Rightarrow> rat" where
  "haversine_km np lat1 lon1 lat2 lon2 =
     (let r = dec 63710088 (-4);
          phi1 = np_radians np lat1;
          phi2 = np_radians np lat2;
          dphi = np_radians np (fsub lat2 lat1);
          dlambda = np_radians np (fsub lon2 lon1);
          s1 = np_sin np (fdiv dphi 2);
          s2 = np_sin np (fdiv dlambda 2);
          a = fadd (fmul s1 s1) (fmul (fmul (np_cos np phi1) (np_cos np phi2)) (fmul s2 s2))
      in fmul (fmul 2 r) (np_arcsin np (np_sqrt np (np_clip a 0 1))))"

text \<open>
  \<open>{key: json.loads(get(key).decode()) for key in keys}\<close>, and the distances of a point to
  the places of such a dict, whose coordinates stand under the given field names.
\<close>

definition read_all :: "'s getter \<Rightarrow> json \<Rightarrow> ('s, pyerr, (string \<times> json) list) eff" where
  "read_all kget keys =
     pbind (pure_eff (py_iter keys)) (\<lambda>ks.
     pbind (pmap (\<lambda>k. pbind (pure_eff (key_of k)) (\<lambda>key.
                      pbind (get_json kget key) (\<lambda>v. ret (key, v)))) ks) (\<lambda>kvs.
     ret (dict_of kvs)))"

definition np_column :: "np_ops \<Rightarrow> string \<Rightarrow> (string \<times> json) list \<Rightarrow> rat list py" where
  "np_column np field d =
     rbind (rmap (\<lambda>(_, v). jget v field) d) (rmap (np_float np))"

definition distances ::
  "np_ops \<Rightarrow> json \<Rightarrow> json \<Rightarrow> string \<Rightarrow> string \<Rightarrow> (string \<times> json) list \<Rightarrow> rat list py" where
  "distances np lat lon lat_field lon_field d =
     rbind (np_column np lat_field d) (\<lambda>lats.
     rbind (np_column np lon_field d) (\<lambda>lons.
     rbind (np_float np lat) (\<lambda>lat1.
     rbind (np_float np lon) (\<lambda>lon1.
     Inr (map2 (\<lambda>lat2 lon2. haversine_km np lat1 lon1 lat2 lon2) lats lons)))))"

subsection \<open>Recommendations: \<open>get-recommendations\<close>\<close>

text \<open>
  \<open>max(d, key=...)\<close> and \<open>min(d, key=...)\<close> over a dict go through its keys and return a key,
  the first among equals; an empty dict raises.
\<close>

definition key_values :: "string \<Rightarrow> (string \<times> json) list \<Rightarrow> (string \<times> json) list py" where
  "key_values field d = rmap (\<lambda>(k, v). rbind (jget v field) (\<lambda>x. Inr (k, x))) d"

fun best_key :: "(json \<Rightarrow> json \<Rightarrow> bool py) \<Rightarrow> (string \<times> json) \<Rightarrow> (string \<times> json) list \<Rightarrow> string py" where
  "best_key better (k, x) [] = Inr k"
| "best_key better (k, x) ((k', x') # kxs) =
     rbind (better x' x) (\<lambda>b. best_key better (if b then (k', x') else (k, x)) kxs)"

definition dict_max :: "string \<Rightarrow> (string \<times> json) list \<Rightarrow> string py" where
  "dict_max field d =
     rbind (key_values field d) (\<lambda>kxs. case kxs of
       [] \<Rightarrow> Inl ValueError | kx # r \<Rightarrow> best_key (\<lambda>x y. py_lt y x) kx r)"

definition dict_min :: "string \<Rightarrow> (string \<times> json) list \<Rightarrow> string py" where
  "dict_min field d =
     rbind (key_values field d) (\<lambda>kxs. case kxs of
       [] \<Rightarrow> Inl ValueError | kx # r \<Rightarrow> best_key py_lt kx r)"

text \<open>\<open>[k for k, v in d.items() if v[field] == x]\<close>.\<close>

definition keys_equal :: "string \<Rightarrow> json \<Rightarrow> (string \<times> json) list \<Rightarrow> string list py" where
  "keys_equal field x d =
     rbind (key_values field d) (\<lambda>kxs. Inr (map fst (filter (\<lambda>(k, y). py_eq y x) kxs)))"

definition nearest_keys :: "np_ops \<Rightarrow> json \<Rightarrow> json \<Rightarrow> (string \<times> json) list \<Rightarrow> string list py" where
  "nearest_keys np lat lon d =
     rbind (distances np lat lon ''HLat'' ''HLon'' d) (\<lambda>ds.
       if ds = [] then Inl ValueError
       else Inr (map fst (filter (\<lambda>(k, x). x = Min (set ds)) (zip (map fst d) ds))))"

definition recommend_keys ::
  "np_ops \<Rightarrow> json \<Rightarrow> json \<Rightarrow> json \<Rightarrow> (string \<times> json) list \<Rightarrow> string list py" where
  "recommend_keys np requirement lat lon d =
     (if requirement = JStr ''dis'' then nearest_keys np lat lon d
      else if requirement = JStr ''rate'' then
        rbind (dict_max ''HRate'' d) (\<lambda>max_rate. keys_equal ''HRate'' (JStr max_rate) d)
      else if requirement = JStr ''price'' then
        rbind (dict_min ''HPrice'' d) (\<lambda>min_price. keys_equal ''HPrice'' (JStr min_price) d)
      else Inl (UserError ''WrongRecommendationOption''
                  (''No such requirement: '' @ py_str requirement)))"

definition get_recommendations_handle :: "'s getter \<Rightarrow> np_ops \<Rightarrow> 's handler" where
  "get_recommendations_handle kget np ev =
     pbind (pure_eff (load_fields ev)) (\<lambda>(resources, values).
     pbind (pure_eff (var_get values ''requirement'')) (\<lambda>requirement.
     pbind (pure_eff (var_get values ''lat'')) (\<lambda>lat.
     pbind (pure_eff (var_get values ''lon'')) (\<lambda>lon.
     pbind (pure_eff (var_get resources ''rec_keys'')) (\<lambda>rec_keys.
     pbind (read_all kget rec_keys) (\<lambda>rec_d.
     pbind (pure_eff (recommend_keys np requirement lat lon rec_d)) (\<lambda>res.
     ret (Output (dumps (JArr (map JStr res)))))))))))"

subsection \<open>Search: \<open>nearby\<close>\<close>

definition nearby_keys :: "np_ops \<Rightarrow> json \<Rightarrow> json \<Rightarrow> (string \<times> json) list \<Rightarrow> string list py" where
  "nearby_keys np lat lon d =
     rbind (distances np lat lon ''Plat'' ''Plon'' d) (\<lambda>ds.
       let nearby_indices = filter (\<lambda>i. ds ! i < 10) [0..<length ds];
           sorted_indices = map (\<lambda>j. nearby_indices ! j)
             (np_argsort np (map (\<lambda>i. ds ! i) nearby_indices))
       in Inr (map (\<lambda>i. fst (d ! i)) (take 5 sorted_indices)))"

definition nearby_handle :: "'s getter \<Rightarrow> 's setter \<Rightarrow> np_ops \<Rightarrow> 's handler" where
  "nearby_handle kget kset np ev =
     pbind (pure_eff (load_fields ev)) (\<lambda>(resources, values).
     pbind (pure_eff (var_get values ''lat'')) (\<lambda>lat.
     pbind (pure_eff (var_get values ''lon'')) (\<lambda>lon.
     pbind (pure_eff (var_get resources ''geo_keys'')) (\<lambda>geo_keys.
     pbind (read_all kget geo_keys) (\<lambda>geo_dict.
     pbind (pure_eff (nearby_keys np lat lon geo_dict)) (\<lambda>ids.
     pbind (pure_eff (rbind (var_get resources ''hotel_ids'') key_of)) (\<lambda>key.
     pbind (kv_set kset key (str_encode (dumps (JObj [(''HotelIds'', JArr (map JStr ids))])))) (\<lambda>_.
     ret (Output ''success'')))))))))"


subsection \<open>JSON values in the storage\<close>

definition stored :: "'s getter \<Rightarrow> 's \<Rightarrow> string \<Rightarrow> json \<Rightarrow> bool" where
  "stored kget s k v \<longleftrightarrow> wf_json v \<and> kget k s = Some (str_encode (dumps v))"

lemma dumps_ne: "wf_json v \<Longrightarrow> dumps v \<noteq> []"
  using dumps_hd by fastforce

lemma get_json_stored [simp]: "stored kget s k v \<Longrightarrow> get_json kget k s = (Inr v, s)"
  by (simp add: stored_def get_json_def get_decoded_def pbind_eval loads_dumps)

lemma wf_json_update:
  "wf_json (JObj kvs) \<Longrightarrow> wf_json v \<Longrightarrow> wf_json (JObj (AList.update k v kvs))"
  by (induction kvs) (auto simp: fst_set_update list_all_iff)

lemma jget_update [simp]:
  "jget (JObj (AList.update k v kvs)) k' = (if k' = k then Inr v else jget (JObj kvs) k')"
  by (simp add: jget_def map_of_update)

context kv_interface
begin

lemma stored_kset:
  "kwritable k s \<Longrightarrow> wf_json v \<Longrightarrow> stored kget (kset k (str_encode (dumps v)) s) k v"
  by (simp add: stored_def kget_kset_same dumps_ne)

lemma stored_kset_other:
  "k' \<noteq> k \<Longrightarrow> stored kget (kset k b s) k' v = stored kget s k' v"
  by (simp add: stored_def kget_kset_other)

end


subsection \<open>Reservations\<close>

lemma reserve_body_stored:
  assumes "stored kget s k (JObj d)" and "jget (JObj d) ''Cap'' = Inr (JInt c)"
  shows "reserve_body kget kset field what (Inr (JObj [(field, JStr k)])) s =
    (if c \<le> 0 then (Inl (not_enough_space what k), s)
     else (Inr success_json,
           kset k (str_encode (dumps (JObj (AList.update ''Cap'' (JInt (c - 1)) d)))) s))"
  using assms
  by (simp add: reserve_body_def var_get_def jget_def pbind_eval jset_def Let_def not_enough_space_def
      split: option.splits)

lemma reserve_stored:
  assumes "stored kget s k (JObj d)" and "jget (JObj d) ''Cap'' = Inr (JInt c)"
    and "wf_json (JObj vs)"
  shows "reserve_handle kget kset msg field what (task_event [(field, JStr k)] vs) s =
    (if c \<le> 0 then
       (Inr (Output (dumps (failure_json (''Not enough space: for '' @ what @ '': '' @ k)))), s)
     else (Inr (Output (dumps success_json)),
           kset k (str_encode (dumps (JObj (AList.update ''Cap'' (JInt (c - 1)) d)))) s))"
  using assms(3)
  by (simp add: reserve_handle_def pbind_eval ptry_eval reserve_body_stored [OF assms(1,2)]
      not_enough_space_def exc_str_def del: dumps.simps)

lemma reserve_never_raises:
  "load_resources ev = Inr r \<Longrightarrow> \<exists>out s'. reserve_handle kget kset msg field what ev s = (Inr out, s')"
  by (auto simp: reserve_handle_def pbind_eval ptry_eval split: prod.splits sum.splits)

text \<open>A sequence of reservations of one item, and how many of them succeed.\<close>

fun reserve_times :: "'s handler \<Rightarrow> event \<Rightarrow> nat \<Rightarrow> 's \<Rightarrow> nat \<times> 's" where
  "reserve_times handle ev 0 s = (0, s)"
| "reserve_times handle ev (Suc n) s =
     (case handle ev s of
        (out, s1) \<Rightarrow> (case reserve_times handle ev n s1 of
          (m, s2) \<Rightarrow> ((if out = Inr (Output (dumps success_json)) then 1 else 0) + m, s2)))"

lemma success_not_failure [simp]: "dumps (failure_json e) \<noteq> dumps success_json"
  by (simp add: failure_json_def success_json_def)

context kv_interface
begin

lemma reserve_times_cap:
  assumes "stored kget s k (JObj d)" and "jget (JObj d) ''Cap'' = Inr (JInt c)"
    and "kwritable k s" and "wf_json (JObj vs)" and "0 \<le> c"
  shows "\<exists>s' d'. reserve_times (reserve_handle kget kset msg field what) (task_event [(field, JStr k)] vs) n s
             = (min n (nat c), s') \<and> stored kget s' k (JObj d')
           \<and> jget (JObj d') ''Cap'' = Inr (JInt (max 0 (c - int n)))
           \<and> (\<forall>f. f \<noteq> ''Cap'' \<longrightarrow> jget (JObj d') f = jget (JObj d) f)"
  using assms
proof (induction n arbitrary: s d c)
  case 0
  then show ?case by auto
next
  case (Suc n)
  note step = reserve_stored [OF Suc.prems(1,2,4), where kset = kset and msg = msg and field = field and what = what]
  show ?case
  proof (cases "c = 0")
    case True
    from Suc.IH [OF Suc.prems(1,2,3,4,5)] True show ?thesis using step by auto
  next
    case False
    define d1 where "d1 = AList.update ''Cap'' (JInt (c - 1)) d"
    define s1 where "s1 = kset k (str_encode (dumps (JObj d1))) s"
    have wf: "wf_json (JObj d1)"
      using Suc.prems(1) wf_json_update [of d "JInt (c - 1)" "''Cap''"] by (simp add: stored_def d1_def)
    have "stored kget s1 k (JObj d1)" "kwritable k s1"
      using Suc.prems(3) stored_kset [OF Suc.prems(3) wf] by (simp_all add: s1_def kwritable_kset)
    moreover have "jget (JObj d1) ''Cap'' = Inr (JInt (c - 1))" by (simp add: d1_def)
    ultimately obtain s' d' where
      "reserve_times (reserve_handle kget kset msg field what) (task_event [(field, JStr k)] vs) n s1 = (min n (nat (c - 1)), s')"
      "stored kget s' k (JObj d')" "jget (JObj d') ''Cap'' = Inr (JInt (max 0 (c - 1 - int n)))"
      "\<forall>f. f \<noteq> ''Cap'' \<longrightarrow> jget (JObj d') f = jget (JObj d1) f"
      using Suc.IH [of s1 d1 "c - 1"] Suc.prems(4,5) False by auto
    with step False Suc.prems(5) show ?thesis
      by (intro exI [of _ s'] exI [of _ d']) (auto simp: s1_def d1_def)
  qed
qed

end


subsection \<open>Recommendations by rate or price\<close>

text \<open>A record whose field is a number is never equal to a string.\<close>

definition is_num :: "json \<Rightarrow> bool" where
  "is_num v \<longleftrightarrow> as_number v \<noteq> None"

lemma py_eq_num_str: "is_num v \<Longrightarrow> \<not> py_eq v (JStr k)"
  by (cases v) (auto simp: is_num_def)

definition numeric_field :: "string \<Rightarrow> (string \<times> json) list \<Rightarrow> bool" where
  "numeric_field field d \<longleftrightarrow>
     list_all (\<lambda>(k, v). case jget v field of Inl e \<Rightarrow> False | Inr x \<Rightarrow> is_num x) d"

lemma key_values_num:
  "numeric_field field d \<Longrightarrow>
     \<exists>kxs. key_values field d = Inr kxs \<and> (\<forall>(k, x)\<in>set kxs. is_num x) \<and> map fst kxs = map fst d"
proof (induction d)
  case Nil
  then show ?case by (simp add: key_values_def)
next
  case (Cons kv d)
  obtain k v where kv: "kv = (k, v)" by (cases kv)
  from Cons.prems kv obtain x where x: "jget v field = Inr x" "is_num x"
    by (auto simp: numeric_field_def split: sum.splits)
  have "\<exists>kxs. key_values field d = Inr kxs \<and> (\<forall>(k, x)\<in>set kxs. is_num x) \<and> map fst kxs = map fst d"
    by (rule Cons.IH) (use Cons.prems in \<open>simp add: numeric_field_def\<close>)
  then show ?case using kv x by (fastforce simp: key_values_def)
qed

lemma num_lt_nums: "is_num v \<Longrightarrow> is_num w \<Longrightarrow> num_lt v w = Some (the (as_number v) < the (as_number w))"
  by (cases v; cases w) (auto simp: is_num_def num_lt_def num_key_def)

lemma py_lt_nums: "is_num v \<Longrightarrow> is_num w \<Longrightarrow> py_lt v w = Inr (the (as_number v) < the (as_number w))"
  using num_lt_nums [of v w] by (cases v) (auto simp: is_num_def)

lemma best_key_total:
  assumes "is_num (snd kx)" and "\<forall>(k, x)\<in>set kxs. is_num x"
    and "\<And>x y. is_num x \<Longrightarrow> is_num y \<Longrightarrow> \<exists>b. better x y = Inr b"
  shows "\<exists>k. best_key better kx kxs = Inr k"
  using assms(1,2)
proof (induction kxs arbitrary: kx)
  case Nil
  then show ?case by (cases kx) simp
next
  case (Cons kx' kxs)
  obtain k x k' x' where kx: "kx = (k, x)" "kx' = (k', x')" by (cases kx; cases kx')
  from Cons.prems kx assms(3) [of x' x] obtain b where b: "better x' x = Inr b" by auto
  show ?case
    using Cons.IH [of "if b then (k', x') else (k, x)"] Cons.prems kx b by auto
qed

lemma keys_equal_str:
  "numeric_field field d \<Longrightarrow> keys_equal field (JStr s) d = Inr []"
  using key_values_num [of field d] py_eq_num_str
  by (fastforce simp: keys_equal_def filter_empty_conv)

lemma dict_best_total:
  assumes "numeric_field field d" and "d \<noteq> []"
  shows "\<exists>k. dict_max field d = Inr k" "\<exists>k. dict_min field d = Inr k"
proof -
  obtain kxs where kxs: "key_values field d = Inr kxs" "\<forall>(k, x)\<in>set kxs. is_num x" "map fst kxs = map fst d"
    using key_values_num [OF assms(1)] by blast
  with assms(2) obtain kx r where r: "kxs = kx # r" by (cases kxs) auto
  show "\<exists>k. dict_max field d = Inr k" "\<exists>k. dict_min field d = Inr k"
    using kxs r best_key_total [of kx r "\<lambda>x y. py_lt y x"] best_key_total [of kx r py_lt]
    by (auto simp: dict_max_def dict_min_def py_lt_nums split: prod.splits simp del: py_lt.simps)
qed


subsection \<open>Search by distance\<close>

text \<open>
  The documented behaviour of \<open>argsort\<close>: the indices of the list, each once, in the order
  of their elements.
\<close>

definition argsort_ok :: "np_ops \<Rightarrow> rat list \<Rightarrow> bool" where
  "argsort_ok np xs \<longleftrightarrow>
     distinct (np_argsort np xs) \<and> set (np_argsort np xs) = {0..<length xs}
     \<and> sorted (map (\<lambda>i. xs ! i) (np_argsort np xs))"

lemma argsort_positions:
  assumes "argsort_ok np (map f ns)" and "distinct ns"
  shows "set (map (\<lambda>j. ns ! j) (np_argsort np (map f ns))) = set ns"
    and "distinct (map (\<lambda>j. ns ! j) (np_argsort np (map f ns)))"
    and "sorted (map f (map (\<lambda>j. ns ! j) (np_argsort np (map f ns))))"
proof -
  let ?p = "np_argsort np (map f ns)"
  have s: "set ?p = {0..<length ns}" "distinct ?p" "sorted (map (\<lambda>i. map f ns ! i) ?p)"
    using assms(1) by (simp_all add: argsort_ok_def)
  show "set (map (\<lambda>j. ns ! j) ?p) = set ns" using s(1) by (simp add: nth_image)
  show "distinct (map (\<lambda>j. ns ! j) ?p)"
    using s(1,2) assms(2) by (auto simp: distinct_map inj_on_def nth_eq_iff_index_eq)
  have "map f (map (\<lambda>j. ns ! j) ?p) = map (\<lambda>i. map f ns ! i) ?p"
    unfolding map_map using s(1) by (intro map_cong) auto
  with s(3) show "sorted (map f (map (\<lambda>j. ns ! j) ?p))" by (simp only:)
qed

lemma sorted_take_drop_le:
  "sorted (map f xs) \<Longrightarrow> x \<in> set (take n xs) \<Longrightarrow> y \<in> set (drop n xs) \<Longrightarrow> f x \<le> f y"
  using sorted_append [of "map f (take n xs)" "map f (drop n xs)"]
  by (simp add: map_append [symmetric] del: map_append)

lemma nearby_keys_spec:
  assumes "distances np lat lon ''Plat'' ''Plon'' d = Inr ds" and "length ds = length d"
    and "\<And>xs. argsort_ok np xs"
  shows "\<exists>is. nearby_keys np lat lon d = Inr (map (\<lambda>i. fst (d ! i)) is) \<and> length is \<le> 5
           \<and> distinct is \<and> sorted (map (\<lambda>i. ds ! i) is)
           \<and> (\<forall>i\<in>set is. i < length d \<and> ds ! i < 10)
           \<and> (\<forall>j<length d. ds ! j < 10 \<longrightarrow> j \<notin> set is \<longrightarrow>
                length is = 5 \<and> (\<forall>i\<in>set is. ds ! i \<le> ds ! j))"
proof -
  define ns where "ns = filter (\<lambda>i. ds ! i < 10) [0..<length ds]"
  define f where "f = (\<lambda>i. ds ! i)"
  define ps where "ps = map (\<lambda>j. ns ! j) (np_argsort np (map f ns))"
  have "distinct ns" by (simp add: ns_def)
  from argsort_positions [OF assms(3) this, of f]
  have ps: "set ps = set ns" "distinct ps" "sorted (map f ps)" unfolding ps_def by auto
  have "nearby_keys np lat lon d = Inr (map (\<lambda>i. fst (d ! i)) (take 5 ps))"
    using assms(1) by (simp add: nearby_keys_def ns_def ps_def f_def Let_def)
  moreover have "sorted (map f (take 5 ps))" using ps(3) by (simp add: take_map [symmetric] sorted_wrt_take)
  moreover have "i < length d \<and> ds ! i < 10" if "i \<in> set (take 5 ps)" for i
    using in_set_takeD [OF that] ps(1) assms(2) by (simp add: ns_def)
  moreover have "length (take 5 ps) = 5 \<and> (\<forall>i\<in>set (take 5 ps). ds ! i \<le> ds ! j)"
    if j: "j < length d" "ds ! j < 10" "j \<notin> set (take 5 ps)" for j
  proof -
    have "j \<in> set ps" using j(1,2) ps(1) assms(2) by (simp add: ns_def)
    moreover have "set ps = set (take 5 ps) \<union> set (drop 5 ps)" by (metis append_take_drop_id set_append)
    ultimately have dr: "j \<in> set (drop 5 ps)" using j(3) by blast
    then have "5 < length ps" by (cases "length ps \<le> 5") auto
    then show ?thesis using sorted_take_drop_le [OF ps(3) _ dr] by (simp add: f_def)
  qed
  ultimately show ?thesis using ps(2) by (intro exI [of _ "take 5 ps"]) (auto simp: f_def)
qed

lemma distances_length: "distances np lat lon p q d = Inr ds \<Longrightarrow> length ds = length d"
  by (auto simp: distances_def np_column_def rbind_Inr_iff dest!: rmap_Inr_length)

subsection \<open>Rates, logins and stored texts\<close>

lemma rate_plans_strings:
  "rate_plans (JArr (map JStr rks)) (JArr (map JStr hs)) =
     Inr (filter (\<lambda>k. k \<in> set rks) (map geo_to_rate hs))"
proof -
  have "rmap (rate_plan (JArr (map JStr rks))) (map JStr hs)
      = Inr (map (\<lambda>h. if geo_to_rate h \<in> set rks then Some (geo_to_rate h) else None) hs)"
    by (induction hs) (auto simp: rate_plan_def str_in_def)
  moreover have "concat (map (\<lambda>p. case p of None \<Rightarrow> [] | Some k \<Rightarrow> [k])
      (map (\<lambda>h. if geo_to_rate h \<in> set rks then Some (geo_to_rate h) else None) hs))
      = filter (\<lambda>k. k \<in> set rks) (map geo_to_rate hs)"
    by (induction hs) auto
  ultimately show ?thesis by (simp add: rate_plans_def py_iter_def)
qed

lemma hotel_stages_only [uncommitted_only]:
  "stages_only (write_string_handle host_set ev)"
  "stages_only (create_order_handle host_set ev)"
  "stages_only (reserve_flight_handle kget host_set msg ev)"
  "stages_only (reserve_hotel_handle kget host_set msg ev)"
  "stages_only (get_user_handle kget msg ev)"
  "stages_only (get_rates_handle kget msg ev)"
  "stages_only (get_recommendations_handle kget np ev)"
  "stages_only (nearby_handle kget host_set np ev)"
  by (auto simp: write_string_handle_def create_order_handle_def reserve_flight_handle_def
      reserve_hotel_handle_def reserve_handle_def reserve_body_def get_user_handle_def
      get_rates_handle_def get_recommendations_handle_def nearby_handle_def read_all_def Let_def
      split: sum.splits intro!: uncommitted_only)


subsection \<open>Properties\<close>

text \<open>
  C22: Capacity is respected. Of any number of reservations of one flight, exactly as many
  succeed as it has places; the others are refused, the stored capacity counts down to zero
  and never below, and the rest of the flight's record stays as it is.
\<close>

theorem reservation_capacity:
  assumes "stored (host_get host) s k (JObj d)" and "jget (JObj d) ''Cap'' = Inr (JInt c)"
    and "writable k s" and "wf_json (JObj vs)" and "0 \<le> c"
  shows "\<exists>s' d'. reserve_times (reserve_flight_handle (host_get host) host_set msg)
               (task_event [(''flight_data'', JStr k)] vs) n s = (min n (nat c), s')
           \<and> stored (host_get host) s' k (JObj d')
           \<and> jget (JObj d') ''Cap'' = Inr (JInt (max 0 (c - int n)))
           \<and> (\<forall>f. f \<noteq> ''Cap'' \<longrightarrow> jget (JObj d') f = jget (JObj d) f)"
  unfolding reserve_flight_handle_def [abs_def] using assms by (rule rs.reserve_times_cap)

definition flight_storage :: storage where
  "flight_storage = \<lparr>local_resources =
     [''f'' \<mapsto> set_data (str_encode (dumps (JObj [(''Cap'', JInt 2)]))) new_resource],
     read_only_resources = {}\<rparr>"

lemma flight_storage_stored:
  "stored (host_get True) flight_storage ''f'' (JObj [(''Cap'', JInt 2)])" "writable ''f'' flight_storage"
  by (simp_all add: stored_def flight_storage_def host_get_def get_resource_def Let_def writable_def)

theorem reservation_capacity_witness:
  "fst (reserve_times (reserve_flight_handle (host_get True) host_set (\<lambda>_. []))
          (task_event [(''flight_data'', JStr ''f'')] []) 3 flight_storage) = 2"
  using reservation_capacity [OF flight_storage_stored(1) _ flight_storage_stored(2), of 2 "[]" "\<lambda>_. []" 3]
  by (auto simp: jget_def)

text \<open>
  C23: A full hotel is refused without an exception. The function returns normally, its output
  says that it failed, and the storage is untouched; the commit of the other behaviours of the
  workflow is therefore not prevented by it.
\<close>

theorem reserve_full_returns:
  assumes "stored (host_get host) s k (JObj d)" and "jget (JObj d) ''Cap'' = Inr (JInt c)"
    and "wf_json (JObj vs)" and "c \<le> 0"
  shows "reserve_hotel_handle (host_get host) host_set msg (task_event [(''hotel_data'', JStr k)] vs) s
    = (Inr (Output (dumps (JObj [(''success'', JBool False),
        (''error'', JStr (''Not enough space: for hotel: '' @ k))]))), s)"
  using reserve_stored [OF assms(1,2,3), where kset = host_set and msg = msg and field = "''hotel_data''"
      and what = "''hotel''"] assms(4)
  by (simp add: reserve_hotel_handle_def failure_json_def del: dumps.simps)

definition full_hotel :: storage where
  "full_hotel = \<lparr>local_resources =
     [''h'' \<mapsto> set_data (str_encode (dumps (JObj [(''Cap'', JInt 0)]))) new_resource],
     read_only_resources = {}\<rparr>"

theorem reserve_full_returns_witness:
  "reserve_hotel_handle (host_get True) host_set (\<lambda>_. []) (task_event [(''hotel_data'', JStr ''h'')] []) full_hotel
    = (Inr (Output (dumps (JObj [(''success'', JBool False),
        (''error'', JStr ''Not enough space: for hotel: h'')]))), full_hotel)"
  using reserve_full_returns [of True full_hotel "''h''" "[(''Cap'', JInt 0)]" 0 "[]" "\<lambda>_. []"]
  using dumps_ne [of "JObj [(''Cap'', JInt 0)]"]
  by (simp add: stored_def full_hotel_def host_get_def get_resource_def Let_def jget_def del: dumps.simps)

text \<open>A small numpy for concrete inputs.\<close>

definition np_flat :: np_ops where
  "np_flat = \<lparr>np_float = (\<lambda>v. of_option TypeError (as_number v)), np_radians = (\<lambda>x. x), np_sin = (\<lambda>x. 0),
     np_cos = (\<lambda>x. 1), np_arcsin = (\<lambda>x. x), np_sqrt = (\<lambda>x. x),
     np_argsort = (\<lambda>xs. sort_key (\<lambda>i. xs ! i) [0..<length xs])\<rparr>"

text \<open>
  C30: Recommendations by rate or by price are always empty. With numeric rates (prices) the
  search for the best returns the key of the best hotel, and the filter compares the rates
  with that key: no hotel passes, whatever the data.
\<close>

theorem recommend_by_value_empty:
  assumes "d \<noteq> []" and "numeric_field ''HRate'' d" and "numeric_field ''HPrice'' d"
  shows "recommend_keys np (JStr ''rate'') lat lon d = Inr []
       \<and> recommend_keys np (JStr ''price'') lat lon d = Inr []"
  using dict_best_total [OF assms(2,1)] dict_best_total [OF assms(3,1)]
    keys_equal_str [OF assms(2)] keys_equal_str [OF assms(3)]
  by (auto simp: recommend_keys_def)

theorem recommend_by_value_empty_witness:
  "recommend_keys np_flat (JStr ''rate'') JNull JNull
     [(''h1'', JObj [(''HRate'', JInt 3), (''HPrice'', JInt 100)]),
      (''h2'', JObj [(''HRate'', JInt 5), (''HPrice'', JInt 80)])] = Inr []"
  using recommend_by_value_empty
    [of "[(''h1'', JObj [(''HRate'', JInt 3), (''HPrice'', JInt 100)]),
          (''h2'', JObj [(''HRate'', JInt 5), (''HPrice'', JInt 80)])]" np_flat JNull JNull]
  by (simp add: numeric_field_def jget_def is_num_def)

text \<open>
  C31: The search returns the nearest places. For any \<open>argsort\<close> that sorts, the keys written
  are those of at most five distinct places, ordered by distance, all nearer than ten
  kilometres; a place within ten kilometres is missing only if five others are at least as near.
\<close>

theorem nearby_nearest:
  assumes "distances np lat lon ''Plat'' ''Plon'' d = Inr ds" and "\<And>xs. argsort_ok np xs"
  shows "\<exists>is. nearby_keys np lat lon d = Inr (map (\<lambda>i. fst (d ! i)) is) \<and> length is \<le> 5
           \<and> distinct is \<and> sorted (map (\<lambda>i. ds ! i) is)
           \<and> (\<forall>i\<in>set is. i < length d \<and> ds ! i < 10)
           \<and> (\<forall>j<length d. ds ! j < 10 \<longrightarrow> j \<notin> set is \<longrightarrow>
                length is = 5 \<and> (\<forall>i\<in>set is. ds ! i \<le> ds ! j))"
  by (rule nearby_keys_spec [OF assms(1) distances_length [OF assms(1)] assms(2)])

lemma np_flat_argsort: "argsort_ok np_flat xs"
  by (simp add: argsort_ok_def np_flat_def)

lemma np_flat_distances:
  "distances np_flat (JInt 0) (JInt 0) ''Plat'' ''Plon''
     [(''geo1'', JObj [(''Plat'', JInt 1), (''Plon'', JInt 2)])] = Inr [0]"
  by (simp add: distances_def np_column_def np_flat_def jget_def haversine_km_def Let_def
      fadd_def fsub_def fmul_def fdiv_def np_clip_def)

theorem nearby_nearest_witness:
  "\<exists>ks. nearby_keys np_flat (JInt 0) (JInt 0)
           [(''geo1'', JObj [(''Plat'', JInt 1), (''Plon'', JInt 2)])] = Inr ks \<and> length ks \<le> 5"
  using nearby_nearest [OF np_flat_distances np_flat_argsort] by auto

text \<open>
  The rates of the hotels. From the hotels that the search left in the storage the
  function returns, in order, those whose rate key (\<open>geo\<close> replaced by \<open>rate\<close>) was asked
  for, and changes nothing.
\<close>

lemma get_rates_filters:
  assumes "stored (host_get host) s k (JObj [(''HotelIds'', JArr (map JStr hs))])"
  shows "get_rates_handle (host_get host) msg
           (task_event [(''hotel_ids'', JStr k)] [(''rate_keys'', JArr (map JStr rks))]) s
       = (Inr (Output (dumps (JArr (map JStr (filter (\<lambda>r. r \<in> set rks) (map geo_to_rate hs)))))), s)"
proof -
  have "wf_json (JObj [(''hotel_ids'', JStr k)])" "wf_json (JObj [(''rate_keys'', JArr (map JStr rks))])"
    by (simp_all add: list_all_iff)
  then show ?thesis
    using assms by (simp add: get_rates_handle_def pbind_eval ptry_eval var_get_def jget_def key_of_def
        rate_plans_strings del: wf_json.simps dumps.simps)
qed

definition searched :: storage where
  "searched = \<lparr>local_resources = [''nearby'' \<mapsto> set_data (str_encode (dumps
     (JObj [(''HotelIds'', JArr (map JStr [''geo1'', ''geo2'']))]))) new_resource],
     read_only_resources = {}\<rparr>"

text \<open>The parts of a login: the password is written, then compared with the attempt.\<close>

lemma write_string_text:
  "loads p = Inr j \<Longrightarrow> write_string_handle kset (task_event [(''key'', JStr u)] [(''value'', JStr p)]) s
     = (Inr (Output p), kset u (str_encode p) s)"
  "loads p = Inl e \<Longrightarrow> write_string_handle kset (task_event [(''key'', JStr u)] [(''value'', JStr p)]) s
     = (Inr (Output ''invalid json value''), s)"
  using loads_task_event [of "[(''key'', JStr u)]" "[(''value'', JStr p)]"]
  by (simp_all add: write_string_handle_def jget_def pbind_eval)

lemma get_user_stored:
  "kget u s = Some (str_encode p) \<Longrightarrow>
     get_user_handle kget msg (task_event [(''username'', JStr u)] [(''password'', JStr q)]) s
     = (Inr (Output (dumps (JObj [(''success'', JBool (q = p))]))), s)"
  "kget u s = None \<Longrightarrow>
     get_user_handle kget msg (task_event [(''username'', JStr u)] [(''password'', JStr q)]) s
     = (Inr (Output (dumps (failure_json (msg AttributeError)))), s)"
  by (simp_all add: get_user_handle_def pbind_eval ptry_eval var_get_def jget_def get_decoded_def exc_str_def
      del: dumps.simps)

lemma login_after_write:
  assumes "writable u s" and "loads p = Inr j"
  shows "get_user_handle (host_get host) msg
        (task_event [(''username'', JStr u)] [(''password'', JStr q)]) (host_set u (str_encode p) s)
      = (Inr (Output (dumps (JObj [(''success'', JBool (q = p))]))), host_set u (str_encode p) s)"
proof -
  have "p \<noteq> []" using assms(2) by (auto simp: loads_def)
  then have "host_get host u (host_set u (str_encode p) s) = Some (str_encode p)"
    using assms(1) rs.kget_kset_same [of u s "str_encode p" host] by simp
  then show ?thesis by (rule get_user_stored)
qed

text \<open>
  C32: Login. A user whose password text was stored by \<open>write-string\<close> logs in with exactly
  that text; every other password is refused, and a user without a record gets a failure, not
  an exception.
\<close>

theorem login_checks_password:
  assumes "writable u s" and "loads p = Inr j"
  shows "(\<exists>s'. write_string_handle host_set
                 (task_event [(''key'', JStr u)] [(''value'', JStr p)]) s = (Inr (Output p), s')
            \<and> get_user_handle (host_get host) msg
                 (task_event [(''username'', JStr u)] [(''password'', JStr q)]) s'
               = (Inr (Output (dumps (JObj [(''success'', JBool (q = p))]))), s'))
       \<and> (host_get host u s = None \<longrightarrow> get_user_handle (host_get host) msg
                 (task_event [(''username'', JStr u)] [(''password'', JStr q)]) s
               = (Inr (Output (dumps (failure_json (msg AttributeError)))), s))"
  using write_string_text(1) [OF assms(2), of host_set u s] login_after_write [OF assms, of host msg q]
    get_user_stored(2) [of "host_get host" u s msg q]
  by (simp del: dumps.simps)

theorem login_checks_password_witness:
  "\<exists>s'. get_user_handle (host_get True) (\<lambda>_. [])
       (task_event [(''username'', JStr ''f'')] [(''password'', JStr ''12'')]) s'
     = (Inr (Output (dumps (JObj [(''success'', JBool False)]))), s')"
proof -
  have "loads ''11'' = Inr (JInt 11)" by code_simp
  from login_checks_password [OF flight_storage_stored(2) this, of True "\<lambda>_. []" "''12''"]
  show ?thesis by auto
qed

end
