(* ===== verification/AbortFunctions.thy ===== *)
theory AbortFunctions
  imports HotelFunctions
begin

section \<open>The functions of the abort benchmark\<close>

text \<open>
  The four modules under \<open>applications/microbenchmarks/abort-bench/function\<close>: the reservation
  functions of the hotel application without their handlers, so that an exception leaves the
  function and aborts its invocation, and with an injected failure.
\<close>

subsection \<open>Definitions\<close>

definition strict_resources :: "event \<Rightarrow> (json \<times> json) py" where
  "strict_resources ev = rbind (loads (event_data ev)) (\<lambda>d. rbind (jget d ''resources'') (\<lambda>r. Inr (d, r)))"

definition strict_fields :: "event \<Rightarrow> (json \<times> json) py" where
  "strict_fields ev =
     rbind (strict_resources ev) (\<lambda>(d, r). rbind (jget d ''values'') (\<lambda>v. Inr (r, v)))"

definition ab_create_order_handle :: "'s setter \<Rightarrow> 's handler" where
  "ab_create_order_handle kset ev =
     pbind (pure_eff (strict_fields ev)) (\<lambda>(resources, values).
     pbind (pure_eff (jget resources ''order_key'')) (\<lambda>order_key.
     pbind (pure_eff (jget values ''flight_id'')) (\<lambda>flight_id.
     pbind (pure_eff (jget values ''hotel_id'')) (\<lambda>hotel_id.
     pbind (pure_eff (jget values ''user_id'')) (\<lambda>user_id.
     pbind (pure_eff (key_of order_key)) (\<lambda>key.
     pbind (kv_set kset key (str_encode (dumps (order_json flight_id hotel_id user_id)))) (\<lambda>_.
     ret (Output ''success''))))))))"

text \<open>Taking one place from the record \<open>d\<close> under \<open>key\<close>: the tail of both reservations.\<close>

definition take_place :: "'s setter \<Rightarrow> string \<Rightarrow> json \<Rightarrow> ('s, pyerr, func_output) eff" where
  "take_place kset key d =
     pbind (pure_eff (rbind (jget d ''Cap'') py_decr)) (\<lambda>cap.
     pbind (pure_eff (jset d ''Cap'' cap)) (\<lambda>d'.
     if py_negative cap then ret (Output (dumps (JObj [(''success'', JBool False)])))
     else pbind (kv_set kset key (str_encode (dumps d'))) (\<lambda>_.
          ret (Output (dumps success_json)))))"

definition ab_reserve_flight_handle :: "'s getter \<Rightarrow> 's setter \<Rightarrow> 's handler" where
  "ab_reserve_flight_handle kget kset ev =
     pbind (pure_eff (strict_resources ev)) (\<lambda>(d, resources).
     pbind (pure_eff (jget resources ''flight_data'')) (\<lambda>k.
     let key = py_str k
     in pbind (get_json kget key) (\<lambda>flight_data.
        take_place kset key flight_data)))"

definition injected_failure :: "string \<Rightarrow> pyerr" where
  "injected_failure key = RuntimeError (''Injected failure for hotel '' @ key)"

definition ab_reserve_hotel_handle :: "'s getter \<Rightarrow> 's setter \<Rightarrow> 's handler" where
  "ab_reserve_hotel_handle kget kset ev =
     pbind (pure_eff (strict_fields ev)) (\<lambda>(resources, values).
     pbind (pure_eff (jget resources ''hotel_data'')) (\<lambda>k.
     let key = py_str k
     in pbind (get_json kget key) (\<lambda>hotel_data.
        pbind (pure_eff (jget_default values ''should_fail'' (JBool False))) (\<lambda>should_fail.
        if truthy should_fail then throw (injected_failure key)
        else take_place kset key hotel_data))))"

definition ab_write_string_handle :: "'s setter \<Rightarrow> 's handler" where
  "ab_write_string_handle kset ev =
     pbind (pure_eff (strict_fields ev)) (\<lambda>(resources, values).
     pbind (pure_eff (jget resources ''key'')) (\<lambda>k.
     pbind (pure_eff (jget values ''value'')) (\<lambda>value.
     let key = py_str k;
         payload = (case value of
                      JStr s \<Rightarrow> (case loads s of Inl _ \<Rightarrow> None | Inr _ \<Rightarrow> Some s)
                    | _ \<Rightarrow> Some (dumps value))
     in case payload of
          None \<Rightarrow> ret (Output ''invalid json value'')
        | Some p \<Rightarrow> pbind (kv_set kset key (str_encode p)) (\<lambda>_. ret (Output p)))))"

subsection \<open>Lemmas\<close>

lemma strict_task_event [simp]:
  assumes "wf_json (JObj rs)" and "wf_json (JObj vs)"
  shows "strict_fields (task_event rs vs) = Inr (JObj rs, JObj vs)"
    and "\<exists>d. strict_resources (task_event rs vs) = Inr (d, JObj rs)"
  using loads_task_event [OF assms]
  by (simp_all add: strict_fields_def strict_resources_def jget_def del: wf_json.simps)

lemma abort_stages_only [uncommitted_only]:
  "stages_only (ab_create_order_handle host_set ev)"
  "stages_only (ab_reserve_flight_handle kget host_set ev)"
  "stages_only (ab_reserve_hotel_handle kget host_set ev)"
  "stages_only (ab_write_string_handle host_set ev)"
  by (auto simp: ab_create_order_handle_def ab_reserve_flight_handle_def ab_reserve_hotel_handle_def
      ab_write_string_handle_def take_place_def Let_def intro!: uncommitted_only)

subsection \<open>Properties\<close>

text \<open>
  The reservation of the abort benchmark. With the injected failure it raises and changes
  nothing; without it, a hotel with places loses one, and a full hotel is reported as a normal
  output, with nothing written.
\<close>

lemma ab_reserve_hotel_outcomes:
  assumes "stored (host_get host) s k (JObj d)" and "jget (JObj d) ''Cap'' = Inr (JInt c)"
  shows "ab_reserve_hotel_handle (host_get host) host_set
           (task_event [(''hotel_data'', JStr k)] [(''should_fail'', JBool fail)]) s =
    (if fail then (Inl (injected_failure k), s)
     else if c \<le> 0 then (Inr (Output (dumps (JObj [(''success'', JBool False)]))), s)
     else (Inr (Output (dumps (JObj [(''success'', JBool True)]))),
           host_set k (str_encode (dumps (JObj (AList.update ''Cap'' (JInt (c - 1)) d)))) s))"
proof -
  have "wf_json (JObj [(''hotel_data'', JStr k)])" "wf_json (JObj [(''should_fail'', JBool fail)])" by simp_all
  then show ?thesis
    using assms
    by (simp add: ab_reserve_hotel_handle_def pbind_eval jget_def jget_default_def take_place_def jset_def
        success_json_def Let_def del: dumps.simps wf_json.simps split: option.splits)
qed

end
