(* ===== verification/CppJson.thy ===== *)
theory CppJson
  imports PyJson
begin

section \<open>JSON values as the C++ worker reads and builds them\<close>

text \<open>
  The worker reads its registration messages with the library \<open>nlohmann::json\<close>, which is not
  part of the repository. This theory states the documented behaviour of the accessors that the
  worker calls, over the value type of \<open>PyJson\<close>: \<open>contains\<close>, \<open>at\<close>, \<open>value\<close> and \<open>get<T>\<close> for the
  types the worker asks for. A failing accessor throws; the exceptions are values of
  \<open>cpperr\<close>. The library keeps the members of an object sorted by key; the model keeps them in
  the order in which they are assigned, and nothing below depends on it. Its parser refuses
  \<open>NaN\<close> and the infinities, which Python's \<open>json\<close> would write.

  An \<open>std::unordered_map\<close> is an association list with distinct keys, in the order in which the
  container is iterated. The standard leaves that order open; it decides only which of several
  errors is reported first.
\<close>

datatype cpperr =
    JsonTypeError nat        \<comment> \<open>\<open>type_error\<close> 302 or 304\<close>
  | JsonOutOfRange string    \<comment> \<open>\<open>out_of_range\<close> 403, the missing key\<close>
  | JsonParseError
  | RuntimeFailure string    \<comment> \<open>\<open>std::runtime_error\<close>\<close>
  | RustFailure string       \<comment> \<open>\<open>rust::Error\<close> of the runtime\<close>

type_synonym 'a cpp = "cpperr + 'a"

named_theorems cpp_json "evaluation of the accessors of JSON values"

definition json_contains :: "json \<Rightarrow> string \<Rightarrow> bool" where
  "json_contains j k = (case j of JObj kvs \<Rightarrow> map_of kvs k \<noteq> None | _ \<Rightarrow> False)"

definition json_at :: "json \<Rightarrow> string \<Rightarrow> json cpp" where
  "json_at j k = (case j of JObj kvs \<Rightarrow> of_option (JsonOutOfRange k) (map_of kvs k) | _ \<Rightarrow> Inl (JsonTypeError 304))"

definition get_string :: "json \<Rightarrow> string cpp" where
  "get_string j = (case j of JStr s \<Rightarrow> Inr s | _ \<Rightarrow> Inl (JsonTypeError 302))"

definition get_bool :: "json \<Rightarrow> bool cpp" where
  "get_bool j = (case j of JBool b \<Rightarrow> Inr b | _ \<Rightarrow> Inl (JsonTypeError 302))"

definition get_double :: "json \<Rightarrow> rat cpp" where
  "get_double j = (case j of JInt n \<Rightarrow> Inr (of_pyint n) | JFloat x \<Rightarrow> Inr x | _ \<Rightarrow> Inl (JsonTypeError 302))"

definition get_elements :: "json \<Rightarrow> json list cpp" where
  "get_elements j = (case j of JArr xs \<Rightarrow> Inr xs | _ \<Rightarrow> Inl (JsonTypeError 302))"

definition get_members :: "json \<Rightarrow> (string \<times> json) list cpp" where
  "get_members j = (case j of JObj kvs \<Rightarrow> Inr kvs | _ \<Rightarrow> Inl (JsonTypeError 302))"

text \<open>\<open>get<std::unordered_map<std::string, std::string>>\<close> and \<open>get<std::vector<std::string>>\<close>.\<close>

definition get_string_map :: "json \<Rightarrow> (string \<times> string) list cpp" where
  "get_string_map j = rbind (get_members j) (rmap (\<lambda>(k, v). rbind (get_string v) (\<lambda>s. Inr (k, s))))"

definition get_strings :: "json \<Rightarrow> string list cpp" where
  "get_strings j = rbind (get_elements j) (rmap get_string)"

text \<open>\<open>j.value(key, default)\<close>: the default only for a missing key of an object.\<close>

definition json_value :: "(json \<Rightarrow> 'a cpp) \<Rightarrow> json \<Rightarrow> string \<Rightarrow> 'a \<Rightarrow> 'a cpp" where
  "json_value conv j k d =
     (case j of JObj kvs \<Rightarrow> (case map_of kvs k of None \<Rightarrow> Inr d | Some v \<Rightarrow> conv v)
      | _ \<Rightarrow> Inl (JsonTypeError 306))"

text \<open>An optional member, read with \<open>contains\<close> and \<open>at\<close>.\<close>

definition if_contains :: "json \<Rightarrow> string \<Rightarrow> (json \<Rightarrow> 'a cpp) \<Rightarrow> 'a \<Rightarrow> 'a cpp" where
  "if_contains j k conv d = (if json_contains j k then rbind (json_at j k) conv else Inr d)"

lemma json_accessors [simp, cpp_json]:
  "json_contains (JObj kvs) k \<longleftrightarrow> map_of kvs k \<noteq> None"
  "json_at (JObj kvs) k = of_option (JsonOutOfRange k) (map_of kvs k)"
  "get_string (JStr s) = Inr s" "get_bool (JBool b) = Inr b" "get_double (JFloat x) = Inr x"
  "get_double (JInt n) = Inr (of_pyint n)" "get_elements (JArr xs) = Inr xs" "get_members (JObj kvs) = Inr kvs"
  by (simp_all add: json_contains_def json_at_def get_string_def get_bool_def get_double_def
      get_elements_def get_members_def)

lemma get_Inr_iff [simp]:
  "get_string j = Inr s \<longleftrightarrow> j = JStr s"
  "get_bool j = Inr b \<longleftrightarrow> j = JBool b"
  "get_elements j = Inr xs \<longleftrightarrow> j = JArr xs"
  "get_members j = Inr kvs \<longleftrightarrow> j = JObj kvs"
  by (cases j; simp add: get_string_def get_bool_def get_elements_def get_members_def; fail)+

lemma json_at_Inr_iff: "json_at j k = Inr v \<longleftrightarrow> (\<exists>kvs. j = JObj kvs \<and> map_of kvs k = Some v)"
  by (cases j) (auto simp: json_at_def)

lemma if_contains_JObj [simp, cpp_json]:
  "if_contains (JObj kvs) k conv d = (case map_of kvs k of None \<Rightarrow> Inr d | Some v \<Rightarrow> conv v)"
  by (auto simp: if_contains_def split: option.splits)

lemma json_value_JObj [simp, cpp_json]:
  "json_value conv (JObj kvs) k d = (case map_of kvs k of None \<Rightarrow> Inr d | Some v \<Rightarrow> conv v)"
  by (simp add: json_value_def)

lemma map_of_append_keys:
  "map_of xs k = None \<Longrightarrow> map_of (xs @ ys) k = map_of ys k"
  "map_of ys k = None \<Longrightarrow> map_of (xs @ ys) k = map_of xs k"
  by (simp_all add: map_add_def split: option.splits)

lemma rmap_map_Inr: "(\<And>x. x \<in> set xs \<Longrightarrow> f (g x) = Inr (h x)) \<Longrightarrow> rmap f (map g xs) = Inr (map h xs)"
  by (induction xs) auto

lemma rmap_inverse: "(\<And>x. x \<in> set xs \<Longrightarrow> f (g x) = Inr x) \<Longrightarrow> rmap f (map g xs) = Inr xs"
  by (induction xs) auto

lemma get_string_map_JObj [simp]: "get_string_map (JObj (map (\<lambda>(k, s). (k, JStr s)) kvs)) = Inr kvs"
  using rmap_map_Inr [of kvs "\<lambda>(k, v). rbind (get_string v) (\<lambda>s. Inr (k, s))" "\<lambda>(k, s). (k, JStr s)" "\<lambda>x. x"]
  by (auto simp: get_string_map_def)

lemma get_strings_JArr [simp]: "get_strings (JArr (map JStr xs)) = Inr xs"
  using rmap_map_Inr [of xs get_string JStr "\<lambda>x. x"] by (simp add: get_strings_def)

text \<open>A member of an object and an element of an array are smaller than the whole.\<close>

lemma size_member: "map_of kvs k = Some v \<Longrightarrow> size v < size (JObj kvs)"
proof -
  assume "map_of kvs k = Some v"
  then have "(k, v) \<in> set kvs" by (rule map_of_SomeD)
  then have "size v \<le> size_list (size_prod (\<lambda>_. 0) size) kvs"
    by (induction kvs) auto
  then show ?thesis by simp
qed

lemma size_element: "x \<in> set xs \<Longrightarrow> size x < size (JArr xs)"
  by (induction xs) auto

lemma size_at_element: "json_at j k = Inr v \<Longrightarrow> get_elements v = Inr xs \<Longrightarrow> x \<in> set xs \<Longrightarrow> size x < size j"
  using size_member size_element by (fastforce simp: json_at_Inr_iff)

lemma rbind_cong [fundef_cong]:
  assumes "r = r'" and "\<And>x. r' = Inr x \<Longrightarrow> f x = g x"
  shows "rbind r f = rbind r' g"
  using assms by (cases r') auto

end
