(* ===== verification/FastJson.thy ===== *)
theory FastJson
  imports CppJson "HOL-Library.Word"
begin

section \<open>The values of requests and task inputs\<close>

text \<open>
  The types of \<open>src/support/fast_json.hpp\<close>: the constants of choice rules (\<open>Value\<close>), the fields
  of an invocation's input (\<open>InputField\<close>), the resources of a task (\<open>ResourceValue\<close>), the request
  read from the wire (\<open>InvokeRequest\<close>) and the input text of a function.

  The texts are read and written with the library \<open>simdjson\<close>, which is not part of the
  repository. The model works on the values of these texts: a document is \<open>None\<close> when the library
  refuses the text, and an object keeps repeated keys, as the fields are visited one by one. The
  raw text of a field is kept as the value it denotes; it is only copied into the input of a
  function, which parses it again. The memo of a field's string array is not modelled, it holds
  what \<open>get_string_array\<close> computes. The messages leave out what the library adds to them.
\<close>

datatype fvalue =
    VNull
  | VBool bool
  | VInt64 "64 word"
  | VUInt64 "64 word"
  | VDouble rat
  | VString string
  | VArray "fvalue list"
  | VObject "(string \<times> fvalue) list"

datatype kind = KNull | KBool | KInt64 | KUInt64 | KDouble | KString | KArray | KObject

record input_field =
  kind :: kind
  raw_json :: json
  string_value :: string
  bool_value :: bool
  int64_value :: "64 word"
  uint64_value :: "64 word"
  double_value :: rat

definition new_field :: input_field where
  "new_field = \<lparr>kind = KNull, raw_json = JNull, string_value = [], bool_value = False, int64_value = 0,
     uint64_value = 0, double_value = 0\<rparr>"

datatype resource_value = RString string | RStrings "string list"

type_synonym input_object = "(string \<times> input_field) list"
type_synonym value_inputs = "(string \<times> input_field) list"
type_synonym resource_inputs = "(string \<times> resource_value) list"

record invoke_request =
  req_workflow_id :: string
  req_can_abort :: bool
  req_input :: input_object

text \<open>\<open>InputField::get_string_array\<close>: \<open>None\<close> when it returns false.\<close>

definition get_string_array :: "input_field \<Rightarrow> string list option" where
  "get_string_array f =
     (if kind f \<noteq> KArray then None
      else case get_strings (raw_json f) of Inl _ \<Rightarrow> None | Inr xs \<Rightarrow> Some xs)"

text \<open>\<open>parse_input_field\<close>: integers that fit neither 64-bit type are refused.\<close>

definition parse_input_field :: "json \<Rightarrow> input_field option" where
  "parse_input_field v =
     (let out = new_field\<lparr>raw_json := v\<rparr> in
      case v of
        JNull \<Rightarrow> Some (out\<lparr>kind := KNull\<rparr>)
      | JBool b \<Rightarrow> Some (out\<lparr>bool_value := b, kind := KBool\<rparr>)
      | JInt n \<Rightarrow>
          if - (2 ^ 63) \<le> n \<and> n < 2 ^ 63 then Some (out\<lparr>kind := KInt64, int64_value := word_of_int n\<rparr>)
          else if 0 \<le> n \<and> n < 2 ^ 64 then Some (out\<lparr>kind := KUInt64, uint64_value := word_of_int n\<rparr>)
          else None
      | JFloat x \<Rightarrow> Some (out\<lparr>kind := KDouble, double_value := x\<rparr>)
      | JStr s \<Rightarrow> Some (out\<lparr>string_value := s, kind := KString\<rparr>)
      | JArr _ \<Rightarrow> Some (out\<lparr>kind := KArray\<rparr>)
      | JObj _ \<Rightarrow> Some (out\<lparr>kind := KObject\<rparr>)
      | _ \<Rightarrow> None)"

text \<open>\<open>unordered_map::emplace\<close> keeps the value of a key that is already there.\<close>

definition emplace :: "string \<Rightarrow> 'a \<Rightarrow> (string \<times> 'a) list \<Rightarrow> (string \<times> 'a) list" where
  "emplace k v m = (if map_of m k = None then m @ [(k, v)] else m)"

fun read_inputs :: "(string \<times> json) list \<Rightarrow> input_object \<Rightarrow> input_object cpp" where
  "read_inputs [] m = Inr m"
| "read_inputs ((k, v) # kvs) m =
     (case parse_input_field v of
        None \<Rightarrow> Inl (RuntimeFailure (''failed to parse input field '' @ k))
      | Some f \<Rightarrow> read_inputs kvs (emplace k f m))"

text \<open>The fields of the request, with the two flags that note the required ones.\<close>

fun read_fields :: "(string \<times> json) list \<Rightarrow> invoke_request \<times> bool \<times> bool \<Rightarrow> (invoke_request \<times> bool \<times> bool) cpp" where
  "read_fields [] st = Inr st"
| "read_fields ((k, v) # kvs) (req, saw_id, saw_input) =
     (if k = ''workflow_id'' then
        (case v of JStr s \<Rightarrow> read_fields kvs (req\<lparr>req_workflow_id := s\<rparr>, True, saw_input)
         | _ \<Rightarrow> Inl (RuntimeFailure ''workflow_id must be a JSON string''))
      else if k = ''can_abort'' then
        (case v of JBool b \<Rightarrow> read_fields kvs (req\<lparr>req_can_abort := b\<rparr>, saw_id, saw_input)
         | _ \<Rightarrow> Inl (RuntimeFailure ''can_abort must be a JSON boolean''))
      else if k = ''input'' then
        (case v of
           JObj m \<Rightarrow> rbind (read_inputs m (req_input req)) (\<lambda>inp. read_fields kvs (req\<lparr>req_input := inp\<rparr>, saw_id, True))
         | _ \<Rightarrow> Inl (RuntimeFailure ''input must be a JSON object''))
      else read_fields kvs (req, saw_id, saw_input))"

definition parse_invoke_request :: "json option \<Rightarrow> invoke_request cpp" where
  "parse_invoke_request doc =
     (case doc of
        None \<Rightarrow> Inl (RuntimeFailure ''failed to parse invoke payload'')
      | Some (JObj kvs) \<Rightarrow>
          rbind (read_fields kvs (\<lparr>req_workflow_id = [], req_can_abort = True, req_input = []\<rparr>, False, False))
            (\<lambda>(req, saw_id, saw_input).
               if \<not> saw_id then Inl (RuntimeFailure ''invoke payload missing required field: workflow_id'')
               else if \<not> saw_input then Inl (RuntimeFailure ''invoke payload missing required field: input'')
               else Inr req)
      | _ \<Rightarrow> Inl (RuntimeFailure ''invoke payload must be a JSON object''))"

definition resource_value_json :: "resource_value \<Rightarrow> json" where
  "resource_value_json v = (case v of RString s \<Rightarrow> JStr s | RStrings ss \<Rightarrow> JArr (map JStr ss))"

text \<open>The value of the text that \<open>dump_task_input\<close> writes.\<close>

definition dump_task_input :: "resource_inputs \<Rightarrow> value_inputs \<Rightarrow> json" where
  "dump_task_input rs vs = JObj
     [(''resources'', JObj (map (\<lambda>(k, v). (k, resource_value_json v)) rs)),
      (''values'', JObj (map (\<lambda>(k, f). (k, raw_json f)) vs))]"

subsection \<open>Lemmas\<close>

lemma parse_input_field_raw: "parse_input_field v = Some f \<Longrightarrow> raw_json f = v"
  by (auto simp: parse_input_field_def Let_def new_field_def split: json.splits if_splits)

lemma parse_input_field_string [simp]:
  "parse_input_field (JStr s) = Some (new_field\<lparr>raw_json := JStr s, string_value := s, kind := KString\<rparr>)"
  by (simp add: parse_input_field_def)

lemma map_of_emplace: "map_of (emplace k v m) k' = (if k' = k \<and> map_of m k = None then Some v else map_of m k')"
  by (auto simp: emplace_def map_add_def split: option.splits)

text \<open>Which inputs can be sent, and what the worker makes of them.\<close>

definition wire_value :: "json \<Rightarrow> bool" where
  "wire_value v \<longleftrightarrow> parse_input_field v \<noteq> None"

lemma read_inputs_Inr:
  "list_all (\<lambda>(k, v). wire_value v) kvs \<Longrightarrow>
     \<exists>m'. read_inputs kvs m = Inr m'
       \<and> map_of m' = (\<lambda>k. case map_of m k of Some f \<Rightarrow> Some f | None \<Rightarrow> Option.bind (map_of kvs k) parse_input_field)"
proof (induction kvs arbitrary: m)
  case Nil
  show ?case by (auto simp: fun_eq_iff split: option.splits)
next
  case (Cons kv kvs)
  obtain k v where kv: "kv = (k, v)" by (cases kv)
  with Cons.prems obtain f where f: "parse_input_field v = Some f" by (auto simp: wire_value_def)
  from Cons.IH [of "emplace k f m"] Cons.prems obtain m' where m': "read_inputs kvs (emplace k f m) = Inr m'"
    and look: "\<And>x. map_of m' x = (case map_of (emplace k f m) x of Some g \<Rightarrow> Some g
                | None \<Rightarrow> Option.bind (map_of kvs x) parse_input_field)"
    by (auto simp: kv)
  have "map_of m' x = (case map_of m x of Some g \<Rightarrow> Some g
                | None \<Rightarrow> Option.bind (map_of ((k, v) # kvs) x) parse_input_field)" for x
    by (cases "map_of m x"; cases "x = k") (simp_all add: look map_of_emplace f)
  then have "map_of m' = (\<lambda>x. case map_of m x of Some g \<Rightarrow> Some g
                | None \<Rightarrow> Option.bind (map_of ((k, v) # kvs) x) parse_input_field)" by (intro ext)
  with m' show ?case unfolding kv by (simp add: f del: map_of.simps)
qed

lemma read_inputs_Inl:
  "\<not> list_all (\<lambda>(k, v). wire_value v) kvs \<Longrightarrow> \<exists>e. read_inputs kvs m = Inl e"
  by (induction kvs m rule: read_inputs.induct) (auto simp: wire_value_def split: option.splits)

end
