(* ===== verification/Bindings.thy ===== *)
theory Bindings
  imports FastJson
begin

section \<open>Resource placeholders and their bindings\<close>

text \<open>
  \<open>src/workflow/resource_bindings.cpp\<close>, first half, and the struct \<open>ResourceBinding\<close> of
  \<open>src/workflow/graph.hpp\<close>. A placeholder of a workflow is \<open>$x\<close>, the input value \<open>x\<close>, or \<open>&x\<close>,
  \<open>&x:r\<close>, \<open>&x:w\<close>, the resource or resources that the input names under \<open>x\<close>; a name that starts
  with an underscore is local to the invocation. An error is its message, as the functions return
  false and set \<open>*err\<close>. A \<open>std::string\<close> holds UTF-8; the model's strings are code points, which
  agree on equality and on the order.
\<close>

record resource_binding =
  local_name :: string
  key :: string
  immediate :: bool
  read_only_mode :: bool
  is_local :: bool

type_synonym 'a fallible = "string + 'a"

definition is_cspace :: "char \<Rightarrow> bool" where
  "is_cspace c \<longleftrightarrow> c = CHR '' '' \<or> (9 \<le> (of_char c :: nat) \<and> (of_char c :: nat) \<le> 13)"

definition trim_copy :: "string \<Rightarrow> string" where
  "trim_copy s = rev (dropWhile is_cspace (rev (dropWhile is_cspace s)))"

text \<open>\<open>rfind\<close>: the position of the last occurrence.\<close>

fun rfind_from :: "nat \<Rightarrow> char \<Rightarrow> string \<Rightarrow> nat option \<Rightarrow> nat option" where
  "rfind_from i c [] found = found"
| "rfind_from i c (x # xs) found = rfind_from (Suc i) c xs (if x = c then Some i else found)"

definition rfind :: "char \<Rightarrow> string \<Rightarrow> nat option" where
  "rfind c s = rfind_from 0 c s None"

text \<open>
  The output parameters are fields of the binding \<open>cur\<close>; those that a branch does not assign keep
  their values. Without a mode suffix the flags for read-only and local are not assigned.
\<close>

definition parse_resource_placeholder :: "string \<Rightarrow> resource_binding \<Rightarrow> resource_binding fallible" where
  "parse_resource_placeholder placeholder cur =
     (let trimmed = trim_copy placeholder in
      if length trimmed < 2 then Inl (''invalid resource placeholder: '' @ placeholder)
      else if trimmed ! 0 \<noteq> CHR ''$'' \<and> trimmed ! 0 \<noteq> CHR ''&'' then
        Inl (''unsupported placeholder scope: '' @ placeholder)
      else if trimmed ! 0 = CHR ''$'' then
        (if drop 1 trimmed = [] then Inl (''empty value key in placeholder: '' @ placeholder)
         else Inr (cur\<lparr>immediate := True, key := drop 1 trimmed\<rparr>))
      else
        (let colon_pos = rfind CHR '':'' trimmed in
         if colon_pos = None \<or> the colon_pos + 2 \<noteq> length trimmed then
           (if drop 1 trimmed = [] then Inl (''empty value key in placeholder: '' @ placeholder)
            else Inr (cur\<lparr>immediate := False, key := drop 1 trimmed\<rparr>))
         else
           (let mode_char = trimmed ! (the colon_pos + 1);
                name = take (the colon_pos - 1) (drop 1 trimmed)
            in if mode_char \<noteq> CHR ''r'' \<and> mode_char \<noteq> CHR ''w'' then
                 Inl (''unsupported access mode in placeholder: '' @ placeholder)
               else if name = [] then Inl (''empty resource key in placeholder: '' @ placeholder)
               else Inr (cur\<lparr>is_local := (name ! 0 = CHR ''_''), immediate := False, key := name,
                             read_only_mode := (mode_char = CHR ''r'')\<rparr>))))"

definition new_binding :: "string \<Rightarrow> resource_binding" where
  "new_binding n = \<lparr>local_name = n, key = [], immediate = False, read_only_mode = False, is_local = False\<rparr>"

text \<open>\<open>get_task_binding\<close>: one binding for each entry of the state's resources, appended to the node's.\<close>

definition get_task_binding :: "(string \<times> string) list \<Rightarrow> resource_binding list fallible" where
  "get_task_binding rs = rmap (\<lambda>(n, p). parse_resource_placeholder p (new_binding n)) rs"

text \<open>
  \<open>get_choice_bindings\<close>: one binding for each different variable of the rules, in their order; the
  default has none. The arguments are the operand and the variable of every edge.
\<close>

fun choice_bindings_from :: "(string \<times> string) list \<Rightarrow> string set \<Rightarrow> resource_binding list fallible" where
  "choice_bindings_from [] seen = Inr []"
| "choice_bindings_from ((operand, var) # es) seen =
     (if operand = ''default'' then choice_bindings_from es seen
      else if var \<in> seen then choice_bindings_from es seen
      else rbind (parse_resource_placeholder var (new_binding var)) (\<lambda>b.
             rbind (choice_bindings_from es (insert var seen)) (\<lambda>bs. Inr (b # bs))))"

definition get_choice_bindings :: "(string \<times> string) list \<Rightarrow> resource_binding list fallible" where
  "get_choice_bindings es = choice_bindings_from es {}"

subsection \<open>Lemmas\<close>

lemma rfind_from_append:
  "rfind_from i c (xs @ ys) found = rfind_from (i + length xs) c ys (rfind_from i c xs found)"
  by (induction xs arbitrary: i found) auto

lemma rfind_from_absent: "c \<notin> set xs \<Longrightarrow> rfind_from i c xs found = found"
  by (induction xs arbitrary: i) auto

lemma rfind_last: "c \<notin> set ys \<Longrightarrow> rfind c (xs @ c # ys) = Some (length xs)"
  by (simp add: rfind_def rfind_from_append rfind_from_absent)

lemma rfind_absent: "c \<notin> set xs \<Longrightarrow> rfind c xs = None"
  by (simp add: rfind_def rfind_from_absent)

lemma dropWhile_hd: "s \<noteq> [] \<Longrightarrow> \<not> P (hd s) \<Longrightarrow> dropWhile P s = s"
  by (cases s) simp_all

lemma trim_copy_id:
  "s \<noteq> [] \<Longrightarrow> \<not> is_cspace (hd s) \<Longrightarrow> \<not> is_cspace (last s) \<Longrightarrow> trim_copy s = s"
  by (simp add: trim_copy_def dropWhile_hd hd_rev)

lemma not_cspace [simp]:
  "\<not> is_cspace CHR ''$''" "\<not> is_cspace CHR ''&''" "\<not> is_cspace CHR ''r''" "\<not> is_cspace CHR ''w''"
  by (simp_all add: is_cspace_def)

lemma placeholder_value:
  assumes "x \<noteq> []" and "\<not> is_cspace (last x)"
  shows "parse_resource_placeholder (CHR ''$'' # x) cur = Inr (cur\<lparr>immediate := True, key := x\<rparr>)"
proof -
  have "trim_copy (CHR ''$'' # x) = CHR ''$'' # x" using assms by (intro trim_copy_id) auto
  with assms show ?thesis by (cases x) (simp_all add: parse_resource_placeholder_def Let_def)
qed

lemma placeholder_resource:
  assumes "x \<noteq> []" and "m = CHR ''r'' \<or> m = CHR ''w''"
  shows "parse_resource_placeholder (CHR ''&'' # x @ [CHR '':'', m]) cur
       = Inr (cur\<lparr>is_local := (hd x = CHR ''_''), immediate := False, key := x, read_only_mode := (m = CHR ''r'')\<rparr>)"
proof -
  have trim: "trim_copy (CHR ''&'' # x @ [CHR '':'', m]) = CHR ''&'' # x @ [CHR '':'', m]"
    using assms by (intro trim_copy_id) auto
  have "rfind CHR '':'' ((CHR ''&'' # x) @ CHR '':'' # [m]) = Some (length (CHR ''&'' # x))"
    using assms(2) by (intro rfind_last) auto
  then have "rfind CHR '':'' (CHR ''&'' # x @ [CHR '':'', m]) = Some (Suc (length x))" by simp
  with trim assms show ?thesis
    by (cases x) (auto simp: parse_resource_placeholder_def Let_def nth_append)
qed

text \<open>Without a mode the name is never local, even when it starts with an underscore.\<close>

lemma placeholder_plain:
  assumes "x \<noteq> []" and "CHR '':'' \<notin> set x" and "\<not> is_cspace (last x)"
  shows "parse_resource_placeholder (CHR ''&'' # x) (new_binding n)
       = Inr ((new_binding n)\<lparr>immediate := False, key := x\<rparr>)"
proof -
  have "trim_copy (CHR ''&'' # x) = CHR ''&'' # x" using assms by (intro trim_copy_id) auto
  with assms rfind_absent [of "CHR '':''" "CHR ''&'' # x"] show ?thesis
    by (cases x) (simp_all add: parse_resource_placeholder_def Let_def)
qed

lemma get_task_binding_length: "get_task_binding rs = Inr bs \<Longrightarrow> length bs = length rs"
  by (simp add: get_task_binding_def rmap_Inr_length)

lemma parse_keeps_local_name:
  "parse_resource_placeholder p b = Inr b' \<Longrightarrow> local_name b' = local_name b"
  by (auto simp: parse_resource_placeholder_def Let_def split: if_splits)

lemma choice_bindings_names:
  "choice_bindings_from es seen = Inr bs \<Longrightarrow>
     local_name ` set bs = snd ` set (filter (\<lambda>(oper, _). oper \<noteq> ''default'') es) - seen \<and> distinct (map local_name bs)"
proof (induction es seen arbitrary: bs rule: choice_bindings_from.induct)
  case 1
  then show ?case by simp
next
  case (2 operand var es seen)
  consider "operand = ''default''" | "operand \<noteq> ''default''" "var \<in> seen" | "operand \<noteq> ''default''" "var \<notin> seen"
    by blast
  then show ?case
  proof cases
    case 3
    with 2 obtain b bs' where b: "parse_resource_placeholder var (new_binding var) = Inr b"
      and bs': "choice_bindings_from es (insert var seen) = Inr bs'" "bs = b # bs'"
      by (auto simp: rbind_Inr_iff)
    have "local_name b = var" using parse_keeps_local_name [OF b] by (simp add: new_binding_def)
    with "2.IH"(3) [OF 3 b bs'(1)] bs'(2) 3 show ?thesis by auto
  qed (use 2 in auto)
qed

end
