(* ===== verification/FuncInfo.thy ===== *)
theory FuncInfo
  imports CppJson "HOL-Library.Word"
begin

section \<open>The description of a function\<close>

text \<open>
  \<open>BasicFuncInfo\<close> (\<open>src/execution/function.hpp\<close>) and \<open>WasmFuncInfo\<close>
  (\<open>src/execution/wasm/wasm_function.hpp\<close>) with their conversions from and to JSON. A client
  registers a function with such an object; for a task the scheduler copies it and fills in the
  resources and the input event. An \<open>std::unordered_set\<close> is a list without repetitions in the
  order of its iteration.
\<close>

record func_binary_source =
  source_type :: string
  source_path :: string

record func_input_event =
  input_type :: string
  input_data :: json  \<comment> \<open>the value of the text\<close>

record func_output_event =
  output_type :: string

record func_link_opt =
  link_clocks :: bool
  link_filesystem :: bool
  link_random :: bool
  link_cli :: bool
  link_io :: bool
  link_socket :: bool

record func_execution_policy =
  allow_clocks :: bool
  allow_filesystem :: bool
  allow_random :: bool
  allow_cli :: bool
  allow_socket :: bool

record func_initial_values =
  init_clock :: "32 word"
  random_seed :: "32 word"

record func_info =
  func_name :: string
  func_invocation_id :: string
  resources :: "string list"
  read_only :: "string list"

record wasm_func_info = func_info +
  func_binary_hash :: string
  fast_execution :: bool
  binary_source :: func_binary_source
  input_event :: func_input_event
  output_event :: func_output_event
  link_opt :: func_link_opt
  execution_policy :: func_execution_policy
  initial_values :: func_initial_values

definition require_object :: "json \<Rightarrow> string \<Rightarrow> unit cpp" where
  "require_object j what = (case j of JObj _ \<Rightarrow> Inr () | _ \<Rightarrow> Inl (RuntimeFailure (what @ '' must be a JSON object'')))"

definition require_field :: "(json \<Rightarrow> 'a cpp) \<Rightarrow> json \<Rightarrow> string \<Rightarrow> 'a cpp" where
  "require_field conv j k =
     (if json_contains j k then rbind (json_at j k) conv else Inl (RuntimeFailure (''Missing required field: '' @ k)))"

text \<open>\<open>get<int>\<close>: a number or a boolean, converted to 32 bits.\<close>

definition get_int32 :: "json \<Rightarrow> 32 word cpp" where
  "get_int32 j =
     (case j of JInt n \<Rightarrow> Inr (word_of_int n) | JFloat x \<Rightarrow> Inr (word_of_int (rat_trunc x))
      | JBool b \<Rightarrow> Inr (if b then 1 else 0) | _ \<Rightarrow> Inl (JsonTypeError 302))"

definition source_from_json :: "json \<Rightarrow> func_binary_source cpp" where
  "source_from_json j =
     rbind (require_object j ''func_binary_source'') (\<lambda>_.
     rbind (require_field get_string j ''type'') (\<lambda>t.
     rbind (require_field get_string j ''path'') (\<lambda>p. Inr \<lparr>source_type = t, source_path = p\<rparr>)))"

definition source_to_json :: "func_binary_source \<Rightarrow> json" where
  "source_to_json v = JObj [(''type'', JStr (source_type v)), (''path'', JStr (source_path v))]"

text \<open>
  The input event carries a text that the function parses. The model keeps the value of that
  text, which the scheduler fills in; a registered event of a client is kept as the string it is.
\<close>

definition input_event_from_json :: "json \<Rightarrow> func_input_event cpp" where
  "input_event_from_json j =
     rbind (json_value get_string j ''type'' ''data'') (\<lambda>t.
     rbind (if_contains j ''data'' get_string []) (\<lambda>d. Inr \<lparr>input_type = t, input_data = JStr d\<rparr>))"

definition input_event_to_json :: "func_input_event \<Rightarrow> json" where
  "input_event_to_json v = JObj [(''type'', JStr (input_type v)), (''data'', input_data v)]"

definition output_event_from_json :: "json \<Rightarrow> func_output_event cpp" where
  "output_event_from_json j = rbind (json_value get_string j ''type'' ''default'') (\<lambda>t. Inr \<lparr>output_type = t\<rparr>)"

definition output_event_to_json :: "func_output_event \<Rightarrow> json" where
  "output_event_to_json v = JObj [(''type'', JStr (output_type v))]"

definition link_opt_from_json :: "json \<Rightarrow> func_link_opt cpp" where
  "link_opt_from_json j =
     rbind (json_value get_bool j ''link_clocks'' True) (\<lambda>a.
     rbind (json_value get_bool j ''link_filesystem'' True) (\<lambda>b.
     rbind (json_value get_bool j ''link_random'' True) (\<lambda>c.
     rbind (json_value get_bool j ''link_cli'' True) (\<lambda>d.
     rbind (json_value get_bool j ''link_io'' True) (\<lambda>e.
     rbind (json_value get_bool j ''link_socket'' True) (\<lambda>f.
       Inr \<lparr>link_clocks = a, link_filesystem = b, link_random = c, link_cli = d, link_io = e, link_socket = f\<rparr>))))))"

definition link_opt_to_json :: "func_link_opt \<Rightarrow> json" where
  "link_opt_to_json v = JObj [(''link_clocks'', JBool (link_clocks v)), (''link_filesystem'', JBool (link_filesystem v)),
     (''link_random'', JBool (link_random v)), (''link_cli'', JBool (link_cli v)), (''link_io'', JBool (link_io v)),
     (''link_socket'', JBool (link_socket v))]"

definition policy_from_json :: "json \<Rightarrow> func_execution_policy cpp" where
  "policy_from_json j =
     rbind (json_value get_bool j ''allow_clocks'' True) (\<lambda>a.
     rbind (json_value get_bool j ''allow_filesystem'' False) (\<lambda>b.
     rbind (json_value get_bool j ''allow_random'' True) (\<lambda>c.
     rbind (json_value get_bool j ''allow_cli'' True) (\<lambda>d.
     rbind (json_value get_bool j ''allow_socket'' False) (\<lambda>e.
       Inr \<lparr>allow_clocks = a, allow_filesystem = b, allow_random = c, allow_cli = d, allow_socket = e\<rparr>)))))"

definition policy_to_json :: "func_execution_policy \<Rightarrow> json" where
  "policy_to_json v = JObj [(''allow_clocks'', JBool (allow_clocks v)), (''allow_filesystem'', JBool (allow_filesystem v)),
     (''allow_random'', JBool (allow_random v)), (''allow_cli'', JBool (allow_cli v)), (''allow_socket'', JBool (allow_socket v))]"

definition initial_values_from_json :: "json \<Rightarrow> func_initial_values cpp" where
  "initial_values_from_json j =
     rbind (json_value get_int32 j ''init_clock'' 0) (\<lambda>c.
     rbind (json_value get_int32 j ''random_seed'' 42) (\<lambda>s. Inr \<lparr>init_clock = c, random_seed = s\<rparr>))"

definition initial_values_to_json :: "func_initial_values \<Rightarrow> json" where
  "initial_values_to_json v = JObj [(''init_clock'', JInt (sint (init_clock v))), (''random_seed'', JInt (sint (random_seed v)))]"

text \<open>The default-constructed parts of a \<open>WasmFuncInfo\<close>.\<close>

definition default_link_opt :: func_link_opt where
  "default_link_opt = \<lparr>link_clocks = True, link_filesystem = True, link_random = True, link_cli = True,
     link_io = True, link_socket = True\<rparr>"

definition default_policy :: func_execution_policy where
  "default_policy = \<lparr>allow_clocks = True, allow_filesystem = False, allow_random = True, allow_cli = True,
     allow_socket = False\<rparr>"

definition func_info_from_json :: "json \<Rightarrow> func_info cpp" where
  "func_info_from_json j =
     rbind (case j of JObj _ \<Rightarrow> Inr () | _ \<Rightarrow> Inl (RuntimeFailure ''BasicFuncInfo::from_json expected a JSON object'')) (\<lambda>_.
     rbind (rbind (json_at j ''func_name'') get_string) (\<lambda>n.
     rbind (json_value get_string j ''func_invocation_id'' ''no id'') (\<lambda>i.
     rbind (json_value get_strings j ''resources'' []) (\<lambda>rs.
     rbind (json_value (\<lambda>v. rbind (get_strings v) (\<lambda>xs. Inr (remdups xs))) j ''read_only_resources'' []) (\<lambda>ro.
       Inr \<lparr>func_name = n, func_invocation_id = i, resources = rs, read_only = ro\<rparr>)))))"

definition func_info_members :: "('a func_info_scheme) \<Rightarrow> (string \<times> json) list" where
  "func_info_members v = [(''func_name'', JStr (func_name v)), (''func_invocation_id'', JStr (func_invocation_id v)),
     (''resources'', JArr (map JStr (resources v))), (''read_only_resources'', JArr (map JStr (read_only v)))]"

definition wasm_func_info_from_json :: "json \<Rightarrow> wasm_func_info cpp" where
  "wasm_func_info_from_json j =
     rbind (func_info_from_json j) (\<lambda>b.
     rbind (require_field get_string j ''func_binary_hash'') (\<lambda>h.
     rbind (json_value get_bool j ''fast_execution'' True) (\<lambda>fast.
     rbind (if_contains j ''func_binary_source'' source_from_json \<lparr>source_type = [], source_path = []\<rparr>) (\<lambda>src.
     rbind (if_contains j ''func_input_event'' input_event_from_json \<lparr>input_type = [], input_data = JStr []\<rparr>) (\<lambda>inp.
     rbind (if_contains j ''func_output_event'' output_event_from_json \<lparr>output_type = []\<rparr>) (\<lambda>out.
     rbind (if_contains j ''func_link_opt'' link_opt_from_json default_link_opt) (\<lambda>lnk.
     rbind (if_contains j ''func_execution_policy'' policy_from_json default_policy) (\<lambda>pol.
     rbind (if_contains j ''func_initial_values'' initial_values_from_json \<lparr>init_clock = 0, random_seed = 42\<rparr>) (\<lambda>ini.
       Inr (func_info.extend b \<lparr>func_binary_hash = h, fast_execution = fast, binary_source = src, input_event = inp,
              output_event = out, link_opt = lnk, execution_policy = pol, initial_values = ini\<rparr>))))))))))"

definition wasm_func_info_to_json :: "wasm_func_info \<Rightarrow> json" where
  "wasm_func_info_to_json v = JObj (func_info_members v @
     [(''func_binary_hash'', JStr (func_binary_hash v)), (''fast_execution'', JBool (fast_execution v)),
      (''func_binary_source'', source_to_json (binary_source v)), (''func_input_event'', input_event_to_json (input_event v)),
      (''func_output_event'', output_event_to_json (output_event v)), (''func_link_opt'', link_opt_to_json (link_opt v)),
      (''func_execution_policy'', policy_to_json (execution_policy v)),
      (''func_initial_values'', initial_values_to_json (initial_values v))])"

subsection \<open>Lemmas\<close>

lemmas part_conversions =
  source_from_json_def source_to_json_def input_event_from_json_def input_event_to_json_def
  output_event_from_json_def output_event_to_json_def link_opt_from_json_def link_opt_to_json_def
  policy_from_json_def policy_to_json_def initial_values_from_json_def initial_values_to_json_def
  require_object_def require_field_def

lemma get_int32_sint [simp]: "get_int32 (JInt (sint w)) = Inr w"
  by (simp add: get_int32_def)

lemma part_roundtrips [simp]:
  "source_from_json (source_to_json a) = Inr a"
  "input_data b = JStr d \<Longrightarrow> input_event_from_json (input_event_to_json b) = Inr b"
  "output_event_from_json (output_event_to_json c) = Inr c"
  "link_opt_from_json (link_opt_to_json e) = Inr e"
  "policy_from_json (policy_to_json f) = Inr f"
  "initial_values_from_json (initial_values_to_json g) = Inr g"
  by (simp_all add: part_conversions)

lemma wasm_func_info_roundtrip:
  assumes "distinct (read_only v)" and "input_data (input_event v) = JStr d"
  shows "wasm_func_info_from_json (wasm_func_info_to_json v) = Inr v"
  using assms
  by (simp add: wasm_func_info_from_json_def wasm_func_info_to_json_def func_info_members_def
      func_info_from_json_def func_info.defs require_field_def distinct_remdups_id)

end
