(* ===== verification/WorkflowModel.thy ===== *)
theory WorkflowModel
  imports CppJson
begin

section \<open>The model of a workflow and its JSON form\<close>

text \<open>
  The types of \<open>src/workflow/model/workflow.hpp\<close> with their conversions from and to JSON. A
  workflow is a list of states, each a task (a function with its resource placeholders) or a
  choice: rules that compare a variable with a constant and lead to tasks of their own, and an
  optional default. Reading fills a default-constructed object, so a member that is absent keeps
  its default.
\<close>

datatype state = State
    (stype: string) (func_id: string) (state_resources: "(string \<times> string) list")
    (state_choices: "choice list") (state_default: "state list option")
and choice = Choice
    (variable: string) (numeric_eq: "rat option") (numeric_gt: "rat option") (numeric_gte: "rat option")
    (numeric_lt: "rat option") (numeric_lte: "rat option") (string_eq: "string option") (bool_eq: "bool option")
    (choice_tasks: "state list")

record workflow =
  workflow_id :: string
  workflow_tasks :: "state list"

record invoke_dto =
  dto_workflow_id :: string
  dto_can_abort :: bool
  dto_input :: json

record workflow_request =
  wr_workflow_id :: string
  wr_input :: json
  wr_can_abort :: bool
  wr_request_id :: string

definition opt_member :: "string \<Rightarrow> ('a \<Rightarrow> json) \<Rightarrow> 'a option \<Rightarrow> (string \<times> json) list" where
  "opt_member k f v = (case v of None \<Rightarrow> [] | Some x \<Rightarrow> [(k, f x)])"

fun state_to_json :: "state \<Rightarrow> json"
  and choice_to_json :: "choice \<Rightarrow> json" where
  "state_to_json (State t f rs cs d) = JObj
     ([(''type'', JStr t)]
      @ (if f \<noteq> [] then [(''func_id'', JStr f)] else [])
      @ (if rs \<noteq> [] then [(''resources'', JObj (map (\<lambda>(k, v). (k, JStr v)) rs))] else [])
      @ (if cs \<noteq> [] then [(''choices'', JArr (map choice_to_json cs))] else [])
      @ (case d of None \<Rightarrow> [] | Some ts \<Rightarrow> [(''default'', JArr (map state_to_json ts))]))"
| "choice_to_json (Choice v eq gt gte lt lte seq beq ts) = JObj
     ([(''variable'', JStr v)]
      @ opt_member ''numeric_eq'' JFloat eq @ opt_member ''numeric_gt'' JFloat gt
      @ opt_member ''numeric_gte'' JFloat gte @ opt_member ''numeric_lt'' JFloat lt
      @ opt_member ''numeric_lte'' JFloat lte @ opt_member ''string_eq'' JStr seq
      @ opt_member ''bool_eq'' JBool beq @ [(''tasks'', JArr (map state_to_json ts))])"

definition read_optional :: "json \<Rightarrow> string \<Rightarrow> (json \<Rightarrow> 'a cpp) \<Rightarrow> 'a option cpp" where
  "read_optional j k conv = if_contains j k (\<lambda>v. rbind (conv v) (\<lambda>x. Inr (Some x))) None"

function state_from_json :: "json \<Rightarrow> state cpp"
  and choice_from_json :: "json \<Rightarrow> choice cpp" where
  "state_from_json j =
     rbind (rbind (json_at j ''type'') get_string) (\<lambda>t.
     rbind (if_contains j ''func_id'' get_string []) (\<lambda>f.
     rbind (if_contains j ''resources'' get_string_map []) (\<lambda>rs.
     rbind (if json_contains j ''choices''
            then rbind (json_at j ''choices'') (\<lambda>v. rbind (get_elements v) (\<lambda>xs. rmap choice_from_json xs))
            else Inr []) (\<lambda>cs.
     rbind (if json_contains j ''default''
            then rbind (json_at j ''default'') (\<lambda>v. rbind (get_elements v) (\<lambda>xs.
                   rbind (rmap state_from_json xs) (\<lambda>ts. Inr (Some ts))))
            else Inr None) (\<lambda>d. Inr (State t f rs cs d))))))"
| "choice_from_json j =
     rbind (rbind (json_at j ''variable'') get_string) (\<lambda>v.
     rbind (read_optional j ''numeric_eq'' get_double) (\<lambda>eq.
     rbind (read_optional j ''numeric_gt'' get_double) (\<lambda>gt.
     rbind (read_optional j ''numeric_gte'' get_double) (\<lambda>gte.
     rbind (read_optional j ''numeric_lt'' get_double) (\<lambda>lt.
     rbind (read_optional j ''numeric_lte'' get_double) (\<lambda>lte.
     rbind (read_optional j ''string_eq'' get_string) (\<lambda>seq.
     rbind (read_optional j ''bool_eq'' get_bool) (\<lambda>beq.
     rbind (rbind (json_at j ''tasks'') (\<lambda>w. rbind (get_elements w) (\<lambda>xs. rmap state_from_json xs))) (\<lambda>ts.
       Inr (Choice v eq gt gte lt lte seq beq ts))))))))))"
  by pat_completeness auto
termination
  by (relation "measure (\<lambda>x. case x of Inl j \<Rightarrow> size j | Inr j \<Rightarrow> size j)") (auto dest: size_at_element)

declare state_from_json.simps [simp del] choice_from_json.simps [simp del]

definition workflow_to_json :: "workflow \<Rightarrow> json" where
  "workflow_to_json w = JObj
     ((if workflow_id w \<noteq> [] then [(''id'', JStr (workflow_id w))] else [])
      @ [(''tasks'', JArr (map state_to_json (workflow_tasks w)))])"

definition workflow_from_json :: "json \<Rightarrow> workflow cpp" where
  "workflow_from_json j =
     rbind (if_contains j ''id'' get_string []) (\<lambda>i.
     rbind (rbind (json_at j ''tasks'') (\<lambda>v. rbind (get_elements v) (rmap state_from_json))) (\<lambda>ts.
       Inr \<lparr>workflow_id = i, workflow_tasks = ts\<rparr>))"

definition invoke_dto_to_json :: "invoke_dto \<Rightarrow> json" where
  "invoke_dto_to_json v = JObj [(''workflow_id'', JStr (dto_workflow_id v)), (''can_abort'', JBool (dto_can_abort v)),
     (''input'', dto_input v)]"

definition invoke_dto_from_json :: "json \<Rightarrow> invoke_dto cpp" where
  "invoke_dto_from_json j =
     rbind (rbind (json_at j ''workflow_id'') get_string) (\<lambda>w.
     rbind (json_at j ''input'') (\<lambda>i.
     rbind (if_contains j ''can_abort'' get_bool True) (\<lambda>c.
       Inr \<lparr>dto_workflow_id = w, dto_can_abort = c, dto_input = i\<rparr>)))"

definition workflow_request_to_json :: "workflow_request \<Rightarrow> json" where
  "workflow_request_to_json v = JObj [(''workflow_id'', JStr (wr_workflow_id v)), (''input'', wr_input v),
     (''request_id'', JStr (wr_request_id v)), (''can_abort'', JBool (wr_can_abort v))]"

text \<open>
  \<open>WorkflowRequest::can_abort\<close> has no initialiser: without the member it keeps what the memory
  held, the argument \<open>old\<close>.
\<close>

definition workflow_request_from_json :: "bool \<Rightarrow> json \<Rightarrow> workflow_request cpp" where
  "workflow_request_from_json old j =
     rbind (rbind (json_at j ''workflow_id'') get_string) (\<lambda>w.
     rbind (json_at j ''input'') (\<lambda>i.
     rbind (rbind (json_at j ''request_id'') get_string) (\<lambda>r.
     rbind (if_contains j ''can_abort'' get_bool old) (\<lambda>c.
       Inr \<lparr>wr_workflow_id = w, wr_input = i, wr_can_abort = c, wr_request_id = r\<rparr>))))"

subsection \<open>Lemmas\<close>

lemma map_of_opt_member [simp]:
  "map_of (opt_member k f v) k' = (if k' = k then map_option f v else None)"
  by (auto simp: opt_member_def split: option.splits)

lemma opt_member_simps [simp]:
  "opt_member k f None = []" "opt_member k f (Some x) = [(k, f x)]"
  by (simp_all add: opt_member_def)

lemma read_optional_JObj [simp]:
  "read_optional (JObj kvs) k conv = (case map_of kvs k of None \<Rightarrow> Inr None | Some v \<Rightarrow> rbind (conv v) (\<lambda>x. Inr (Some x)))"
  by (simp add: read_optional_def split: option.splits)

lemma read_back_option [simp]:
  "(case v of None \<Rightarrow> Inr None | Some x \<Rightarrow> ((\<lambda>j. rbind (get_double j) (\<lambda>y. Inr (Some y))) \<circ> JFloat) x) = Inr v"
  "(case s of None \<Rightarrow> Inr None | Some x \<Rightarrow> ((\<lambda>j. rbind (get_string j) (\<lambda>y. Inr (Some y))) \<circ> JStr) x) = Inr s"
  "(case b of None \<Rightarrow> Inr None | Some x \<Rightarrow> ((\<lambda>j. rbind (get_bool j) (\<lambda>y. Inr (Some y))) \<circ> JBool) x) = Inr b"
  by (cases v; cases s; cases b; simp)+

lemma state_choice_from_to_json [simp]:
  "state_from_json (state_to_json s) = Inr s"
  "choice_from_json (choice_to_json c) = Inr c"
proof (induction s and c rule: state_to_json_choice_to_json.induct)
  case (1 t f rs cs d)
  have "rmap choice_from_json (map choice_to_json cs) = Inr cs"
    by (rule rmap_inverse) (use 1(1) in fastforce)
  moreover have "rmap state_from_json (map state_to_json ts) = Inr ts" if "d = Some ts" for ts
    by (rule rmap_inverse) (use 1(2) that in fastforce)
  ultimately show ?case
    by (cases d) (simp_all add: state_from_json.simps map_of_append_keys del: Map.map_of_append)
next
  case (2 v eq gt gte lt lte seq beq ts)
  have "rmap state_from_json (map state_to_json ts) = Inr ts"
    by (rule rmap_inverse) (use 2 in fastforce)
  then show ?case
    by (simp add: choice_from_json.simps map_of_append_keys del: Map.map_of_append)
qed

lemma rmap_state_from_to_json [simp]: "rmap state_from_json (map state_to_json ts) = Inr ts"
  by (rule rmap_inverse) simp

subsection \<open>Properties\<close>

text \<open>
  C20: Round trip. Every workflow, invocation and request is read back unchanged from the JSON
  form that the worker's own conversion gives it, whatever of its optional parts is present.
\<close>

theorem workflow_json_roundtrip:
  "workflow_from_json (workflow_to_json w) = Inr w
   \<and> invoke_dto_from_json (invoke_dto_to_json v) = Inr v
   \<and> workflow_request_from_json old (workflow_request_to_json r) = Inr r"
  by (simp add: workflow_from_json_def workflow_to_json_def invoke_dto_from_json_def invoke_dto_to_json_def
      workflow_request_from_json_def workflow_request_to_json_def)

end
