(* ===== verification/Graph.thy ===== *)
theory Graph
  imports Bindings FuncInfo WorkflowModel "HOL-Library.Multiset"
begin

section \<open>The graph of a workflow and the comparisons of its choices\<close>

text \<open>
  \<open>src/workflow/graph.hpp\<close> and \<open>graph.cpp\<close>: a registered workflow is turned into a graph of nodes,
  one for each state, linked by \<open>Next\<close>; a choice ends its list and owns the graphs of its rules and
  of its default as edges. An absent pointer is \<open>None\<close>.

  What the C++ standard or the platform leaves open is a parameter, the record \<open>platform\<close>: the
  order in which \<open>std::sort\<close> leaves equivalent edges, the conversion of a \<open>double\<close> outside the range
  of \<open>uint32_t\<close>, and what \<open>memcpy\<close> reads behind the end of a short value.
\<close>

datatype node_type = NTask | NChoice | NUnknown

datatype node = Node
    (wf_id: string) (node_state_id: string) (ntype: node_type) (node_func_id: string)
    (node_func: "wasm_func_info option") (bindings: "resource_binding list") (node_end: bool)
    (node_next: "node option") (node_choices: "edge list")
and edge = Edge (evar: string) (operand: string) (evalue: fvalue) (edge_next: "node option")

record platform =
  edge_sort :: "edge list \<Rightarrow> edge list"
  cast_out_of_range :: "rat \<Rightarrow> 32 word"
  read_past :: "bytes \<Rightarrow> 32 word"

subsection \<open>Building the graph\<close>

definition ascii_lower :: "char \<Rightarrow> char" where
  "ascii_lower c = (let n = (of_char c :: nat) in if 65 \<le> n \<and> n \<le> 90 then char_of (n + 32) else c)"

definition get_node_type :: "string \<Rightarrow> node_type" where
  "get_node_type t =
     (let s = map ascii_lower t in
      if s = ''task'' then NTask else if s = ''choice'' then NChoice else NUnknown)"

definition node_ID :: "node \<Rightarrow> string" where
  "node_ID n = wf_id n @ '':'' @ node_state_id n"

definition to_operand_value :: "choice \<Rightarrow> (string \<times> fvalue) fallible" where
  "to_operand_value c =
     (case numeric_eq c of Some v \<Rightarrow> Inr (''=='', VDouble v) | None \<Rightarrow>
     (case numeric_gt c of Some v \<Rightarrow> Inr (''>'', VDouble v) | None \<Rightarrow>
     (case numeric_gte c of Some v \<Rightarrow> Inr (''>='', VDouble v) | None \<Rightarrow>
     (case numeric_lt c of Some v \<Rightarrow> Inr (''<'', VDouble v) | None \<Rightarrow>
     (case numeric_lte c of Some v \<Rightarrow> Inr (''<='', VDouble v) | None \<Rightarrow>
     (case string_eq c of Some v \<Rightarrow> Inr (''=='', VString v) | None \<Rightarrow>
     (case bool_eq c of Some v \<Rightarrow> Inr (''bool'', VBool v) | None \<Rightarrow>
        Inl ''no comparator set in choice rule'')))))))"

text \<open>The comparison that sorts the edges: the ID of the target, the variable, the operand.\<close>

definition edge_target :: "edge \<Rightarrow> string" where
  "edge_target e = (case edge_next e of None \<Rightarrow> [] | Some n \<Rightarrow> node_ID n)"

definition edge_less :: "edge \<Rightarrow> edge \<Rightarrow> bool" where
  "edge_less a b =
     (let idi = edge_target a; idj = edge_target b in
      if idi = idj then
        (if evar a = evar b then str_lt (operand a) (operand b) else str_lt (evar a) (evar b))
      else str_lt idi idj)"

text \<open>
  \<open>buildSequence\<close> goes through the states from the last to the first. The result \<open>None\<close> is the null
  pointer for an empty list. The arguments of \<open>build_state\<close> are the length of the list, the index of
  the state and the node after it.
\<close>

fun build_sequence :: "platform \<Rightarrow> string \<Rightarrow> nat \<Rightarrow> nat \<Rightarrow> state list \<Rightarrow> node option fallible"
  and build_state :: "platform \<Rightarrow> string \<Rightarrow> nat \<Rightarrow> nat \<Rightarrow> state \<Rightarrow> node option \<Rightarrow> node fallible"
  and build_edges :: "platform \<Rightarrow> string \<Rightarrow> string \<Rightarrow> choice list \<Rightarrow> edge list fallible" where
  "build_sequence p wid n idx [] = Inr None"
| "build_sequence p wid n idx (st # rest) =
     rbind (build_sequence p wid n (Suc idx) rest) (\<lambda>next.
     rbind (build_state p wid n idx st next) (\<lambda>nd. Inr (Some nd)))"
| "build_state p wid n idx (State t f rs cs d) next =
     (let state_id = nat_str idx in
      case get_node_type t of
        NTask \<Rightarrow> rbind (get_task_binding rs) (\<lambda>bs. Inr (Node wid state_id NTask f None bs (next = None) next []))
      | NChoice \<Rightarrow>
          if idx + 1 \<noteq> n then Inl (''choice at index '' @ state_id @ '' must be the last state in the list'')
          else if cs = [] then Inl (''choice at index '' @ state_id @ '' has no choices'')
          else
            rbind (build_edges p wid state_id cs) (\<lambda>es.
            rbind (case d of None \<Rightarrow> Inr []
                   | Some ts \<Rightarrow> rbind (build_sequence p wid (length ts) 0 ts) (\<lambda>child.
                                  Inr [Edge [] ''default'' VNull child])) (\<lambda>def.
            let edges = edge_sort p (es @ def) in
            rbind (get_choice_bindings (map (\<lambda>e. (operand e, evar e)) edges)) (\<lambda>bs.
              Inr (Node wid state_id NChoice f None bs False None edges))))
      | NUnknown \<Rightarrow> Inl (''unknown node type '' @ t))"
| "build_edges p wid sid [] = Inr []"
| "build_edges p wid sid (Choice v eq gt gte lt lte seq beq ts # cs) =
     (if v = [] then Inl (''choice at index '' @ sid @ '' rule missing variable'')
      else case to_operand_value (Choice v eq gt gte lt lte seq beq ts) of
             Inl terr \<Rightarrow> Inl (''choice at index '' @ sid @ '': '' @ terr)
           | Inr (op, val) \<Rightarrow>
               rbind (build_sequence p wid (length ts) 0 ts) (\<lambda>child.
               rbind (build_edges p wid sid cs) (\<lambda>es. Inr (Edge v op val child # es))))"

definition build_from_workflow :: "platform \<Rightarrow> workflow \<Rightarrow> node fallible" where
  "build_from_workflow p w =
     (if workflow_tasks w = [] then Inl ''workflow has no tasks''
      else case build_sequence p (workflow_id w) (length (workflow_tasks w)) 0 (workflow_tasks w) of
             Inl e \<Rightarrow> Inl (''failed to build graph: '' @ e)
           | Inr None \<Rightarrow> Inl ''failed to build graph: workflow has no tasks''
           | Inr (Some nd) \<Rightarrow> Inr nd)"

subsection \<open>Comparing values\<close>

text \<open>\<open>std::stoull\<close>: white space, a sign, digits; a negative number wraps around. \<open>None\<close> is an exception.\<close>

definition stoull :: "string \<Rightarrow> 64 word option" where
  "stoull s =
     (let t = dropWhile is_cspace s;
          neg = (t \<noteq> [] \<and> hd t = CHR ''-'');
          u = (if t \<noteq> [] \<and> (hd t = CHR ''-'' \<or> hd t = CHR ''+'') then tl t else t);
          ds = takeWhile is_digit u;
          v = digits_val ds
      in if ds = [] then None
         else if 2 ^ 64 \<le> v then None
         else Some (if neg then - word_of_int v else word_of_int v))"

definition double_to_u32 :: "platform \<Rightarrow> rat \<Rightarrow> 32 word" where
  "double_to_u32 p x =
     (if 0 \<le> rat_trunc x \<and> rat_trunc x < 2 ^ 32 then word_of_int (rat_trunc x) else cast_out_of_range p x)"

definition field_as_number :: "platform \<Rightarrow> input_field \<Rightarrow> 32 word option" where
  "field_as_number p v =
     (case kind v of
        KDouble \<Rightarrow> Some (double_to_u32 p (double_value v))
      | KInt64 \<Rightarrow> Some (ucast (int64_value v))
      | KUInt64 \<Rightarrow> Some (ucast (uint64_value v))
      | KString \<Rightarrow> map_option ucast (stoull (string_value v))
      | _ \<Rightarrow> None)"

definition value_as_number :: "platform \<Rightarrow> fvalue \<Rightarrow> 32 word option" where
  "value_as_number p v =
     (case v of
        VDouble x \<Rightarrow> Some (double_to_u32 p x)
      | VInt64 w \<Rightarrow> Some (ucast w)
      | VUInt64 w \<Rightarrow> Some (ucast w)
      | VString s \<Rightarrow> map_option ucast (stoull s)
      | _ \<Rightarrow> None)"

definition compare_u32 :: "string \<Rightarrow> 32 word \<Rightarrow> 32 word \<Rightarrow> bool" where
  "compare_u32 op a r =
     (if op = ''>'' then r < a else if op = ''>='' then r \<le> a
      else if op = ''<'' then a < r else if op = ''<='' then a \<le> r else False)"

definition is_order_op :: "string \<Rightarrow> bool" where
  "is_order_op op \<longleftrightarrow> op = ''>'' \<or> op = ''>='' \<or> op = ''<'' \<or> op = ''<=''"

text \<open>\<open>cmp\<close> and \<open>cmpBytes\<close>: \<open>None\<close> when the operand is unsupported, else the match.\<close>

definition cmp :: "platform \<Rightarrow> input_field \<Rightarrow> string \<Rightarrow> fvalue \<Rightarrow> bool option" where
  "cmp p actual op rhs =
     (let af = field_as_number p actual; rf = value_as_number p rhs in
      if op = ''=='' \<or> op = ''eq'' then
        (case rhs of
           VString s \<Rightarrow> Some (kind actual = KString \<and> string_value actual = s)
         | VBool b \<Rightarrow> Some (kind actual = KBool \<and> bool_value actual = b)
         | _ \<Rightarrow> Some (af \<noteq> None \<and> rf \<noteq> None \<and> af = rf))
      else if op = ''!='' then
        (case rhs of
           VString s \<Rightarrow> Some (kind actual = KString \<and> string_value actual \<noteq> s)
         | VBool b \<Rightarrow> Some (kind actual = KBool \<and> bool_value actual \<noteq> b)
         | _ \<Rightarrow> Some (af \<noteq> None \<and> rf \<noteq> None \<and> af \<noteq> rf))
      else if is_order_op op then
        (case (af, rf) of (Some a, Some r) \<Rightarrow> Some (compare_u32 op a r) | _ \<Rightarrow> Some False)
      else if op = ''bool'' then
        (case rhs of VBool b \<Rightarrow> Some (kind actual = KBool \<and> bool_value actual = b) | _ \<Rightarrow> None)
      else if op = ''default'' then Some True
      else None)"

definition bytes_to_bool :: "bytes \<Rightarrow> bool option" where
  "bytes_to_bool vec =
     (case vec of
        [b] \<Rightarrow> if b = 0 \<or> b = 1 then Some (b = 1) else if b = 48 \<or> b = 49 then Some (b = 49) else None
      | _ \<Rightarrow> None)"

text \<open>Four bytes in the order of the host, which is little-endian.\<close>

definition bytes_to_number :: "platform \<Rightarrow> bytes \<Rightarrow> 32 word option" where
  "bytes_to_number p vec =
     (if vec = [] then None
      else if length vec < 4 then Some (read_past p vec)
      else Some (word_of_int (int_from_bytes (rev (take 4 vec)))))"

definition cmp_bytes :: "platform \<Rightarrow> bytes \<Rightarrow> string \<Rightarrow> fvalue \<Rightarrow> bool option" where
  "cmp_bytes p vec op rhs =
     (if op = ''=='' \<or> op = ''eq'' \<or> op = ''!='' then
        (let eq = (case rhs of
                     VString s \<Rightarrow> Some (vec = str_encode s)
                   | VBool b \<Rightarrow> map_option (\<lambda>bv. bv = b) (bytes_to_bool vec)
                   | _ \<Rightarrow> (case (value_as_number p rhs, bytes_to_number p vec) of
                           (Some rf, Some af) \<Rightarrow> Some (af = rf) | _ \<Rightarrow> None))
         in case eq of None \<Rightarrow> Some False | Some e \<Rightarrow> Some (if op = ''!='' then \<not> e else e))
      else if is_order_op op then
        (case (value_as_number p rhs, bytes_to_number p vec) of
           (Some rf, Some af) \<Rightarrow> Some (compare_u32 op af rf) | _ \<Rightarrow> Some False)
      else if op = ''bool'' then
        (case rhs of
           VBool b \<Rightarrow> (case bytes_to_bool vec of None \<Rightarrow> Some False | Some bv \<Rightarrow> Some (bv = b))
         | _ \<Rightarrow> None)
      else if op = ''default'' then Some True
      else None)"


subsection \<open>Which workflows have a graph\<close>

text \<open>What \<open>std::sort\<close> guarantees for any order of equivalent edges.\<close>

definition sorts_edges :: "platform \<Rightarrow> bool" where
  "sorts_edges p \<longleftrightarrow> (\<forall>es. mset (edge_sort p es) = mset es
     \<and> sorted_wrt (\<lambda>a b. \<not> edge_less b a) (edge_sort p es))"

definition valid_placeholder :: "string \<Rightarrow> bool" where
  "valid_placeholder q \<longleftrightarrow>
     (let t = trim_copy q in
      2 \<le> length t \<and> (hd t = CHR ''$'' \<or> hd t = CHR ''&'' \<and>
        (3 \<le> length t \<and> t ! (length t - 2) = CHR '':'' \<and> last t \<noteq> CHR '':'' \<longrightarrow>
           3 < length t \<and> (last t = CHR ''r'' \<or> last t = CHR ''w''))))"

definition has_comparator :: "choice \<Rightarrow> bool" where
  "has_comparator c \<longleftrightarrow> numeric_eq c \<noteq> None \<or> numeric_gt c \<noteq> None \<or> numeric_gte c \<noteq> None
     \<or> numeric_lt c \<noteq> None \<or> numeric_lte c \<noteq> None \<or> string_eq c \<noteq> None \<or> bool_eq c \<noteq> None"

fun valid_sequence :: "state list \<Rightarrow> bool"
  and valid_state :: "bool \<Rightarrow> state \<Rightarrow> bool"
  and valid_choice :: "choice \<Rightarrow> bool" where
  "valid_sequence [] = True"
| "valid_sequence (st # rest) = (valid_state (rest = []) st \<and> valid_sequence rest)"
| "valid_state is_last (State t f rs cs d) =
     (case get_node_type t of
        NTask \<Rightarrow> list_all (\<lambda>(n, q). valid_placeholder q) rs
      | NChoice \<Rightarrow> is_last \<and> cs \<noteq> [] \<and> list_all valid_choice cs
          \<and> (case d of None \<Rightarrow> True | Some ts \<Rightarrow> valid_sequence ts)
      | NUnknown \<Rightarrow> False)"
| "valid_choice (Choice v eq gt gte lt lte seq beq ts) =
     (v \<noteq> [] \<and> has_comparator (Choice v eq gt gte lt lte seq beq ts) \<and> valid_placeholder v \<and> valid_sequence ts)"

lemma rfind_from_bounds: "rfind_from i c xs found = Some j \<Longrightarrow> found = Some j \<or> i \<le> j \<and> j < i + length xs"
  by (induction xs arbitrary: i found) (fastforce split: if_splits)+

lemma rfind_bound: "rfind c xs = Some j \<Longrightarrow> j < length xs"
  using rfind_from_bounds [of 0 c xs None j] by (simp add: rfind_def)

lemma rfind_snoc2:
  "rfind c (ys @ [a, b]) = (if b = c then Some (Suc (length ys)) else if a = c then Some (length ys) else rfind c ys)"
  by (simp add: rfind_def rfind_from_append)

lemma parse_succeeds_iff: "(\<exists>b. parse_resource_placeholder q cur = Inr b) \<longleftrightarrow> valid_placeholder q"
proof (cases "2 \<le> length (trim_copy q)")
  case False
  then show ?thesis by (simp add: parse_resource_placeholder_def valid_placeholder_def Let_def)
next
  case True
  define t where "t = trim_copy q"
  then have ut: "trim_copy q = t" by simp
  from True obtain ys a b where t: "t = ys @ [a, b]"
    unfolding t_def by (cases "trim_copy q" rule: rev_cases; cases "butlast (trim_copy q)" rule: rev_cases) auto
  have none: "rfind CHR '':'' t = None \<or> the (rfind CHR '':'' t) + 2 \<noteq> length t \<longleftrightarrow> \<not> (a = CHR '':'' \<and> b \<noteq> CHR '':'')"
    using rfind_bound [of "CHR '':''" ys] by (auto simp: t rfind_snoc2)
  have parts: "length t = Suc (Suc (length ys))" "last t = b" "t ! length ys = a" "t ! Suc (length ys) = b"
    "t ! 0 = hd t" "drop (Suc 0) t \<noteq> []"
    unfolding t by (auto simp: nth_append hd_conv_nth)
  let ?ok = "hd t = CHR ''$'' \<or> hd t = CHR ''&'' \<and>
     (a = CHR '':'' \<and> b \<noteq> CHR '':'' \<longrightarrow> (b = CHR ''r'' \<or> b = CHR ''w'') \<and> Suc 0 < length ys)"
  have "(\<exists>b. parse_resource_placeholder q cur = Inr b) \<longleftrightarrow> ?ok"
  proof (cases "a = CHR '':'' \<and> b \<noteq> CHR '':''")
    case True
    have "take (length ys - Suc 0) (drop (Suc 0) t) = [] \<longleftrightarrow> length ys \<le> Suc 0"
      using parts(6) by auto
    moreover have "rfind CHR '':'' t = Some (length ys)" using True by (simp add: t rfind_snoc2)
    ultimately show ?thesis using True parts
      by (auto simp: parse_resource_placeholder_def Let_def ut)
  next
    case False
    then have "rfind CHR '':'' t = None \<or> Suc (Suc (the (rfind CHR '':'' t))) \<noteq> length t" using none by simp
    then show ?thesis using False parts
      by (auto simp: parse_resource_placeholder_def Let_def ut)
  qed
  also have "?ok \<longleftrightarrow> valid_placeholder q"
    using parts by (cases ys) (auto simp: valid_placeholder_def Let_def ut t)
  finally show ?thesis .
qed


lemma rmap_succeeds_iff: "(\<exists>ys. rmap f xs = Inr ys) \<longleftrightarrow> list_all (\<lambda>x. \<exists>y. f x = Inr y) xs"
  by (induction xs) (auto simp: rbind_Inr_iff)

lemma get_task_binding_iff: "(\<exists>bs. get_task_binding rs = Inr bs) \<longleftrightarrow> list_all (\<lambda>(n, q). valid_placeholder q) rs"
  by (simp add: get_task_binding_def rmap_succeeds_iff parse_succeeds_iff case_prod_unfold)

lemma choice_bindings_iff:
  "(\<exists>bs. choice_bindings_from es seen = Inr bs)
     \<longleftrightarrow> (\<forall>(oper, var)\<in>set es. oper \<noteq> ''default'' \<longrightarrow> var \<notin> seen \<longrightarrow> valid_placeholder var)"
proof (induction es arbitrary: seen)
  case Nil
  then show ?case by simp
next
  case (Cons e es)
  obtain oper var where e: "e = (oper, var)" by (cases e)
  show ?case
  proof (cases "oper = ''default'' \<or> var \<in> seen")
    case True
    then show ?thesis using Cons.IH [of seen] by (auto simp: e)
  next
    case False
    have "(\<exists>bs. choice_bindings_from (e # es) seen = Inr bs)
        \<longleftrightarrow> valid_placeholder var \<and> (\<exists>bs. choice_bindings_from es (insert var seen) = Inr bs)"
      using False parse_succeeds_iff [of var "new_binding var"] by (auto simp: e rbind_Inr_iff)
    then show ?thesis using Cons.IH [of "insert var seen"] False by (auto simp: e)
  qed
qed

lemma to_operand_value_iff: "(\<exists>ov. to_operand_value c = Inr ov) \<longleftrightarrow> has_comparator c"
  by (auto simp: to_operand_value_def has_comparator_def split: option.splits)

lemma to_operand_not_default [simp]: "to_operand_value c \<noteq> Inr (''default'', val)"
  by (auto simp: to_operand_value_def split: option.splits)

lemma build_sequence_None: "build_sequence p wid n idx ts = Inr next \<Longrightarrow> (next = None \<longleftrightarrow> ts = [])"
  by (cases ts) (auto simp: rbind_Inr_iff)

lemma build_edges_shape:
  "build_edges p wid sid cs = Inr es \<Longrightarrow> map evar es = map variable cs \<and> (\<forall>e\<in>set es. operand e \<noteq> ''default'')"
proof (induction cs arbitrary: es)
  case Nil
  then show ?case by simp
next
  case (Cons c cs)
  then show ?case
    by (cases c) (auto simp: rbind_Inr_iff split: if_splits sum.splits)
qed

lemma edge_sort_set: "sorts_edges p \<Longrightarrow> set (edge_sort p es) = set es"
  by (metis sorts_edges_def set_mset_mset)

lemma build_iff:
  shows "sorts_edges p \<Longrightarrow> n = idx + length ts \<Longrightarrow> (\<exists>nd. build_sequence p wid n idx ts = Inr nd) \<longleftrightarrow> valid_sequence ts"
    and "sorts_edges p \<Longrightarrow> (\<exists>nd. build_state p wid n idx st next = Inr nd) \<longleftrightarrow> valid_state (idx + 1 = n) st"
    and "sorts_edges p \<Longrightarrow> (\<exists>es. build_edges p wid sid cs = Inr es) \<and> list_all (\<lambda>c. valid_placeholder (variable c)) cs \<longleftrightarrow> list_all valid_choice cs"
proof (induction p wid n idx ts and p wid n idx st "next" and p wid sid cs
    rule: build_sequence_build_state_build_edges.induct)
  case (2 p wid n idx st rest)
  have "idx + 1 = n \<longleftrightarrow> rest = []" using "2.prems" by (cases rest) auto
  then show ?case using 2 by (auto simp: rbind_Inr_iff)
next
  case (3 p wid n idx t f rs cs d "next")
  have bindings_ok: "(\<exists>bs. get_choice_bindings (map (\<lambda>e. (operand e, evar e)) (edge_sort p (es @ def))) = Inr bs)
      \<longleftrightarrow> list_all (\<lambda>c. valid_placeholder (variable c)) cs"
    if "build_edges p wid (nat_str idx) cs = Inr es" and "\<forall>e\<in>set def. operand e = ''default''" for es def
  proof -
    have es: "evar ` set es = variable ` set cs" "\<forall>e\<in>set es. operand e \<noteq> ''default''"
      using build_edges_shape [OF that(1)] by (metis set_map)+
    have "(\<forall>e\<in>set (es @ def). operand e \<noteq> ''default'' \<longrightarrow> valid_placeholder (evar e))
        \<longleftrightarrow> (\<forall>v\<in>evar ` set es. valid_placeholder v)"
      using that(2) es(2) by auto
    then show ?thesis
      using es(1) by (simp add: get_choice_bindings_def choice_bindings_iff list_all_iff edge_sort_set [OF "3.prems"])
  qed
  show ?case
  proof (cases "get_node_type t")
    case NTask
    then show ?thesis using get_task_binding_iff [of rs] by (auto simp: rbind_Inr_iff)
  next
    case NChoice
    let ?def = "case d of None \<Rightarrow> Inr []
       | Some ts \<Rightarrow> rbind (build_sequence p wid (length ts) 0 ts) (\<lambda>child. Inr [Edge [] ''default'' VNull child])"
    have def: "\<forall>e\<in>set def. operand e = ''default''" if "?def = Inr def" for def
      using that by (auto simp: rbind_Inr_iff split: option.splits)
    have step: "(\<exists>nd. build_state p wid n idx (State t f rs cs d) next = Inr nd) \<longleftrightarrow> idx + 1 = n \<and> cs \<noteq> []
        \<and> (\<exists>es. build_edges p wid (nat_str idx) cs = Inr es) \<and> (\<exists>def. ?def = Inr def)
        \<and> list_all (\<lambda>c. valid_placeholder (variable c)) cs"
      using NChoice bindings_ok def
      by (simp add: Let_def rbind_Inr_iff cong: conj_cong) blast
    have "idx + 1 = n \<Longrightarrow> cs \<noteq> [] \<Longrightarrow> \<exists>es. build_edges p wid (nat_str idx) cs = Inr es \<Longrightarrow>
        (\<exists>def. ?def = Inr def) \<longleftrightarrow> (case d of None \<Rightarrow> True | Some ts \<Rightarrow> valid_sequence ts)"
      using "3.IH"(2) NChoice "3.prems" by (cases d) (auto simp: rbind_Inr_iff)
    moreover have "idx + 1 = n \<Longrightarrow> cs \<noteq> [] \<Longrightarrow> (\<exists>es. build_edges p wid (nat_str idx) cs = Inr es)
        \<and> list_all (\<lambda>c. valid_placeholder (variable c)) cs \<longleftrightarrow> list_all valid_choice cs"
      using "3.IH"(1) NChoice "3.prems" by simp
    ultimately show ?thesis using step NChoice
      by (simp cong: conj_cong) blast
  next
    case NUnknown
    then show ?thesis by simp
  qed
next
  case (5 p wid sid v eq gt gte lt lte seq beq ts cs)
  show ?case
  proof (cases "v \<noteq> [] \<and> has_comparator (Choice v eq gt gte lt lte seq beq ts)")
    case True
    then obtain op val where ov: "to_operand_value (Choice v eq gt gte lt lte seq beq ts) = Inr (op, val)"
      using to_operand_value_iff by fastforce
    have seq: "(\<exists>nd. build_sequence p wid (length ts) 0 ts = Inr nd) \<longleftrightarrow> valid_sequence ts"
      using "5.IH"(1) True ov "5.prems" by simp
    moreover have "(\<exists>es. build_edges p wid sid cs = Inr es) \<and> list_all (\<lambda>c. valid_placeholder (variable c)) cs
        \<longleftrightarrow> list_all valid_choice cs" if "valid_sequence ts"
      using "5.IH"(2) True ov "5.prems" seq that by auto
    ultimately show ?thesis using True by (auto simp: rbind_Inr_iff ov)
  next
    case False
    then show ?thesis
      using to_operand_value_iff [of "Choice v eq gt gte lt lte seq beq ts"] by (auto split: sum.splits)
  qed
qed auto


subsection \<open>An order that the standard allows\<close>

text \<open>Insertion keeps equivalent edges in the order of the rules, as short lists are sorted in practice.\<close>

fun insert_edge :: "edge \<Rightarrow> edge list \<Rightarrow> edge list" where
  "insert_edge e [] = [e]"
| "insert_edge e (x # xs) = (if edge_less x e then x # insert_edge e xs else e # x # xs)"

definition stable_edges :: "edge list \<Rightarrow> edge list" where
  "stable_edges es = foldr insert_edge es []"

definition common_platform :: platform where
  "common_platform = \<lparr>edge_sort = stable_edges, cast_out_of_range = word_of_int \<circ> rat_trunc, read_past = (\<lambda>_. 0)\<rparr>"

lemma not_edge_less:
  "\<not> edge_less b a \<longleftrightarrow> str_lt (edge_target a) (edge_target b) \<or> edge_target a = edge_target b
     \<and> (str_lt (evar a) (evar b) \<or> evar a = evar b \<and> (str_lt (operand a) (operand b) \<or> operand a = operand b))"
  by (auto simp: edge_less_def Let_def not_str_lt)

lemma not_edge_less_trans: "\<not> edge_less b a \<Longrightarrow> \<not> edge_less c b \<Longrightarrow> \<not> edge_less c a"
  unfolding not_edge_less
  using str_lt_trans [of "edge_target a" "edge_target b" "edge_target c"]
    str_lt_trans [of "evar a" "evar b" "evar c"] str_lt_trans [of "operand a" "operand b" "operand c"]
  by auto

lemma edge_less_asym: "edge_less a b \<Longrightarrow> \<not> edge_less b a"
  unfolding not_edge_less by (auto simp: edge_less_def Let_def split: if_splits)

lemma mset_insert_edge [simp]: "mset (insert_edge e es) = add_mset e (mset es)"
  by (induction es) auto

lemma sorted_insert_edge:
  "sorted_wrt (\<lambda>a b. \<not> edge_less b a) es \<Longrightarrow> sorted_wrt (\<lambda>a b. \<not> edge_less b a) (insert_edge e es)"
proof (induction es)
  case Nil
  then show ?case by simp
next
  case (Cons x xs)
  have "set (insert_edge e xs) = insert e (set xs)"
    using mset_insert_edge [of e xs] by (metis set_mset_add_mset_insert set_mset_mset)
  moreover have "\<not> edge_less y e" if "\<not> edge_less x e" "y \<in> set xs" for y
    using Cons.prems that(2) not_edge_less_trans [OF that(1), of y] by simp
  ultimately show ?case using Cons edge_less_asym [of x e] by auto
qed

lemma common_platform_sorts: "sorts_edges common_platform"
proof -
  have "mset (stable_edges es) = mset es \<and> sorted_wrt (\<lambda>a b. \<not> edge_less b a) (stable_edges es)" for es
    unfolding stable_edges_def by (induction es) (simp_all add: sorted_insert_edge)
  then show ?thesis by (simp add: sorts_edges_def common_platform_def)
qed


subsection \<open>The shape of a graph\<close>

text \<open>
  What the scheduler relies on: a task has a successor exactly when it is not the end, a choice
  has edges but no successor, its rules are comparisons that are supported, and there is a binding
  for the variable of every rule.
\<close>

definition supported :: "platform \<Rightarrow> edge \<Rightarrow> bool" where
  "supported p e \<longleftrightarrow> (\<forall>f. cmp p f (operand e) (evalue e) \<noteq> None) \<and> (\<forall>b. cmp_bytes p b (operand e) (evalue e) \<noteq> None)"

definition edges_bound :: "resource_binding list \<Rightarrow> edge list \<Rightarrow> bool" where
  "edges_bound bs es \<longleftrightarrow> distinct (map local_name bs)
     \<and> (\<forall>e\<in>set es. operand e \<noteq> ''default'' \<longrightarrow> evar e \<in> local_name ` set bs)"

fun graph_ok :: "platform \<Rightarrow> node \<Rightarrow> bool"
  and edge_ok :: "platform \<Rightarrow> edge \<Rightarrow> bool" where
  "graph_ok p (Node w s ty f fn bs end_flag next es) =
     (case ty of
        NTask \<Rightarrow> es = [] \<and> (end_flag \<longleftrightarrow> next = None) \<and> (case next of None \<Rightarrow> True | Some m \<Rightarrow> graph_ok p m)
      | NChoice \<Rightarrow> next = None \<and> es \<noteq> [] \<and> edges_bound bs es \<and> list_all (edge_ok p) es
      | NUnknown \<Rightarrow> False)"
| "edge_ok p (Edge v oper val next) =
     (supported p (Edge v oper val next) \<and> (case next of None \<Rightarrow> True | Some m \<Rightarrow> graph_ok p m))"

lemma order_op_supported [simp]:
  "is_order_op ''>''" "is_order_op ''>=''" "is_order_op ''<''" "is_order_op ''<=''"
  "\<not> is_order_op ''bool''" "\<not> is_order_op ''default''" "\<not> is_order_op ''==''"
  by (simp_all add: is_order_op_def)

lemma cmp_defined:
  "cmp p f ''=='' val \<noteq> None" "cmp_bytes p bs ''=='' val \<noteq> None"
  "cmp p f ''bool'' (VBool b) \<noteq> None" "cmp_bytes p bs ''bool'' (VBool b) \<noteq> None"
  by (cases val; simp add: cmp_def cmp_bytes_def Let_def del: not_None_eq split: option.split)+

lemma order_defined:
  "cmp p f ''>'' val \<noteq> None" "cmp p f ''>='' val \<noteq> None" "cmp p f ''<'' val \<noteq> None" "cmp p f ''<='' val \<noteq> None"
  "cmp_bytes p bs ''>'' val \<noteq> None" "cmp_bytes p bs ''>='' val \<noteq> None"
  "cmp_bytes p bs ''<'' val \<noteq> None" "cmp_bytes p bs ''<='' val \<noteq> None"
  by (simp_all add: cmp_def cmp_bytes_def Let_def del: not_None_eq split: option.split)

lemma to_operand_supported: "to_operand_value c = Inr (oper, val) \<Longrightarrow> supported p (Edge v oper val next)"
  by (auto simp: to_operand_value_def supported_def cmp_defined order_defined iff del: not_None_eq
      split: option.split_asm)

lemma default_supported: "supported p (Edge v ''default'' val next)"
  by (simp add: supported_def cmp_def cmp_bytes_def)

lemma edges_bound_built:
  assumes "get_choice_bindings (map (\<lambda>e. (operand e, evar e)) es) = Inr bs"
  shows "edges_bound bs es"
  using choice_bindings_names [OF assms [unfolded get_choice_bindings_def]] by (force simp: edges_bound_def)

lemma build_graph_ok:
  shows "sorts_edges p \<Longrightarrow> build_sequence p wid n idx ts = Inr (Some nd) \<Longrightarrow> graph_ok p nd"
    and "sorts_edges p \<Longrightarrow> build_state p wid n idx st next = Inr nd
      \<Longrightarrow> (case next of None \<Rightarrow> True | Some m \<Rightarrow> graph_ok p m) \<Longrightarrow> graph_ok p nd"
    and "sorts_edges p \<Longrightarrow> build_edges p wid sid cs = Inr es \<Longrightarrow> list_all (edge_ok p) es"
proof (induction p wid n idx ts and p wid n idx st "next" and p wid sid cs
    arbitrary: nd and nd and es rule: build_sequence_build_state_build_edges.induct)
  case (2 p wid n idx st rest)
  then show ?case by (fastforce simp: rbind_Inr_iff split: option.splits)
next
  case (3 p wid n idx t f rs cs d "next")
  show ?case
  proof (cases "get_node_type t")
    case NTask
    with 3 show ?thesis by (auto simp: rbind_Inr_iff Let_def)
  next
    case NChoice
    let ?def = "case d of None \<Rightarrow> Inr []
       | Some ts \<Rightarrow> rbind (build_sequence p wid (length ts) 0 ts) (\<lambda>child. Inr [Edge [] ''default'' VNull child])"
    from "3.prems"(2) NChoice obtain es def bs where idx: "Suc idx = n" "cs \<noteq> []"
      and es: "build_edges p wid (nat_str idx) cs = Inr es" and def: "?def = Inr def"
      and bs: "get_choice_bindings (map (\<lambda>e. (operand e, evar e)) (edge_sort p (es @ def))) = Inr bs"
      and nd: "nd = Node wid (nat_str idx) NChoice f None bs False None (edge_sort p (es @ def))"
      by (auto simp: rbind_Inr_iff Let_def split: if_splits)
    have "list_all (edge_ok p) es" using "3.IH"(1) NChoice idx "3.prems"(1) es by simp
    moreover have "list_all (edge_ok p) def"
      using def "3.IH"(2) NChoice idx es "3.prems"(1)
      by (fastforce simp: rbind_Inr_iff default_supported split: option.splits)
    moreover have "es \<noteq> []" using build_edges_shape [OF es] idx(2) by auto
    ultimately show ?thesis
      using edges_bound_built [OF bs] edge_sort_set [OF "3.prems"(1), of "es @ def"]
      by (auto simp: nd list_all_iff)
  next
    case NUnknown
    with 3 show ?thesis by simp
  qed
next
  case (5 p wid sid v eq gt gte lt lte seq beq ts cs)
  then show ?case
    by (fastforce simp: rbind_Inr_iff to_operand_supported split: if_splits sum.splits option.splits)
qed auto

lemma get_node_type_names [simp]:
  "get_node_type ''Task'' = NTask" "get_node_type ''task'' = NTask"
  "get_node_type ''Choice'' = NChoice" "get_node_type ''choice'' = NChoice"
  by code_simp+

subsection \<open>Properties\<close>

text \<open>
  C18: Which workflows are accepted. For every order that the standard allows for equivalent edges,
  a workflow gets a graph exactly when it has tasks and all of them are well formed: the tasks'
  placeholders have a known scope and mode, a choice ends its list and has rules with a variable
  and a comparator, and the lists below it are well formed too.
\<close>

theorem build_accepts:
  assumes "sorts_edges p"
  shows "(\<exists>nd. build_from_workflow p w = Inr nd) \<longleftrightarrow> workflow_tasks w \<noteq> [] \<and> valid_sequence (workflow_tasks w)"
  using build_iff(1) [OF assms, of "length (workflow_tasks w)" 0 "workflow_tasks w" "workflow_id w"]
    build_sequence_None [of p "workflow_id w" "length (workflow_tasks w)" 0 "workflow_tasks w"]
  by (auto simp: build_from_workflow_def split: sum.splits option.splits)

theorem build_accepts_witness:
  "\<exists>nd. build_from_workflow common_platform
     \<lparr>workflow_id = ''w'', workflow_tasks = [State ''Task'' ''f'' [(''a'', ''&x:w''), (''b'', ''$v'')] [] None]\<rparr> = Inr nd"
  using build_accepts [OF common_platform_sorts, of
      "\<lparr>workflow_id = ''w'', workflow_tasks = [State ''Task'' ''f'' [(''a'', ''&x:w''), (''b'', ''$v'')] [] None]\<rparr>"]
  by (simp add: Let_def valid_placeholder_def trim_copy_def is_cspace_def)

text \<open>
  C17: The graph of an accepted workflow is one the scheduler can run: the end flag of a task tells
  the truth about its successor, a choice has edges and a binding for the variable of each rule,
  and no comparison is unsupported, so evaluating a choice never fails for that reason.
\<close>

theorem graph_wellformed:
  assumes "sorts_edges p" and "build_from_workflow p w = Inr nd"
  shows "graph_ok p nd"
  using assms build_graph_ok(1) [OF assms(1)]
  by (auto simp: build_from_workflow_def split: if_splits sum.splits option.splits)

theorem graph_wellformed_witness:
  "\<exists>nd. build_from_workflow common_platform
     \<lparr>workflow_id = ''w'', workflow_tasks = [State ''Task'' ''f'' [] [] None]\<rparr> = Inr nd \<and> graph_ok common_platform nd"
  (is "\<exists>nd. build_from_workflow _ ?w = _ \<and> _")
proof -
  have "build_from_workflow common_platform ?w = Inr (Node ''w'' (nat_str 0) NTask ''f'' None [] True None [])"
    by (simp add: build_from_workflow_def Let_def get_task_binding_def)
  from graph_wellformed [OF common_platform_sorts this] this show ?thesis by blast
qed


lemma double_to_u32_nat: "r < 2 ^ 32 \<Longrightarrow> double_to_u32 p (of_nat r) = word_of_nat r"
  by (simp add: double_to_u32_def rat_trunc_def)

lemma parse_nat_field:
  assumes "n < 2 ^ 63"
  shows "\<exists>f. parse_input_field (JInt (int n)) = Some f \<and> field_as_number p f = Some (word_of_nat n)"
proof -
  have "int n < 2 ^ 63" using assms by (metis of_nat_less_iff of_nat_numeral of_nat_power)
  then have "parse_input_field (JInt (int n))
      = Some (new_field\<lparr>raw_json := JInt (int n), kind := KInt64, int64_value := word_of_nat n\<rparr>)"
    by (simp add: parse_input_field_def Let_def)
  moreover have "ucast (word_of_nat n :: 64 word) = (word_of_nat n :: 32 word)"
    by (simp add: unsigned_of_nat word_unat_eq_iff unat_of_nat take_bit_eq_mod mod_mod_cancel)
  ultimately show ?thesis by (simp add: field_as_number_def)
qed

lemma u32_compare:
  assumes "r < 2 ^ 32"
  shows "(word_of_nat n :: 32 word) < word_of_nat r \<longleftrightarrow> n mod 2 ^ 32 < r"
    and "(word_of_nat r :: 32 word) < word_of_nat n \<longleftrightarrow> r < n mod 2 ^ 32"
    and "(word_of_nat n :: 32 word) = word_of_nat r \<longleftrightarrow> n mod 2 ^ 32 = r"
  using assms by (simp_all add: word_less_nat_alt unat_of_nat word_unat_eq_iff)

text \<open>
  C28: The numbers of a choice are compared modulo \<open>2^32\<close>. For a natural number sent as the input and
  a natural constant below \<open>2^32\<close>, every comparison of a rule compares the remainder of the input
  with the constant: correct below \<open>2^32\<close>, and a larger input wraps around.
\<close>

theorem choice_numbers_wrap:
  assumes "n < 2 ^ 63" and "r < 2 ^ 32"
  shows "\<exists>f. parse_input_field (JInt (int n)) = Some f
    \<and> cmp p f ''=='' (VDouble (of_nat r)) = Some (n mod 2 ^ 32 = r)
    \<and> cmp p f ''<'' (VDouble (of_nat r)) = Some (n mod 2 ^ 32 < r)
    \<and> cmp p f ''<='' (VDouble (of_nat r)) = Some (n mod 2 ^ 32 \<le> r)
    \<and> cmp p f ''>'' (VDouble (of_nat r)) = Some (r < n mod 2 ^ 32)
    \<and> cmp p f ''>='' (VDouble (of_nat r)) = Some (r \<le> n mod 2 ^ 32)"
proof -
  obtain f where f: "parse_input_field (JInt (int n)) = Some f" "field_as_number p f = Some (word_of_nat n)"
    using parse_nat_field [OF assms(1)] by blast
  have "value_as_number p (VDouble (of_nat r)) = Some (word_of_nat r)"
    using assms(2) by (simp add: value_as_number_def double_to_u32_nat)
  then show ?thesis
    using f u32_compare [OF assms(2), of n]
    by (intro exI [of _ f]) (auto simp: cmp_def compare_u32_def simp flip: not_less)
qed

theorem choice_numbers_wrap_witness:
  "\<exists>f. parse_input_field (JInt 4294967301) = Some f \<and> cmp common_platform f ''<'' (VDouble 7) = Some True"
  using choice_numbers_wrap [of 4294967301 7 common_platform] by auto

text \<open>
  C29: A stored balance is compared with its bytes reversed. The functions store numbers as four
  bytes in network order, a choice on the resource reads them in the order of the host: the
  comparison is with the reversed number, so that one is above a hundred and \<open>2^24\<close> is not.
\<close>

theorem choice_reverses_bytes:
  assumes "int_to_bytes n 4 = Inr bs" and "r < 2 ^ 32"
  shows "cmp_bytes p bs ''>'' (VDouble (of_nat r)) = Some (int r < int_from_bytes (rev bs))
    \<and> cmp_bytes p bs ''=='' (VDouble (of_nat r)) = Some (int r = int_from_bytes (rev bs))
    \<and> cmp_bytes p [0, 0, 0, 1] ''>'' (VDouble 100) = Some True
    \<and> cmp_bytes p [1, 0, 0, 0] ''>'' (VDouble 100) = Some False"
proof -
  have len: "length bs = 4" using assms(1) by (auto simp: int_to_bytes_def split: if_splits)
  let ?m = "nat (int_from_bytes (rev bs))"
  have m: "int ?m = int_from_bytes (rev bs)" "?m < 2 ^ 32"
    using int_from_bytes_bounds [of "rev bs"] len by (simp_all add: nat_less_iff)
  have num: "value_as_number p (VDouble (of_nat k)) = Some (word_of_nat k)" if "k < 2 ^ 32" for k
    using that by (simp add: value_as_number_def double_to_u32_nat)
  have wm: "(word_of_nat ?m :: 32 word) = word_of_int (int_from_bytes (rev bs))"
    by (subst of_int_of_nat_eq [symmetric]) (simp only: m(1))
  have "bytes_to_number p bs = Some (word_of_nat ?m)"
    using len wm by (auto simp: bytes_to_number_def)
  then have 1: "cmp_bytes p bs ''>'' (VDouble (of_nat r)) = Some (r < ?m)"
    "cmp_bytes p bs ''=='' (VDouble (of_nat r)) = Some (?m = r)"
    using num [OF assms(2)] u32_compare [OF assms(2), of ?m] m(2)
    by (simp_all add: cmp_bytes_def compare_u32_def)
  have "bytes_to_number p [0, 0, 0, 1] = Some (word_of_nat 16777216)"
    "bytes_to_number p [1, 0, 0, 0] = Some (word_of_nat 1)"
    by (simp_all add: bytes_to_number_def int_from_bytes_def)
  then have 2: "cmp_bytes p [0, 0, 0, 1] ''>'' (VDouble 100) = Some True"
    "cmp_bytes p [1, 0, 0, 0] ''>'' (VDouble 100) = Some False"
    using num [of 100] by (simp_all add: cmp_bytes_def compare_u32_def)
  show ?thesis using 1 2 m(1) by auto
qed

theorem choice_reverses_bytes_witness:
  "cmp_bytes common_platform [0, 0, 3, 232] ''=='' (VDouble (of_nat 1000)) = Some False"
proof -
  have "int_from_bytes [0, 0, 3, 232] = 1000" by (simp add: int_from_bytes_def)
  with int_to_from_bytes [of "[0, 0, 3, 232]"] have "int_to_bytes 1000 4 = Inr [0, 0, 3, 232]" by (simp add: eval_nat_numeral)
  from choice_reverses_bytes [OF this, of 1000] show ?thesis by (simp add: int_from_bytes_def)
qed

end
