(* ===== verification/Registry.thy ===== *)
theory Registry
  imports Graph
begin

section \<open>The registries of functions and workflows\<close>

text \<open>
  \<open>src/workflow/registry.cpp\<close> and \<open>registrar.cpp\<close>. A registry is a map from names to shared,
  immutable objects. A function is compiled by the WebAssembly runtime before it is entered; the
  runtime is not part of the repository, its compilation is the parameter \<open>compile\<close>, which either
  succeeds or throws, and \<open>what\<close> is the text of an exception. A workflow is entered with its
  functions bound: the graph keeps the function objects of that moment. The locks of the registries
  only serialise their operations.
\<close>

type_synonym function_registry = "string \<rightharpoonup> wasm_func_info"
type_synonym workflow_registry = "string \<rightharpoonup> node"

definition function_put :: "wasm_func_info option \<Rightarrow> function_registry \<Rightarrow> function_registry" where
  "function_put fn r = (case fn of None \<Rightarrow> r | Some f \<Rightarrow> r(func_name f \<mapsto> f))"

definition function_find :: "function_registry \<Rightarrow> string \<Rightarrow> wasm_func_info option" where
  "function_find r name = r name"

definition workflow_insert :: "string \<Rightarrow> node \<Rightarrow> workflow_registry \<Rightarrow> unit fallible \<times> workflow_registry" where
  "workflow_insert i nd r =
     (if r i \<noteq> None then (Inl (''workflow already registered: '' @ i), r) else (Inr (), r(i \<mapsto> nd)))"

definition workflow_find :: "workflow_registry \<Rightarrow> string \<Rightarrow> node option" where
  "workflow_find r i = r i"

text \<open>
  \<open>register_wasm_function\<close>: the conversion from JSON is outside the \<open>try\<close> and may throw (the outer
  \<open>Inl\<close>); a failing compilation makes the function return false with the message.
\<close>

definition register_wasm_function ::
    "(json \<Rightarrow> unit cpp) \<Rightarrow> (cpperr \<Rightarrow> string) \<Rightarrow> json \<Rightarrow> function_registry \<Rightarrow> unit fallible cpp \<times> function_registry" where
  "register_wasm_function compile what j r =
     (case wasm_func_info_from_json j of
        Inl e \<Rightarrow> (Inl e, r)
      | Inr info \<Rightarrow>
          (case compile (wasm_func_info_to_json info) of
             Inl e \<Rightarrow> (Inr (Inl (what e)), r)
           | Inr _ \<Rightarrow> (Inr (Inr ()), function_put (Some info) r)))"

definition opt_bind :: "('a \<Rightarrow> 'b fallible) \<Rightarrow> 'a option \<Rightarrow> 'b option fallible" where
  "opt_bind f x = (case x of None \<Rightarrow> Inr None | Some y \<Rightarrow> rbind (f y) (\<lambda>z. Inr (Some z)))"

lemma opt_bind_cong [fundef_cong]:
  "x = y \<Longrightarrow> (\<And>z. y = Some z \<Longrightarrow> f z = g z) \<Longrightarrow> opt_bind f x = opt_bind g y"
  by (cases y) (simp_all add: opt_bind_def)

fun bind_functions :: "function_registry \<Rightarrow> node \<Rightarrow> node fallible"
  and bind_edge :: "function_registry \<Rightarrow> edge \<Rightarrow> edge fallible" where
  "bind_functions r (Node w s ty f fn bs en next es) =
     rbind (if ty = NTask then
              (case function_find r f of None \<Rightarrow> Inl (''unknown function: '' @ f) | Some g \<Rightarrow> Inr (Some g))
            else Inr fn) (\<lambda>fn'.
     rbind (opt_bind (bind_functions r) next) (\<lambda>next'.
     rbind (rmap (bind_edge r) es) (\<lambda>es'. Inr (Node w s ty f fn' bs en next' es'))))"
| "bind_edge r (Edge v oper val next) =
     rbind (opt_bind (bind_functions r) next) (\<lambda>next'. Inr (Edge v oper val next'))"

definition register_workflow_graph ::
    "platform \<Rightarrow> function_registry \<Rightarrow> workflow \<Rightarrow> workflow_registry \<Rightarrow> unit fallible \<times> workflow_registry" where
  "register_workflow_graph p functions w r =
     (if workflow_id w = [] then (Inl ''workflow id is required'', r)
      else case build_from_workflow p w of
             Inl e \<Rightarrow> (Inl e, r)
           | Inr nd \<Rightarrow>
               (case bind_functions functions nd of
                  Inl e \<Rightarrow> (Inl e, r)
                | Inr nd' \<Rightarrow> workflow_insert (workflow_id w) nd' r))"

subsection \<open>The registries as interfaces\<close>

text \<open>
  What the scheduler and the registrars use of a registry: an accepted entry is found under its
  name, the entries of other names stay, and a refused entry changes nothing. A registry may
  accept a name only once.
\<close>

locale registry =
  fixes find :: "'r \<Rightarrow> string \<Rightarrow> 'v option"
    and enter :: "'e \<Rightarrow> 'r \<Rightarrow> 'r"
    and name_of :: "'e \<Rightarrow> string"
    and value_of :: "'e \<Rightarrow> 'v"
    and accepts :: "'e \<Rightarrow> 'r \<Rightarrow> bool"
  assumes find_entered: "accepts e r \<Longrightarrow> find (enter e r) (name_of e) = Some (value_of e)"
    and find_other: "k \<noteq> name_of e \<Longrightarrow> find (enter e r) k = find r k"
    and enter_refused: "\<not> accepts e r \<Longrightarrow> enter e r = r"
begin

lemma find_enter: "find (enter e r) k = (if k = name_of e \<and> accepts e r then Some (value_of e) else find r k)"
  by (cases "k = name_of e"; cases "accepts e r") (simp_all add: find_entered find_other enter_refused)

lemma find_fold_stays: "find r k \<noteq> None \<Longrightarrow> find (fold enter es r) k \<noteq> None"
  by (induction es arbitrary: r) (simp_all add: find_enter)

end

locale once_registry = registry +
  assumes accepts_iff: "accepts e r \<longleftrightarrow> find r (name_of e) = None"
begin

lemma find_enter_same: "find r k = Some v \<Longrightarrow> find (enter e r) k = Some v"
  by (auto simp: find_enter accepts_iff)

lemma find_fold_same: "find r k = Some v \<Longrightarrow> find (fold enter es r) k = Some v"
  by (induction es arbitrary: r) (simp_all add: find_enter_same)

end

interpretation fr: registry function_find "\<lambda>f. function_put (Some f)" func_name "\<lambda>f. f" "\<lambda>f r. True"
  by unfold_locales (simp_all add: function_find_def function_put_def)

interpretation wr: once_registry workflow_find "\<lambda>(i, nd) r. snd (workflow_insert i nd r)" fst snd "\<lambda>(i, nd) r. r i = None"
  by unfold_locales (auto simp: workflow_find_def workflow_insert_def)

subsection \<open>Lemmas\<close>

text \<open>Every task of the graph has the function that the registry holds under its name.\<close>

fun bound :: "function_registry \<Rightarrow> node \<Rightarrow> bool"
  and bound_edge :: "function_registry \<Rightarrow> edge \<Rightarrow> bool" where
  "bound r (Node w s ty f fn bs en next es) =
     ((ty = NTask \<longrightarrow> fn \<noteq> None \<and> fn = r f) \<and> pred_option (bound r) next \<and> list_all (bound_edge r) es)"
| "bound_edge r (Edge v oper val next) = pred_option (bound r) next"

fun functions_known :: "function_registry \<Rightarrow> node \<Rightarrow> bool"
  and edge_known :: "function_registry \<Rightarrow> edge \<Rightarrow> bool" where
  "functions_known r (Node w s ty f fn bs en next es) =
     ((ty = NTask \<longrightarrow> r f \<noteq> None) \<and> pred_option (functions_known r) next \<and> list_all (edge_known r) es)"
| "edge_known r (Edge v oper val next) = pred_option (functions_known r) next"

lemma opt_bind_succeeds_iff: "(\<exists>y. opt_bind f x = Inr y) \<longleftrightarrow> pred_option (\<lambda>z. \<exists>y. f z = Inr y) x"
  by (cases x) (auto simp: opt_bind_def rbind_Inr_iff)

lemma opt_bind_Inr_iff:
  "opt_bind f x = Inr y \<longleftrightarrow> (x = None \<and> y = None) \<or> (\<exists>a b. x = Some a \<and> f a = Inr b \<and> y = Some b)"
  by (cases x) (auto simp: opt_bind_def rbind_Inr_iff)

lemma rmap_list_all2: "rmap f xs = Inr ys \<longleftrightarrow> list_all2 (\<lambda>x y. f x = Inr y) xs ys"
  by (induction xs arbitrary: ys) (auto simp: rbind_Inr_iff list_all2_Cons1)

lemma pred_option_cong_set: "(\<And>z. z \<in> set_option x \<Longrightarrow> P z \<longleftrightarrow> Q z) \<Longrightarrow> pred_option P x \<longleftrightarrow> pred_option Q x"
  by (cases x) auto

lemma bind_succeeds_iff:
  "(\<exists>nd'. bind_functions r nd = Inr nd') \<longleftrightarrow> functions_known r nd"
  "(\<exists>e'. bind_edge r e = Inr e') \<longleftrightarrow> edge_known r e"
proof (induction nd and e)
  case (Node w s ty f fn bs en "next" es)
  have "pred_option (\<lambda>m. \<exists>m'. bind_functions r m = Inr m') next \<longleftrightarrow> pred_option (functions_known r) next"
    using Node(1) by (rule pred_option_cong_set)
  moreover have "list_all (\<lambda>e. \<exists>e'. bind_edge r e = Inr e') es \<longleftrightarrow> list_all (edge_known r) es"
    using Node(2) by (simp add: list_all_iff)
  moreover have "(\<exists>nd'. bind_functions r (Node w s ty f fn bs en next es) = Inr nd')
      \<longleftrightarrow> (ty = NTask \<longrightarrow> r f \<noteq> None) \<and> (\<exists>m. opt_bind (bind_functions r) next = Inr m)
        \<and> (\<exists>es'. rmap (bind_edge r) es = Inr es')"
    by (cases "r f") (auto simp: rbind_Inr_iff function_find_def)
  ultimately show ?case by (simp add: opt_bind_succeeds_iff rmap_succeeds_iff)
next
  case (Edge v oper val "next")
  have "pred_option (\<lambda>m. \<exists>m'. bind_functions r m = Inr m') next \<longleftrightarrow> pred_option (functions_known r) next"
    using Edge by (rule pred_option_cong_set)
  then show ?case using opt_bind_succeeds_iff [of "bind_functions r" "next"] by (auto simp: rbind_Inr_iff)
qed


lemma supported_same: "supported p (Edge v oper val a) \<longleftrightarrow> supported p (Edge v oper val b)"
  by (simp add: supported_def)

lemma bind_result:
  "bind_functions r nd = Inr nd' \<Longrightarrow> bound r nd' \<and> (graph_ok p nd \<longrightarrow> graph_ok p nd') \<and> ntype nd' = ntype nd"
  "bind_edge r e = Inr e' \<Longrightarrow> bound_edge r e' \<and> (edge_ok p e \<longrightarrow> edge_ok p e') \<and> evar e' = evar e \<and> operand e' = operand e"
proof (induction nd and e arbitrary: nd' and e')
  case (Node w s ty f fn bs en "next" es)
  then obtain fn' next' es' where nd': "nd' = Node w s ty f fn' bs en next' es'"
    and fn': "ty = NTask \<longrightarrow> fn' = r f \<and> r f \<noteq> None"
    and next': "opt_bind (bind_functions r) next = Inr next'" and es': "rmap (bind_edge r) es = Inr es'"
    by (auto simp: rbind_Inr_iff function_find_def split: if_splits option.splits)
  have n: "pred_option (bound r) next' \<and> (pred_option (graph_ok p) next \<longrightarrow> pred_option (graph_ok p) next')
      \<and> (next' = None \<longleftrightarrow> next = None)"
    using next' Node.IH(1) by (auto simp: opt_bind_Inr_iff)
  have all: "list_all2 (\<lambda>e e'. bound_edge r e' \<and> (edge_ok p e \<longrightarrow> edge_ok p e') \<and> evar e' = evar e \<and> operand e' = operand e) es es'"
    using es' [unfolded rmap_list_all2] by (rule list.rel_mono_strong) (use Node.IH(2) in blast)
  have "\<exists>e\<in>set es. evar e' = evar e \<and> operand e' = operand e" if "e' \<in> set es'" for e'
  proof -
    from that obtain i where "i < length es'" "e' = es' ! i" by (auto simp: in_set_conv_nth)
    with all have "i < length es" "evar e' = evar (es ! i)" "operand e' = operand (es ! i)"
      by (simp_all add: list_all2_conv_all_nth)
    then show ?thesis using nth_mem by blast
  qed
  then have "edges_bound bs es \<longrightarrow> edges_bound bs es'" by (fastforce simp: edges_bound_def)
  moreover have "list_all (bound_edge r) es'" "list_all (edge_ok p) es \<longrightarrow> list_all (edge_ok p) es'" "es = [] \<longleftrightarrow> es' = []"
    using all by (auto simp: list_all2_conv_all_nth list_all_length)
  moreover note n fn'
  ultimately show ?case
    by (cases ty; cases "next"; cases next') (simp_all add: nd')
next
  case (Edge v oper val "next")
  then obtain next' where "e' = Edge v oper val next'" "opt_bind (bind_functions r) next = Inr next'"
    by (auto simp: rbind_Inr_iff)
  then show ?case using Edge.IH supported_same by (fastforce simp: opt_bind_Inr_iff)
qed

text \<open>The names of the functions that the tasks of a workflow call.\<close>

fun state_functions :: "state \<Rightarrow> string set"
  and choice_functions :: "choice \<Rightarrow> string set" where
  "state_functions (State t f rs cs d) =
     (case get_node_type t of
        NTask \<Rightarrow> {f}
      | NChoice \<Rightarrow> (\<Union>c\<in>set cs. choice_functions c)
          \<union> (case d of None \<Rightarrow> {} | Some ts \<Rightarrow> (\<Union>st\<in>set ts. state_functions st))
      | NUnknown \<Rightarrow> {})"
| "choice_functions (Choice v eq gt gte lt lte seq beq ts) = (\<Union>st\<in>set ts. state_functions st)"

lemma build_functions_known:
  shows "sorts_edges p \<Longrightarrow> n = idx + length ts \<Longrightarrow> build_sequence p wid n idx ts = Inr nd
      \<Longrightarrow> pred_option (functions_known r) nd \<longleftrightarrow> (\<Union>st\<in>set ts. state_functions st) \<subseteq> dom r"
    and "sorts_edges p \<Longrightarrow> build_state p wid n idx st next = Inr nd'
      \<Longrightarrow> functions_known r nd' \<longleftrightarrow> pred_option (functions_known r) (if get_node_type (stype st) = NTask then next else None)
            \<and> state_functions st \<subseteq> dom r"
    and "sorts_edges p \<Longrightarrow> build_edges p wid sid cs = Inr es
      \<Longrightarrow> list_all (edge_known r) es \<longleftrightarrow> (\<Union>c\<in>set cs. choice_functions c) \<subseteq> dom r"
proof (induction p wid n idx ts and p wid n idx st "next" and p wid sid cs
    arbitrary: nd and nd' and es rule: build_sequence_build_state_build_edges.induct)
  case (2 p wid n idx st rest)
  then obtain next' nd' where nx: "build_sequence p wid n (Suc idx) rest = Inr next'"
    and st: "build_state p wid n idx st next' = Inr nd'" and nd: "nd = Some nd'"
    by (auto simp: rbind_Inr_iff)
  have "next' = None" if "get_node_type (stype st) \<noteq> NTask"
  proof -
    have "idx + 1 = n" using st that by (cases st) (auto simp: Let_def split: node_type.splits if_splits)
    then have "rest = []" using "2.prems"(2) by (cases rest) auto
    then show ?thesis using nx by simp
  qed
  moreover have "functions_known r nd' \<longleftrightarrow> pred_option (functions_known r) (if get_node_type (stype st) = NTask then next' else None)
      \<and> state_functions st \<subseteq> dom r"
    using "2.IH"(2) nx st "2.prems"(1) by blast
  moreover have "pred_option (functions_known r) next' \<longleftrightarrow> (\<Union>st\<in>set rest. state_functions st) \<subseteq> dom r"
    using "2.IH"(1) nx "2.prems" by simp
  ultimately show ?case by (auto simp: nd)
next
  case (3 p wid n idx t f rs cs d "next")
  show ?case
  proof (cases "get_node_type t")
    case NTask
    with 3 show ?thesis by (auto simp: rbind_Inr_iff Let_def)
  next
    case NChoice
    let ?def = "case d of None \<Rightarrow> Inr []
       | Some ts \<Rightarrow> rbind (build_sequence p wid (length ts) 0 ts) (\<lambda>child. Inr [Edge [] ''default'' VNull child])"
    from "3.prems"(2) NChoice obtain es def bs where idx: "Suc idx = n" "cs \<noteq> []"
      and es: "build_edges p wid (nat_str idx) cs = Inr es" and def: "?def = Inr def"
      and nd': "nd' = Node wid (nat_str idx) NChoice f None bs False None (edge_sort p (es @ def))"
      by (auto simp: rbind_Inr_iff Let_def split: if_splits)
    have "list_all (edge_known r) es \<longleftrightarrow> (\<Union>c\<in>set cs. choice_functions c) \<subseteq> dom r"
      using "3.IH"(1) NChoice idx es "3.prems"(1) by simp
    moreover have "list_all (edge_known r) def
        \<longleftrightarrow> (case d of None \<Rightarrow> {} | Some ts \<Rightarrow> (\<Union>st\<in>set ts. state_functions st)) \<subseteq> dom r"
    proof (cases d)
      case None
      then show ?thesis using def by simp
    next
      case (Some ts)
      then obtain child where "build_sequence p wid (length ts) 0 ts = Inr child" "def = [Edge [] ''default'' VNull child]"
        using def by (auto simp: rbind_Inr_iff)
      then show ?thesis using "3.IH"(2) NChoice idx es Some "3.prems"(1) by simp
    qed
    ultimately show ?thesis
      using edge_sort_set [OF "3.prems"(1), of "es @ def"] NChoice by (simp add: nd' list_all_iff) blast
  next
    case NUnknown
    with 3 show ?thesis by simp
  qed
next
  case (5 p wid sid v eq gt gte lt lte seq beq ts cs)
  then obtain oper val child es' where ov: "v \<noteq> []" "to_operand_value (Choice v eq gt gte lt lte seq beq ts) = Inr (oper, val)"
    and child: "build_sequence p wid (length ts) 0 ts = Inr child" and es': "build_edges p wid sid cs = Inr es'"
    and es: "es = Edge v oper val child # es'"
    by (auto simp: rbind_Inr_iff split: if_splits sum.splits)
  have "pred_option (functions_known r) child \<longleftrightarrow> (\<Union>st\<in>set ts. state_functions st) \<subseteq> dom r"
    using "5.IH"(1) ov child "5.prems"(1) by simp
  moreover have "list_all (edge_known r) es' \<longleftrightarrow> (\<Union>c\<in>set cs. choice_functions c) \<subseteq> dom r"
    using "5.IH"(2) ov child es' "5.prems"(1) by simp
  ultimately show ?case by (simp add: es)
qed auto


lemma build_nonempty_sequence:
  "build_from_workflow p w = Inr nd \<Longrightarrow>
     build_sequence p (workflow_id w) (length (workflow_tasks w)) 0 (workflow_tasks w) = Inr (Some nd) \<and> workflow_tasks w \<noteq> []"
  by (auto simp: build_from_workflow_def split: if_splits sum.splits option.splits)

lemma register_workflow_cases:
  "register_workflow_graph p fs w r = (Inl e, r) \<or> (\<exists>nd nd'. build_from_workflow p w = Inr nd \<and> bind_functions fs nd = Inr nd'
     \<and> register_workflow_graph p fs w r = (Inr (), r(workflow_id w \<mapsto> nd')) \<and> r (workflow_id w) = None)
     \<or> (\<exists>e'. register_workflow_graph p fs w r = (Inl e', r))"
  by (auto simp: register_workflow_graph_def workflow_insert_def split: sum.splits)

definition registry_ok :: "platform \<Rightarrow> workflow_registry \<Rightarrow> bool" where
  "registry_ok p r \<longleftrightarrow> (\<forall>i nd. workflow_find r i = Some nd \<longrightarrow> graph_ok p nd \<and> (\<exists>fs. bound fs nd))"

lemma register_workflow_ok:
  assumes "sorts_edges p" and "registry_ok p r"
  shows "registry_ok p (snd (register_workflow_graph p fs w r))"
  using register_workflow_cases [of p fs w r undefined]
proof (elim disjE exE conjE)
  fix nd nd'
  assume b: "build_from_workflow p w = Inr nd" "bind_functions fs nd = Inr nd'"
    and r: "register_workflow_graph p fs w r = (Inr (), r(workflow_id w \<mapsto> nd'))"
  have "graph_ok p nd" using build_graph_ok(1) [OF assms(1)] build_nonempty_sequence [OF b(1)] by blast
  then have "graph_ok p nd' \<and> bound fs nd'" using bind_result(1) [OF b(2)] by blast
  then show ?thesis using assms(2) by (auto simp: r registry_ok_def workflow_find_def)
qed (use assms(2) in simp_all)

lemma register_workflow_keeps:
  "workflow_find r i = Some nd \<Longrightarrow> workflow_find (snd (register_workflow_graph p fs w r)) i = Some nd"
  using wr.find_enter_same [of r i nd "(workflow_id w, _)"] register_workflow_cases [of p fs w r undefined]
  by (auto simp: workflow_insert_def)

subsection \<open>Properties\<close>

text \<open>
  C19: When a workflow is registered. The worker accepts it exactly when it has an identifier that
  is not taken, its tasks are well formed, and every function that a task of any branch calls is
  registered; a refused workflow leaves the registry as it was.
\<close>

theorem registration_accepts:
  assumes "sorts_edges p"
  shows "(fst (register_workflow_graph p fs w r) = Inr () \<longleftrightarrow>
      workflow_id w \<noteq> [] \<and> workflow_tasks w \<noteq> [] \<and> valid_sequence (workflow_tasks w)
      \<and> (\<Union>st\<in>set (workflow_tasks w). state_functions st) \<subseteq> dom fs \<and> workflow_find r (workflow_id w) = None)
    \<and> (fst (register_workflow_graph p fs w r) \<noteq> Inr () \<longrightarrow> snd (register_workflow_graph p fs w r) = r)"
proof -
  have known: "functions_known fs nd \<longleftrightarrow> (\<Union>st\<in>set (workflow_tasks w). state_functions st) \<subseteq> dom fs"
    if "build_from_workflow p w = Inr nd" for nd
    using build_functions_known(1) [OF assms _ build_nonempty_sequence [OF that, THEN conjunct1], of fs] by simp
  have "fst (register_workflow_graph p fs w r) = Inr () \<longleftrightarrow>
      workflow_id w \<noteq> [] \<and> (\<exists>nd. build_from_workflow p w = Inr nd \<and> (\<exists>nd'. bind_functions fs nd = Inr nd'))
      \<and> r (workflow_id w) = None"
    by (auto simp: register_workflow_graph_def workflow_insert_def split: sum.splits)
  moreover have "(\<exists>nd. build_from_workflow p w = Inr nd) \<longleftrightarrow> workflow_tasks w \<noteq> [] \<and> valid_sequence (workflow_tasks w)"
    using build_iff(1) [OF assms, of "length (workflow_tasks w)" 0 "workflow_tasks w" "workflow_id w"]
      build_sequence_None [of p "workflow_id w" "length (workflow_tasks w)" 0 "workflow_tasks w"]
    by (auto simp: build_from_workflow_def split: sum.splits option.splits)
  moreover have "fst (register_workflow_graph p fs w r) \<noteq> Inr () \<Longrightarrow> snd (register_workflow_graph p fs w r) = r"
    using register_workflow_cases [of p fs w r undefined] by auto
  ultimately show ?thesis using known bind_succeeds_iff(1) by (auto simp: workflow_find_def)
qed

definition one_function :: wasm_func_info where
  "one_function = \<lparr>func_name = ''f'', func_invocation_id = ''no id'', resources = [], read_only = [],
     func_binary_hash = ''h'', fast_execution = True, binary_source = \<lparr>source_type = [], source_path = []\<rparr>,
     input_event = \<lparr>input_type = [], input_data = JStr []\<rparr>, output_event = \<lparr>output_type = []\<rparr>,
     link_opt = default_link_opt, execution_policy = default_policy, initial_values = \<lparr>init_clock = 0, random_seed = 42\<rparr>\<rparr>"

theorem registration_accepts_witness:
  "fst (register_workflow_graph common_platform [''f'' \<mapsto> one_function]
      \<lparr>workflow_id = ''w'', workflow_tasks = [State ''Task'' ''f'' [] [] None]\<rparr> Map.empty) = Inr ()
   \<and> fst (register_workflow_graph common_platform [''f'' \<mapsto> one_function]
      \<lparr>workflow_id = ''w'', workflow_tasks = [State ''Task'' ''g'' [] [] None]\<rparr> Map.empty) \<noteq> Inr ()"
  using registration_accepts [OF common_platform_sorts, of "[''f'' \<mapsto> one_function]" _ Map.empty]
  by (simp add: workflow_find_def)

text \<open>
  C8: The registry of workflows. Whatever is registered, in any order and with any functions, each
  graph that the scheduler can find is well formed and has all its functions, and a workflow that
  is registered keeps its graph for ever, also when its functions are registered anew.
\<close>

theorem registry_invariant:
  assumes "sorts_edges p" and "workflow_find (fold (\<lambda>(fs, w) r. snd (register_workflow_graph p fs w r)) before Map.empty) i = Some nd"
  shows "graph_ok p nd \<and> (\<exists>fs. bound fs nd)
    \<and> workflow_find (fold (\<lambda>(fs, w) r. snd (register_workflow_graph p fs w r)) (before @ after) Map.empty) i = Some nd"
proof -
  have ok: "registry_ok p (fold (\<lambda>(fs, w) r. snd (register_workflow_graph p fs w r)) ws r)" if "registry_ok p r" for ws r
    using that by (induction ws arbitrary: r) (auto simp: register_workflow_ok [OF assms(1)])
  have keeps: "workflow_find (fold (\<lambda>(fs, w) r. snd (register_workflow_graph p fs w r)) ws r) i = Some nd"
    if "workflow_find r i = Some nd" for ws r
    using that by (induction ws arbitrary: r) (auto simp: register_workflow_keeps)
  have "registry_ok p Map.empty" by (simp add: registry_ok_def workflow_find_def)
  from ok [OF this, of before] assms(2) have "graph_ok p nd \<and> (\<exists>fs. bound fs nd)" by (auto simp: registry_ok_def)
  then show ?thesis using keeps [OF assms(2), of after] by simp
qed

theorem registry_invariant_witness:
  "\<exists>nd. workflow_find (fold (\<lambda>(fs, w) r. snd (register_workflow_graph common_platform fs w r))
      ([([''f'' \<mapsto> one_function], \<lparr>workflow_id = ''w'', workflow_tasks = [State ''Task'' ''f'' [] [] None]\<rparr>)]
       @ [(Map.empty, \<lparr>workflow_id = ''w'', workflow_tasks = []\<rparr>)]) Map.empty) ''w'' = Some nd \<and> graph_ok common_platform nd"
proof -
  have "workflow_find (fold (\<lambda>(fs, w) r. snd (register_workflow_graph common_platform fs w r))
      [([''f'' \<mapsto> one_function], \<lparr>workflow_id = ''w'', workflow_tasks = [State ''Task'' ''f'' [] [] None]\<rparr>)] Map.empty) ''w''
    = Some (Node ''w'' (nat_str 0) NTask ''f'' (Some one_function) [] True None [])"
    by (simp add: register_workflow_graph_def build_from_workflow_def Let_def get_task_binding_def function_find_def
        workflow_insert_def workflow_find_def opt_bind_def)
  from registry_invariant [OF common_platform_sorts this] show ?thesis by blast
qed

end
