(* ===== verification/Behaviours.thy ===== *)
theory Behaviours
  imports Registry Storage
begin

section \<open>Behaviours: what the worker runs\<close>

text \<open>
  The scheduler (\<open>src/workflow/scheduler.cpp\<close>) hands closures to the runtime with
  \<open>when(cowns) << closure\<close>. This theory holds those closures as data, what each of them does when it
  runs (with \<open>src/execution/runner.cpp\<close> and \<open>src/execution/wasm/wasm_runner.hpp\<close>), and the
  documented contract of the runtime, which is not part of the repository: a closure runs once,
  while it holds all its cowns, those taken with \<open>read\<close> shared; closures that take a common cown,
  at least one of them for writing, run in the order in which they were scheduled; others may run
  at the same time.

  A cown is a number. A resource lives in a cown, a \<open>ChoiceControl\<close> (the index of the selected edge,
  -1 for none) as well. The flag \<open>failed\<close> of an invocation is an atomic that its closures share
  without owning it. The WebAssembly runtime that executes a function is the parameter \<open>exec\<close>: from
  the function with its input and the storage it returns whether it ended normally, and the storage.
\<close>

type_synonym cown = nat

datatype event_entry =
    Deleted string "64 word"      \<comment> \<open>pushed to \<open>deleted_resources_queue\<close>\<close>
  | Completed "64 word" bool  \<comment> \<open>the status of an invocation, with its failed flag\<close>
  | Replied string bytes    \<comment> \<open>the answer to \<open>get_resource\<close>\<close>

record store =
  cells :: "cown \<Rightarrow> resource"
  controls :: "cown \<Rightarrow> int"
  flags :: "64 word \<Rightarrow> bool"
  log :: "event_entry list"

type_synonym branch_guard = "(cown \<times> int) option"

record task_run =
  t_inv :: "64 word"
  t_can_abort :: bool
  t_guard :: branch_guard
  t_ic :: cown
  t_info :: wasm_func_info
  t_rw :: "cown list"
  t_ro :: "cown list"
  t_globals :: "string set"
  t_refs :: "string \<rightharpoonup> 64 word"

record choice_run =
  c_inv :: "64 word"
  c_can_abort :: bool
  c_guard :: branch_guard
  c_ic :: cown
  c_control :: cown
  c_edges :: "edge list"
  c_inputs :: resource_inputs
  c_values :: value_inputs
  c_names :: "string list"
  c_cowns :: "cown list"

record commit_run =
  m_inv :: "64 word"
  m_ic :: cown
  m_entries :: "(string \<times> cown \<times> 64 word) list"  \<comment> \<open>name, cown and reference count\<close>

datatype behaviour =
    RunTask task_run
  | EvalChoice choice_run
  | SchedulingFailed "64 word" cown  \<comment> \<open>\<open>failed->store(true)\<close> by the dispatcher, see below\<close>
  | Commit commit_run
  | Complete "64 word" cown
  | Fetch string cown

type_synonym executor = "wasm_func_info \<Rightarrow> storage \<Rightarrow> bool \<times> storage"

subsection \<open>Running a task\<close>

text \<open>\<open>Runner::Runner\<close>: the cowns are handed out in the order of the resources.\<close>

fun runner_binds :: "string list \<Rightarrow> string list \<Rightarrow> cown list \<Rightarrow> cown list \<Rightarrow> (string \<times> cown) list" where
  "runner_binds R [] rw ro = []"
| "runner_binds R (n # ns) rw ro =
     (if n \<in> set R then (n, hd ro) # runner_binds R ns rw (tl ro)
      else (n, hd rw) # runner_binds R ns (tl rw) ro)"

definition task_binds :: "task_run \<Rightarrow> (string \<times> cown) list" where
  "task_binds t = runner_binds (read_only (t_info t)) (resources (t_info t)) (t_rw t) (t_ro t)"

definition task_storage :: "task_run \<Rightarrow> store \<Rightarrow> storage" where
  "task_storage t s =
     \<lparr>local_resources = map_of (map (\<lambda>(n, c). (n, cells s c)) (task_binds t)),
      read_only_resources = set (read_only (t_info t))\<rparr>"

text \<open>The loop of the non-aborting mode: each function finalizes its own write set.\<close>

definition put_local :: "string \<Rightarrow> resource \<Rightarrow> storage \<Rightarrow> storage" where
  "put_local n r st = st\<lparr>local_resources := (local_resources st)(n \<mapsto> r)\<rparr>"

fun finalize :: "bool \<Rightarrow> task_run \<Rightarrow> string list \<Rightarrow> storage \<times> event_entry list \<Rightarrow> storage \<times> event_entry list" where
  "finalize ok t [] st = st"
| "finalize ok t (n # ns) (st, evs) =
     (if n \<in> set (read_only (t_info t)) then finalize ok t ns (st, evs)
      else case get_resource st n of
             None \<Rightarrow> finalize ok t ns (st, evs)
           | Some r \<Rightarrow>
               if ok then
                 (let r' = commit_uncommitted r in
                  finalize ok t ns (put_local n r' st,
                    if n \<in> t_globals t \<and> is_deleted r' then evs @ [Deleted n (the (t_refs t n))] else evs))
               else finalize ok t ns (put_local n (abort_uncommitted r) st, evs))"

text \<open>What a task leaves: whether the function ended normally, its storage, and the deletions.\<close>

definition task_outcome :: "executor \<Rightarrow> task_run \<Rightarrow> store \<Rightarrow> bool \<times> storage \<times> event_entry list" where
  "task_outcome exec t s =
     (let (ok, st) = exec (t_info t) (task_storage t s);
          (st', evs) = (if t_can_abort t then (st, []) else finalize ok t (resources (t_info t)) (st, []))
      in (ok, st', evs))"

text \<open>The function works on the resources in place; those it may not write it leaves as they are.\<close>

definition write_back :: "task_run \<Rightarrow> storage \<Rightarrow> store \<Rightarrow> store" where
  "write_back t st s =
     s\<lparr>cells := (\<lambda>c. if c \<in> set (t_rw t) then
        (case find (\<lambda>(n, d). d = c) (task_binds t) of
           None \<Rightarrow> cells s c
         | Some (n, _) \<Rightarrow> (case local_resources st n of None \<Rightarrow> cells s c | Some r \<Rightarrow> r))
      else cells s c)\<rparr>"

definition set_flag :: "64 word \<Rightarrow> store \<Rightarrow> store" where
  "set_flag k s = s\<lparr>flags := (flags s)(k := True)\<rparr>"

definition guard_open :: "branch_guard \<Rightarrow> store \<Rightarrow> bool" where
  "guard_open g s = (case g of None \<Rightarrow> True | Some (c, i) \<Rightarrow> controls s c = i)"

definition run_task :: "executor \<Rightarrow> task_run \<Rightarrow> store \<Rightarrow> store" where
  "run_task exec t s =
     (if \<not> guard_open (t_guard t) s then s
      else
        (let (ok, st, evs) = task_outcome exec t s;
             s' = (write_back t st s)\<lparr>log := log s @ evs\<rparr>
         in if t_can_abort t \<and> \<not> ok then set_flag (t_inv t) s' else s'))"

subsection \<open>Evaluating a choice\<close>

text \<open>
  \<open>eval_choice\<close> visits the edges in order and returns the selected index and whether it set the
  failed flag. A rule whose resource is not there sets the flag and is passed over.
\<close>

fun eval_edges :: "platform \<Rightarrow> value_inputs \<Rightarrow> resource_inputs \<Rightarrow> (string \<rightharpoonup> resource)
    \<Rightarrow> int \<Rightarrow> edge list \<Rightarrow> int \<Rightarrow> bool \<Rightarrow> int \<times> bool" where
  "eval_edges p vals inps res i [] default_index failed = (default_index, failed)"
| "eval_edges p vals inps res i (e # es) default_index failed =
     (if operand e = ''default'' then eval_edges p vals inps res (i + 1) es i failed
      else
        case map_of vals (evar e) of
          Some val \<Rightarrow>
            (case cmp p val (operand e) (evalue e) of
               None \<Rightarrow> (-1, True)
             | Some match \<Rightarrow> if match then (i, failed) else eval_edges p vals inps res (i + 1) es default_index failed)
        | None \<Rightarrow>
            (case map_of inps (evar e) of
               Some (RString runtime_name) \<Rightarrow>
                 (case res runtime_name of
                    None \<Rightarrow> eval_edges p vals inps res (i + 1) es default_index True
                  | Some r \<Rightarrow>
                      (case cmp_bytes p (get_data r) (operand e) (evalue e) of
                         None \<Rightarrow> (-1, True)
                       | Some match \<Rightarrow> if match then (i, failed)
                                       else eval_edges p vals inps res (i + 1) es default_index failed))
             | _ \<Rightarrow> eval_edges p vals inps res (i + 1) es default_index True))"

definition eval_choice :: "platform \<Rightarrow> choice_run \<Rightarrow> store \<Rightarrow> int \<times> bool" where
  "eval_choice p c s =
     eval_edges p (c_values c) (c_inputs c) (map_of (zip (c_names c) (map (cells s) (c_cowns c)))) 0 (c_edges c) (-1) False"

definition select :: "cown \<Rightarrow> int \<Rightarrow> store \<Rightarrow> store" where
  "select c i s = s\<lparr>controls := (controls s)(c := i)\<rparr>"

definition run_choice :: "platform \<Rightarrow> choice_run \<Rightarrow> store \<Rightarrow> store" where
  "run_choice p c s =
     (if \<not> guard_open (c_guard c) s then select (c_control c) (-1) s
      else
        (let (i, failed) = eval_choice p c s;
             s' = select (c_control c) i s
         in if failed then set_flag (c_inv c) s' else s'))"

subsection \<open>Finishing an invocation\<close>

definition finish_resource :: "bool \<Rightarrow> resource \<Rightarrow> resource" where
  "finish_resource is_failed r = (if is_failed then abort_uncommitted r else commit_uncommitted r)"

definition commit_events :: "commit_run \<Rightarrow> store \<Rightarrow> event_entry list" where
  "commit_events m s =
     (if flags s (m_inv m) then []
      else concat (map (\<lambda>(n, c, ref). if is_deleted (commit_uncommitted (cells s c)) then [Deleted n ref] else []) (m_entries m)))
     @ [Completed (m_inv m) (flags s (m_inv m))]"

definition run_commit :: "commit_run \<Rightarrow> store \<Rightarrow> store" where
  "run_commit m s =
     s\<lparr>cells := (\<lambda>c. if c \<in> (fst \<circ> snd) ` set (m_entries m) then finish_resource (flags s (m_inv m)) (cells s c) else cells s c),
       log := log s @ commit_events m s\<rparr>"

subsection \<open>One behaviour\<close>

fun perform_behaviour :: "platform \<Rightarrow> executor \<Rightarrow> behaviour \<Rightarrow> store \<Rightarrow> store" where
  "perform_behaviour p exec (RunTask t) s = run_task exec t s"
| "perform_behaviour p exec (EvalChoice c) s = run_choice p c s"
| "perform_behaviour p exec (SchedulingFailed k ic) s = set_flag k s"
| "perform_behaviour p exec (Commit m) s = run_commit m s"
| "perform_behaviour p exec (Complete k ic) s = s\<lparr>log := log s @ [Completed k (flags s k)]\<rparr>"
| "perform_behaviour p exec (Fetch reply c) s = s\<lparr>log := log s @ [Replied reply (get_data (cells s c))]\<rparr>"

text \<open>A task or choice of an aborting invocation that finds the flag set does no work.\<close>

fun may_skip :: "behaviour \<Rightarrow> store \<Rightarrow> bool" where
  "may_skip (RunTask t) s = (t_can_abort t \<and> flags s (t_inv t))"
| "may_skip (EvalChoice c) s = (c_can_abort c \<and> flags s (c_inv c))"
| "may_skip _ s = False"

fun skip :: "behaviour \<Rightarrow> store \<Rightarrow> store" where
  "skip (EvalChoice c) s = select (c_control c) (-1) s"
| "skip _ s = s"

definition run :: "platform \<Rightarrow> executor \<Rightarrow> behaviour \<Rightarrow> store \<Rightarrow> store" where
  "run p exec b s = (if may_skip b s then skip b s else perform_behaviour p exec b s)"

definition guard_cowns :: "branch_guard \<Rightarrow> cown set" where
  "guard_cowns g = (case g of None \<Rightarrow> {} | Some (c, _) \<Rightarrow> {c})"

fun writes :: "behaviour \<Rightarrow> cown set" where
  "writes (RunTask t) = set (t_rw t)"
| "writes (EvalChoice c) = {c_control c}"
| "writes (SchedulingFailed k ic) = {}"
| "writes (Commit m) = insert (m_ic m) ((fst \<circ> snd) ` set (m_entries m))"
| "writes (Complete k ic) = {ic}"
| "writes (Fetch reply c) = {}"

fun reads :: "behaviour \<Rightarrow> cown set" where
  "reads (RunTask t) = set (t_ro t) \<union> guard_cowns (t_guard t) \<union> {t_ic t}"
| "reads (EvalChoice c) = set (c_cowns c) \<union> guard_cowns (c_guard c) \<union> {c_ic c}"
| "reads (SchedulingFailed k ic) = {ic}"
| "reads (Commit m) = {}"
| "reads (Complete k ic) = {}"
| "reads (Fetch reply c) = {c}"

definition conflict :: "behaviour \<Rightarrow> behaviour \<Rightarrow> bool" where
  "conflict a b \<longleftrightarrow> writes a \<inter> (writes b \<union> reads b) \<noteq> {} \<or> reads a \<inter> writes b \<noteq> {}"

text \<open>
  The runtime. A configuration holds the behaviours that are not finished, in the order in which
  they were scheduled, and the store. One that conflicts with no earlier unfinished one may finish.
  The flag is read when the behaviour starts, and another behaviour of the invocation may set it
  before it ends: if it is set at the end, the behaviour may have been skipped or may have run.
  The dispatcher sets the flag itself when it cannot schedule the rest of a workflow; it does so
  before it schedules the final behaviour, which therefore waits for \<open>SchedulingFailed\<close>, at some
  moment with respect to the tasks that it has already scheduled.
\<close>

inductive finishes :: "platform \<Rightarrow> executor \<Rightarrow> behaviour list \<times> store \<Rightarrow> behaviour list \<times> store \<Rightarrow> bool"
  for p exec where
  performed: "\<forall>x\<in>set xs. \<not> conflict x b \<Longrightarrow>
     finishes p exec (xs @ b # ys, s) (xs @ ys, perform_behaviour p exec b s)"
| skipped: "\<forall>x\<in>set xs. \<not> conflict x b \<Longrightarrow> may_skip b s \<Longrightarrow>
     finishes p exec (xs @ b # ys, s) (xs @ ys, skip b s)"

definition executions :: "platform \<Rightarrow> executor \<Rightarrow> behaviour list \<times> store \<Rightarrow> behaviour list \<times> store \<Rightarrow> bool" where
  "executions p exec = (finishes p exec)\<^sup>*\<^sup>*"

text \<open>The behaviours one after the other, as they were scheduled.\<close>

definition serially :: "platform \<Rightarrow> executor \<Rightarrow> behaviour list \<Rightarrow> store \<Rightarrow> store" where
  "serially p exec bs s = fold (run p exec) bs s"

end
