(* ===== verification/Serial.thy ===== *)
theory Serial
  imports Behaviours "HOL-Library.Multiset"
begin

section \<open>Executions are serializable\<close>

text \<open>
  Whatever order the runtime chooses, an execution of scheduled behaviours ends with the resources,
  the failure flags and (up to their order) the completions of the execution that runs them one
  after the other. The flag of an aborting invocation makes this more than the commutation of
  behaviours without a common cown: a failing task may overtake another one of its invocation,
  which is skipped in the one execution and not in the other; the final behaviour aborts the
  writes of both.
\<close>

subsection \<open>Footprints\<close>

fun inv_of :: "behaviour \<Rightarrow> 64 word option" where
  "inv_of (RunTask t) = Some (t_inv t)"
| "inv_of (EvalChoice c) = Some (c_inv c)"
| "inv_of (SchedulingFailed k ic) = Some k"
| "inv_of (Commit m) = Some (m_inv m)"
| "inv_of (Complete k ic) = Some k"
| "inv_of (Fetch reply c) = None"

fun final :: "behaviour \<Rightarrow> bool" where
  "final (Commit m) = True"
| "final (Complete k ic) = True"
| "final _ = False"

fun fails :: "platform \<Rightarrow> executor \<Rightarrow> behaviour \<Rightarrow> store \<Rightarrow> bool" where
  "fails p exec (RunTask t) s = (guard_open (t_guard t) s \<and> t_can_abort t \<and> \<not> fst (task_outcome exec t s))"
| "fails p exec (EvalChoice c) s = (guard_open (c_guard c) s \<and> snd (eval_choice p c s))"
| "fails p exec (SchedulingFailed k ic) s = True"
| "fails p exec _ s = False"

fun events :: "executor \<Rightarrow> behaviour \<Rightarrow> store \<Rightarrow> event_entry list" where
  "events exec (RunTask t) s = (if guard_open (t_guard t) s then snd (snd (task_outcome exec t s)) else [])"
| "events exec (Commit m) s = commit_events m s"
| "events exec (Complete k ic) s = [Completed k (flags s k)]"
| "events exec (Fetch reply c) s = [Replied reply (get_data (cells s c))]"
| "events exec _ s = []"

definition agree :: "behaviour \<Rightarrow> store \<Rightarrow> store \<Rightarrow> bool" where
  "agree b s s' \<longleftrightarrow> (\<forall>c\<in>writes b \<union> reads b. cells s c = cells s' c \<and> controls s c = controls s' c)
     \<and> (final b \<longrightarrow> (\<forall>k. inv_of b = Some k \<longrightarrow> flags s k = flags s' k))"

definition task_ok :: "task_run \<Rightarrow> bool" where
  "task_ok t \<longleftrightarrow> snd ` set (task_binds t) \<subseteq> set (t_rw t) \<union> set (t_ro t)
     \<and> (\<forall>n c c'. (n, c) \<in> set (task_binds t) \<longrightarrow> (n, c') \<in> set (task_binds t) \<longrightarrow> c = c')"

fun behaviour_ok :: "behaviour \<Rightarrow> bool" where
  "behaviour_ok (RunTask t) = task_ok t"
| "behaviour_ok _ = True"

lemma simple_updates [simp]:
  "cells (set_flag k s) = cells s" "controls (set_flag k s) = controls s" "log (set_flag k s) = log s"
  "flags (set_flag k s) = (flags s)(k := True)"
  "cells (select c i s) = cells s" "flags (select c i s) = flags s" "log (select c i s) = log s"
  "controls (select c i s) = (controls s)(c := i)"
  "controls (write_back t st s) = controls s" "flags (write_back t st s) = flags s" "log (write_back t st s) = log s"
  by (simp_all add: set_flag_def select_def write_back_def)

lemma perform_frame:
  assumes "c \<notin> writes b"
  shows "cells (perform_behaviour p exec b s) c = cells s c" and "controls (perform_behaviour p exec b s) c = controls s c"
  using assms
  by (cases b; auto simp: run_task_def run_choice_def run_commit_def Let_def write_back_def split: prod.splits)+

lemma perform_flags: "flags (perform_behaviour p exec b s) k = (flags s k \<or> (inv_of b = Some k \<and> fails p exec b s))"
  by (cases b) (auto simp: run_task_def run_choice_def run_commit_def Let_def split: prod.splits)

lemma perform_log: "log (perform_behaviour p exec b s) = log s @ events exec b s"
  by (cases b) (auto simp: run_task_def run_choice_def run_commit_def Let_def split: prod.splits)

lemma find_Some_mem: "find P xs = Some x \<Longrightarrow> x \<in> set xs \<and> P x"
  by (auto simp: find_Some_iff)

lemma task_storage_cong:
  assumes "task_ok t" and "agree (RunTask t) s s'"
  shows "task_storage t s = task_storage t s'"
proof -
  have "cells s c = cells s' c" if "(n, c) \<in> set (task_binds t)" for n c
  proof -
    have "c \<in> set (t_rw t) \<union> set (t_ro t)" 
      using imageI [OF that, of snd] assms(1) unfolding task_ok_def by auto
    then show ?thesis using assms(2) by (auto simp: agree_def)
  qed
  then have "map (\<lambda>(n, c). (n, cells s c)) (task_binds t) = map (\<lambda>(n, c). (n, cells s' c)) (task_binds t)" by auto
  then show ?thesis unfolding task_storage_def by (simp only:)
qed

lemma guard_open_cong: "(\<forall>c\<in>guard_cowns g. controls s c = controls s' c) \<Longrightarrow> guard_open g s = guard_open g s'"
  by (auto simp: guard_open_def guard_cowns_def split: option.splits)

lemma eval_choice_cong: "(\<forall>d\<in>set (c_cowns c). cells s d = cells s' d) \<Longrightarrow> eval_choice p c s = eval_choice p c s'"
  by (simp add: eval_choice_def cong: map_cong)

lemma perform_local:
  assumes "behaviour_ok b" and "agree b s s'"
  shows "fails p exec b s = fails p exec b s'" and "events exec b s = events exec b s'"
    and "c \<in> writes b \<Longrightarrow> cells (perform_behaviour p exec b s) c = cells (perform_behaviour p exec b s') c"
    and "c \<in> writes b \<Longrightarrow> controls (perform_behaviour p exec b s) c = controls (perform_behaviour p exec b s') c"
proof -
  have "fails p exec b s = fails p exec b s' \<and> events exec b s = events exec b s'
      \<and> (c \<in> writes b \<longrightarrow> cells (perform_behaviour p exec b s) c = cells (perform_behaviour p exec b s') c
            \<and> controls (perform_behaviour p exec b s) c = controls (perform_behaviour p exec b s') c)"
  proof (cases b)
    case (RunTask t)
    have "task_storage t s = task_storage t s'" using assms by (intro task_storage_cong) (simp_all add: RunTask)
    then have out: "task_outcome exec t s = task_outcome exec t s'" by (simp add: task_outcome_def)
    have "guard_open (t_guard t) s = guard_open (t_guard t) s'"
      using assms(2) by (intro guard_open_cong) (simp add: agree_def RunTask)
    then show ?thesis
      using assms(2) by (auto simp: RunTask out run_task_def write_back_def agree_def Let_def split: prod.splits option.splits)
  next
    case (EvalChoice e)
    have "eval_choice p e s = eval_choice p e s'" using assms(2) by (intro eval_choice_cong) (simp add: agree_def EvalChoice)
    moreover have "guard_open (c_guard e) s = guard_open (c_guard e) s'"
      using assms(2) by (intro guard_open_cong) (simp add: agree_def EvalChoice)
    ultimately show ?thesis
      using assms(2) by (auto simp: EvalChoice run_choice_def agree_def Let_def split: prod.splits)
  next
    case (Commit m)
    have "commit_events m s = commit_events m s'"
    proof -
      have "map (\<lambda>(n, c, ref). if is_deleted (commit_uncommitted (cells s c)) then [Deleted n ref] else []) (m_entries m)
          = map (\<lambda>(n, c, ref). if is_deleted (commit_uncommitted (cells s' c)) then [Deleted n ref] else []) (m_entries m)"
        using assms(2) by (force simp: agree_def Commit image_iff)
      moreover have "flags s (m_inv m) = flags s' (m_inv m)" using assms(2) by (simp add: agree_def Commit)
      ultimately show ?thesis unfolding commit_events_def by (simp only:)
    qed
    then show ?thesis using assms(2) by (auto simp: Commit run_commit_def agree_def)
  qed (use assms(2) in \<open>auto simp: agree_def\<close>)
  then show "fails p exec b s = fails p exec b s'" "events exec b s = events exec b s'"
    "c \<in> writes b \<Longrightarrow> cells (perform_behaviour p exec b s) c = cells (perform_behaviour p exec b s') c"
    "c \<in> writes b \<Longrightarrow> controls (perform_behaviour p exec b s) c = controls (perform_behaviour p exec b s') c" by blast+
qed


text \<open>A behaviour that finishes either is skipped or is performed.\<close>

definition act :: "platform \<Rightarrow> executor \<Rightarrow> bool \<Rightarrow> behaviour \<Rightarrow> store \<Rightarrow> store" where
  "act p exec sk b s = (if sk then skip b s else perform_behaviour p exec b s)"

lemma run_act: "run p exec b s = act p exec (may_skip b s) b s"
  by (simp add: run_def act_def)

lemma skip_frame:
  "c \<notin> writes b \<Longrightarrow> controls (skip b s) c = controls s c" "cells (skip b s) = cells s"
  "flags (skip b s) = flags s" "log (skip b s) = log s"
  by (cases b; simp)+

lemma act_frame:
  "c \<notin> writes b \<Longrightarrow> cells (act p exec sk b s) c = cells s c"
  "c \<notin> writes b \<Longrightarrow> controls (act p exec sk b s) c = controls s c"
  by (simp_all add: act_def perform_frame skip_frame)

lemma act_flags: "flags (act p exec sk b s) k = (flags s k \<or> (inv_of b = Some k \<and> \<not> sk \<and> fails p exec b s))"
  by (simp add: act_def perform_flags skip_frame)

lemma act_log: "log (act p exec sk b s) = log s @ (if sk then [] else events exec b s)"
  by (simp add: act_def perform_log skip_frame)

lemma skip_local:
  "agree b s s' \<Longrightarrow> c \<in> writes b \<Longrightarrow> cells (skip b s) c = cells (skip b s') c"
  "agree b s s' \<Longrightarrow> c \<in> writes b \<Longrightarrow> controls (skip b s) c = controls (skip b s') c"
  by (cases b; auto simp: agree_def)+

lemma act_local:
  assumes "behaviour_ok b" and "agree b s s'" and "c \<in> writes b"
  shows "cells (act p exec sk b s) c = cells (act p exec sk b s') c"
    and "controls (act p exec sk b s) c = controls (act p exec sk b s') c"
  using assms by (simp_all add: act_def perform_local skip_local)

subsection \<open>Equality up to the order of the completions\<close>

definition same_but :: "cown set \<Rightarrow> store \<Rightarrow> store \<Rightarrow> bool" where
  "same_but P s s' \<longleftrightarrow> (\<forall>c. c \<notin> P \<longrightarrow> cells s c = cells s' c \<and> controls s c = controls s' c)
     \<and> flags s = flags s' \<and> mset (log s) = mset (log s')"

lemma same_but_refl [simp, intro]: "same_but P s s"
  by (simp add: same_but_def)

lemma same_but_sym: "same_but P s s' \<Longrightarrow> same_but P s' s"
  by (simp add: same_but_def)

lemma same_but_trans [trans]: "same_but P s s' \<Longrightarrow> same_but P s' s'' \<Longrightarrow> same_but P s s''"
  by (simp add: same_but_def)

lemma same_but_mono: "same_but P s s' \<Longrightarrow> P \<subseteq> Q \<Longrightarrow> same_but Q s s'"
  by (auto simp: same_but_def)

lemma may_skip_cong: "(\<And>k. inv_of b = Some k \<Longrightarrow> flags s k = flags s' k) \<Longrightarrow> may_skip b s = may_skip b s'"
  by (cases b) auto

lemma agree_same_but: "same_but P s s' \<Longrightarrow> (writes b \<union> reads b) \<inter> P = {} \<Longrightarrow> agree b s s'"
  by (auto simp: same_but_def agree_def)

lemma act_same_but:
  assumes "behaviour_ok b" and "same_but P s s'" and "(writes b \<union> reads b) \<inter> P = {}"
  shows "same_but P (act p exec sk b s) (act p exec sk b s')"
proof -
  have a: "agree b s s'" using assms by (intro agree_same_but)
  have "cells (act p exec sk b s) c = cells (act p exec sk b s') c \<and> controls (act p exec sk b s) c = controls (act p exec sk b s') c"
    if "c \<notin> P" for c
    using that assms(2) act_local [OF assms(1) a] act_frame [of c b]
    by (cases "c \<in> writes b") (simp_all add: same_but_def)
  then show ?thesis
    using assms(2) perform_local(1,2) [OF assms(1) a]
    by (auto simp: same_but_def act_flags act_log fun_eq_iff)
qed

lemma run_same_but:
  assumes "behaviour_ok b" and "same_but P s s'" and "(writes b \<union> reads b) \<inter> P = {}"
  shows "same_but P (run p exec b s) (run p exec b s')"
proof -
  have "may_skip b s = may_skip b s'" using assms(2) by (intro may_skip_cong) (simp add: same_but_def)
  then show ?thesis using act_same_but [OF assms] by (simp add: run_act)
qed

lemma serially_simps [simp]:
  "serially p exec [] s = s"
  "serially p exec (b # bs) s = serially p exec bs (run p exec b s)"
  "serially p exec (as @ bs) s = serially p exec bs (serially p exec as s)"
  by (simp_all add: serially_def)

lemma serially_same_but:
  "\<forall>b\<in>set bs. behaviour_ok b \<and> (writes b \<union> reads b) \<inter> P = {} \<Longrightarrow> same_but P s s' \<Longrightarrow>
     same_but P (serially p exec bs s) (serially p exec bs s')"
  by (induction bs arbitrary: s s') (auto intro: run_same_but)

subsection \<open>Behaviours that commute\<close>

lemma conflict_sym: "conflict a b \<longleftrightarrow> conflict b a"
  by (auto simp: conflict_def)

lemma agree_after:
  assumes "\<not> conflict a b" and "inv_of a \<noteq> inv_of b \<or> \<not> final b"
  shows "agree b s (act p exec sk a s)"
proof -
  have "c \<notin> writes a" if "c \<in> writes b \<union> reads b" for c using that assms(1) by (auto simp: conflict_def)
  then show ?thesis using assms(2) by (auto simp: agree_def act_frame act_flags)
qed

lemma act_commute:
  assumes ok: "behaviour_ok a" "behaviour_ok b" and nc: "\<not> conflict a b"
    and inv: "inv_of a \<noteq> inv_of b \<or> \<not> final a \<and> \<not> final b"
  shows "same_but {} (act p exec sk a (act p exec sk' b s)) (act p exec sk' b (act p exec sk a s))"
proof -
  have ab: "agree a s (act p exec sk' b s)" and ba: "agree b s (act p exec sk a s)"
    using nc inv conflict_sym [of a b] by (auto intro!: agree_after)
  have disj: "c \<notin> writes b" if "c \<in> writes a" for c using that nc by (auto simp: conflict_def)
  have "cells (act p exec sk a (act p exec sk' b s)) c = cells (act p exec sk' b (act p exec sk a s)) c
      \<and> controls (act p exec sk a (act p exec sk' b s)) c = controls (act p exec sk' b (act p exec sk a s)) c" for c
    using act_local [OF ok(1) ab, of c] act_local [OF ok(2) ba, of c] disj [of c] act_frame [of c]
    by (cases "c \<in> writes a"; cases "c \<in> writes b") simp_all
  then show ?thesis
    using perform_local(1,2) [OF ok(1) ab] perform_local(1,2) [OF ok(2) ba]
    by (auto simp: same_but_def act_flags act_log fun_eq_iff)
qed

text \<open>A behaviour may be moved in front of others that it has no conflict with.\<close>

lemma serially_commute:
  assumes "behaviour_ok b" and "\<forall>a\<in>set as. behaviour_ok a \<and> \<not> conflict a b
      \<and> (inv_of a \<noteq> inv_of b \<or> \<not> final a \<and> \<not> final b \<and> (\<forall>s. \<not> may_skip a s))"
  shows "same_but {} (serially p exec as (act p exec sk b s)) (act p exec sk b (serially p exec as s))"
  using assms(2)
proof (induction as arbitrary: s)
  case Nil
  show ?case by simp
next
  case (Cons a as)
  have "may_skip a (act p exec sk b s) = may_skip a s"
  proof (cases "inv_of a = inv_of b")
    case True
    then show ?thesis using Cons.prems by auto
  next
    case False
    then show ?thesis by (intro may_skip_cong) (auto simp: act_flags)
  qed
  then have "same_but {} (run p exec a (act p exec sk b s)) (act p exec sk b (run p exec a s))"
    using Cons.prems assms(1) by (auto simp: run_act intro!: act_commute)
  then have "same_but {} (serially p exec as (run p exec a (act p exec sk b s))) (serially p exec as (act p exec sk b (run p exec a s)))"
    using Cons.prems by (intro serially_same_but) auto
  also have "same_but {} (serially p exec as (act p exec sk b (run p exec a s))) (act p exec sk b (serially p exec as (run p exec a s)))"
    using Cons by simp
  finally show ?case by simp
qed


subsection \<open>The interface of the function runtime\<close>

text \<open>
  What the worker relies on when a function runs: it changes the storage only through \<open>set\<close> and
  \<open>delete\<close>, that is in the uncommitted data of the keys it may write.
\<close>

locale function_host =
  fixes exec :: executor
  assumes sandboxed: "same_committed st (snd (exec info st))"
begin

lemma exec_aborted:
  "map_option abort_uncommitted (local_resources (snd (exec info st)) n) = map_option abort_uncommitted (local_resources st n)"
  using sandboxed [of st info] by (simp add: same_committed_def)

text \<open>In an aborting invocation a task changes uncommitted data only.\<close>

lemma task_uncommitted:
  assumes "task_ok t" and "t_can_abort t"
  shows "abort_uncommitted (cells (run_task exec t s) c) = abort_uncommitted (cells s c)"
proof (cases "guard_open (t_guard t) s \<and> c \<in> set (t_rw t)")
  case False
  then show ?thesis by (auto simp: run_task_def write_back_def Let_def split: prod.splits)
next
  case True
  obtain ok st where ex: "exec (t_info t) (task_storage t s) = (ok, st)"
    by (cases "exec (t_info t) (task_storage t s)")
  have cell: "cells (run_task exec t s) c = (case find (\<lambda>(n, d). d = c) (task_binds t) of None \<Rightarrow> cells s c
      | Some (n, _) \<Rightarrow> (case local_resources st n of None \<Rightarrow> cells s c | Some r \<Rightarrow> r))"
    using True assms(2) by (simp add: ex run_task_def task_outcome_def write_back_def Let_def)
  show ?thesis
  proof (cases "find (\<lambda>(n, d). d = c) (task_binds t)")
    case None
    then show ?thesis by (simp add: cell)
  next
    case (Some nd)
    obtain n where nd: "nd = (n, c)" and mem: "(n, c) \<in> set (task_binds t)"
      using find_Some_mem [OF Some] by (cases nd) auto
    let ?f = "map (\<lambda>(n, c). (n, cells s c)) (task_binds t)"
    have "(n, cells s c) \<in> set ?f" using mem by force
    then obtain r where r: "map_of ?f n = Some r" by (metis weak_map_of_SomeI)
    then obtain d where "(n, d) \<in> set (task_binds t)" "r = cells s d" by (auto dest!: map_of_SomeD)
    with mem assms(1) have "local_resources (task_storage t s) n = Some (cells s c)"
      using r by (auto simp: task_ok_def task_storage_def)
    with exec_aborted [of "t_info t" "task_storage t s" n] show ?thesis
      by (cases "local_resources st n") (simp_all add: ex cell Some nd)
  qed
qed

end

subsection \<open>The behaviours of one invocation\<close>

fun commit_cowns :: "behaviour \<Rightarrow> cown set" where
  "commit_cowns (Commit m) = (fst \<circ> snd) ` set (m_entries m)"
| "commit_cowns _ = {}"

text \<open>
  A body behaviour of the invocation \<open>k\<close>: in the aborting mode it writes only private cowns of the
  invocation and cowns that the final behaviour commits or aborts.
\<close>

fun body_ok :: "bool \<Rightarrow> cown set \<Rightarrow> cown set \<Rightarrow> behaviour \<Rightarrow> bool" where
  "body_ok ab P C (RunTask t) = (t_can_abort t = ab \<and> (ab \<longrightarrow> set (t_rw t) \<subseteq> P \<union> C))"
| "body_ok ab P C (EvalChoice c) = (c_can_abort c = ab \<and> c_control c \<in> P)"
| "body_ok ab P C (SchedulingFailed k ic) = True"
| "body_ok ab P C _ = False"

record group =
  g_inv :: "64 word"
  g_ab :: bool
  g_private :: "cown set"
  g_bs :: "behaviour list"

definition invocation_ok :: "group \<Rightarrow> bool" where
  "invocation_ok g \<longleftrightarrow> (\<exists>body fin. g_bs g = body @ [fin] \<and> final fin \<and> inv_of fin = Some (g_inv g)
     \<and> g_private g \<inter> commit_cowns fin = {}
     \<and> (\<forall>b\<in>set body. behaviour_ok b \<and> inv_of b = Some (g_inv g) \<and> conflict b fin
           \<and> body_ok (g_ab g) (g_private g) (commit_cowns fin) b))"

definition group_ok :: "group \<Rightarrow> bool" where
  "group_ok g \<longleftrightarrow> g_bs g = [] \<or> (\<exists>reply c. g_bs g = [Fetch reply c]) \<or> invocation_ok g"

definition touched :: "behaviour list \<Rightarrow> cown set" where
  "touched bs = (\<Union>b\<in>set bs. writes b \<union> reads b)"

definition apart :: "group \<Rightarrow> group \<Rightarrow> bool" where
  "apart g h \<longleftrightarrow> g_private g \<inter> touched (g_bs h) = {} \<and> g_private h \<inter> touched (g_bs g) = {}
     \<and> (\<forall>a\<in>set (g_bs g). \<forall>b\<in>set (g_bs h). inv_of a \<noteq> inv_of b \<or> inv_of a = None)"

definition schedule_ok :: "group list \<Rightarrow> bool" where
  "schedule_ok gs \<longleftrightarrow> (\<forall>g\<in>set gs. group_ok g) \<and> sorted_wrt apart gs"

definition behaviours :: "group list \<Rightarrow> behaviour list" where
  "behaviours gs = concat (map g_bs gs)"

lemma body_ok_facts:
  "body_ok ab P C b \<Longrightarrow> \<not> final b"
  "body_ok False P C b \<Longrightarrow> \<not> may_skip b s"
  "body_ok True P C b \<Longrightarrow> flags s k \<Longrightarrow> inv_of b = Some k \<Longrightarrow> may_skip b s \<or> (\<exists>j ic. b = SchedulingFailed j ic)"
  "body_ok True P C b \<Longrightarrow> events exec b s = []"
  by (cases b; auto simp: task_outcome_def Let_def split: prod.splits)+

lemma group_ok_behaviours: "group_ok g \<Longrightarrow> b \<in> set (g_bs g) \<Longrightarrow> behaviour_ok b"
proof -
  assume g: "group_ok g" "b \<in> set (g_bs g)"
  have "behaviour_ok fin" if "final fin" for fin using that by (cases fin) auto
  with g show ?thesis by (auto simp: group_ok_def invocation_ok_def)
qed

text \<open>Stores that differ in what an abort of the invocation removes.\<close>

definition near :: "cown set \<Rightarrow> cown set \<Rightarrow> store \<Rightarrow> store \<Rightarrow> bool" where
  "near P C s s' \<longleftrightarrow> (\<forall>c. c \<notin> P \<longrightarrow> controls s c = controls s' c \<and> abort_uncommitted (cells s c) = abort_uncommitted (cells s' c))
     \<and> (\<forall>c. c \<notin> P \<union> C \<longrightarrow> cells s c = cells s' c) \<and> mset (log s) = mset (log s')"

lemma near_refl [simp, intro]: "near P C s s"
  by (simp add: near_def)

lemma near_sym: "near P C s s' \<Longrightarrow> near P C s' s"
  by (simp add: near_def)

lemma near_trans [trans]: "near P C s s' \<Longrightarrow> near P C s' s'' \<Longrightarrow> near P C s s''"
  by (simp add: near_def)

lemma flags_mono: "flags s k \<Longrightarrow> flags (serially p exec bs s) k"
  by (induction bs arbitrary: s) (auto simp: run_act act_flags)

lemma flags_other: "\<forall>b\<in>set bs. inv_of b \<noteq> Some j \<Longrightarrow> flags (serially p exec bs s) j = flags s j"
  by (induction bs arbitrary: s) (auto simp: run_act act_flags)

context function_host
begin

lemma act_near:
  assumes "body_ok True P C b" and "behaviour_ok b"
  shows "near P C (act p exec sk b s) s"
proof (cases sk)
  case True
  then show ?thesis using assms(1) by (cases b) (auto simp: act_def near_def)
next
  case False
  have "abort_uncommitted (cells (perform_behaviour p exec b s) c) = abort_uncommitted (cells s c)" if "c \<notin> P" for c
    using assms by (cases b) (auto simp: task_uncommitted run_choice_def Let_def split: prod.splits)
  moreover have "c \<notin> writes b" if "c \<notin> P \<union> C" for c using that assms(1) by (cases b) auto
  moreover have "controls (perform_behaviour p exec b s) c = controls s c" if "c \<notin> P" for c
    using that assms(1) by (cases b) (auto simp: run_task_def run_choice_def Let_def split: prod.splits)
  ultimately show ?thesis
    using False body_ok_facts(4) [OF assms(1)] by (auto simp: near_def act_def perform_frame perform_log)
qed

lemma serially_near:
  assumes "\<forall>b\<in>set bs. body_ok True P C b \<and> behaviour_ok b"
  shows "near P C (serially p exec bs s) s"
  using assms
proof (induction bs arbitrary: s)
  case Nil
  show ?case by simp
next
  case (Cons b bs)
  have "near P C (serially p exec bs (run p exec b s)) (run p exec b s)" using Cons by simp
  also have "near P C (run p exec b s) s" using Cons.prems by (simp add: run_act act_near)
  finally show ?case by simp
qed

end


subsection \<open>One behaviour of an invocation overtakes others\<close>

definition bodies :: "64 word \<Rightarrow> bool \<Rightarrow> cown set \<Rightarrow> cown set \<Rightarrow> behaviour list \<Rightarrow> bool" where
  "bodies k ab P C bs \<longleftrightarrow> (\<forall>b\<in>set bs. body_ok ab P C b \<and> behaviour_ok b \<and> inv_of b = Some k)"

lemma run_unflagged: "\<not> flags s k \<Longrightarrow> inv_of b = Some k \<Longrightarrow> run p exec b s = act p exec False b s"
  by (cases b) (auto simp: run_act)

lemma flags_act_mono: "flags s k \<Longrightarrow> flags (act p exec sk b s) k"
  by (simp add: act_flags)

lemma bodies_same_but:
  "bodies k ab P C bs \<Longrightarrow> same_but {} s s' \<Longrightarrow> same_but {} (serially p exec bs s) (serially p exec bs s')"
  by (rule serially_same_but) (auto simp: bodies_def)

lemma overtake_unflagged:
  assumes "bodies k True P C (b # u)" and "\<forall>x\<in>set u. \<not> conflict x b"
    and "\<not> flags (serially p exec u (act p exec False b t)) k"
  shows "same_but {} (run p exec b (serially p exec u t)) (serially p exec u (act p exec False b t))"
  using assms
proof (induction u arbitrary: t)
  case Nil
  then have "\<not> flags t k" using flags_act_mono by fastforce
  then show ?case using Nil.prems(1) by (simp add: run_unflagged bodies_def)
next
  case (Cons x u)
  have inv: "inv_of b = Some k" "inv_of x = Some k" and u: "bodies k True P C (b # u)"
    using Cons.prems(1) by (auto simp: bodies_def)
  let ?bt = "act p exec False b t"
  have "\<not> flags ?bt k" using Cons.prems(3) flags_mono by fastforce
  then have t: "\<not> flags t k" and x: "run p exec x ?bt = act p exec False x ?bt"
    using inv flags_act_mono run_unflagged by blast+
  have comm: "same_but {} (act p exec False x ?bt) (act p exec False b (act p exec False x t))"
    using Cons.prems(1,2) by (intro act_commute) (auto simp: bodies_def dest: body_ok_facts)
  then have fin: "same_but {} (serially p exec u (act p exec False x ?bt))
      (serially p exec u (act p exec False b (act p exec False x t)))"
    using u by (intro bodies_same_but [of k True P C]) (auto simp: bodies_def)
  then have "\<not> flags (serially p exec u (act p exec False b (act p exec False x t))) k"
    using Cons.prems(3) x by (simp add: same_but_def)
  with Cons.IH [of "act p exec False x t"] u Cons.prems(2)
  have "same_but {} (run p exec b (serially p exec u (act p exec False x t)))
      (serially p exec u (act p exec False b (act p exec False x t)))" by simp
  also note same_but_sym [OF fin]
  finally show ?case using x run_unflagged [OF t inv(2)] by simp
qed

lemma overtake_unflagged':
  assumes "bodies k True P C (b # u)" and "\<forall>x\<in>set u. \<not> conflict x b"
    and "\<not> flags (run p exec b (serially p exec u t)) k"
  shows "same_but {} (serially p exec u (act p exec False b t)) (run p exec b (serially p exec u t))"
  using assms
proof (induction u arbitrary: t)
  case Nil
  then have "\<not> flags t k" using flags_act_mono by (fastforce simp: run_act)
  then show ?case using Nil.prems(1) by (simp add: run_unflagged bodies_def)
next
  case (Cons x u)
  have inv: "inv_of b = Some k" "inv_of x = Some k" and u: "bodies k True P C (b # u)"
    using Cons.prems(1) by (auto simp: bodies_def)
  have "\<not> flags (serially p exec (x # u) t) k" using Cons.prems(3) flags_act_mono by (fastforce simp: run_act)
  then have t: "\<not> flags t k" using flags_mono by blast
  then have x: "run p exec x t = act p exec False x t" using inv run_unflagged by blast
  let ?xt = "act p exec False x t"
  have ih: "same_but {} (serially p exec u (act p exec False b ?xt)) (run p exec b (serially p exec u ?xt))"
    using Cons.IH [of ?xt] u Cons.prems(2,3) x by simp
  have comm: "same_but {} (act p exec False b ?xt) (act p exec False x (act p exec False b t))"
    using Cons.prems(1,2) conflict_sym by (intro act_commute) (auto simp: bodies_def dest: body_ok_facts)
  have "\<not> flags (serially p exec u (act p exec False b ?xt)) k" using ih Cons.prems(3) x by (simp add: same_but_def)
  then have "\<not> flags (act p exec False b ?xt) k" using flags_mono by blast
  then have "\<not> flags (act p exec False x (act p exec False b t)) k" using comm by (simp add: same_but_def)
  then have "\<not> flags (act p exec False b t) k" using flags_act_mono by blast
  then have run_x: "run p exec x (act p exec False b t) = act p exec False x (act p exec False b t)"
    using inv run_unflagged by blast
  have "same_but {} (serially p exec u (act p exec False x (act p exec False b t)))
      (serially p exec u (act p exec False b ?xt))"
    using u comm by (intro bodies_same_but [of k True P C]) (auto simp: bodies_def intro: same_but_sym)
  also note ih
  finally show ?case using x run_x by simp
qed

lemma overtake_flags:
  assumes "bodies k True P C (b # u)" and "\<forall>x\<in>set u. \<not> conflict x b" and "sk \<Longrightarrow> flags t k"
  shows "flags (run p exec b (serially p exec u t)) = flags (serially p exec u (act p exec sk b t))"
    and "\<not> flags (run p exec b (serially p exec u t)) k \<Longrightarrow>
      same_but {} (run p exec b (serially p exec u t)) (serially p exec u (act p exec sk b t))"
proof -
  let ?L = "run p exec b (serially p exec u t)" and ?R = "serially p exec u (act p exec sk b t)"
  have other: "flags ?L j = flags ?R j" if "j \<noteq> k" for j
    using that assms(1) flags_other [of u j p exec] by (auto simp: bodies_def run_act act_flags)
  have "(flags ?L k = flags ?R k) \<and> (\<not> flags ?L k \<longrightarrow> same_but {} ?L ?R)"
  proof (cases "flags t k")
    case True
    then show ?thesis by (simp add: run_act flags_mono flags_act_mono)
  next
    case False
    with assms(3) have R: "?R = serially p exec u (act p exec False b t)" by (cases sk) simp_all
    have l: "\<not> flags ?R k \<Longrightarrow> same_but {} ?L ?R"
      unfolding R using overtake_unflagged [OF assms(1,2)] by blast
    have "\<not> flags ?L k \<Longrightarrow> same_but {} ?R ?L"
      unfolding R using overtake_unflagged' [OF assms(1,2)] by blast
    with l show ?thesis
      using same_but_sym unfolding same_but_def by metis
  qed
  note k = this
  show "flags ?L = flags ?R"
  proof (rule ext)
    show "flags ?L j = flags ?R j" for j using k other [of j] by (cases "j = k") simp_all
  qed
  show "\<not> flags ?L k \<Longrightarrow> same_but {} ?L ?R" using k by blast
qed

context function_host
begin

text \<open>Once the flag is set, the rest of the invocation leads to stores that differ in private cowns only.\<close>

lemma flagged_rest:
  assumes "bodies k True P C bs" and fin: "final fin" "inv_of fin = Some k" "C = commit_cowns fin"
    and "near P C s s'" and "flags s = flags s'" and "flags s k"
  shows "same_but P (serially p exec (bs @ [fin]) s) (serially p exec (bs @ [fin]) s')"
proof -
  let ?t = "serially p exec bs s" and ?t' = "serially p exec bs s'"
  have near: "near P C ?t ?t'"
    using serially_near [of bs P C p s] serially_near [of bs P C p s'] assms(1,5)
    by (auto simp: bodies_def intro: near_trans near_sym)
  have k: "flags ?t k" "flags ?t' k" using assms(6,7) flags_mono by metis+
  have "flags ?t j = flags ?t' j" for j
    using k assms(1,6) flags_other [of bs j p exec] by (cases "j = k") (auto simp: bodies_def)
  then have fl: "flags ?t = flags ?t'" by blast
  show ?thesis
  proof (cases fin)
    case (Commit m)
    then have "m_inv m = k" using fin(2) by simp
    then show ?thesis
      using near k fl fin(3) by (auto simp: run_def Commit run_commit_def commit_events_def finish_resource_def near_def same_but_def)
  next
    case (Complete j ic)
    then show ?thesis using near k fl fin by (auto simp: run_def near_def same_but_def)
  qed (use fin(1) in simp_all)
qed

end

subsection \<open>One step of the runtime\<close>

lemma may_skip_flag: "may_skip b s \<Longrightarrow> \<exists>k. inv_of b = Some k \<and> flags s k \<and> \<not> final b"
  by (cases b) auto

lemma may_skip_kept: "may_skip b s \<Longrightarrow> may_skip b (serially p exec bs s)"
  by (cases b) (auto intro: flags_mono)

lemma split_invocation:
  assumes "u @ b # v = body @ [fin]" and "\<forall>x\<in>set u. \<not> conflict x b" and "\<forall>x\<in>set body. conflict x fin"
  obtains (last) "u = []" "v = []" "b = fin" | (inner) v' where "v = v' @ [fin]" "body = u @ b # v'"
proof (cases v rule: rev_cases)
  case Nil
  with assms have "u = body" "b = fin" by auto
  with assms(2,3) have "u = []" by (cases u) auto
  with Nil \<open>b = fin\<close> show thesis by (intro last)
next
  case (snoc v' f)
  then have "(u @ b # v') @ [f] = body @ [fin]" using assms(1) by simp
  with snoc show thesis by (intro inner) auto
qed

lemma final_ok: "final b \<Longrightarrow> behaviour_ok b"
  by (cases b) auto

context function_host
begin

lemma invocation_step:
  assumes inv: "invocation_ok g" "g_bs g = u @ b # v" and nc: "\<forall>x\<in>set u. \<not> conflict x b"
    and sk: "sk \<Longrightarrow> may_skip b t"
  shows "same_but (g_private g) (serially p exec (u @ b # v) t) (serially p exec v (serially p exec u (act p exec sk b t)))"
proof -
  let ?k = "g_inv g" and ?P = "g_private g"
  obtain body fin where split: "u @ b # v = body @ [fin]" and fin: "final fin" "inv_of fin = Some ?k"
    and disj: "?P \<inter> commit_cowns fin = {}"
    and body: "\<forall>x\<in>set body. behaviour_ok x \<and> inv_of x = Some ?k \<and> conflict x fin
        \<and> body_ok (g_ab g) ?P (commit_cowns fin) x"
    using inv by (auto simp: invocation_ok_def)
  let ?L = "run p exec b (serially p exec u t)" and ?R = "serially p exec u (act p exec sk b t)"
  have "\<forall>x\<in>set body. conflict x fin" using body by blast
  with split nc show ?thesis
  proof (cases rule: split_invocation [consumes 3, case_names last inner])
    case last
    then have "\<not> may_skip b s" for s using fin(1) last(3) may_skip_flag [of b s] by auto
    then show ?thesis using last sk by (cases sk) (auto simp: run_act)
  next
    case (inner v')
    let ?C = "commit_cowns fin"
    have bs: "bodies ?k (g_ab g) ?P ?C (u @ b # v')" using body inner by (simp add: bodies_def)
    have rest: "\<forall>x\<in>set v. behaviour_ok x"
      using bs inner(1) final_ok [OF fin(1)] by (auto simp: bodies_def)
    show ?thesis
    proof (cases "g_ab g \<and> flags ?L ?k")
      case True
      then have ab: "bodies ?k True ?P ?C (b # u)" "bodies ?k True ?P ?C v'" using bs by (auto simp: bodies_def)
      have fl: "flags ?L = flags ?R"
        using ab(1) nc sk may_skip_flag [of b t] by (intro overtake_flags(1)) (auto simp: bodies_def)
      have "near ?P ?C ?L t" "near ?P ?C ?R (act p exec sk b t)" "near ?P ?C (act p exec sk b t) t"
        using serially_near [of "u @ [b]" ?P ?C p t] serially_near [of u] ab(1) act_near by (auto simp: bodies_def)
      then have "near ?P ?C ?L ?R" by (meson near_trans near_sym)
      from flagged_rest [OF ab(2) fin refl this fl] True show ?thesis by (simp add: inner(1))
    next
      case False
      have "same_but {} ?L ?R"
      proof (cases "g_ab g")
        case True
        then show ?thesis
          using False bs nc sk may_skip_flag [of b t]
          by (intro overtake_flags(2) [of ?k ?P ?C]) (auto simp: bodies_def)
      next
        case no: False
        have ns: "\<not> may_skip x s" if "x \<in> set (u @ [b])" for x s
        proof -
          have "body_ok False ?P ?C x" using bs that no by (auto simp: bodies_def)
          then show ?thesis by (rule body_ok_facts(2))
        qed
        have "same_but {} (serially p exec u (act p exec False b t)) (act p exec False b (serially p exec u t))"
          using bs nc ns by (intro serially_commute) (auto simp: bodies_def dest: body_ok_facts)
        moreover have "sk = False" using sk ns [of b] by auto
        ultimately show ?thesis using ns [of b] by (auto simp: run_act intro: same_but_sym)
      qed
      then have "same_but {} (serially p exec v ?L) (serially p exec v ?R)"
        using rest by (intro serially_same_but) auto
      then show ?thesis by (auto intro: same_but_mono)
    qed
  qed
qed

end

subsection \<open>A schedule\<close>

definition privates :: "group list \<Rightarrow> cown set" where
  "privates gs = (\<Union>g\<in>set gs. g_private g)"

definition put_bs :: "behaviour list \<Rightarrow> group \<Rightarrow> group" where
  "put_bs bs g = g\<lparr>g_bs := bs\<rparr>"

lemma put_bs_simps [simp]:
  "g_bs (put_bs bs g) = bs" "g_private (put_bs bs g) = g_private g" "g_inv (put_bs bs g) = g_inv g"
  "g_ab (put_bs bs g) = g_ab g"
  by (simp_all add: put_bs_def)

lemma behaviours_simps [simp]:
  "behaviours [] = []" "behaviours (g # gs) = g_bs g @ behaviours gs"
  "behaviours (gs @ hs) = behaviours gs @ behaviours hs"
  by (simp_all add: behaviours_def)

lemma split_pending:
  "behaviours gs = xs @ b # ys \<Longrightarrow> \<exists>g1 g g2 u v. gs = g1 @ g # g2 \<and> g_bs g = u @ b # v
     \<and> xs = behaviours g1 @ u \<and> ys = v @ behaviours g2"
proof (induction gs arbitrary: xs)
  case Nil
  then show ?case by simp
next
  case (Cons g gs)
  show ?case
  proof (cases "length xs < length (g_bs g)")
    case True
    with Cons.prems obtain v where "g_bs g = xs @ b # v" "ys = v @ behaviours gs"
      by (auto simp: append_eq_append_conv2 Cons_eq_append_conv append_eq_Cons_conv)
    then have "g # gs = [] @ g # gs \<and> g_bs g = xs @ b # v \<and> xs = behaviours [] @ xs \<and> ys = v @ behaviours gs" by simp
    then show ?thesis by blast
  next
    case False
    with Cons.prems obtain xs' where xs: "xs = g_bs g @ xs'" "behaviours gs = xs' @ b # ys"
      by (auto simp: append_eq_append_conv2)
    from Cons.IH [OF xs(2)] obtain g1 h g2 u v where "gs = g1 @ h # g2" "g_bs h = u @ b # v"
      "xs' = behaviours g1 @ u" "ys = v @ behaviours g2" by blast
    then have "g # gs = (g # g1) @ h # g2 \<and> g_bs h = u @ b # v \<and> xs = behaviours (g # g1) @ u \<and> ys = v @ behaviours g2"
      using xs(1) by simp
    then show ?thesis by blast
  qed
qed

lemma fetch_split: "u @ b # v = [Fetch reply c] \<Longrightarrow> u = [] \<and> v = [] \<and> b = Fetch reply c"
  by (cases u) auto

lemma group_ok_remove:
  assumes "group_ok g" and "g_bs g = u @ b # v" and "\<forall>x\<in>set u. \<not> conflict x b"
  shows "group_ok (put_bs (u @ v) g)"
proof (cases "\<exists>reply c. g_bs g = [Fetch reply c]")
  case True
  then have "u @ v = []" using fetch_split [of u b v] assms(2) by auto
  then show ?thesis by (simp add: group_ok_def)
next
  case False
  with assms(1,2) have inv: "invocation_ok g" by (auto simp: group_ok_def)
  then obtain body fin where g: "g_bs g = body @ [fin]" "final fin" "inv_of fin = Some (g_inv g)"
    "g_private g \<inter> commit_cowns fin = {}"
    "\<forall>x\<in>set body. behaviour_ok x \<and> inv_of x = Some (g_inv g) \<and> conflict x fin
        \<and> body_ok (g_ab g) (g_private g) (commit_cowns fin) x" by (auto simp: invocation_ok_def)
  have "u @ b # v = body @ [fin]" "\<forall>x\<in>set body. conflict x fin" using g assms(2) by auto
  from this(1) assms(3) this(2) show ?thesis
  proof (cases rule: split_invocation [of u b v body fin, consumes 3, case_names last inner])
    case last
    then show ?thesis by (simp add: group_ok_def)
  next
    case (inner v')
    then have "invocation_ok (put_bs (u @ v) g)"
      using g unfolding invocation_ok_def by (intro exI [of _ "u @ v'"] exI [of _ fin]) auto
    then show ?thesis by (simp add: group_ok_def)
  qed
qed

lemma apart_shrink:
  "set bs \<subseteq> set (g_bs g) \<Longrightarrow> apart g h \<Longrightarrow> apart (put_bs bs g) h"
  "set bs \<subseteq> set (g_bs g) \<Longrightarrow> apart h g \<Longrightarrow> apart h (put_bs bs g)"
  by (auto simp: apart_def touched_def; blast)+

lemma schedule_ok_remove:
  assumes "schedule_ok (g1 @ g # g2)" and "g_bs g = u @ b # v" and "\<forall>x\<in>set u. \<not> conflict x b"
  shows "schedule_ok (g1 @ put_bs (u @ v) g # g2)"
  using assms group_ok_remove [of g u b v]
  by (auto simp: schedule_ok_def sorted_wrt_append intro!: apart_shrink)

context function_host
begin

lemma schedule_step:
  assumes ok: "schedule_ok (g1 @ g # g2)" and g: "g_bs g = u @ b # v"
    and nc: "\<forall>x\<in>set (behaviours g1 @ u). \<not> conflict x b" and sk: "sk \<Longrightarrow> may_skip b s"
  shows "same_but (g_private g) (serially p exec (behaviours (g1 @ g # g2)) s)
           (serially p exec (behaviours g1 @ u @ v @ behaviours g2) (act p exec sk b s))"
proof -
  let ?t = "serially p exec (behaviours g1) s" and ?P = "g_private g"
  have gok: "group_ok g" "\<forall>h\<in>set (g1 @ g2). group_ok h" using ok by (auto simp: schedule_ok_def)
  then have ok_bs: "\<forall>x\<in>set (behaviours g1 @ u @ b # v @ behaviours g2). behaviour_ok x"
    using g by (auto simp: behaviours_def intro: group_ok_behaviours)
  have "inv_of a \<noteq> inv_of b \<or> inv_of a = None" if "a \<in> set (behaviours g1)" for a
    using ok that g by (auto simp: schedule_ok_def sorted_wrt_append behaviours_def apart_def)
  then have "inv_of a \<noteq> inv_of b \<or> \<not> final a \<and> \<not> final b \<and> (\<forall>s. \<not> may_skip a s)" if "a \<in> set (behaviours g1)" for a
    using that by (cases a; cases b; fastforce)
  then have "same_but {} (serially p exec (behaviours g1) (act p exec sk b s)) (act p exec sk b ?t)"
    using nc ok_bs by (intro serially_commute) auto
  then have "same_but {} (serially p exec (u @ v) (serially p exec (behaviours g1) (act p exec sk b s)))
      (serially p exec (u @ v) (act p exec sk b ?t))"
    using ok_bs by (intro serially_same_but) auto
  then have 1: "same_but ?P (serially p exec (u @ v) (act p exec sk b ?t))
      (serially p exec (u @ v) (serially p exec (behaviours g1) (act p exec sk b s)))"
    using same_but_mono same_but_sym by blast
  have "same_but ?P (serially p exec (g_bs g) ?t) (serially p exec (u @ v) (act p exec sk b ?t))"
  proof (cases "\<exists>reply c. g_bs g = [Fetch reply c]")
    case True
    then have "u = []" "v = []" "\<not> may_skip b s" using fetch_split [of u b v] g by auto
    then show ?thesis using sk True g by (cases sk) (auto simp: run_act)
  next
    case False
    with gok g have "invocation_ok g" by (auto simp: group_ok_def)
    then show ?thesis unfolding g serially_simps(3) [of p exec u v]
      by (intro invocation_step) (use g nc sk may_skip_kept in auto)
  qed
  with 1 have "same_but ?P (serially p exec (g_bs g) ?t)
      (serially p exec (u @ v) (serially p exec (behaviours g1) (act p exec sk b s)))" by (rule same_but_trans [rotated])
  moreover have "(writes x \<union> reads x) \<inter> ?P = {}" if x: "x \<in> set (behaviours g2)" for x
  proof -
    obtain h where h: "h \<in> set g2" "x \<in> set (g_bs h)" using x by (auto simp: behaviours_def)
    then have "apart g h" using ok by (simp add: schedule_ok_def sorted_wrt_append)
    with h(2) show ?thesis by (auto simp: apart_def touched_def)
  qed
  moreover have "\<forall>x\<in>set (behaviours g2). behaviour_ok x" using ok_bs by simp
  ultimately show ?thesis by (simp add: serially_same_but)
qed

text \<open>Every execution that finishes all behaviours is, for an observer, the serial one.\<close>

lemma finishes_act:
  "finishes p exec (bs, s) (bs', s') \<Longrightarrow> \<exists>xs b ys sk. bs = xs @ b # ys \<and> bs' = xs @ ys
     \<and> (\<forall>x\<in>set xs. \<not> conflict x b) \<and> (sk \<longrightarrow> may_skip b s) \<and> s' = act p exec sk b s"
  by (induction "(bs, s)" "(bs', s')" rule: finishes.induct) (auto simp: act_def; metis)+

lemma finishes_schedule:
  assumes "schedule_ok gs" and "finishes p exec (behaviours gs, s) (bs', s')"
  shows "\<exists>gs'. bs' = behaviours gs' \<and> schedule_ok gs' \<and> privates gs' = privates gs
    \<and> same_but (privates gs) (serially p exec (behaviours gs) s) (serially p exec bs' s')"
proof -
  from finishes_act [OF assms(2)] obtain xs b ys sk where st: "behaviours gs = xs @ b # ys" "bs' = xs @ ys"
    "\<forall>x\<in>set xs. \<not> conflict x b" "sk \<longrightarrow> may_skip b s" "s' = act p exec sk b s" by blast
  from split_pending [OF st(1)] obtain g1 g g2 u v where gs: "gs = g1 @ g # g2" "g_bs g = u @ b # v"
    "xs = behaviours g1 @ u" "ys = v @ behaviours g2" by blast
  let ?gs = "g1 @ put_bs (u @ v) g # g2"
  have "same_but (g_private g) (serially p exec (behaviours gs) s) (serially p exec bs' s')"
    using schedule_step [of g1 g g2 u b v sk s p] assms(1) gs st by simp
  then have "same_but (privates gs) (serially p exec (behaviours gs) s) (serially p exec bs' s')"
    by (rule same_but_mono) (auto simp: privates_def gs)
  moreover have "schedule_ok ?gs" using schedule_ok_remove [of g1 g g2 u b v] assms(1) gs st by auto
  ultimately show ?thesis by (intro exI [of _ ?gs]) (auto simp: gs st privates_def)
qed

lemma executions_schedule:
  assumes "executions p exec (behaviours gs, s) (bs', s')" and "schedule_ok gs"
  shows "same_but (privates gs) (serially p exec (behaviours gs) s) (serially p exec bs' s')"
  using assms unfolding executions_def
proof (induction "(behaviours gs, s)" arbitrary: gs s rule: converse_rtranclp_induct)
  case base
  then show ?case by simp
next
  case (step y)
  obtain bs1 s1 where y: "y = (bs1, s1)" by (cases y)
  from finishes_schedule [OF step.prems step.hyps(1) [unfolded y]] obtain gs1 where gs1: "bs1 = behaviours gs1"
    "schedule_ok gs1" "privates gs1 = privates gs"
    "same_but (privates gs) (serially p exec (behaviours gs) s) (serially p exec bs1 s1)" by blast
  from step.hyps(3) [of gs1 s1] y gs1 have "same_but (privates gs) (serially p exec (behaviours gs1) s1) (serially p exec bs' s')"
    by simp
  with gs1 show ?case using same_but_trans by blast
qed

end

text \<open>The runtime never stands still, and each step finishes one behaviour.\<close>

lemma finishes_length: "finishes p exec c c' \<Longrightarrow> length (fst c) = Suc (length (fst c'))"
  by (induction rule: finishes.induct) auto

lemma finishes_possible: "bs \<noteq> [] \<Longrightarrow> \<exists>c. finishes p exec (bs, s) c"
proof -
  assume "bs \<noteq> []"
  then obtain b bs' where "bs = b # bs'" by (cases bs) auto
  with performed [of "[]" b p exec bs' s] show ?thesis by auto
qed

end
