(* ===== verification/YcsbFunctions.thy ===== *)
theory YcsbFunctions
  imports FunctionApi
begin

section \<open>The YCSB-T functions: \<open>write\<close> and \<open>transfer\<close>\<close>

text \<open>
  \<open>applications/ycsb/function/write.py\<close> and \<open>transfer.py\<close>. An account is a key whose
  value is a four-byte big-endian number.
\<close>

subsection \<open>Definitions\<close>

definition not_enough_credit :: "string \<Rightarrow> pyerr" where
  "not_enough_credit key = UserError ''NotEnoughCredit'' (''Not enough credit for user: '' @ key)"

text \<open>\<open>int.from_bytes(get(key))\<close>; \<open>None\<close> is no bytes object.\<close>

definition get_int :: "(string \<Rightarrow> 's \<Rightarrow> bytes option) \<Rightarrow> string \<Rightarrow> ('s, pyerr, int) eff" where
  "get_int kget key =
     pbind (kv_get kget key) (\<lambda>v. case v of None \<Rightarrow> throw TypeError | Some b \<Rightarrow> ret (int_from_bytes b))"

definition add_1_to ::
  "(string \<Rightarrow> 's \<Rightarrow> bytes option) \<Rightarrow> (string \<Rightarrow> bytes \<Rightarrow> 's \<Rightarrow> 's) \<Rightarrow> string \<Rightarrow> ('s, pyerr, unit) eff" where
  "add_1_to kget kset key =
     pbind (get_int kget key) (\<lambda>to_value.
     pbind (pure_eff (int_to_bytes (to_value + 1) 4)) (\<lambda>b.
     kv_set kset key b))"

definition remove_1_from ::
  "(string \<Rightarrow> 's \<Rightarrow> bytes option) \<Rightarrow> (string \<Rightarrow> bytes \<Rightarrow> 's \<Rightarrow> 's) \<Rightarrow> string \<Rightarrow> ('s, pyerr, unit) eff" where
  "remove_1_from kget kset key =
     pbind (get_int kget key) (\<lambda>v.
     let from_val = v - 1
     in if from_val < 0 then throw (not_enough_credit key)
        else pbind (pure_eff (int_to_bytes from_val 4)) (\<lambda>b. kv_set kset key b))"

definition transfer_handle ::
  "(string \<Rightarrow> 's \<Rightarrow> bytes option) \<Rightarrow> (string \<Rightarrow> bytes \<Rightarrow> 's \<Rightarrow> 's) \<Rightarrow> event \<Rightarrow> ('s, pyerr, func_output) eff" where
  "transfer_handle kget kset ev =
     pbind (pure_eff (load_resources ev)) (\<lambda>resources.
     pbind (pure_eff (var_get resources ''from'')) (\<lambda>f.
     pbind (pure_eff (var_get resources ''to'')) (\<lambda>t.
     let transfer_from = py_str f; transfer_to = py_str t
     in pbind (add_1_to kget kset transfer_to) (\<lambda>_.
        pbind (remove_1_from kget kset transfer_from) (\<lambda>_.
        ret (Output (dumps (JObj [(''success'', JBool True)]))))))))"

definition write_handle ::
  "(string \<Rightarrow> 's \<Rightarrow> bytes option) \<Rightarrow> (string \<Rightarrow> bytes \<Rightarrow> 's \<Rightarrow> 's) \<Rightarrow> event \<Rightarrow> ('s, pyerr, func_output) eff" where
  "write_handle kget kset ev =
     pbind (pure_eff (load_fields ev)) (\<lambda>(resources, values).
     pbind (pure_eff (var_get resources ''key'')) (\<lambda>k.
     pbind (pure_eff (rbind (var_get values ''value'') py_int)) (\<lambda>value.
     pbind (pure_eff (int_to_bytes value 4)) (\<lambda>b.
     pbind (kv_set kset (py_str k) b) (\<lambda>_.
     ret (Output (dumps (JObj [(''success'', JBool True)]))))))))"

subsection \<open>Balances\<close>

definition balance :: "(string \<Rightarrow> 's \<Rightarrow> bytes option) \<Rightarrow> 's \<Rightarrow> string \<Rightarrow> int" where
  "balance kget s k = (case kget k s of None \<Rightarrow> 0 | Some b \<Rightarrow> int_from_bytes b)"

lemma length_int_to_bytes: "int_to_bytes n k = Inr b \<Longrightarrow> length b = k"
  by (auto simp: int_to_bytes_def split: if_splits)

lemma int_to_bytes_ne: "int_to_bytes n 4 = Inr b \<Longrightarrow> b \<noteq> []"
  using length_int_to_bytes [of n 4 b] by auto

context kv_interface
begin

lemma balance_kset:
  assumes "int_to_bytes n 4 = Inr b" and "kwritable k s"
  shows "balance kget (kset k b s) k' = (if k' = k then n else balance kget s k')"
  using assms int_to_bytes_ne [OF assms(1)] int_to_bytes_roundtrip [OF assms(1)]
  by (simp add: balance_def kget_kset_cases)

lemma add_1_to_ok:
  assumes "add_1_to kget kset key s = (Inr u, s')" and "kwritable key s"
  shows "balance kget s' = (balance kget s)(key := balance kget s key + 1)"
    and "kwritable k s' = kwritable k s"
proof -
  obtain b bs where "kget key s = Some b" "int_to_bytes (int_from_bytes b + 1) 4 = Inr bs"
    "s' = kset key bs s"
    using assms(1)
    by (auto simp: add_1_to_def get_int_def pbind_Inr_iff pbind_assoc split: option.splits)
  with assms(2) show "balance kget s' = (balance kget s)(key := balance kget s key + 1)"
    "kwritable k s' = kwritable k s"
    by (auto simp: balance_kset fun_eq_iff kwritable_kset) (simp add: balance_def)
qed

lemma remove_1_from_ok:
  assumes "remove_1_from kget kset key s = (Inr u, s')" and "kwritable key s"
  shows "balance kget s' = (balance kget s)(key := balance kget s key - 1)"
    and "1 \<le> balance kget s key"
proof -
  obtain b bs where "kget key s = Some b" "0 \<le> int_from_bytes b - 1"
    "int_to_bytes (int_from_bytes b - 1) 4 = Inr bs" "s' = kset key bs s"
    using assms(1)
    by (auto simp: remove_1_from_def get_int_def pbind_Inr_iff Let_def split: option.splits if_splits)
  with assms(2) show "balance kget s' = (balance kget s)(key := balance kget s key - 1)"
    "1 \<le> balance kget s key"
    by (auto simp: balance_kset fun_eq_iff) (simp_all add: balance_def)
qed

lemma transfer_ok:
  assumes "transfer_handle kget kset (task_event [(''from'', JStr f), (''to'', JStr t)] vs) s = (Inr out, s')"
    and "wf_json (JObj vs)" and "kwritable f s" and "kwritable t s"
  shows "balance kget s' =
     (let b = (balance kget s)(t := balance kget s t + 1) in b(f := b f - 1))"
    and "1 \<le> ((balance kget s)(t := balance kget s t + 1)) f"
proof -
  obtain s1 u v where a: "add_1_to kget kset t s = (Inr u, s1)"
    and r: "remove_1_from kget kset f s1 = (Inr v, s')"
    using assms(1,2)
    by (auto simp: transfer_handle_def var_get_def jget_def pbind_Inr_iff Let_def)
  note b1 = add_1_to_ok [OF a assms(4)]
  have "kwritable f s1" using b1(2) assms(3) by simp
  note b2 = remove_1_from_ok [OF r this]
  show "balance kget s' = (let b = (balance kget s)(t := balance kget s t + 1) in b(f := b f - 1))"
    using b1(1) b2(1) by (simp add: Let_def)
  show "1 \<le> ((balance kget s)(t := balance kget s t + 1)) f" using b1(1) b2(2) by simp
qed

lemma transfer_sum:
  assumes "transfer_handle kget kset (task_event [(''from'', JStr f), (''to'', JStr t)] vs) s = (Inr out, s')"
    and "wf_json (JObj vs)" and "kwritable f s" and "kwritable t s"
    and "finite A" and "f \<in> A" and "t \<in> A"
  shows "(\<Sum>k\<in>A. balance kget s' k) = (\<Sum>k\<in>A. balance kget s k)"
proof -
  have upd: "(\<Sum>k\<in>A. (b(x := b x + d)) k) = (\<Sum>k\<in>A. b k) + (d::int)" if "x \<in> A" for b x d
  proof -
    have "(\<Sum>k\<in>A. (b(x := b x + d)) k) = (\<Sum>k\<in>A. b k + (if k = x then d else 0))"
      by (rule sum.cong) auto
    then show ?thesis using assms(5) that by (simp add: sum.distrib)
  qed
  define b0 where "b0 = (balance kget s)(t := balance kget s t + 1)"
  have "balance kget s' = b0(f := b0 f + - 1)"
    using transfer_ok(1) [OF assms(1-4)] by (simp add: Let_def b0_def)
  then have "(\<Sum>k\<in>A. balance kget s' k) = (\<Sum>k\<in>A. b0 k) - 1" using upd [OF assms(6), of b0 "- 1"] by simp
  then show ?thesis using upd [OF assms(7), of "balance kget s" 1] by (simp add: b0_def)
qed

end

subsection \<open>Uncommitted effects only\<close>

lemma ycsb_stages_only [uncommitted_only]:
  "stages_only (get_int kget k)"
  "stages_only (add_1_to kget host_set k)"
  "stages_only (remove_1_from kget host_set k)"
  "stages_only (transfer_handle kget host_set ev)"
  "stages_only (write_handle kget host_set ev)"
  by (auto simp: get_int_def add_1_to_def remove_1_from_def transfer_handle_def write_handle_def Let_def
      intro!: uncommitted_only)

subsection \<open>Properties\<close>

text \<open>
  C9: Conservation of money. A transfer that returns moves exactly one unit: over any set of
  accounts that holds both ends, the sum of the balances is what it was, also when both ends
  are the same account.
\<close>

theorem transfer_conserves:
  assumes "transfer_handle (host_get host) host_set
             (task_event [(''from'', JStr f), (''to'', JStr t)] vs) s = (Inr out, s')"
    and "wf_json (JObj vs)" and "writable f s" and "writable t s"
    and "finite A" and "f \<in> A" and "t \<in> A"
  shows "(\<Sum>k\<in>A. balance (host_get host) s' k) = (\<Sum>k\<in>A. balance (host_get host) s k)"
  using assms by (rule rs.transfer_sum)

definition two_accounts :: storage where
  "two_accounts = \<lparr>local_resources =
     [''a'' \<mapsto> set_data [0, 0, 0, 5] new_resource, ''b'' \<mapsto> set_data [0, 0, 0, 7] new_resource],
     read_only_resources = {}\<rparr>"

definition transfer_a_b :: event where
  "transfer_a_b = task_event [(''from'', JStr ''a''), (''to'', JStr ''b'')] []"

lemma transfer_a_b_returns:
  "fst (transfer_handle (host_get True) host_set transfer_a_b two_accounts)
     = Inr (Output (dumps (JObj [(''success'', JBool True)])))"
  by (simp add: transfer_a_b_def transfer_handle_def var_get_def jget_def add_1_to_def remove_1_from_def
      get_int_def pbind_eval two_accounts_def host_get_def get_resource_def host_set_def set_resource_def
      int_from_bytes_def int_to_bytes_def Let_def resource_ops)

theorem transfer_conserves_witness:
  "(\<Sum>k\<in>{''a'', ''b''}. balance (host_get True)
       (snd (transfer_handle (host_get True) host_set transfer_a_b two_accounts)) k)
   = (\<Sum>k\<in>{''a'', ''b''}. balance (host_get True) two_accounts k)"
  by (rule transfer_conserves [of True "''a''" "''b''" "[]" _
        "Output (dumps (JObj [(''success'', JBool True)]))"])
     (use transfer_a_b_returns in \<open>simp_all add: prod_eq_iff transfer_a_b_def writable_def two_accounts_def\<close>)

text \<open>
  C21: Every outcome of a transfer between two present accounts. The credit overflows the four
  bytes and nothing is written; or the debtor, after the credit, has nothing to give: the
  function raises, with the credit already staged; or both accounts are updated.
\<close>

theorem transfer_outcomes:
  assumes "host_get host f s = Some bf" and "host_get host t s = Some bt"
    and "writable f s" and "writable t s" and "wf_json (JObj vs)"
  shows "transfer_handle (host_get host) host_set
           (task_event [(''from'', JStr f), (''to'', JStr t)] vs) s
         = (if 2 ^ 32 \<le> int_from_bytes bt + 1 then (Inl OverflowError, s)
            else let s1 = host_set t (to_bytes_be 4 (nat (int_from_bytes bt + 1))) s;
                     funds = (if f = t then int_from_bytes bt + 1 else int_from_bytes bf)
                 in if funds < 1 then (Inl (not_enough_credit f), s1)
                    else if 2 ^ 32 < funds then (Inl OverflowError, s1)
                    else (Inr (Output (dumps (JObj [(''success'', JBool True)]))),
                          host_set f (to_bytes_be 4 (nat (funds - 1))) s1))"
proof (cases "2 ^ 32 \<le> int_from_bytes bt + 1")
  case True
  with assms show ?thesis
    by (simp add: transfer_handle_def var_get_def jget_def add_1_to_def get_int_def pbind_eval int_to_bytes_def)
next
  case False
  have nn: "0 \<le> int_from_bytes bt" "0 \<le> int_from_bytes bf" using int_from_bytes_bounds by blast+
  have enc: "int_to_bytes (int_from_bytes bt + 1) 4 = Inr (to_bytes_be 4 (nat (int_from_bytes bt + 1)))"
    using False nn by (simp add: int_to_bytes_def)
  have credited: "add_1_to (host_get host) host_set t s
      = (Inr (), host_set t (to_bytes_be 4 (nat (int_from_bytes bt + 1))) s)"
    using assms(2) enc by (simp add: add_1_to_def get_int_def pbind_eval)
  define s1 where "s1 = host_set t (to_bytes_be 4 (nat (int_from_bytes bt + 1))) s"
  define funds where "funds = (if f = t then int_from_bytes bt + 1 else int_from_bytes bf)"
  have "\<exists>b. host_get host f s1 = Some b \<and> int_from_bytes b = funds"
    unfolding s1_def using assms(1,4) int_to_bytes_ne [OF enc] int_to_bytes_roundtrip [OF enc]
    by (auto simp: rs.kget_kset_cases funds_def)
  then obtain b where b: "host_get host f s1 = Some b" "int_from_bytes b = funds" by blast
  have "remove_1_from (host_get host) host_set f s1 =
      (if funds < 1 then (Inl (not_enough_credit f), s1)
       else if 2 ^ 32 < funds then (Inl OverflowError, s1)
       else (Inr (), host_set f (to_bytes_be 4 (nat (funds - 1))) s1))"
    using b by (simp add: remove_1_from_def get_int_def pbind_eval int_to_bytes_def Let_def)
  then show ?thesis
    using assms(5) credited False
    by (simp add: transfer_handle_def var_get_def jget_def pbind_eval Let_def s1_def [symmetric] funds_def)
qed

lemma small_balances:
  "to_bytes_be 4 4 = [0, 0, 0, 4]" "to_bytes_be 4 8 = [0, 0, 0, 8]"
  by code_simp+

lemma two_accounts_values:
  "host_get True ''a'' two_accounts = Some [0, 0, 0, 5]" "host_get True ''b'' two_accounts = Some [0, 0, 0, 7]"
  "writable ''a'' two_accounts" "writable ''b'' two_accounts"
  by (simp_all add: two_accounts_def host_get_def get_resource_def Let_def writable_def)

theorem transfer_outcomes_witness:
  "transfer_handle (host_get True) host_set transfer_a_b two_accounts =
     (Inr (Output (dumps (JObj [(''success'', JBool True)]))),
      host_set ''a'' [0, 0, 0, 4] (host_set ''b'' [0, 0, 0, 8] two_accounts))"
  using transfer_outcomes [OF two_accounts_values, of "[]"]
  by (simp add: transfer_a_b_def int_from_bytes_def small_balances Let_def del: dumps.simps)

end
