(* ===== verification/Host.thy ===== *)
theory Host
  imports AbortFunctions Serial YcsbFunctions
begin

section \<open>The worker running the functions of the applications\<close>

text \<open>
  \<open>src/execution/wasm/wasm_runner.hpp\<close> with the functions under \<open>applications/\<close>: the runner finds
  the function of a task by its name, runs it on the task's input and storage, and turns every
  exception into the result false. This makes the functions of the applications an executor of
  \<open>Behaviours\<close>, and shows that they keep the contract of \<open>function_host\<close>.
\<close>

type_synonym function_table = "string \<Rightarrow> storage handler option"

definition run_on_host :: "function_table \<Rightarrow> executor" where
  "run_on_host functions info st =
     (case functions (func_name info) of
        None \<Rightarrow> (False, st)
      | Some handle \<Rightarrow>
          (case handle \<lparr>event_data = dumps (input_data (input_event info))\<rparr> st of
             (Inl e, st') \<Rightarrow> (False, st')
           | (Inr out, st') \<Rightarrow> (True, st')))"

definition ycsb_functions :: "bool \<Rightarrow> function_table" where
  "ycsb_functions host = map_of
     [(''transfer'', transfer_handle (host_get host) host_set), (''write'', write_handle (host_get host) host_set)]"

definition hotel_functions :: "bool \<Rightarrow> np_ops \<Rightarrow> (pyerr \<Rightarrow> string) \<Rightarrow> function_table" where
  "hotel_functions host np msg = map_of
     [(''write-string'', write_string_handle host_set), (''create-order'', create_order_handle host_set),
      (''reserve-flight'', reserve_flight_handle (host_get host) host_set msg),
      (''reserve-hotel'', reserve_hotel_handle (host_get host) host_set msg),
      (''get-user'', get_user_handle (host_get host) msg), (''get-rates'', get_rates_handle (host_get host) msg),
      (''get-recommendations'', get_recommendations_handle (host_get host) np),
      (''nearby'', nearby_handle (host_get host) host_set np)]"

definition abort_functions :: "bool \<Rightarrow> function_table" where
  "abort_functions host = map_of
     [(''write-string'', ab_write_string_handle host_set), (''create-order'', ab_create_order_handle host_set),
      (''reserve-flight'', ab_reserve_flight_handle (host_get host) host_set),
      (''reserve-hotel'', ab_reserve_hotel_handle (host_get host) host_set)]"

definition staged_table :: "function_table \<Rightarrow> bool" where
  "staged_table functions \<longleftrightarrow> (\<forall>name h. functions name = Some h \<longrightarrow> (\<forall>ev. stages_only (h ev)))"

lemma staged_tables:
  "staged_table (ycsb_functions host)" "staged_table (hotel_functions host np msg)" "staged_table (abort_functions host)"
  unfolding staged_table_def ycsb_functions_def hotel_functions_def abort_functions_def
  by (simp_all add: ycsb_stages_only hotel_stages_only abort_stages_only)

lemma run_on_host_sandboxed: "staged_table functions \<Longrightarrow> function_host (run_on_host functions)"
proof
  fix st info
  assume staged: "staged_table functions"
  show "same_committed st (snd (run_on_host functions info st))"
  proof (cases "functions (func_name info)")
    case (Some h)
    let ?m = "h \<lparr>event_data = dumps (input_data (input_event info))\<rparr>"
    have "same_committed st (snd (?m st))"
      using staged Some by (intro stages_only_same_committed) (simp add: staged_table_def)
    then show ?thesis
      by (cases "?m st"; cases "fst (?m st)") (simp_all add: run_on_host_def Some)
  qed (simp add: run_on_host_def)
qed

interpretation ycsb_host: function_host "run_on_host (ycsb_functions host)" for host
  by (intro run_on_host_sandboxed staged_tables)

interpretation hotel_host: function_host "run_on_host (hotel_functions host np msg)" for host np msg
  by (intro run_on_host_sandboxed staged_tables)

interpretation abort_host: function_host "run_on_host (abort_functions host)" for host
  by (intro run_on_host_sandboxed staged_tables)

end
