(* ===== verification/Scheduler.thy ===== *)
theory Scheduler
  imports Serial "HOL-Library.AList"
begin

section \<open>The scheduler\<close>

text \<open>
  \<open>src/workflow/scheduler.cpp\<close>, \<open>resolve_resources\<close> of \<open>src/workflow/resource_bindings.cpp\<close> and the
  structs of \<open>src/workflow/model/invocation.hpp\<close>. One thread, the dispatcher, turns an invocation into
  the behaviours of \<open>Behaviours\<close>, in order; it never touches a resource itself. Its state is the map
  from the names of the global resources to their cowns, each with the number of its uses. A new cown
  gets the next number. The resources of an invocation are found under \<open><id>:<name>\<close> and live in cowns
  that only this invocation knows.

  An \<open>unordered_set\<close> is a list in the order of insertion, the order of its iteration is not specified.
  The number of uses is a \<open>uint64_t\<close>; the copies in the closures are of type \<open>int\<close>.
\<close>

record dispatch =
  resource_map :: "string \<rightharpoonup> cown \<times> 64 word"
  next_cown :: cown

record invocation =
  invocation_id :: "64 word"
  workflow_resources :: "string \<rightharpoonup> cown"
  workflow_rw_resources :: "string list"
  invocation_cown :: cown
  request :: invoke_request

definition make_cown :: "dispatch \<Rightarrow> cown \<times> dispatch" where
  "make_cown d = (next_cown d, d\<lparr>next_cown := Suc (next_cown d)\<rparr>)"

text \<open>Conversion to \<open>int\<close> and back.\<close>

definition as_int :: "64 word \<Rightarrow> 64 word" where
  "as_int w = signed_take_bit 31 w"

subsection \<open>The resources of a node\<close>

record resolution =
  r_dispatch :: dispatch
  r_inv :: invocation
  res_inputs :: resource_inputs
  res_names :: "string list"
  res_ro :: "string list"
  val_inputs :: value_inputs

definition runtime_name :: "resource_binding \<Rightarrow> resolution \<Rightarrow> string \<Rightarrow> string" where
  "runtime_name cur r entry =
     (if is_local cur then nat_str (unat (invocation_id (r_inv r))) @ '':'' @ entry else entry)"

text \<open>A local resource gets its cown when it is first named.\<close>

definition ensure_local :: "string \<Rightarrow> resolution \<Rightarrow> resolution" where
  "ensure_local n r =
     (if workflow_resources (r_inv r) n \<noteq> None then r
      else (let (c, d) = make_cown (r_dispatch r) in
            r\<lparr>r_dispatch := d, r_inv := (r_inv r)\<lparr>workflow_resources := (workflow_resources (r_inv r))(n \<mapsto> c)\<rparr>\<rparr>))"

definition add_name :: "bool \<Rightarrow> resource_binding \<Rightarrow> string \<Rightarrow> resolution \<Rightarrow> resolution" where
  "add_name track cur n r =
     (let r' = (if is_local cur then ensure_local n r else r) in
      r'\<lparr>res_names := res_names r' @ [n],
         res_ro := (if track \<and> read_only_mode cur then List.insert n (res_ro r') else res_ro r')\<rparr>)"

definition resolve_binding :: "bool \<Rightarrow> bool \<Rightarrow> resource_binding \<Rightarrow> resolution \<Rightarrow> unit fallible \<times> resolution" where
  "resolve_binding allow_variadic track cur r =
     (case map_of (req_input (request (r_inv r))) (key cur) of
        None \<Rightarrow> (Inl ((if immediate cur then ''missing value resource '' else ''missing resource '') @ key cur @ '' in invocation''), r)
      | Some f \<Rightarrow>
          if immediate cur then (Inr (), r\<lparr>val_inputs := AList.update (local_name cur) f (val_inputs r)\<rparr>)
          else if kind f = KArray then
            (if \<not> allow_variadic then (Inl (''resource '' @ key cur @ '' must map to a string''), r)
             else case get_string_array f of
                    None \<Rightarrow> (Inl (''resource '' @ key cur @ '' array entries must be strings''), r)
                  | Some entries \<Rightarrow>
                      (let names = map (runtime_name cur r) entries;
                           r' = fold (add_name track cur) names r
                       in (Inr (), r'\<lparr>res_inputs := AList.update (local_name cur) (RStrings names) (res_inputs r')\<rparr>)))
          else if kind f \<noteq> KString then
            (Inl (''resource '' @ key cur @ '' must map to a string or array of strings''), r)
          else
            (let n = runtime_name cur r (string_value f);
                 r' = add_name track cur n r
             in (Inr (), r'\<lparr>res_inputs := AList.update (local_name cur) (RString n) (res_inputs r')\<rparr>)))"

fun resolve_resources :: "bool \<Rightarrow> bool \<Rightarrow> resource_binding list \<Rightarrow> resolution \<Rightarrow> unit fallible \<times> resolution" where
  "resolve_resources allow_variadic track [] r = (Inr (), r)"
| "resolve_resources allow_variadic track (cur # bs) r =
     (case resolve_binding allow_variadic track cur r of
        (Inl e, r') \<Rightarrow> (Inl e, r')
      | (Inr _, r') \<Rightarrow> resolve_resources allow_variadic track bs r')"

subsection \<open>Scheduling a task\<close>

definition find_or_make :: "string \<Rightarrow> dispatch \<Rightarrow> (cown \<times> 64 word) \<times> dispatch" where
  "find_or_make n d =
     (case resource_map d n of
        Some ck \<Rightarrow> (ck, d)
      | None \<Rightarrow> (let (c, d') = make_cown d in ((c, 0), d'\<lparr>resource_map := (resource_map d')(n \<mapsto> (c, 0))\<rparr>)))"

record uses =
  u_dispatch :: dispatch
  u_inv :: invocation
  u_rw :: "cown list"
  u_ro :: "cown list"
  u_refs :: "string \<rightharpoonup> 64 word"

text \<open>One turn of the loop over the resources of a task.\<close>

definition use_resource :: "string list \<Rightarrow> string \<Rightarrow> uses \<Rightarrow> uses" where
  "use_resource ro n u =
     (case workflow_resources (u_inv u) n of
        Some c \<Rightarrow> if n \<in> set ro then u\<lparr>u_ro := u_ro u @ [c]\<rparr> else u\<lparr>u_rw := u_rw u @ [c]\<rparr>
      | None \<Rightarrow>
          (let ((c, k), d) = find_or_make n (u_dispatch u);
               k' = k + 1;
               u' = u\<lparr>u_dispatch := d\<lparr>resource_map := (resource_map d)(n \<mapsto> (c, k'))\<rparr>,
                      u_refs := (u_refs u)(n \<mapsto> as_int k')\<rparr>
           in if n \<in> set ro then u'\<lparr>u_ro := u_ro u @ [c]\<rparr>
              else u'\<lparr>u_rw := u_rw u @ [c],
                      u_inv := (u_inv u)\<lparr>workflow_rw_resources :=
                        (if n \<in> set (workflow_rw_resources (u_inv u)) then workflow_rw_resources (u_inv u)
                         else workflow_rw_resources (u_inv u) @ [n])\<rparr>\<rparr>))"

definition schedule_function :: "wasm_func_info \<Rightarrow> branch_guard \<Rightarrow> dispatch \<Rightarrow> invocation
    \<Rightarrow> behaviour \<times> dispatch \<times> invocation" where
  "schedule_function info guard d iv =
     (let u = fold (use_resource (read_only info)) (resources info)
                \<lparr>u_dispatch = d, u_inv = iv, u_rw = [], u_ro = [], u_refs = Map.empty\<rparr>
      in (RunTask \<lparr>t_inv = invocation_id iv, t_can_abort = req_can_abort (request iv), t_guard = guard,
            t_ic = invocation_cown iv, t_info = info, t_rw = u_rw u, t_ro = u_ro u,
            t_globals = set (workflow_rw_resources (u_inv u)), t_refs = u_refs u\<rparr>,
          u_dispatch u, u_inv u))"

definition set_input_data :: "json \<Rightarrow> wasm_func_info \<Rightarrow> wasm_func_info" where
  "set_input_data j info = info\<lparr>input_event := (input_event info)\<lparr>input_data := j\<rparr>\<rparr>"

definition run_task_node :: "node \<Rightarrow> branch_guard \<Rightarrow> dispatch \<Rightarrow> invocation
    \<Rightarrow> behaviour fallible \<times> dispatch \<times> invocation" where
  "run_task_node nd guard d iv =
     (case node_func nd of
        None \<Rightarrow> (Inl (''unbound function '' @ node_func_id nd), d, iv)
      | Some f \<Rightarrow>
          (case resolve_resources True True (bindings nd)
                  \<lparr>r_dispatch = d, r_inv = iv, res_inputs = [], res_names = resources f, res_ro = read_only f, val_inputs = []\<rparr> of
             (Inl e, r) \<Rightarrow> (Inl e, r_dispatch r, r_inv r)
           | (Inr _, r) \<Rightarrow>
               (let info = set_input_data (dump_task_input (res_inputs r) (val_inputs r))
                             (f\<lparr>resources := res_names r, read_only := res_ro r\<rparr>);
                    (b, d', iv') = schedule_function info guard (r_dispatch r) (r_inv r)
                in (Inr b, d', iv'))))"

subsection \<open>Scheduling a choice\<close>

text \<open>One turn of the loop over the resources of a choice: the number of uses stays.\<close>

definition choose_cown :: "invocation \<Rightarrow> string \<Rightarrow> cown list \<times> dispatch \<Rightarrow> cown list \<times> dispatch" where
  "choose_cown iv n st =
     (case workflow_resources iv n of
        Some c \<Rightarrow> (fst st @ [c], snd st)
      | None \<Rightarrow> (let ((c, k), d) = find_or_make n (snd st) in (fst st @ [c], d)))"

definition schedule_choice_node :: "node \<Rightarrow> cown \<Rightarrow> branch_guard \<Rightarrow> dispatch \<Rightarrow> invocation
    \<Rightarrow> behaviour fallible \<times> dispatch \<times> invocation" where
  "schedule_choice_node nd control guard d iv =
     (case resolve_resources False False (bindings nd)
             \<lparr>r_dispatch = d, r_inv = iv, res_inputs = [], res_names = [], res_ro = [], val_inputs = []\<rparr> of
        (Inl e, r) \<Rightarrow> (Inl e, r_dispatch r, r_inv r)
      | (Inr _, r) \<Rightarrow>
          (let (cs, d') = fold (choose_cown (r_inv r)) (res_names r) ([], r_dispatch r)
           in (Inr (EvalChoice \<lparr>c_inv = invocation_id iv, c_can_abort = req_can_abort (request iv), c_guard = guard,
                 c_ic = invocation_cown iv, c_control = control, c_edges = node_choices nd, c_inputs = res_inputs r,
                 c_values = val_inputs r, c_names = res_names r, c_cowns = cs\<rparr>), d', r_inv r)))"

subsection \<open>Scheduling a workflow\<close>

fun commit_entries :: "string list \<Rightarrow> dispatch \<Rightarrow> (string \<times> cown \<times> 64 word) list \<times> dispatch" where
  "commit_entries [] d = ([], d)"
| "commit_entries (n # ns) d =
     (case resource_map d n of
        None \<Rightarrow> commit_entries ns d
      | Some (c, k) \<Rightarrow>
          (let (es, d') = commit_entries ns (d\<lparr>resource_map := (resource_map d)(n \<mapsto> (c, k + 1))\<rparr>)
           in ((n, c, as_int (k + 1)) # es, d')))"

definition schedule_commit_behaviour :: "invocation \<Rightarrow> dispatch \<Rightarrow> behaviour \<times> dispatch" where
  "schedule_commit_behaviour iv d =
     (if \<not> req_can_abort (request iv) then (Complete (invocation_id iv) (invocation_cown iv), d)
      else
        (let (es, d') = commit_entries (workflow_rw_resources iv) d in
         if es = [] then (Complete (invocation_id iv) (invocation_cown iv), d')
         else (Commit \<lparr>m_inv = invocation_id iv, m_ic = invocation_cown iv, m_entries = es\<rparr>, d')))"

text \<open>The queue holds the nodes still to schedule, with the branch that each is in.\<close>

fun nodes_in :: "node \<Rightarrow> nat"
  and edge_nodes :: "edge \<Rightarrow> nat" where
  "nodes_in (Node w s ty f fn bs en next es) =
     Suc ((case next of None \<Rightarrow> 0 | Some m \<Rightarrow> nodes_in m) + sum_list (map edge_nodes es))"
| "edge_nodes (Edge v oper val next) = (case next of None \<Rightarrow> 0 | Some m \<Rightarrow> nodes_in m)"

type_synonym queue_item = "node \<times> branch_guard"

definition edge_items :: "cown \<Rightarrow> edge list \<Rightarrow> queue_item list" where
  "edge_items control es =
     concat (map (\<lambda>(i, e). case edge_next e of None \<Rightarrow> [] | Some m \<Rightarrow> [(m, Some (control, int i))]) (enumerate 0 es))"

definition queue_nodes :: "queue_item list \<Rightarrow> nat" where
  "queue_nodes q = sum_list (map (nodes_in \<circ> fst) q)"

lemma queue_nodes_simps [simp]:
  "queue_nodes [] = 0" "queue_nodes (x # q) = nodes_in (fst x) + queue_nodes q"
  "queue_nodes (q @ q') = queue_nodes q + queue_nodes q'"
  by (simp_all add: queue_nodes_def)

lemma nodes_in_pos [simp]: "0 < nodes_in nd"
  by (cases nd) simp

lemma edge_nodes_next: "edge_nodes e = (case edge_next e of None \<Rightarrow> 0 | Some m \<Rightarrow> nodes_in m)"
  by (cases e) simp

lemma queue_nodes_edges: "queue_nodes (edge_items control es) = sum_list (map edge_nodes es)"
proof -
  have "queue_nodes (concat (map (\<lambda>(i, e). case edge_next e of None \<Rightarrow> [] | Some m \<Rightarrow> [(m, Some (control, int i))])
      (enumerate k es))) = sum_list (map edge_nodes es)" for k
    by (induction es arbitrary: k) (auto simp: edge_nodes_next split: option.splits)
  then show ?thesis by (simp add: edge_items_def)
qed

lemma nodes_in_choices: "sum_list (map edge_nodes (node_choices nd)) < nodes_in nd"
  by (cases nd) simp

lemma nodes_in_next: "node_next nd = Some m \<Longrightarrow> nodes_in m < nodes_in nd"
  by (cases nd) simp

function schedule_queue :: "queue_item list \<Rightarrow> dispatch \<Rightarrow> invocation
    \<Rightarrow> behaviour list \<times> string option \<times> dispatch \<times> invocation" where
  "schedule_queue [] d iv = ([], None, d, iv)"
| "schedule_queue ((nd, guard) # q) d iv =
     (case ntype nd of
        NTask \<Rightarrow>
          (case run_task_node nd guard d iv of
             (Inl e, d', iv') \<Rightarrow> ([], Some e, d', iv')
           | (Inr b, d', iv') \<Rightarrow>
               if node_end nd then
                 (let (bs, rest) = schedule_queue q d' iv' in (b # bs, rest))
               else
                 (case node_next nd of
                    None \<Rightarrow> ([b], Some ''node has no Next and End=false'', d', iv')
                  | Some m \<Rightarrow> (let (bs, rest) = schedule_queue (q @ [(m, guard)]) d' iv' in (b # bs, rest))))
      | NChoice \<Rightarrow>
          (let (control, d1) = make_cown d in
           case schedule_choice_node nd control guard d1 iv of
             (Inl e, d', iv') \<Rightarrow> ([], Some e, d', iv')
           | (Inr b, d', iv') \<Rightarrow>
               (let (bs, rest) = schedule_queue (q @ edge_items control (node_choices nd)) d' iv' in (b # bs, rest)))
      | NUnknown \<Rightarrow> ([], Some ''unknown node type'', d, iv))"
  by pat_completeness auto

termination
  by (relation "measure (\<lambda>(q, d, iv). queue_nodes q)")
     (auto simp: queue_nodes_edges nodes_in_choices nodes_in_next)

text \<open>
  \<open>schedule_graph\<close>: the result is the behaviours, the value returned and the message. The dispatcher
  sets the failed flag before it schedules the final behaviour.
\<close>

definition schedule_graph :: "node \<Rightarrow> invocation \<Rightarrow> dispatch \<Rightarrow> behaviour list \<times> bool \<times> string option \<times> dispatch" where
  "schedule_graph nd iv d =
     (let (bs, err, d', iv') = schedule_queue [(nd, None)] d iv;
          failed = (if err = None then [] else [SchedulingFailed (invocation_id iv) (invocation_cown iv)]);
          (fin, d'') = schedule_commit_behaviour iv' d'
      in (bs @ failed @ [fin], if \<not> req_can_abort (request iv) then True else err = None, err, d''))"

definition scheduling_invoke :: "workflow_registry \<Rightarrow> invoke_request \<Rightarrow> 64 word \<Rightarrow> dispatch
    \<Rightarrow> behaviour list \<times> bool \<times> string option \<times> dispatch" where
  "scheduling_invoke workflows req i d =
     (case workflow_find workflows (req_workflow_id req) of
        None \<Rightarrow> ([], False, Some (''unknown workflow id: '' @ req_workflow_id req), d)
      | Some rt \<Rightarrow>
          (let (ic, d') = make_cown d in
           schedule_graph rt \<lparr>invocation_id = i, workflow_resources = Map.empty, workflow_rw_resources = [],
             invocation_cown = ic, request = req\<rparr> d'))"

text \<open>\<open>pop\<close> of an empty queue gives an empty name, which ends the loop; so does an entry with an empty name.\<close>

fun cleanup_resources :: "(string \<times> 64 word) list \<Rightarrow> dispatch \<Rightarrow> (string \<times> 64 word) list \<times> dispatch" where
  "cleanup_resources [] d = ([], d)"
| "cleanup_resources ((n, k) # q) d =
     (if n = [] then (q, d)
      else cleanup_resources q
             (case resource_map d n of
                Some (c, k') \<Rightarrow> if k' = k then d\<lparr>resource_map := (resource_map d)(n := None)\<rparr> else d
              | None \<Rightarrow> d))"

definition get_resource_async :: "string \<Rightarrow> string \<Rightarrow> dispatch \<Rightarrow> behaviour list option" where
  "get_resource_async n reply d =
     (case resource_map d n of None \<Rightarrow> None | Some (c, k) \<Rightarrow> Some [Fetch reply c])"

subsection \<open>The cowns of an invocation\<close>

definition globals :: "dispatch \<Rightarrow> cown set" where
  "globals d = fst ` ran (resource_map d)"

definition dispatch_ok :: "dispatch \<Rightarrow> bool" where
  "dispatch_ok d \<longleftrightarrow> globals d \<subseteq> {..<next_cown d}"

text \<open>The cowns made since the next one was \<open>n0\<close> that are not those of a global resource.\<close>

definition owned :: "cown \<Rightarrow> dispatch \<Rightarrow> cown set" where
  "owned n0 d = {n0..<next_cown d} - globals d"

definition grows :: "dispatch \<Rightarrow> dispatch \<Rightarrow> bool" where
  "grows d d' \<longleftrightarrow> next_cown d \<le> next_cown d' \<and> globals d' \<subseteq> globals d \<union> {next_cown d..<next_cown d'}
     \<and> (\<forall>n c k. resource_map d n = Some (c, k) \<longrightarrow> (\<exists>k'. resource_map d' n = Some (c, k')))"

lemma globalsI: "resource_map d n = Some (c, k) \<Longrightarrow> c \<in> globals d"
  by (force simp: globals_def ran_def image_iff)

lemma globalsE: "c \<in> globals d \<Longrightarrow> \<exists>n k. resource_map d n = Some (c, k)"
  by (auto simp: globals_def ran_def) blast

lemma grows_globals: "grows d d' \<Longrightarrow> globals d \<subseteq> globals d'"
  by (meson globalsE globalsI grows_def subsetI)

lemma grows_refl [simp, intro]: "grows d d"
  by (simp add: grows_def)

lemma grows_trans [trans]:
  assumes "grows d d'" and "grows d' d''"
  shows "grows d d''"
proof -
  have "globals d'' \<subseteq> globals d \<union> {next_cown d..<next_cown d''}"
    using assms by (fastforce simp: grows_def)
  then show ?thesis using assms unfolding grows_def by (meson order_trans)
qed

lemma grows_ok: "grows d d' \<Longrightarrow> dispatch_ok d \<Longrightarrow> dispatch_ok d'"
  by (fastforce simp: grows_def dispatch_ok_def)

lemma owned_mono: "grows d d' \<Longrightarrow> dispatch_ok d \<Longrightarrow> owned n0 d \<subseteq> owned n0 d'"
  by (fastforce simp: grows_def dispatch_ok_def owned_def)

lemma grows_make_cown:
  assumes "make_cown d = (c, d')"
  shows "grows d d'" and "n0 \<le> next_cown d \<Longrightarrow> dispatch_ok d \<Longrightarrow> c \<in> owned n0 d'" and "resource_map d' = resource_map d"
  using assms by (force simp: make_cown_def grows_def globals_def dispatch_ok_def owned_def)+

lemma grows_update:
  assumes "resource_map d n = Some (c, k)"
  shows "grows d (d\<lparr>resource_map := (resource_map d)(n \<mapsto> (c, k'))\<rparr>)"
    and "globals (d\<lparr>resource_map := (resource_map d)(n \<mapsto> (c, k'))\<rparr>) = globals d"
proof -
  show "globals (d\<lparr>resource_map := (resource_map d)(n \<mapsto> (c, k'))\<rparr>) = globals d" (is "globals ?d = _")
  proof (intro set_eqI iffI)
    fix x
    assume "x \<in> globals ?d"
    then obtain m j where "resource_map ?d m = Some (x, j)" by (blast dest: globalsE)
    then have "\<exists>j. resource_map d m = Some (x, j)" using assms by (cases "m = n") auto
    then show "x \<in> globals d" by (blast intro: globalsI)
  next
    fix x
    assume "x \<in> globals d"
    then obtain m j where "resource_map d m = Some (x, j)" by (blast dest: globalsE)
    then have "\<exists>j. resource_map ?d m = Some (x, j)" using assms by (cases "m = n") auto
    then show "x \<in> globals ?d" by (blast intro: globalsI)
  qed
  then show "grows d ?d" using assms by (auto simp: grows_def)
qed

lemma grows_find:
  assumes "find_or_make n d = ((c, k), d')"
  shows "grows d d'" and "resource_map d' n = Some (c, k)"
proof -
  have "resource_map d' n = Some (c, k) \<and> grows d d'"
  proof (cases "resource_map d n")
    case None
    with assms have d': "d' = d\<lparr>next_cown := Suc (next_cown d), resource_map := (resource_map d)(n \<mapsto> (next_cown d, 0))\<rparr>"
      "c = next_cown d" "k = 0" by (auto simp: find_or_make_def make_cown_def)
    have "globals d' \<subseteq> insert (next_cown d) (globals d)"
      by (force simp: d' globals_def ran_def split: if_splits)
    then show ?thesis using None by (auto simp: grows_def d')
  next
    case (Some ck)
    with assms show ?thesis by (auto simp: find_or_make_def)
  qed
  then show "grows d d'" "resource_map d' n = Some (c, k)" by auto
qed

text \<open>What holds of the dispatcher's state while it schedules an invocation.\<close>

definition rw_cowns :: "dispatch \<Rightarrow> invocation \<Rightarrow> cown set" where
  "rw_cowns d iv = {c. \<exists>n\<in>set (workflow_rw_resources iv). \<exists>k. resource_map d n = Some (c, k)}"

definition inv_ok :: "cown \<Rightarrow> dispatch \<Rightarrow> invocation \<Rightarrow> bool" where
  "inv_ok n0 d iv \<longleftrightarrow> dispatch_ok d \<and> n0 \<le> next_cown d \<and> invocation_cown iv \<in> owned n0 d
     \<and> ran (workflow_resources iv) \<subseteq> owned n0 d \<and> set (workflow_rw_resources iv) \<subseteq> dom (resource_map d)"

definition same_run :: "invocation \<Rightarrow> invocation \<Rightarrow> bool" where
  "same_run iv iv' \<longleftrightarrow> invocation_id iv' = invocation_id iv \<and> invocation_cown iv' = invocation_cown iv
     \<and> request iv' = request iv \<and> set (workflow_rw_resources iv) \<subseteq> set (workflow_rw_resources iv')"

definition advances :: "dispatch \<Rightarrow> invocation \<Rightarrow> dispatch \<Rightarrow> invocation \<Rightarrow> bool" where
  "advances d iv d' iv' \<longleftrightarrow> grows d d' \<and> same_run iv iv' \<and> (\<forall>n0. inv_ok n0 d iv \<longrightarrow> inv_ok n0 d' iv')"

lemma same_run_trans: "same_run iv iv' \<Longrightarrow> same_run iv' iv'' \<Longrightarrow> same_run iv iv''"
  by (auto simp: same_run_def)

lemma same_run_refl [simp]: "same_run iv iv"
  by (simp add: same_run_def)

lemma advances_refl [simp, intro]: "advances d iv d iv"
  by (simp add: advances_def)

lemma advances_trans [trans]: "advances d iv d' iv' \<Longrightarrow> advances d' iv' d'' iv'' \<Longrightarrow> advances d iv d'' iv''"
  using grows_trans same_run_trans unfolding advances_def by metis

lemma grows_dom: "grows d d' \<Longrightarrow> dom (resource_map d) \<subseteq> dom (resource_map d')"
  unfolding grows_def dom_def by fastforce

text \<open>Only the map grows.\<close>

lemma advances_grows:
  assumes "grows d d'"
  shows "advances d iv d' iv"
proof -
  have "inv_ok n0 d' iv" if "inv_ok n0 d iv" for n0
    using that grows_ok [OF assms] owned_mono [OF assms, of n0] grows_dom [OF assms] assms
    unfolding inv_ok_def by (meson grows_def order_trans subset_iff)
  then show ?thesis using assms by (simp add: advances_def)
qed

definition scheduled :: "cown \<Rightarrow> dispatch \<Rightarrow> invocation \<Rightarrow> behaviour \<Rightarrow> bool" where
  "scheduled n0 d iv b \<longleftrightarrow> behaviour_ok b \<and> inv_of b = Some (invocation_id iv) \<and> invocation_cown iv \<in> reads b
     \<and> body_ok (req_can_abort (request iv)) (owned n0 d) (rw_cowns d iv) b
     \<and> writes b \<union> reads b \<subseteq> owned n0 d \<union> globals d"

lemma rw_cowns_mono: "advances d iv d' iv' \<Longrightarrow> rw_cowns d iv \<subseteq> rw_cowns d' iv'"
  unfolding rw_cowns_def advances_def grows_def same_run_def by blast

lemma body_ok_mono: "body_ok ab P C b \<Longrightarrow> P \<subseteq> P' \<Longrightarrow> C \<subseteq> C' \<Longrightarrow> body_ok ab P' C' b"
  by (cases b) auto

lemma scheduled_mono:
  assumes "scheduled n0 d iv b" and "advances d iv d' iv'" and "inv_ok n0 d iv"
  shows "scheduled n0 d' iv' b"
proof -
  have "owned n0 d \<subseteq> owned n0 d'" using assms owned_mono by (auto simp: advances_def inv_ok_def)
  moreover have "globals d \<subseteq> globals d'" using assms grows_globals by (auto simp: advances_def)
  moreover note rw_cowns_mono [OF assms(2)]
  ultimately show ?thesis
    using assms body_ok_mono [of "req_can_abort (request iv)" "owned n0 d" "rw_cowns d iv" b]
    by (auto simp: scheduled_def advances_def same_run_def)
qed

subsection \<open>Every operation of the scheduler keeps the invariant\<close>

lemma advances_ensure_local: "advances (r_dispatch r) (r_inv r) (r_dispatch (ensure_local n r)) (r_inv (ensure_local n r))"
proof (cases "workflow_resources (r_inv r) n")
  case None
  obtain c d where mk: "make_cown (r_dispatch r) = (c, d)" by (cases "make_cown (r_dispatch r)")
  let ?iv = "(r_inv r)\<lparr>workflow_resources := (workflow_resources (r_inv r))(n \<mapsto> c)\<rparr>"
  note g = grows_make_cown [OF mk]
  have "inv_ok n0 d ?iv" if "inv_ok n0 (r_dispatch r) (r_inv r)" for n0
  proof -
    have "inv_ok n0 d (r_inv r)" using that advances_grows [OF g(1)] by (simp add: advances_def)
    moreover have "c \<in> owned n0 d" using that g(2) by (simp add: inv_ok_def)
    ultimately show ?thesis by (auto simp: inv_ok_def ran_def)
  qed
  then show ?thesis using None g(1) by (simp add: ensure_local_def mk advances_def same_run_def)
qed (simp add: ensure_local_def)

lemma advances_add_name: "advances (r_dispatch r) (r_inv r) (r_dispatch (add_name track cur n r)) (r_inv (add_name track cur n r))"
  using advances_ensure_local [of r n] by (simp add: add_name_def Let_def)

lemma advances_fold_names:
  "advances (r_dispatch r) (r_inv r) (r_dispatch (fold (add_name track cur) ns r)) (r_inv (fold (add_name track cur) ns r))"
proof (induction ns arbitrary: r)
  case (Cons n ns)
  have "advances (r_dispatch r) (r_inv r) (r_dispatch (add_name track cur n r)) (r_inv (add_name track cur n r))"
    by (rule advances_add_name)
  also note Cons.IH
  finally show ?case by simp
qed simp

lemma advances_resolve_binding:
  "resolve_binding av track cur r = (res, r') \<Longrightarrow> advances (r_dispatch r) (r_inv r) (r_dispatch r') (r_inv r')"
  by (auto simp: resolve_binding_def Let_def advances_fold_names advances_add_name split: option.splits if_splits)

lemma advances_resolve:
  "resolve_resources av track bs r = (res, r') \<Longrightarrow> advances (r_dispatch r) (r_inv r) (r_dispatch r') (r_inv r')"
proof (induction bs arbitrary: r)
  case (Cons cur bs)
  obtain x r1 where step: "resolve_binding av track cur r = (x, r1)" by (cases "resolve_binding av track cur r")
  note advances_resolve_binding [OF step]
  also have "advances (r_dispatch r1) (r_inv r1) (r_dispatch r') (r_inv r')"
    using Cons step by (cases x) auto
  finally show ?case .
qed simp

text \<open>Where a name leads.\<close>

definition lookup :: "dispatch \<Rightarrow> invocation \<Rightarrow> string \<Rightarrow> cown" where
  "lookup d iv n = (case workflow_resources iv n of Some c \<Rightarrow> c | None \<Rightarrow> fst (the (resource_map d n)))"

definition known :: "dispatch \<Rightarrow> invocation \<Rightarrow> string \<Rightarrow> bool" where
  "known d iv n \<longleftrightarrow> workflow_resources iv n \<noteq> None \<or> resource_map d n \<noteq> None"

lemma lookup_grows:
  "grows d d' \<Longrightarrow> workflow_resources iv' = workflow_resources iv \<Longrightarrow> known d iv n \<Longrightarrow> lookup d' iv' n = lookup d iv n"
  by (force simp: lookup_def known_def grows_def split: option.splits)

lemma known_grows:
  "grows d d' \<Longrightarrow> workflow_resources iv' = workflow_resources iv \<Longrightarrow> known d iv n \<Longrightarrow> known d' iv' n"
  using grows_dom [of d d'] by (fastforce simp: known_def dom_def)

lemma lookup_owned:
  assumes "inv_ok n0 d iv" and "known d iv n"
  shows "lookup d iv n \<in> owned n0 d \<union> globals d"
    and "n \<in> set (workflow_rw_resources iv) \<Longrightarrow> lookup d iv n \<in> owned n0 d \<union> rw_cowns d iv"
proof -
  have w: "workflow_resources iv n = Some c \<Longrightarrow> c \<in> owned n0 d" for c
    using assms(1) by (auto simp: inv_ok_def ran_def)
  show "lookup d iv n \<in> owned n0 d \<union> globals d"
    using assms(2) w globalsI [of d n] by (fastforce simp: lookup_def known_def split: option.splits)
  show "lookup d iv n \<in> owned n0 d \<union> rw_cowns d iv" if "n \<in> set (workflow_rw_resources iv)"
    using assms(2) w that by (fastforce simp: lookup_def known_def rw_cowns_def split: option.splits)
qed

text \<open>The loop of \<open>schedule_function\<close>.\<close>

definition uses_step :: "string list \<Rightarrow> string \<Rightarrow> uses \<Rightarrow> uses \<Rightarrow> bool" where
  "uses_step ro n u u' \<longleftrightarrow> advances (u_dispatch u) (u_inv u) (u_dispatch u') (u_inv u')
     \<and> workflow_resources (u_inv u') = workflow_resources (u_inv u) \<and> known (u_dispatch u') (u_inv u') n
     \<and> u_rw u' = u_rw u @ (if n \<in> set ro then [] else [lookup (u_dispatch u') (u_inv u') n])
     \<and> u_ro u' = u_ro u @ (if n \<in> set ro then [lookup (u_dispatch u') (u_inv u') n] else [])
     \<and> (n \<notin> set ro \<longrightarrow> workflow_resources (u_inv u) n = None \<longrightarrow> n \<in> set (workflow_rw_resources (u_inv u')))"

lemma uses_step_use: "uses_step ro n u (use_resource ro n u)"
proof (cases "workflow_resources (u_inv u) n")
  case (Some c)
  then show ?thesis by (simp add: uses_step_def use_resource_def lookup_def known_def)
next
  case None
  obtain c k d where fm: "find_or_make n (u_dispatch u) = ((c, k), d)" by (metis surj_pair)
  let ?d = "d\<lparr>resource_map := (resource_map d)(n \<mapsto> (c, k + 1))\<rparr>"
  have gr: "grows (u_dispatch u) ?d" using grows_trans [OF grows_find(1) [OF fm] grows_update(1) [OF grows_find(2) [OF fm]]] .
  have n: "resource_map ?d n = Some (c, k + 1)" by simp
  let ?iv = "(u_inv u)\<lparr>workflow_rw_resources := (if n \<in> set (workflow_rw_resources (u_inv u)) then workflow_rw_resources (u_inv u)
       else workflow_rw_resources (u_inv u) @ [n])\<rparr>"
  have adv: "advances (u_dispatch u) (u_inv u) ?d (u_inv u)" using gr by (rule advances_grows)
  have "inv_ok n0 ?d ?iv" if "inv_ok n0 ?d (u_inv u)" for n0
    using that n by (auto simp: inv_ok_def)
  then have adv': "advances (u_dispatch u) (u_inv u) ?d ?iv"
    using adv by (auto simp: advances_def same_run_def)
  show ?thesis
    using None fm adv adv' by (cases "n \<in> set ro") (simp_all add: uses_step_def use_resource_def lookup_def known_def Let_def)
qed

definition uses_steps :: "string list \<Rightarrow> string list \<Rightarrow> uses \<Rightarrow> uses \<Rightarrow> bool" where
  "uses_steps ro ns u u' \<longleftrightarrow> advances (u_dispatch u) (u_inv u) (u_dispatch u') (u_inv u')
     \<and> workflow_resources (u_inv u') = workflow_resources (u_inv u)
     \<and> (\<forall>n\<in>set ns. known (u_dispatch u') (u_inv u') n)
     \<and> u_rw u' = u_rw u @ map (lookup (u_dispatch u') (u_inv u')) (filter (\<lambda>n. n \<notin> set ro) ns)
     \<and> u_ro u' = u_ro u @ map (lookup (u_dispatch u') (u_inv u')) (filter (\<lambda>n. n \<in> set ro) ns)
     \<and> (\<forall>n\<in>set ns. n \<notin> set ro \<longrightarrow> workflow_resources (u_inv u) n = None \<longrightarrow> n \<in> set (workflow_rw_resources (u_inv u')))"

lemma uses_steps_fold: "uses_steps ro ns u (fold (use_resource ro) ns u)"
proof (induction ns arbitrary: u)
  case Nil
  show ?case by (simp add: uses_steps_def)
next
  case (Cons n ns)
  let ?u1 = "use_resource ro n u"
  let ?u2 = "fold (use_resource ro) ns ?u1"
  have 1: "uses_step ro n u ?u1" by (rule uses_step_use)
  have 2: "uses_steps ro ns ?u1 ?u2" by (rule Cons.IH)
  have gr: "grows (u_dispatch ?u1) (u_dispatch ?u2)" "workflow_resources (u_inv ?u2) = workflow_resources (u_inv ?u1)"
    "set (workflow_rw_resources (u_inv ?u1)) \<subseteq> set (workflow_rw_resources (u_inv ?u2))"
    using 2 by (auto simp: uses_steps_def advances_def same_run_def)
  have n: "known (u_dispatch ?u1) (u_inv ?u1) n" using 1 by (simp add: uses_step_def)
  have "advances (u_dispatch u) (u_inv u) (u_dispatch ?u2) (u_inv ?u2)"
    using 1 2 advances_trans unfolding uses_step_def uses_steps_def by blast
  then show ?case
    using 1 2 gr(3) lookup_grows [OF gr(1,2) n] known_grows [OF gr(1,2) n]
    by (auto simp: uses_step_def uses_steps_def)
qed

text \<open>The runner hands the cowns out again under their names.\<close>

lemma runner_binds_lookup:
  "runner_binds ro ns (map f (filter (\<lambda>n. n \<notin> set ro) ns)) (map f (filter (\<lambda>n. n \<in> set ro) ns)) = map (\<lambda>n. (n, f n)) ns"
  by (induction ns) simp_all

definition guarded :: "cown \<Rightarrow> dispatch \<Rightarrow> branch_guard \<Rightarrow> bool" where
  "guarded n0 d guard \<longleftrightarrow> guard_cowns guard \<subseteq> owned n0 d"

lemma guarded_mono: "guarded n0 d g \<Longrightarrow> advances d iv d' iv' \<Longrightarrow> inv_ok n0 d iv \<Longrightarrow> guarded n0 d' g"
  using owned_mono [of d d' n0] by (auto simp: guarded_def advances_def inv_ok_def)

lemma scheduled_function:
  assumes "schedule_function info guard d iv = (b, d', iv')" and "inv_ok n0 d iv" and "guarded n0 d guard"
  shows "advances d iv d' iv'" and "scheduled n0 d' iv' b"
proof -
  let ?ro = "read_only info" and ?ns = "resources info"
  define u where "u = fold (use_resource ?ro) ?ns \<lparr>u_dispatch = d, u_inv = iv, u_rw = [], u_ro = [], u_refs = Map.empty\<rparr>"
  have st: "uses_steps ?ro ?ns \<lparr>u_dispatch = d, u_inv = iv, u_rw = [], u_ro = [], u_refs = Map.empty\<rparr> u"
    unfolding u_def by (rule uses_steps_fold)
  from assms(1) have d': "d' = u_dispatch u" "iv' = u_inv u"
    and b: "b = RunTask \<lparr>t_inv = invocation_id iv, t_can_abort = req_can_abort (request iv), t_guard = guard,
            t_ic = invocation_cown iv, t_info = info, t_rw = u_rw u, t_ro = u_ro u,
            t_globals = set (workflow_rw_resources (u_inv u)), t_refs = u_refs u\<rparr>"
    by (auto simp: schedule_function_def Let_def u_def)
  show adv: "advances d iv d' iv'" using st by (simp add: uses_steps_def d')
  with assms(2) have ok: "inv_ok n0 d' iv'" and same: "same_run iv iv'" by (auto simp: advances_def)
  let ?f = "lookup d' iv'"
  have rw: "u_rw u = map ?f (filter (\<lambda>n. n \<notin> set ?ro) ?ns)" and ro: "u_ro u = map ?f (filter (\<lambda>n. n \<in> set ?ro) ?ns)"
    and kn: "\<forall>n\<in>set ?ns. known d' iv' n"
    and glob: "\<forall>n\<in>set ?ns. n \<notin> set ?ro \<longrightarrow> workflow_resources iv' n = None \<longrightarrow> n \<in> set (workflow_rw_resources iv')"
    using st by (auto simp: uses_steps_def d')
  have "behaviour_ok b" by (auto simp: b task_ok_def task_binds_def rw ro runner_binds_lookup)
  moreover have reach: "?f ` set ?ns \<subseteq> owned n0 d' \<union> globals d'"
    using lookup_owned(1) [OF ok] kn by (intro image_subsetI) blast
  moreover have "?f n \<in> owned n0 d' \<union> rw_cowns d' iv'" if "n \<in> set ?ns" "n \<notin> set ?ro" for n
  proof (cases "workflow_resources iv' n")
    case None
    then show ?thesis using lookup_owned(2) [OF ok] kn glob that by blast
  next
    case (Some c)
    then show ?thesis using ok by (auto simp: inv_ok_def ran_def lookup_def)
  qed
  then have "body_ok (req_can_abort (request iv')) (owned n0 d') (rw_cowns d' iv') b"
    using same by (auto simp: b rw same_run_def)
  moreover have "guard_cowns guard \<subseteq> owned n0 d'"
    using guarded_mono [OF assms(3) adv assms(2)] by (simp add: guarded_def)
  moreover have "invocation_cown iv' \<in> owned n0 d'" using ok by (simp add: inv_ok_def)
  moreover have "writes b \<union> reads b = ?f ` set ?ns \<union> guard_cowns guard \<union> {invocation_cown iv}"
    unfolding b rw ro by auto
  moreover have "inv_of b = Some (invocation_id iv)" "invocation_cown iv \<in> reads b" by (simp_all add: b)
  moreover have "invocation_id iv' = invocation_id iv" "invocation_cown iv' = invocation_cown iv"
    using same by (simp_all add: same_run_def)
  ultimately show "scheduled n0 d' iv' b" unfolding scheduled_def by (intro conjI) auto
qed

lemma scheduled_task:
  assumes "run_task_node nd guard d iv = (res, d', iv')" and "inv_ok n0 d iv" and "guarded n0 d guard"
  shows "advances d iv d' iv'" and "res = Inr b \<Longrightarrow> scheduled n0 d' iv' b"
proof -
  have "advances d iv d' iv' \<and> (\<forall>b. res = Inr b \<longrightarrow> scheduled n0 d' iv' b)"
  proof (cases "node_func nd")
    case None
    then show ?thesis using assms(1) by (auto simp: run_task_node_def)
  next
    case (Some f)
    let ?r0 = "\<lparr>r_dispatch = d, r_inv = iv, res_inputs = [], res_names = resources f, res_ro = read_only f, val_inputs = []\<rparr>"
    obtain x r where rr: "resolve_resources True True (bindings nd) ?r0 = (x, r)"
      by (cases "resolve_resources True True (bindings nd) ?r0")
    from advances_resolve [OF rr] have adv: "advances d iv (r_dispatch r) (r_inv r)" by simp
    show ?thesis
    proof (cases x)
      case (Inl e)
      then show ?thesis using assms(1) Some rr adv by (auto simp: run_task_node_def)
    next
      case (Inr y)
      let ?info = "set_input_data (dump_task_input (res_inputs r) (val_inputs r)) (f\<lparr>resources := res_names r, read_only := res_ro r\<rparr>)"
      obtain b where sf: "schedule_function ?info guard (r_dispatch r) (r_inv r) = (b, d', iv')" "res = Inr b"
        using assms(1) Some rr Inr by (auto simp: run_task_node_def split: prod.splits)
      have "inv_ok n0 (r_dispatch r) (r_inv r)" using adv assms(2) by (simp add: advances_def)
      moreover have "guarded n0 (r_dispatch r) guard" using guarded_mono [OF assms(3) adv assms(2)] .
      ultimately show ?thesis using scheduled_function [OF sf(1)] sf(2) adv advances_trans by blast
    qed
  qed
  then show "advances d iv d' iv'" "res = Inr b \<Longrightarrow> scheduled n0 d' iv' b" by blast+
qed

text \<open>The loop of \<open>schedule_choice_node\<close>.\<close>

lemma choose_cowns:
  "inv_ok n0 (snd st) iv \<Longrightarrow> fold (choose_cown iv) ns st = (cs, d') \<Longrightarrow>
     grows (snd st) d' \<and> set cs \<subseteq> set (fst st) \<union> owned n0 d' \<union> globals d'"
proof (induction ns arbitrary: st)
  case Nil
  then show ?case by auto
next
  case (Cons n ns)
  let ?st = "choose_cown iv n st"
  have 1: "grows (snd st) (snd ?st) \<and> set (fst ?st) \<subseteq> set (fst st) \<union> owned n0 (snd ?st) \<union> globals (snd ?st)"
  proof (cases "workflow_resources iv n")
    case None
    obtain c k d where fm: "find_or_make n (snd st) = ((c, k), d)" by (metis surj_pair)
    show ?thesis using None fm grows_find [OF fm] globalsI [OF grows_find(2) [OF fm]] by (auto simp: choose_cown_def)
  next
    case (Some c)
    then show ?thesis using Cons.prems(1) by (auto simp: choose_cown_def inv_ok_def ran_def)
  qed
  have ok: "inv_ok n0 (snd ?st) iv" using Cons.prems(1) 1 advances_grows by (auto simp: advances_def)
  with Cons.IH [of ?st] Cons.prems(2) have 2: "grows (snd ?st) d' \<and> set cs \<subseteq> set (fst ?st) \<union> owned n0 d' \<union> globals d'" by simp
  have "owned n0 (snd ?st) \<subseteq> owned n0 d'" "globals (snd ?st) \<subseteq> globals d'"
    using 2 ok owned_mono grows_globals by (auto simp: inv_ok_def)
  then show ?case using 1 2 grows_trans by blast
qed

lemma scheduled_choice:
  assumes "schedule_choice_node nd control guard d iv = (res, d', iv')" and "inv_ok n0 d iv" and "guarded n0 d guard"
    and "control \<in> owned n0 d"
  shows "advances d iv d' iv'" and "res = Inr b \<Longrightarrow> scheduled n0 d' iv' b"
proof -
  let ?r0 = "\<lparr>r_dispatch = d, r_inv = iv, res_inputs = [], res_names = [], res_ro = [], val_inputs = []\<rparr>"
  obtain x r where rr: "resolve_resources False False (bindings nd) ?r0 = (x, r)"
    by (cases "resolve_resources False False (bindings nd) ?r0")
  from advances_resolve [OF rr] have adv: "advances d iv (r_dispatch r) (r_inv r)" by simp
  then have ok: "inv_ok n0 (r_dispatch r) (r_inv r)" using assms(2) by (simp add: advances_def)
  have "advances d iv d' iv' \<and> (\<forall>b. res = Inr b \<longrightarrow> scheduled n0 d' iv' b)"
  proof (cases x)
    case (Inl e)
    then show ?thesis using assms(1) rr adv by (auto simp: schedule_choice_node_def)
  next
    case (Inr y)
    obtain cs where cs: "fold (choose_cown (r_inv r)) (res_names r) ([], r_dispatch r) = (cs, d')"
      and res: "res = Inr (EvalChoice \<lparr>c_inv = invocation_id iv, c_can_abort = req_can_abort (request iv), c_guard = guard,
                 c_ic = invocation_cown iv, c_control = control, c_edges = node_choices nd, c_inputs = res_inputs r,
                 c_values = val_inputs r, c_names = res_names r, c_cowns = cs\<rparr>)" and iv': "iv' = r_inv r"
      using assms(1) rr Inr by (auto simp: schedule_choice_node_def split: prod.splits)
    from choose_cowns [of n0 "([], r_dispatch r)" "r_inv r" "res_names r" cs d'] ok cs
    have gr: "grows (r_dispatch r) d'" and touch: "set cs \<subseteq> owned n0 d' \<union> globals d'" by auto
    have adv': "advances d iv d' iv'" using adv advances_grows [OF gr] advances_trans by (auto simp: iv')
    then have "same_run iv iv'" "inv_ok n0 d' iv'" "owned n0 d \<subseteq> owned n0 d'"
      using assms(2) owned_mono by (auto simp: advances_def inv_ok_def)
    then show ?thesis
      using touch adv' assms(3,4) by (auto simp: res scheduled_def same_run_def inv_ok_def guarded_def)
  qed
  then show "advances d iv d' iv'" "res = Inr b \<Longrightarrow> scheduled n0 d' iv' b" by blast+
qed

text \<open>The loop of \<open>schedule_graph\<close>.\<close>

definition queue_guarded :: "cown \<Rightarrow> dispatch \<Rightarrow> queue_item list \<Rightarrow> bool" where
  "queue_guarded n0 d q \<longleftrightarrow> (\<forall>x\<in>set q. guarded n0 d (snd x))"

lemma queue_guarded_mono: "queue_guarded n0 d q \<Longrightarrow> advances d iv d' iv' \<Longrightarrow> inv_ok n0 d iv \<Longrightarrow> queue_guarded n0 d' q"
  using guarded_mono unfolding queue_guarded_def by blast

lemma edge_items_guarded: "control \<in> owned n0 d \<Longrightarrow> queue_guarded n0 d (edge_items control es)"
  by (auto simp: queue_guarded_def edge_items_def guarded_def guard_cowns_def split: option.splits)

text \<open>What one node adds: a behaviour and the nodes after it, or an error.\<close>

definition schedule_node :: "queue_item \<Rightarrow> dispatch \<Rightarrow> invocation \<Rightarrow> (behaviour \<times> queue_item list option) fallible \<times> dispatch \<times> invocation" where
  "schedule_node it d iv =
     (case ntype (fst it) of
        NTask \<Rightarrow>
          (case run_task_node (fst it) (snd it) d iv of
             (Inl e, d', iv') \<Rightarrow> (Inl e, d', iv')
           | (Inr b, d', iv') \<Rightarrow>
               (Inr (b, if node_end (fst it) then Some [] else map_option (\<lambda>m. [(m, snd it)]) (node_next (fst it))), d', iv'))
      | NChoice \<Rightarrow>
          (let (control, d1) = make_cown d in
           case schedule_choice_node (fst it) control (snd it) d1 iv of
             (Inl e, d', iv') \<Rightarrow> (Inl e, d', iv')
           | (Inr b, d', iv') \<Rightarrow> (Inr (b, Some (edge_items control (node_choices (fst it)))), d', iv'))
      | NUnknown \<Rightarrow> (Inl ''unknown node type'', d, iv))"

lemma schedule_queue_Cons:
  "schedule_queue (it # q) d iv =
     (case schedule_node it d iv of
        (Inl e, d', iv') \<Rightarrow> ([], Some e, d', iv')
      | (Inr (b, None), d', iv') \<Rightarrow> ([b], Some ''node has no Next and End=false'', d', iv')
      | (Inr (b, Some items), d', iv') \<Rightarrow> (case schedule_queue (q @ items) d' iv' of (bs, rest) \<Rightarrow> (b # bs, rest)))"
  by (cases it; cases "ntype (fst it)") (auto simp: schedule_node_def Let_def split: prod.splits sum.splits option.splits)

lemma schedule_node_nodes: "schedule_node it d iv = (Inr (b, Some items), d', iv') \<Longrightarrow> queue_nodes items < nodes_in (fst it)"
  using nodes_in_choices [of "fst it"] nodes_in_next [of "fst it"]
  by (auto simp: schedule_node_def queue_nodes_edges split: node_type.splits prod.splits sum.splits if_splits)

lemma scheduled_node:
  assumes "schedule_node it d iv = (res, d', iv')" and "inv_ok n0 d iv" and "guarded n0 d (snd it)"
  shows "advances d iv d' iv'"
    and "res = Inr (b, items) \<Longrightarrow> scheduled n0 d' iv' b"
    and "res = Inr (b, Some its) \<Longrightarrow> queue_guarded n0 d' its"
proof -
  have "advances d iv d' iv' \<and> (\<forall>b items. res = Inr (b, items) \<longrightarrow> scheduled n0 d' iv' b)
      \<and> (\<forall>b its. res = Inr (b, Some its) \<longrightarrow> queue_guarded n0 d' its)"
  proof (cases "ntype (fst it)")
    case NTask
    obtain x d1 iv1 where rt: "run_task_node (fst it) (snd it) d iv = (x, d1, iv1)" by (metis surj_pair)
    have "guarded n0 d1 (snd it)" using guarded_mono [OF assms(3) _ assms(2)] scheduled_task(1) [OF rt assms(2,3)] by blast
    then show ?thesis
      using scheduled_task [OF rt assms(2,3)] NTask assms(1) rt
      by (cases x) (auto simp: schedule_node_def queue_guarded_def split: if_splits)
  next
    case NChoice
    obtain control d1 where mk: "make_cown d = (control, d1)" by (cases "make_cown d")
    obtain x d2 iv2 where sc: "schedule_choice_node (fst it) control (snd it) d1 iv = (x, d2, iv2)" by (metis surj_pair)
    have adv: "advances d iv d1 iv" using grows_make_cown(1) [OF mk] by (rule advances_grows)
    have ok1: "inv_ok n0 d1 iv" using adv assms(2) by (simp add: advances_def)
    have gd: "guarded n0 d1 (snd it)" using guarded_mono [OF assms(3) adv assms(2)] .
    have ctl: "control \<in> owned n0 d1" using grows_make_cown(2) [OF mk] assms(2) by (simp add: inv_ok_def)
    note res = scheduled_choice [OF sc ok1 gd ctl]
    have "owned n0 d1 \<subseteq> owned n0 d2" using res(1) ok1 owned_mono by (simp add: advances_def inv_ok_def)
    then have "queue_guarded n0 d2 (edge_items control (node_choices (fst it)))"
      using ctl by (intro edge_items_guarded) blast
    then show ?thesis
      using res NChoice assms(1) mk sc advances_trans [OF adv res(1)]
      by (cases x) (auto simp: schedule_node_def)
  next
    case NUnknown
    then show ?thesis using assms(1) by (auto simp: schedule_node_def)
  qed
  then show "advances d iv d' iv'" "res = Inr (b, items) \<Longrightarrow> scheduled n0 d' iv' b"
    "res = Inr (b, Some its) \<Longrightarrow> queue_guarded n0 d' its" by blast+
qed

lemma scheduled_queue:
  "schedule_queue q d iv = (bs, err, d', iv') \<Longrightarrow> inv_ok n0 d iv \<Longrightarrow> queue_guarded n0 d q \<Longrightarrow>
     advances d iv d' iv' \<and> (\<forall>b\<in>set bs. scheduled n0 d' iv' b)"
proof (induction "queue_nodes q" arbitrary: q d iv bs err rule: less_induct)
  case less
  show ?case
  proof (cases q)
    case Nil
    with less.prems(1) show ?thesis by auto
  next
    case (Cons it q')
    obtain res d1 iv1 where sn: "schedule_node it d iv = (res, d1, iv1)" by (metis surj_pair)
    have gd: "guarded n0 d (snd it)" using less.prems(3) by (simp add: Cons queue_guarded_def)
    note node = scheduled_node [OF sn less.prems(2) gd]
    show ?thesis
    proof (cases "\<exists>b items. res = Inr (b, Some items)")
      case False
      then show ?thesis
        using less.prems(1) node(1,2) sn
        by (auto simp: Cons schedule_queue_Cons split: sum.splits prod.splits option.splits)
    next
      case True
      then obtain b items where res: "res = Inr (b, Some items)" by blast
      obtain bs1 where sq: "schedule_queue (q' @ items) d1 iv1 = (bs1, err, d', iv')" and bs: "bs = b # bs1"
        using less.prems(1) sn by (auto simp: Cons schedule_queue_Cons res split: prod.splits)
      have ok1: "inv_ok n0 d1 iv1" using node(1) less.prems(2) by (simp add: advances_def)
      have "queue_nodes (q' @ items) < queue_nodes q" using schedule_node_nodes sn res by (auto simp: Cons)
      moreover have "queue_guarded n0 d1 (q' @ items)"
        using node(3) [OF res] queue_guarded_mono [OF less.prems(3) node(1) less.prems(2)]
        by (auto simp: Cons queue_guarded_def)
      ultimately have ih: "advances d1 iv1 d' iv' \<and> (\<forall>b\<in>set bs1. scheduled n0 d' iv' b)"
        using less.hyps sq ok1 by blast
      then have "scheduled n0 d' iv' b" using node(2) [OF res] scheduled_mono ok1 by blast
      then show ?thesis using ih bs advances_trans [OF node(1)] by auto
    qed
  qed
qed

text \<open>The final behaviour.\<close>

lemma commit_entries_cowns:
  "commit_entries ns d = (es, d') \<Longrightarrow> grows d d' \<and> (fst \<circ> snd) ` set es = {c. \<exists>n\<in>set ns. \<exists>k. resource_map d n = Some (c, k)}"
proof (induction ns arbitrary: d es)
  case Nil
  then show ?case by simp
next
  case (Cons n ns)
  show ?case
  proof (cases "resource_map d n")
    case None
    with Cons show ?thesis by auto
  next
    case (Some ck)
    obtain c k where ck: "ck = (c, k)" by (cases ck)
    let ?d = "d\<lparr>resource_map := (resource_map d)(n \<mapsto> (c, k + 1))\<rparr>"
    obtain es1 where es1: "commit_entries ns ?d = (es1, d')" "es = (n, c, as_int (k + 1)) # es1"
      using Cons.prems Some ck by (auto split: prod.splits)
    have same: "(\<exists>j. resource_map ?d m = Some (x, j)) \<longleftrightarrow> (\<exists>j. resource_map d m = Some (x, j))" for m x
      using Some ck by auto
    have ih: "grows ?d d' \<and> (fst \<circ> snd) ` set es1 = {x. \<exists>m\<in>set ns. \<exists>j. resource_map d m = Some (x, j)}"
      using Cons.IH [OF es1(1)] unfolding same .
    have "grows d ?d" using grows_update(1) Some ck by blast
    then have "grows d d'" using ih grows_trans by blast
    moreover have "(fst \<circ> snd) ` set es = insert c {x. \<exists>m\<in>set ns. \<exists>j. resource_map d m = Some (x, j)}"
      using ih es1(2) by auto
    ultimately show ?thesis using Some ck by auto
  qed
qed

lemma final_cowns:
  assumes "schedule_commit_behaviour iv d = (fin, d')" and "inv_ok n0 d iv"
  shows "grows d d'" and "final fin" and "inv_of fin = Some (invocation_id iv)" and "invocation_cown iv \<in> writes fin"
    and "writes fin \<union> reads fin \<subseteq> owned n0 d' \<union> globals d'" and "owned n0 d' \<inter> commit_cowns fin = {}"
    and "req_can_abort (request iv) \<Longrightarrow> rw_cowns d iv \<subseteq> commit_cowns fin"
proof -
  obtain es d1 where ce: "commit_entries (workflow_rw_resources iv) d = (es, d1)"
    by (cases "commit_entries (workflow_rw_resources iv) d")
  note cows = commit_entries_cowns [OF ce]
  have es: "(fst \<circ> snd) ` set es = rw_cowns d iv" using cows by (simp add: rw_cowns_def)
  have cases: "fin = Complete (invocation_id iv) (invocation_cown iv) \<and> grows d d' \<and> (req_can_abort (request iv) \<longrightarrow> es = [])
      \<or> fin = Commit \<lparr>m_inv = invocation_id iv, m_ic = invocation_cown iv, m_entries = es\<rparr> \<and> d' = d1"
    using assms(1) ce cows by (auto simp: schedule_commit_behaviour_def split: if_splits)
  then show gr: "grows d d'" using cows by auto
  have gl: "rw_cowns d iv \<subseteq> globals d'" using grows_globals [OF gr] globalsI by (auto simp: rw_cowns_def; blast)
  have ic: "invocation_cown iv \<in> owned n0 d'" using assms(2) owned_mono [OF gr] by (auto simp: inv_ok_def)
  show "final fin" "inv_of fin = Some (invocation_id iv)" "invocation_cown iv \<in> writes fin" using cases by auto
  have wr: "writes fin \<union> reads fin = insert (invocation_cown iv) (commit_cowns fin)" and cc: "commit_cowns fin \<subseteq> rw_cowns d iv"
    using cases es by auto
  show "writes fin \<union> reads fin \<subseteq> owned n0 d' \<union> globals d'" unfolding wr using ic cc gl by auto
  show "owned n0 d' \<inter> commit_cowns fin = {}" using cc gl by (auto simp: owned_def)
  show "req_can_abort (request iv) \<Longrightarrow> rw_cowns d iv \<subseteq> commit_cowns fin" using cases es by auto
qed

subsection \<open>What the dispatcher schedules\<close>

definition invocation_group :: "64 word \<Rightarrow> bool \<Rightarrow> cown \<Rightarrow> behaviour list \<Rightarrow> dispatch \<Rightarrow> group" where
  "invocation_group i ab n0 bs d = \<lparr>g_inv = i, g_ab = ab, g_private = owned n0 d, g_bs = bs\<rparr>"

lemma scheduled_graph:
  assumes "schedule_graph nd iv d = (bs, ok, err, d')" and "inv_ok n0 d iv"
  shows "grows d d'" and "invocation_ok (invocation_group (invocation_id iv) (req_can_abort (request iv)) n0 bs d')"
    and "touched bs \<subseteq> owned n0 d' \<union> globals d'" and "\<forall>b\<in>set bs. inv_of b = Some (invocation_id iv)"
proof -
  obtain bs1 err1 d1 iv1 where sq: "schedule_queue [(nd, None)] d iv = (bs1, err1, d1, iv1)" by (metis surj_pair)
  obtain fin d2 where cb: "schedule_commit_behaviour iv1 d1 = (fin, d2)" by (cases "schedule_commit_behaviour iv1 d1")
  let ?fails = "if err1 = None then [] else [SchedulingFailed (invocation_id iv) (invocation_cown iv)]"
  have bs: "bs = (bs1 @ ?fails) @ [fin]" and d': "d' = d2"
    using assms(1) sq cb by (auto simp: schedule_graph_def split: if_splits)
  have "queue_guarded n0 d [(nd, None)]" by (simp add: queue_guarded_def guarded_def guard_cowns_def)
  from scheduled_queue [OF sq assms(2) this] have adv: "advances d iv d1 iv1"
    and sch: "\<forall>b\<in>set bs1. scheduled n0 d1 iv1 b" by auto
  then have ok1: "inv_ok n0 d1 iv1" and same: "same_run iv iv1" and gr1: "grows d d1"
    using assms(2) by (auto simp: advances_def)
  note fin = final_cowns [OF cb ok1]
  show gr: "grows d d'" using gr1 fin(1) grows_trans by (simp add: d')
  have ic: "invocation_cown iv \<in> owned n0 d1" using ok1 same by (simp add: inv_ok_def same_run_def)
  have "scheduled n0 d1 iv1 b" if "b \<in> set ?fails" for b
    using that same ic by (auto simp: scheduled_def same_run_def split: if_splits)
  with sch have all: "\<forall>b\<in>set (bs1 @ ?fails). scheduled n0 d1 iv1 b" by auto
  have adv2: "advances d1 iv1 d2 iv1" using fin(1) by (rule advances_grows)
  have all2: "\<forall>b\<in>set (bs1 @ ?fails). scheduled n0 d2 iv1 b" using all scheduled_mono adv2 ok1 by blast
  have cof: "body_ok (req_can_abort (request iv)) (owned n0 d2) (commit_cowns fin) b" if "b \<in> set (bs1 @ ?fails)" for b
  proof (cases "req_can_abort (request iv)")
    case True
    have "body_ok (req_can_abort (request iv)) (owned n0 d1) (rw_cowns d1 iv1) b"
      using all that same by (auto simp: scheduled_def same_run_def)
    then show ?thesis
      using body_ok_mono fin(7) True same owned_mono [OF fin(1)] ok1 by (fastforce simp: same_run_def inv_ok_def)
  next
    case False
    have "body_ok (req_can_abort (request iv)) (owned n0 d1) (rw_cowns d1 iv1) b"
      using all that same by (auto simp: scheduled_def same_run_def)
    then show ?thesis using False owned_mono [OF fin(1)] ok1 by (cases b) (auto simp: inv_ok_def)
  qed
  have "conflict b fin" if "b \<in> set (bs1 @ ?fails)" for b
    using all that fin(4) by (auto simp: scheduled_def conflict_def)
  with all2 cof fin(2,3,6) same
  show "invocation_ok (invocation_group (invocation_id iv) (req_can_abort (request iv)) n0 bs d')"
    unfolding invocation_ok_def invocation_group_def bs d'
    by (intro exI [of _ "bs1 @ ?fails"] exI [of _ fin]) (auto simp: scheduled_def same_run_def)
  show "touched bs \<subseteq> owned n0 d' \<union> globals d'"
    using all2 fin(5) unfolding bs d' touched_def scheduled_def by auto
  show "\<forall>b\<in>set bs. inv_of b = Some (invocation_id iv)"
    using all2 fin(3) same unfolding bs by (auto simp: scheduled_def same_run_def)
qed

lemma invoked_workflow:
  assumes "scheduling_invoke wr req i d = (bs, ok, err, d')" and "dispatch_ok d"
  shows "grows d d'" and "group_ok (invocation_group i (req_can_abort req) (next_cown d) bs d')"
    and "touched bs \<subseteq> owned (next_cown d) d' \<union> globals d'" and "\<forall>b\<in>set bs. inv_of b = Some i"
proof -
  have "grows d d' \<and> group_ok (invocation_group i (req_can_abort req) (next_cown d) bs d')
      \<and> touched bs \<subseteq> owned (next_cown d) d' \<union> globals d' \<and> (\<forall>b\<in>set bs. inv_of b = Some i)"
  proof (cases "workflow_find wr (req_workflow_id req)")
    case None
    then show ?thesis using assms(1) by (auto simp: scheduling_invoke_def group_ok_def invocation_group_def touched_def)
  next
    case (Some nd)
    obtain ic d1 where mk: "make_cown d = (ic, d1)" by (cases "make_cown d")
    let ?iv = "\<lparr>invocation_id = i, workflow_resources = Map.empty, workflow_rw_resources = [], invocation_cown = ic, request = req\<rparr>"
    have sg: "schedule_graph nd ?iv d1 = (bs, ok, err, d')" using assms(1) Some mk by (auto simp: scheduling_invoke_def)
    note g = grows_make_cown [OF mk]
    have ok: "inv_ok (next_cown d) d1 ?iv"
      using g grows_ok [OF g(1) assms(2)] assms(2) by (simp add: inv_ok_def grows_def)
    from scheduled_graph [OF sg ok] show ?thesis
      using grows_trans [OF g(1)] by (simp add: group_ok_def)
  qed
  then show "grows d d'" "group_ok (invocation_group i (req_can_abort req) (next_cown d) bs d')"
    "touched bs \<subseteq> owned (next_cown d) d' \<union> globals d'" "\<forall>b\<in>set bs. inv_of b = Some i" by blast+
qed

text \<open>
  The input of the dispatcher: invocations with the registry of the moment, requests for a resource,
  and the cleanups, each with the entries that it takes from the queue.
\<close>

datatype order =
    Invoke workflow_registry invoke_request "64 word"
  | GetResource string string
  | Cleanup "(string \<times> 64 word) list"

fun dispatch_order :: "order \<Rightarrow> dispatch \<Rightarrow> group \<times> dispatch" where
  "dispatch_order (Invoke wr req i) d =
     (let (bs, ok, err, d') = scheduling_invoke wr req i d
      in (invocation_group i (req_can_abort req) (next_cown d) bs d', d'))"
| "dispatch_order (GetResource n reply) d =
     (\<lparr>g_inv = 0, g_ab = False, g_private = {}, g_bs = (case get_resource_async n reply d of None \<Rightarrow> [] | Some bs \<Rightarrow> bs)\<rparr>, d)"
| "dispatch_order (Cleanup q) d = (\<lparr>g_inv = 0, g_ab = False, g_private = {}, g_bs = []\<rparr>, snd (cleanup_resources q d))"

fun dispatch_orders :: "order list \<Rightarrow> dispatch \<Rightarrow> group list \<times> dispatch" where
  "dispatch_orders [] d = ([], d)"
| "dispatch_orders (r # rs) d =
     (let (g, d1) = dispatch_order r d; (gs, d2) = dispatch_orders rs d1 in (g # gs, d2))"

lemma dispatch_orders_append:
  "dispatch_orders (rs @ rs') d = (let (gs, d1) = dispatch_orders rs d; (gs', d2) = dispatch_orders rs' d1 in (gs @ gs', d2))"
  by (induction rs arbitrary: d) (auto simp: Let_def split: prod.splits)

fun order_ids :: "order list \<Rightarrow> 64 word list" where
  "order_ids [] = []"
| "order_ids (Invoke wr req i # rs) = i # order_ids rs"
| "order_ids (_ # rs) = order_ids rs"

lemma cleanup_shrinks: "next_cown (snd (cleanup_resources q d)) = next_cown d \<and> globals (snd (cleanup_resources q d)) \<subseteq> globals d"
proof (induction q d rule: cleanup_resources.induct)
  case (2 n k q d)
  let ?d = "case resource_map d n of Some (c, k') \<Rightarrow> if k' = k then d\<lparr>resource_map := (resource_map d)(n := None)\<rparr> else d | None \<Rightarrow> d"
  have "next_cown ?d = next_cown d" "globals ?d \<subseteq> globals d"
    by (auto simp: globals_def ran_def split: option.splits if_splits)
  with 2 show ?case by (cases "n = []") auto
qed simp

lemma dispatched_order:
  assumes "dispatch_order r d = (g, d')" and "dispatch_ok d"
  shows "dispatch_ok d'" and "group_ok g" and "next_cown d \<le> next_cown d'" and "globals d' \<subseteq> globals d \<union> {next_cown d..}"
    and "g_private g \<subseteq> {next_cown d..<next_cown d'} - globals d'" and "touched (g_bs g) \<subseteq> globals d \<union> {next_cown d..<next_cown d'}"
    and "\<forall>b\<in>set (g_bs g). \<forall>i. inv_of b = Some i \<longrightarrow> i \<in> set (order_ids [r])"
proof -
  have "dispatch_ok d' \<and> group_ok g \<and> next_cown d \<le> next_cown d' \<and> globals d' \<subseteq> globals d \<union> {next_cown d..}
    \<and> g_private g \<subseteq> {next_cown d..<next_cown d'} - globals d' \<and> touched (g_bs g) \<subseteq> globals d \<union> {next_cown d..<next_cown d'}
    \<and> (\<forall>b\<in>set (g_bs g). \<forall>i. inv_of b = Some i \<longrightarrow> i \<in> set (order_ids [r]))"
  proof (cases r)
    case (Invoke wr req i)
    obtain bs ok err where iw: "scheduling_invoke wr req i d = (bs, ok, err, d')"
      and g: "g = invocation_group i (req_can_abort req) (next_cown d) bs d'"
      using assms(1) Invoke by (auto split: prod.splits)
    note w = invoked_workflow [OF iw assms(2)]
    have "touched bs \<subseteq> globals d \<union> {next_cown d..<next_cown d'}"
      using w(1,3) by (auto simp: grows_def owned_def)
    moreover have "next_cown d \<le> next_cown d'" "globals d' \<subseteq> globals d \<union> {next_cown d..}" using w(1) by (auto simp: grows_def)
    ultimately show ?thesis
      using w(2,4) grows_ok [OF w(1) assms(2)] by (auto simp: g invocation_group_def owned_def Invoke)
  next
    case (GetResource n reply)
    then show ?thesis
      using assms globalsI [of d n]
      by (auto simp: get_resource_async_def group_ok_def touched_def split: option.splits)
  next
    case (Cleanup q)
    then have "g = \<lparr>g_inv = 0, g_ab = False, g_private = {}, g_bs = []\<rparr>" "d' = snd (cleanup_resources q d)" using assms(1) by auto
    then show ?thesis using assms(2) cleanup_shrinks [of q d] by (auto simp: group_ok_def touched_def dispatch_ok_def)
  qed
  then show "dispatch_ok d'" "group_ok g" "next_cown d \<le> next_cown d'" "globals d' \<subseteq> globals d \<union> {next_cown d..}"
    "g_private g \<subseteq> {next_cown d..<next_cown d'} - globals d'" "touched (g_bs g) \<subseteq> globals d \<union> {next_cown d..<next_cown d'}"
    "\<forall>b\<in>set (g_bs g). \<forall>i. inv_of b = Some i \<longrightarrow> i \<in> set (order_ids [r])" by blast+
qed

lemma order_ids_Cons: "order_ids (r # rs) = order_ids [r] @ order_ids rs"
  by (cases r) simp_all

lemma dispatched_orders:
  "dispatch_orders rs d = (gs, d') \<Longrightarrow> dispatch_ok d \<Longrightarrow> distinct (order_ids rs) \<Longrightarrow>
     schedule_ok gs \<and> dispatch_ok d'
     \<and> (\<forall>g\<in>set gs. g_private g \<subseteq> {next_cown d..} \<and> touched (g_bs g) \<subseteq> globals d \<union> {next_cown d..}
          \<and> (\<forall>b\<in>set (g_bs g). \<forall>i. inv_of b = Some i \<longrightarrow> i \<in> set (order_ids rs)))"
proof (induction rs arbitrary: d gs)
  case Nil
  then show ?case by (auto simp: schedule_ok_def)
next
  case (Cons r rs)
  obtain g d1 where r: "dispatch_order r d = (g, d1)" by (cases "dispatch_order r d")
  obtain gs1 where rs: "dispatch_orders rs d1 = (gs1, d')" and gs: "gs = g # gs1"
    using Cons.prems(1) r by (auto split: prod.splits)
  note g = dispatched_order [OF r Cons.prems(2)]
  have dist: "distinct (order_ids rs)" "set (order_ids [r]) \<inter> set (order_ids rs) = {}"
    using Cons.prems(3) unfolding order_ids_Cons [of r rs] by auto
  note ih = Cons.IH [OF rs g(1) dist(1)]
  have "apart g h" if "h \<in> set gs1" for h
  proof -
    have h: "g_private h \<subseteq> {next_cown d1..}" "touched (g_bs h) \<subseteq> globals d1 \<union> {next_cown d1..}"
      "\<forall>b\<in>set (g_bs h). \<forall>i. inv_of b = Some i \<longrightarrow> i \<in> set (order_ids rs)" using ih that by auto
    have lt: "touched (g_bs g) \<subseteq> {..<next_cown d1}"
      using g(3,6) Cons.prems(2) by (force simp: dispatch_ok_def)
    have "g_private g \<inter> touched (g_bs h) = {}" using h(2) g(5) by force
    moreover have "g_private h \<inter> touched (g_bs g) = {}" using h(1) lt by force
    moreover have "inv_of a \<noteq> inv_of b \<or> inv_of a = None" if "a \<in> set (g_bs g)" "b \<in> set (g_bs h)" for a b
      using that g(7) h(3) dist(2) by (metis disjoint_iff option.exhaust)
    ultimately show ?thesis by (simp add: apart_def)
  qed
  then have "schedule_ok gs" using ih g(2) by (auto simp: gs schedule_ok_def)
  moreover have "g_private h \<subseteq> {next_cown d..} \<and> touched (g_bs h) \<subseteq> globals d \<union> {next_cown d..}
      \<and> (\<forall>b\<in>set (g_bs h). \<forall>i. inv_of b = Some i \<longrightarrow> i \<in> set (order_ids (r # rs)))" if "h \<in> set gs" for h
  proof (cases "h = g")
    case True
    then show ?thesis using g(5,6,7) unfolding order_ids_Cons [of r rs] by fastforce
  next
    case False
    then have "h \<in> set gs1" using that gs by simp
    with ih have "g_private h \<subseteq> {next_cown d1..}" "touched (g_bs h) \<subseteq> globals d1 \<union> {next_cown d1..}"
      "\<forall>b\<in>set (g_bs h). \<forall>i. inv_of b = Some i \<longrightarrow> i \<in> set (order_ids rs)" by auto
    then show ?thesis using g(3,4) unfolding order_ids_Cons [of r rs] by fastforce
  qed
  ultimately show ?case using ih by blast
qed

end
