(* ===== verification/Execution.thy ===== *)
theory Execution
  imports Host Scheduler
begin

section \<open>The worker as a whole: dispatching and executing at the same time\<close>

text \<open>
  The dispatcher takes the orders one by one and appends their behaviours, while the runtime
  finishes behaviours. A configuration holds the orders to come, the state of the dispatcher, the
  unfinished behaviours and the store. A cleanup may take any entries from the queue: the results
  hold whatever the executing behaviours have pushed until then.
\<close>

type_synonym config = "order list \<times> dispatch \<times> behaviour list \<times> store"

inductive worker_step :: "platform \<Rightarrow> executor \<Rightarrow> config \<Rightarrow> config \<Rightarrow> bool" for p exec where
  dispatches: "dispatch_order r d = (g, d') \<Longrightarrow> worker_step p exec (r # rs, d, bs, s) (rs, d', bs @ g_bs g, s)"
| executes: "finishes p exec (bs, s) (bs', s') \<Longrightarrow> worker_step p exec (rs, d, bs, s) (rs, d, bs', s')"

inductive_cases worker_stepE: "worker_step p exec (rs, d, bs, s) c"

definition no_dispatch :: dispatch where
  "no_dispatch = \<lparr>resource_map = Map.empty, next_cown = 0\<rparr>"

definition fresh_store :: store where
  "fresh_store = \<lparr>cells = (\<lambda>c. new_resource), controls = (\<lambda>c. -1), flags = (\<lambda>k. False), log = []\<rparr>"

text \<open>The groups that the orders lead to do not depend on the execution.\<close>

definition groups_of :: "order list \<Rightarrow> dispatch \<Rightarrow> group list" where
  "groups_of rs d = fst (dispatch_orders rs d)"

lemma groups_of_simps:
  "groups_of [] d = []"
  "dispatch_order r d = (g, d') \<Longrightarrow> groups_of (r # rs) d = g # groups_of rs d'"
  by (auto simp: groups_of_def split: prod.splits)

definition all_behaviours :: "config \<Rightarrow> behaviour list" where
  "all_behaviours c = (case c of (rs, d, bs, s) \<Rightarrow> bs @ behaviours (groups_of rs d))"

definition config_store :: "config \<Rightarrow> store" where
  "config_store c = (case c of (rs, d, bs, s) \<Rightarrow> s)"

lemma finishes_append:
  assumes "finishes p exec (bs, s) (bs', s')"
  shows "finishes p exec (bs @ cs, s) (bs' @ cs, s')"
  using assms
proof cases
  case (performed xs b ys)
  then show ?thesis using finishes.performed [of xs b p exec "ys @ cs" s] by simp
next
  case (skipped xs b ys)
  then show ?thesis using finishes.skipped [of xs b s p exec "ys @ cs"] by simp
qed

text \<open>Dispatching could be done in advance.\<close>

lemma worker_step_executions:
  assumes "worker_step p exec c c'"
  shows "executions p exec (all_behaviours c, config_store c) (all_behaviours c', config_store c')"
  using assms
proof cases
  case (dispatches r d g d' rs bs s)
  then show ?thesis by (simp add: all_behaviours_def config_store_def groups_of_simps executions_def)
next
  case (executes bs s bs' s' rs d)
  then show ?thesis
    using finishes_append by (auto simp: all_behaviours_def config_store_def executions_def)
qed

lemma worker_executions:
  "(worker_step p exec)\<^sup>*\<^sup>* c c' \<Longrightarrow> executions p exec (all_behaviours c, config_store c) (all_behaviours c', config_store c')"
proof (induction rule: rtranclp_induct)
  case base
  then show ?case by (simp add: executions_def)
next
  case (step y z)
  then show ?case using worker_step_executions [OF step.hyps(2)] by (auto simp: executions_def)
qed

lemma worker_schedule_ok:
  assumes "distinct (order_ids rs)"
  shows "schedule_ok (groups_of rs no_dispatch)"
proof -
  have "dispatch_ok no_dispatch" by (simp add: dispatch_ok_def no_dispatch_def globals_def)
  then show ?thesis
    using dispatched_orders [of rs no_dispatch "groups_of rs no_dispatch" "snd (dispatch_orders rs no_dispatch)"] assms
    by (simp add: groups_of_def)
qed

text \<open>The steps that are left.\<close>

definition steps_left :: "config \<Rightarrow> nat" where
  "steps_left c = (case c of (rs, d, bs, s) \<Rightarrow> length rs + length (bs @ behaviours (groups_of rs d)))"

lemma worker_step_left: "worker_step p exec c c' \<Longrightarrow> steps_left c = Suc (steps_left c')"
  by (erule worker_step.cases) (auto simp: steps_left_def groups_of_simps dest: finishes_length)

lemma worker_progress:
  assumes "steps_left c > 0"
  shows "\<exists>c'. worker_step p exec c c'"
proof -
  obtain rs d bs s where c: "c = (rs, d, bs, s)" by (metis surj_pair)
  show ?thesis
  proof (cases rs)
    case (Cons r rs')
    obtain g d' where "dispatch_order r d = (g, d')" by (cases "dispatch_order r d")
    from worker_step.dispatches [OF this] show ?thesis unfolding c Cons by blast
  next
    case Nil
    then have "bs \<noteq> []" using assms by (auto simp: c steps_left_def groups_of_simps)
    then obtain bs' s' where "finishes p exec (bs, s) (bs', s')" using finishes_possible by (metis surj_pair)
    from worker_step.executes [OF this] show ?thesis unfolding c by blast
  qed
qed

lemma worker_ends: "\<exists>c'. (worker_step p exec)\<^sup>*\<^sup>* c c' \<and> steps_left c' = 0"
proof (induction "steps_left c" arbitrary: c rule: less_induct)
  case less
  show ?case
  proof (cases "steps_left c = 0")
    case False
    then obtain c1 where c1: "worker_step p exec c c1" using worker_progress by blast
    with less.hyps [of c1] worker_step_left [OF c1] obtain c' where "(worker_step p exec)\<^sup>*\<^sup>* c1 c'" "steps_left c' = 0" by auto
    with c1 show ?thesis using converse_rtranclp_into_rtranclp by metis
  qed blast
qed

lemma worker_relpowp: "((worker_step p exec) ^^ n) c c' \<Longrightarrow> steps_left c = n + steps_left c'"
  by (induction n arbitrary: c') (auto dest: worker_step_left)

subsection \<open>Properties\<close>

text \<open>
  C4: Serializability. However dispatching, the executing threads and the cleanups interleave, a
  worker that has dispatched a log of orders and finished all behaviours ends with every resource,
  every failure flag and, up to their order, every completion, deletion and answer of the execution
  that runs the behaviours one after the other in the order of the log. Only the cowns that belong to
  one invocation (its local resources and its choices) may differ. This holds for every runtime of
  functions that changes resources through \<open>set\<close> and \<open>delete\<close> only.
\<close>

theorem worker_serializable:
  assumes "function_host exec" and "distinct (order_ids rs)"
    and "(worker_step p exec)\<^sup>*\<^sup>* (rs, no_dispatch, [], s) ([], d, [], s')"
  shows "same_but (privates (groups_of rs no_dispatch))
           (serially p exec (behaviours (groups_of rs no_dispatch)) s) s'"
  using worker_executions [OF assms(3)]
    function_host.executions_schedule [OF assms(1) _ worker_schedule_ok [OF assms(2)], of p s "[]" s']
  by (simp add: all_behaviours_def config_store_def groups_of_simps)

text \<open>A run of the worker on one transfer that the client was never told about: the workflow is unknown.\<close>

definition one_task_workflow :: node where
  "one_task_workflow = Node ''w'' ''0'' NTask ''write'' (Some one_function) [] True None []"

definition one_order :: "order list" where
  "one_order = [Invoke [''w'' \<mapsto> one_task_workflow] \<lparr>req_workflow_id = ''w'', req_can_abort = False, req_input = []\<rparr> 7]"

theorem worker_serializable_witness:
  "\<exists>d s'. (worker_step common_platform (run_on_host (ycsb_functions True)))\<^sup>*\<^sup>* (one_order, no_dispatch, [], fresh_store) ([], d, [], s')
     \<and> same_but (privates (groups_of one_order no_dispatch))
         (serially common_platform (run_on_host (ycsb_functions True)) (behaviours (groups_of one_order no_dispatch)) fresh_store) s'"
proof -
  let ?e = "run_on_host (ycsb_functions True)"
  obtain c where run: "(worker_step common_platform ?e)\<^sup>*\<^sup>* (one_order, no_dispatch, [], fresh_store) c" and left: "steps_left c = 0"
    using worker_ends by blast
  obtain rs d bs s' where c: "c = (rs, d, bs, s')" by (metis surj_pair)
  from left have "rs = []" "bs = []" by (auto simp: c steps_left_def)
  with run c worker_serializable [OF ycsb_host.function_host_axioms, of one_order common_platform True fresh_store d s']
  show ?thesis by (auto simp: one_order_def)
qed

text \<open>
  C6: The worker never gets stuck, and its outcome does not depend on the schedule. From the start,
  no run is longer than the orders and their behaviours are many, every run can be continued until
  nothing is left, and any two runs that have come to their end agree on all that is not private
  to one invocation.
\<close>

theorem worker_deterministic:
  assumes "function_host exec" and "distinct (order_ids rs)"
    and "((worker_step p exec) ^^ n) (rs, no_dispatch, [], s) c"
  shows "n \<le> length rs + length (behaviours (groups_of rs no_dispatch))
    \<and> (\<exists>d s'. (worker_step p exec)\<^sup>*\<^sup>* c ([], d, [], s'))
    \<and> (\<forall>d d' s1 s2. (worker_step p exec)\<^sup>*\<^sup>* c ([], d, [], s1) \<longrightarrow>
         (worker_step p exec)\<^sup>*\<^sup>* (rs, no_dispatch, [], s) ([], d', [], s2) \<longrightarrow>
         same_but (privates (groups_of rs no_dispatch)) s1 s2)"
proof -
  have "steps_left (rs, no_dispatch, [], s) = n + steps_left c" using assms(3) by (rule worker_relpowp)
  then have 1: "n \<le> length rs + length (behaviours (groups_of rs no_dispatch))" by (simp add: steps_left_def)
  obtain c' where c': "(worker_step p exec)\<^sup>*\<^sup>* c c'" "steps_left c' = 0" using worker_ends by blast
  then have 2: "\<exists>d s'. (worker_step p exec)\<^sup>*\<^sup>* c ([], d, [], s')"
    by (cases c') (auto simp: steps_left_def)
  have pre: "(worker_step p exec)\<^sup>*\<^sup>* (rs, no_dispatch, [], s) c" using assms(3) by (rule relpowp_imp_rtranclp)
  have eq: "same_but (privates (groups_of rs no_dispatch)) (serially p exec (behaviours (groups_of rs no_dispatch)) s) s'"
    if "(worker_step p exec)\<^sup>*\<^sup>* (rs, no_dispatch, [], s) ([], d, [], s')" for d s'
    using worker_executions [OF that]
      function_host.executions_schedule [OF assms(1) _ worker_schedule_ok [OF assms(2)], of p s "[]" s']
    by (simp add: all_behaviours_def config_store_def groups_of_simps)
  have "same_but (privates (groups_of rs no_dispatch)) s1 s2"
    if "(worker_step p exec)\<^sup>*\<^sup>* c ([], d, [], s1)" "(worker_step p exec)\<^sup>*\<^sup>* (rs, no_dispatch, [], s) ([], d', [], s2)" for d d' s1 s2
    using eq [OF rtranclp_trans [OF pre that(1)]] eq [OF that(2)] same_but_sym same_but_trans by blast
  with 1 2 show ?thesis by blast
qed

theorem worker_deterministic_witness:
  "\<exists>d s'. (worker_step common_platform (run_on_host (ycsb_functions True)))\<^sup>*\<^sup>* (one_order, no_dispatch, [], fresh_store) ([], d, [], s')"
  using worker_deterministic [OF ycsb_host.function_host_axioms, of one_order 0 common_platform True fresh_store
      "(one_order, no_dispatch, [], fresh_store)"]
  by (simp add: one_order_def)

end
