(* ===== verification/Paths.thy ===== *)
theory Paths
  imports Execution
begin

section \<open>An invocation follows one path\<close>

text \<open>
  The scheduler spawns a behaviour for every node of a workflow, branch by branch in breadth-first
  order, and the guards see to it that only the nodes of the selected branches work. This theory
  shows that running them in that order has the effect of walking from the root along the selected
  edges: the tree of the spawned behaviours, its breadth-first list, and the walk.
\<close>

text \<open>A choice has the indices of the edges that lead on, and the trees they lead to.\<close>

datatype spawn = STask task_run "spawn option" | SChoice choice_run "int list" "spawn list"

fun behaviour_of :: "spawn \<Rightarrow> behaviour" where
  "behaviour_of (STask t n) = RunTask t"
| "behaviour_of (SChoice c js ks) = EvalChoice c"

fun guard_of :: "spawn \<Rightarrow> branch_guard" where
  "guard_of (STask t n) = t_guard t"
| "guard_of (SChoice c js ks) = c_guard c"

fun kids :: "spawn \<Rightarrow> spawn list" where
  "kids (STask t n) = (case n of None \<Rightarrow> [] | Some x \<Rightarrow> [x])"
| "kids (SChoice c js ks) = ks"

fun own_controls :: "spawn \<Rightarrow> cown list" where
  "own_controls (STask t n) = []"
| "own_controls (SChoice c js ks) = [c_control c]"

fun tree_controls :: "spawn \<Rightarrow> cown list" where
  "tree_controls (STask t n) = (case n of None \<Rightarrow> [] | Some x \<Rightarrow> tree_controls x)"
| "tree_controls (SChoice c js ks) = c_control c # concat (map tree_controls ks)"

fun spawn_size :: "spawn \<Rightarrow> nat" where
  "spawn_size (STask t n) = Suc (case n of None \<Rightarrow> 0 | Some x \<Rightarrow> spawn_size x)"
| "spawn_size (SChoice c js ks) = Suc (sum_list (map spawn_size ks))"

definition forest_controls :: "spawn list \<Rightarrow> cown list" where
  "forest_controls ts = concat (map tree_controls ts)"

definition forest_size :: "spawn list \<Rightarrow> nat" where
  "forest_size ts = sum_list (map spawn_size ts)"

lemma forest_simps [simp]:
  "forest_controls [] = []" "forest_controls (t # ts) = tree_controls t @ forest_controls ts"
  "forest_controls (ts @ us) = forest_controls ts @ forest_controls us"
  "forest_size [] = 0" "forest_size (t # ts) = spawn_size t + forest_size ts"
  "forest_size (ts @ us) = forest_size ts + forest_size us"
  by (simp_all add: forest_controls_def forest_size_def)

lemma kids_size: "spawn_size t = Suc (forest_size (kids t))"
  by (cases t) (auto simp: forest_size_def split: option.splits)

lemma kids_controls: "tree_controls t = own_controls t @ forest_controls (kids t)"
  by (cases t) (auto simp: forest_controls_def split: option.splits)

lemma kid_size: "k \<in> set (kids t) \<Longrightarrow> spawn_size k < spawn_size t"
  using member_le_sum_list [of "spawn_size k" "map spawn_size (kids t)"] by (auto simp: kids_size [of t] forest_size_def)

function breadth_first :: "spawn list \<Rightarrow> behaviour list" where
  "breadth_first [] = []"
| "breadth_first (t # ts) = behaviour_of t # breadth_first (ts @ kids t)"
  by pat_completeness auto

termination by (relation "measure forest_size") (auto simp: kids_size)

text \<open>The guards of a tree are those that the scheduler hands on.\<close>

fun guards_ok :: "spawn \<Rightarrow> bool" where
  "guards_ok (STask t n) = (case n of None \<Rightarrow> True | Some x \<Rightarrow> guard_of x = t_guard t \<and> guards_ok x)"
| "guards_ok (SChoice c js ks) = (map guard_of ks = map (\<lambda>j. Some (c_control c, j)) js \<and> distinct js
     \<and> (\<forall>j\<in>set js. 0 \<le> j) \<and> (\<forall>k\<in>set ks. guards_ok k))"

text \<open>The subtree that is open after the root has run: the next task, or the selected branch.\<close>

definition follow :: "spawn \<Rightarrow> store \<Rightarrow> spawn option" where
  "follow t s = (case t of STask r n \<Rightarrow> n | SChoice c js ks \<Rightarrow> map_of (zip js ks) (controls s (c_control c)))"

lemma follow_kid: "follow t s = Some x \<Longrightarrow> x \<in> set (kids t)"
  by (auto simp: follow_def split: spawn.splits option.splits dest!: map_of_SomeD set_zip_rightD)

function walk :: "platform \<Rightarrow> executor \<Rightarrow> spawn \<Rightarrow> store \<Rightarrow> store" where
  "walk p exec t s =
     (case follow t (run p exec (behaviour_of t) s) of
        None \<Rightarrow> run p exec (behaviour_of t) s
      | Some x \<Rightarrow> walk p exec x (run p exec (behaviour_of t) s))"
  by pat_completeness auto

termination by (relation "measure (\<lambda>(p, exec, t, s). spawn_size t)") (auto intro: kid_size follow_kid)

declare walk.simps [simp del]

subsection \<open>Stores that differ in controls only\<close>

definition but_controls :: "cown set \<Rightarrow> store \<Rightarrow> store \<Rightarrow> bool" where
  "but_controls K s s' \<longleftrightarrow> cells s = cells s' \<and> flags s = flags s' \<and> log s = log s'
     \<and> (\<forall>c. c \<notin> K \<longrightarrow> controls s c = controls s' c)"

lemma but_controls_refl [simp, intro]: "but_controls K s s"
  by (simp add: but_controls_def)

lemma but_controls_trans [trans]: "but_controls K s s' \<Longrightarrow> but_controls K s' s'' \<Longrightarrow> but_controls K s s''"
  by (simp add: but_controls_def)

lemma but_controls_sym: "but_controls K s s' \<Longrightarrow> but_controls K s' s"
  by (simp add: but_controls_def)

lemma but_controls_mono: "but_controls K s s' \<Longrightarrow> K \<subseteq> K' \<Longrightarrow> but_controls K' s s'"
  by (auto simp: but_controls_def)

definition is_open :: "store \<Rightarrow> spawn \<Rightarrow> bool" where
  "is_open s t \<longleftrightarrow> guard_open (guard_of t) s"

text \<open>A closed root does nothing but deselect the branches of its choice.\<close>

lemma run_closed:
  assumes "\<not> is_open s t"
  shows "but_controls (set (own_controls t)) (run p exec (behaviour_of t) s) s"
    and "t = SChoice c js ks \<Longrightarrow> controls (run p exec (behaviour_of t) s) (c_control c) = -1"
  using assms
  by (cases t; simp add: is_open_def run_def run_task_def run_choice_def but_controls_def)+

lemma run_controls:
  "c \<notin> set (own_controls t) \<Longrightarrow> controls (run p exec (behaviour_of t) s) c = controls s c"
  by (cases t) (auto simp: run_def run_task_def run_choice_def Let_def split: prod.splits)

text \<open>What a root does depends on the controls through its guard only.\<close>

lemma run_but_controls:
  assumes "but_controls K s s'" and "is_open s t = is_open s' t"
  shows "but_controls K (run p exec (behaviour_of t) s) (run p exec (behaviour_of t) s')"
    and "c \<in> set (own_controls t) \<Longrightarrow> controls (run p exec (behaviour_of t) s) c = controls (run p exec (behaviour_of t) s') c"
proof -
  have same: "cells s = cells s'" "flags s = flags s'" "log s = log s'" using assms(1) by (auto simp: but_controls_def)
  have "but_controls K (run p exec (behaviour_of t) s) (run p exec (behaviour_of t) s')
      \<and> (\<forall>c\<in>set (own_controls t). controls (run p exec (behaviour_of t) s) c = controls (run p exec (behaviour_of t) s') c)"
  proof (cases t)
    case (STask r n)
    have st: "task_storage r s = task_storage r s'" by (simp add: task_storage_def same)
    then have out: "task_outcome exec r s = task_outcome exec r s'" by (simp add: task_outcome_def)
    have wb: "cells (write_back r st s) = cells (write_back r st s')" for st
      unfolding write_back_def same(1) by simp
    show ?thesis
      using assms same wb
      by (auto simp: STask run_def run_task_def is_open_def out Let_def but_controls_def split: prod.splits)
  next
    case (SChoice e js ks)
    have "eval_choice p e s = eval_choice p e s'" by (simp add: eval_choice_def same)
    then show ?thesis
      using assms same
      by (auto simp: SChoice run_def run_choice_def is_open_def Let_def but_controls_def split: prod.splits)
  qed
  then show "but_controls K (run p exec (behaviour_of t) s) (run p exec (behaviour_of t) s')"
    "c \<in> set (own_controls t) \<Longrightarrow> controls (run p exec (behaviour_of t) s) c = controls (run p exec (behaviour_of t) s') c"
    by blast+
qed

subsection \<open>Breadth first and along the path\<close>

lemma is_open_cong: "(\<And>c. c \<in> guard_cowns (guard_of t) \<Longrightarrow> controls s c = controls s' c) \<Longrightarrow> is_open s t = is_open s' t"
  unfolding is_open_def by (rule guard_open_cong) blast

lemma choice_guards:
  assumes "guards_ok (SChoice e js ks)" and "k \<in> set ks"
  shows "guard_cowns (guard_of k) = {c_control e}"
proof -
  have "map guard_of ks = map (\<lambda>j. Some (c_control e, j)) js" using assms(1) by simp
  then have "set (map guard_of ks) = set (map (\<lambda>j. Some (c_control e, j)) js)" by (rule arg_cong)
  then have "guard_of k \<in> (\<lambda>j. Some (c_control e, j)) ` set js" using assms(2) unfolding set_map by blast
  then show ?thesis by (auto simp: guard_cowns_def)
qed

lemma kid_guard:
  assumes "guards_ok t" and "k \<in> set (kids t)"
  shows "guards_ok k" and "guard_cowns (guard_of k) \<subseteq> guard_cowns (guard_of t) \<union> set (own_controls t)"
proof -
  have "guards_ok k \<and> guard_cowns (guard_of k) \<subseteq> guard_cowns (guard_of t) \<union> set (own_controls t)"
  proof (cases t)
    case (STask r n)
    then show ?thesis using assms by (auto split: option.splits)
  next
    case (SChoice e js ks)
    have "guard_cowns (guard_of k) = {c_control e}" using choice_guards assms by (simp add: SChoice del: guards_ok.simps)
    then show ?thesis using assms by (simp add: SChoice)
  qed
  then show "guards_ok k" "guard_cowns (guard_of k) \<subseteq> guard_cowns (guard_of t) \<union> set (own_controls t)" by auto
qed

lemma filter_branches:
  "map guard_of ks = map (\<lambda>j. Some (c, j)) js \<Longrightarrow> distinct js \<Longrightarrow>
     filter (is_open s) ks = (case map_of (zip js ks) (controls s c) of None \<Rightarrow> [] | Some x \<Rightarrow> [x])"
proof (induction ks arbitrary: js)
  case Nil
  then show ?case by simp
next
  case (Cons k ks)
  then obtain j js' where js: "js = j # js'" "guard_of k = Some (c, j)" "map guard_of ks = map (\<lambda>j. Some (c, j)) js'"
    by (cases js) auto
  have op: "is_open s k \<longleftrightarrow> controls s c = j" by (simp add: is_open_def guard_open_def js(2))
  have ih: "filter (is_open s) ks = (case map_of (zip js' ks) (controls s c) of None \<Rightarrow> [] | Some x \<Rightarrow> [x])"
    using Cons js by simp
  show ?case
  proof (cases "controls s c = j")
    case True
    then have "map_of (zip js' ks) (controls s c) = None"
      using Cons.prems(2) js(1) by (auto simp: map_of_eq_None_iff dest: set_zip_leftD)
    then show ?thesis using True ih op by (simp add: js(1))
  next
    case False
    then show ?thesis using ih op by (simp add: js(1))
  qed
qed

lemma kids_after:
  assumes "guards_ok t"
  shows "is_open s t \<Longrightarrow> filter (is_open (run p exec (behaviour_of t) s)) (kids t)
      = (case follow t (run p exec (behaviour_of t) s) of None \<Rightarrow> [] | Some x \<Rightarrow> [x])"
    and "\<not> is_open s t \<Longrightarrow> filter (is_open (run p exec (behaviour_of t) s)) (kids t) = []"
proof -
  let ?s1 = "run p exec (behaviour_of t) s"
  have task: "is_open ?s1 x = is_open s t" if "t = STask r (Some x)" for r x
  proof -
    have "guard_of x = guard_of t" using assms by (simp add: that)
    moreover have "controls ?s1 c = controls s c" for c using run_controls [of c t] by (simp add: that)
    ultimately show ?thesis unfolding is_open_def by (simp add: guard_open_cong)
  qed
  have choice: "filter (is_open ?s1) ks = (case map_of (zip js ks) (controls ?s1 (c_control e)) of None \<Rightarrow> [] | Some x \<Rightarrow> [x])"
    if "t = SChoice e js ks" for e js ks
    using assms by (intro filter_branches) (simp_all add: that)
  show "is_open s t \<Longrightarrow> filter (is_open ?s1) (kids t) = (case follow t ?s1 of None \<Rightarrow> [] | Some x \<Rightarrow> [x])"
  proof (cases t)
    case (STask r n)
    assume "is_open s t"
    then show ?thesis using task STask by (cases n) (auto simp: follow_def)
  next
    case (SChoice e js ks)
    then show ?thesis using choice by (simp add: follow_def)
  qed
  show "\<not> is_open s t \<Longrightarrow> filter (is_open ?s1) (kids t) = []"
  proof (cases t)
    case (STask r n)
    assume "\<not> is_open s t"
    then show ?thesis using task STask by (cases n) auto
  next
    case (SChoice e js ks)
    assume cl: "\<not> is_open s t"
    have "controls ?s1 (c_control e) = -1" using run_closed(2) [OF cl SChoice] .
    then have "map_of (zip js ks) (controls ?s1 (c_control e)) = None"
      using assms by (fastforce simp: SChoice map_of_eq_None_iff dest: set_zip_leftD)
    then show ?thesis using choice [OF SChoice] by (simp add: SChoice)
  qed
qed

lemma walk_but_controls:
  "guards_ok t \<Longrightarrow> but_controls K s s' \<Longrightarrow> is_open s t = is_open s' t \<Longrightarrow> but_controls K (walk p exec t s) (walk p exec t s')"
proof (induction p exec t s arbitrary: s' rule: walk.induct)
  case (1 p exec t s)
  let ?s1 = "run p exec (behaviour_of t) s" and ?s1' = "run p exec (behaviour_of t) s'"
  note r = run_but_controls [OF 1(3,4), where p = p and exec = exec]
  have fol: "follow t ?s1' = follow t ?s1" using r(2) by (cases t) (simp_all add: follow_def)
  show ?case
  proof (cases "follow t ?s1")
    case None
    then show ?thesis using r(1) fol by (simp add: walk.simps [of p exec t])
  next
    case (Some x)
    have kid: "x \<in> set (kids t)" using Some by (rule follow_kid)
    have "is_open ?s1 x = is_open ?s1' x"
    proof (cases t)
      case (STask e n)
      then have "guard_of x = guard_of t" using 1(2) kid by (cases n) auto
      moreover have "controls ?s1 c = controls s c" "controls ?s1' c = controls s' c" for c
        using run_controls [of c t] by (simp_all add: STask)
      ultimately show ?thesis using 1(4) unfolding is_open_def by (simp add: guard_open_cong [of _ ?s1 s] guard_open_cong [of _ ?s1' s'])
    next
      case (SChoice e js ks)
      have "guard_cowns (guard_of x) = {c_control e}" using choice_guards 1(2) kid by (simp add: SChoice del: guards_ok.simps)
      then show ?thesis using r(2) [of "c_control e"] by (intro is_open_cong) (simp add: SChoice)
    qed
    then have "but_controls K (walk p exec x ?s1) (walk p exec x ?s1')"
      using 1(1) [OF Some] kid_guard(1) [OF 1(2) kid] r(1) by blast
    then show ?thesis using Some fol by (simp add: walk.simps [of p exec t])
  qed
qed

definition controls_ok :: "spawn list \<Rightarrow> bool" where
  "controls_ok q \<longleftrightarrow> distinct (forest_controls q) \<and> (\<forall>t\<in>set q. guards_ok t \<and> guard_cowns (guard_of t) \<inter> set (forest_controls q) = {})"

lemma controls_ok_next:
  assumes "controls_ok (t # q)"
  shows "controls_ok (q @ kids t)"
proof -
  have fc: "forest_controls (t # q) = own_controls t @ forest_controls (kids t) @ forest_controls q"
    by (simp add: kids_controls)
  have "guards_ok x \<and> guard_cowns (guard_of x) \<inter> set (forest_controls (q @ kids t)) = {}" if "x \<in> set (q @ kids t)" for x
  proof (cases "x \<in> set q")
    case True
    then show ?thesis using assms fc by (auto simp: controls_ok_def)
  next
    case False
    with that have "x \<in> set (kids t)" by simp
    then show ?thesis using assms fc kid_guard [of t x] by (fastforce simp: controls_ok_def)
  qed
  moreover have "distinct (forest_controls (q @ kids t))" using assms fc by (auto simp: controls_ok_def)
  ultimately show ?thesis by (simp add: controls_ok_def)
qed

lemma open_after_other:
  assumes "controls_ok (t # q)"
  shows "filter (is_open (run p exec (behaviour_of t) s)) q = filter (is_open s) q"
proof (rule filter_cong [OF refl])
  fix x
  assume "x \<in> set q"
  then have "guard_cowns (guard_of x) \<inter> set (own_controls t) = {}"
    using assms by (auto simp: controls_ok_def kids_controls)
  then show "is_open (run p exec (behaviour_of t) s) x = is_open s x"
    by (intro is_open_cong run_controls) blast
qed

lemma breadth_first_walk:
  "controls_ok q \<Longrightarrow> set (forest_controls q) \<subseteq> K \<Longrightarrow> length (filter (is_open s) q) \<le> 1 \<Longrightarrow>
     but_controls K (serially p exec (breadth_first q) s)
       (case filter (is_open s) q of [] \<Rightarrow> s | t # _ \<Rightarrow> walk p exec t s)"
proof (induction q arbitrary: s rule: breadth_first.induct)
  case 1
  then show ?case by simp
next
  case (2 t q)
  let ?s1 = "run p exec (behaviour_of t) s"
  note next_ok = controls_ok_next [OF 2(2)]
  have K: "set (forest_controls (q @ kids t)) \<subseteq> K" "set (own_controls t) \<subseteq> K" using 2(3) by (auto simp: kids_controls)
  have gt: "guards_ok t" using 2(2) by (simp add: controls_ok_def)
  note others = open_after_other [OF 2(2), of p exec s]
  show ?case
  proof (cases "is_open s t")
    case True
    then have "filter (is_open s) q = []" using 2(4) by auto
    then have fl: "filter (is_open ?s1) (q @ kids t) = (case follow t ?s1 of None \<Rightarrow> [] | Some x \<Rightarrow> [x])"
      using others kids_after(1) [OF gt True] by simp
    then have "length (filter (is_open ?s1) (q @ kids t)) \<le> 1" by (simp split: option.splits)
    from 2(1) [OF next_ok K(1) this] fl True show ?thesis
      by (simp add: walk.simps [of p exec t] split: option.splits)
  next
    case False
    then have fl: "filter (is_open ?s1) (q @ kids t) = filter (is_open s) q"
      using others kids_after(2) [OF gt False] by simp
    then have "length (filter (is_open ?s1) (q @ kids t)) \<le> 1" using 2(4) False by simp
    from 2(1) [OF next_ok K(1) this]
    have ih: "but_controls K (serially p exec (breadth_first (q @ kids t)) ?s1)
        (case filter (is_open s) q of [] \<Rightarrow> ?s1 | x # _ \<Rightarrow> walk p exec x ?s1)" by (simp only: fl)
    have s1: "but_controls K ?s1 s" using run_closed(1) [OF False] K(2) by (rule but_controls_mono)
    have "but_controls K (case filter (is_open s) q of [] \<Rightarrow> ?s1 | x # _ \<Rightarrow> walk p exec x ?s1)
        (case filter (is_open s) q of [] \<Rightarrow> s | x # _ \<Rightarrow> walk p exec x s)"
    proof (cases "filter (is_open s) q")
      case Nil
      then show ?thesis using s1 by simp
    next
      case (Cons x xs)
      have "x \<in> set (filter (is_open s) q)" "x \<in> set (filter (is_open ?s1) q)" unfolding others unfolding Cons by simp_all
      then have x: "x \<in> set q" "is_open ?s1 x = is_open s x" by simp_all
      moreover have "guards_ok x" using 2(2) x by (simp add: controls_ok_def)
      ultimately show ?thesis using Cons s1 walk_but_controls by simp
    qed
    with ih have "but_controls K (serially p exec (breadth_first (q @ kids t)) ?s1)
        (case filter (is_open s) q of [] \<Rightarrow> s | x # _ \<Rightarrow> walk p exec x s)" by (rule but_controls_trans)
    then show ?thesis using False by simp
  qed
qed

end
