(* ===== verification/Names.thy ===== *)
theory Names
  imports Paths
begin

section \<open>Names and cowns\<close>

text \<open>
  The resources of a node are names; which names they are depends on the request alone, and the
  scheduler leads different names to different cowns. This theory shows both, and that the behaviours
  of an invocation form a tree that mirrors the graph of its workflow.
\<close>

subsection \<open>What a node names\<close>

text \<open>Digits and a colon: the names that the scheduler makes for the resources of an invocation.\<close>

definition scoped :: "string \<Rightarrow> bool" where
  "scoped n \<longleftrightarrow> takeWhile is_digit n \<noteq> [] \<and> dropWhile is_digit n \<noteq> [] \<and> hd (dropWhile is_digit n) = CHR '':''"

lemma scoped_runtime_name: "is_local cur \<Longrightarrow> scoped (runtime_name cur r e)"
proof -
  assume "is_local cur"
  moreover have "\<forall>c\<in>set (nat_str (unat (invocation_id (r_inv r)))). is_digit c" using nat_str_digits by blast
  moreover have "nat_str (unat (invocation_id (r_inv r))) \<noteq> []" by (rule nat_str_ne)
  moreover have "\<not> is_digit CHR '':''" by (simp add: is_digit_def)
  ultimately show ?thesis by (simp add: scoped_def runtime_name_def)
qed

definition same_outputs :: "resolution \<Rightarrow> resolution \<Rightarrow> bool" where
  "same_outputs r r' \<longleftrightarrow> res_inputs r = res_inputs r' \<and> res_names r = res_names r' \<and> res_ro r = res_ro r'
     \<and> val_inputs r = val_inputs r' \<and> invocation_id (r_inv r) = invocation_id (r_inv r') \<and> request (r_inv r) = request (r_inv r')"

lemma ensure_local_outputs [simp]:
  "res_inputs (ensure_local n r) = res_inputs r" "res_names (ensure_local n r) = res_names r"
  "res_ro (ensure_local n r) = res_ro r" "val_inputs (ensure_local n r) = val_inputs r"
  "invocation_id (r_inv (ensure_local n r)) = invocation_id (r_inv r)" "request (r_inv (ensure_local n r)) = request (r_inv r)"
  by (auto simp: ensure_local_def make_cown_def)

lemma same_outputs_add: "same_outputs r r' \<Longrightarrow> same_outputs (add_name track cur n r) (add_name track cur n r')"
  by (simp add: same_outputs_def add_name_def Let_def)

lemma same_outputs_fold: "same_outputs r r' \<Longrightarrow> same_outputs (fold (add_name track cur) ns r) (fold (add_name track cur) ns r')"
  by (induction ns arbitrary: r r') (simp_all add: same_outputs_add)

lemma same_outputs_name: "same_outputs r r' \<Longrightarrow> runtime_name cur r = runtime_name cur r'"
  by (simp add: same_outputs_def runtime_name_def fun_eq_iff)

lemma same_outputs_binding:
  assumes "same_outputs r r'"
  shows "fst (resolve_binding av track cur r) = fst (resolve_binding av track cur r')
     \<and> same_outputs (snd (resolve_binding av track cur r)) (snd (resolve_binding av track cur r'))"
proof (cases "map_of (req_input (request (r_inv r))) (key cur)")
  case None
  then show ?thesis using assms by (simp add: resolve_binding_def same_outputs_def)
next
  case (Some f)
  have req: "request (r_inv r') = request (r_inv r)" using assms by (simp add: same_outputs_def)
  note same = same_outputs_name [OF assms, of cur] same_outputs_add [OF assms, of track cur] same_outputs_fold [OF assms, of track cur]
  show ?thesis
  proof (cases "immediate cur \<or> kind f \<noteq> KArray")
    case True
    then show ?thesis using assms same(2) [of "runtime_name cur r' (string_value f)"]
      by (auto simp: resolve_binding_def req Some same(1) Let_def same_outputs_def)
  next
    case False
    then show ?thesis using assms same(3)
      by (auto simp: resolve_binding_def req Some same(1) Let_def same_outputs_def split: option.splits)
  qed
qed

lemma same_outputs_resolve:
  "same_outputs r r' \<Longrightarrow> fst (resolve_resources av track bs r) = fst (resolve_resources av track bs r')
     \<and> same_outputs (snd (resolve_resources av track bs r)) (snd (resolve_resources av track bs r'))"
proof (induction bs arbitrary: r r')
  case (Cons cur bs)
  obtain x r1 where 1: "resolve_binding av track cur r = (x, r1)" by (cases "resolve_binding av track cur r")
  obtain y r2 where 2: "resolve_binding av track cur r' = (y, r2)" by (cases "resolve_binding av track cur r'")
  have "x = y" "same_outputs r1 r2" using same_outputs_binding [OF Cons.prems, of av track cur] 1 2 by auto
  then show ?case using Cons.IH [of r1 r2] 1 2 by (cases y) auto
qed simp

definition blank :: "64 word \<Rightarrow> invoke_request \<Rightarrow> string list \<Rightarrow> string list \<Rightarrow> resolution" where
  "blank i req ns ro = \<lparr>r_dispatch = no_dispatch,
     r_inv = \<lparr>invocation_id = i, workflow_resources = Map.empty, workflow_rw_resources = [], invocation_cown = 0, request = req\<rparr>,
     res_inputs = [], res_names = ns, res_ro = ro, val_inputs = []\<rparr>"

text \<open>The function of a task with its resources and its input, and the inputs of a choice.\<close>

definition task_info :: "64 word \<Rightarrow> invoke_request \<Rightarrow> node \<Rightarrow> wasm_func_info fallible" where
  "task_info i req nd =
     (case node_func nd of
        None \<Rightarrow> Inl (''unbound function '' @ node_func_id nd)
      | Some f \<Rightarrow>
          (case resolve_resources True True (bindings nd) (blank i req (resources f) (read_only f)) of
             (Inl e, r) \<Rightarrow> Inl e
           | (Inr _, r) \<Rightarrow> Inr (set_input_data (dump_task_input (res_inputs r) (val_inputs r))
                                  (f\<lparr>resources := res_names r, read_only := res_ro r\<rparr>))))"

definition choice_inputs :: "64 word \<Rightarrow> invoke_request \<Rightarrow> node \<Rightarrow> (resource_inputs \<times> value_inputs \<times> string list) fallible" where
  "choice_inputs i req nd =
     (case resolve_resources False False (bindings nd) (blank i req [] []) of
        (Inl e, r) \<Rightarrow> Inl e
      | (Inr _, r) \<Rightarrow> Inr (res_inputs r, val_inputs r, res_names r))"

subsection \<open>Different names, different cowns\<close>

definition inj_map :: "dispatch \<Rightarrow> bool" where
  "inj_map d \<longleftrightarrow> (\<forall>n m c j k. resource_map d n = Some (c, j) \<longrightarrow> resource_map d m = Some (c, k) \<longrightarrow> n = m)"

lemma inj_mapD: "inj_map d \<Longrightarrow> resource_map d n = Some (c, j) \<Longrightarrow> resource_map d m = Some (c, k) \<Longrightarrow> n = m"
  unfolding inj_map_def by blast

definition names_ok :: "dispatch \<Rightarrow> bool" where
  "names_ok d \<longleftrightarrow> inj_map d \<and> (\<forall>n. resource_map d n \<noteq> None \<longrightarrow> \<not> scoped n)"

definition tidy :: "dispatch \<Rightarrow> invocation \<Rightarrow> bool" where
  "tidy d iv \<longleftrightarrow> names_ok d
     \<and> (\<forall>n m c. workflow_resources iv n = Some c \<longrightarrow> workflow_resources iv m = Some c \<longrightarrow> n = m)
     \<and> (\<forall>n. workflow_resources iv n \<noteq> None \<longrightarrow> scoped n)"

definition tracks :: "dispatch \<Rightarrow> invocation \<Rightarrow> dispatch \<Rightarrow> invocation \<Rightarrow> bool" where
  "tracks d iv d' iv' \<longleftrightarrow> advances d iv d' iv' \<and> workflow_resources iv \<subseteq>\<^sub>m workflow_resources iv'
     \<and> (\<forall>n0. inv_ok n0 d iv \<longrightarrow> tidy d iv \<longrightarrow> tidy d' iv')"

lemma tracks_refl [simp, intro]: "tracks d iv d iv"
  by (simp add: tracks_def)

lemma tracksD:
  assumes "tracks d iv d' iv'"
  shows "advances d iv d' iv'" and "workflow_resources iv \<subseteq>\<^sub>m workflow_resources iv'"
    and "inv_ok n0 d iv \<Longrightarrow> tidy d iv \<Longrightarrow> tidy d' iv'" and "inv_ok n0 d iv \<Longrightarrow> inv_ok n0 d' iv'"
  using assms unfolding tracks_def advances_def by blast+

lemma tracks_trans [trans]:
  assumes "tracks d iv d' iv'" and "tracks d' iv' d'' iv''"
  shows "tracks d iv d'' iv''"
proof -
  note 1 = tracksD [OF assms(1)] and 2 = tracksD [OF assms(2)]
  have "tidy d'' iv''" if "inv_ok n0 d iv" "tidy d iv" for n0
    using 2(3) [OF 1(4) [OF that(1)] 1(3) [OF that]] .
  then show ?thesis
    using advances_trans [OF 1(1) 2(1)] map_le_trans [OF 1(2) 2(2)] by (simp add: tracks_def)
qed

text \<open>A name that a behaviour uses: it has a cown, and its cown stays.\<close>

definition used :: "dispatch \<Rightarrow> invocation \<Rightarrow> string \<Rightarrow> bool" where
  "used d iv n \<longleftrightarrow> known d iv n \<and> (workflow_resources iv n = None \<longrightarrow> \<not> scoped n)"

lemma used_stays:
  assumes "tracks d iv d' iv'" and "tidy d' iv'" and "used d iv n"
  shows "used d' iv' n" and "lookup d' iv' n = lookup d iv n"
proof -
  have le: "workflow_resources iv \<subseteq>\<^sub>m workflow_resources iv'" and gr: "grows d d'" and i: "invocation_id iv' = invocation_id iv"
    using assms(1) by (auto simp: tracks_def advances_def same_run_def)
  have "used d' iv' n \<and> lookup d' iv' n = lookup d iv n"
  proof (cases "workflow_resources iv n")
    case None
    then have "\<not> scoped n" using assms(3) i by (simp add: used_def)
    then have None': "workflow_resources iv' n = None" using assms(2) by (auto simp: tidy_def)
    have "resource_map d n \<noteq> None" using assms(3) None by (simp add: used_def known_def)
    then obtain c k where "resource_map d n = Some (c, k)" by auto
    moreover from this obtain k' where "resource_map d' n = Some (c, k')" using gr unfolding grows_def by blast
    ultimately show ?thesis using None None' assms(3) i by (simp add: used_def known_def lookup_def)
  next
    case (Some c)
    then have "workflow_resources iv' n = Some c" using le by (metis domI map_le_def)
    then show ?thesis using Some by (simp add: used_def known_def lookup_def)
  qed
  then show "used d' iv' n" "lookup d' iv' n = lookup d iv n" by auto
qed

lemma lookup_inj:
  assumes "tidy d iv" and "inv_ok n0 d iv" and "used d iv n" and "used d iv m" and "lookup d iv n = lookup d iv m"
  shows "n = m"
proof -
  have w: "workflow_resources iv x = Some c \<Longrightarrow> c \<notin> globals d" for x c
    using assms(2) by (auto simp: inv_ok_def ran_def owned_def)
  have g: "used d iv x \<Longrightarrow> workflow_resources iv x = None \<Longrightarrow> \<exists>k. resource_map d x = Some (lookup d iv x, k)" for x
    by (auto simp: used_def known_def lookup_def)
  show ?thesis
  proof (cases "workflow_resources iv n"; cases "workflow_resources iv m")
    assume "workflow_resources iv n = None" "workflow_resources iv m = None"
    then obtain j k where "resource_map d n = Some (lookup d iv n, j)" "resource_map d m = Some (lookup d iv n, k)"
      using g [OF assms(3)] g [OF assms(4)] assms(5) by auto
    then show ?thesis using assms(1) inj_mapD by (auto simp: tidy_def names_ok_def)
  next
    fix c
    assume "workflow_resources iv n = None" "workflow_resources iv m = Some c"
    moreover from this have "lookup d iv m = c" by (simp add: lookup_def)
    ultimately show ?thesis using g [OF assms(3)] w assms(5) globalsI by metis
  next
    fix c
    assume "workflow_resources iv n = Some c" "workflow_resources iv m = None"
    moreover from this have "lookup d iv n = c" by (simp add: lookup_def)
    ultimately show ?thesis using g [OF assms(4)] w assms(5) globalsI by metis
  next
    fix c e
    assume "workflow_resources iv n = Some c" "workflow_resources iv m = Some e"
    then show ?thesis using assms(1,5) unfolding tidy_def lookup_def by simp
  qed
qed

text \<open>The operations of the scheduler.\<close>

lemma tracks_same_wr:
  assumes "advances d iv d' iv'" and "workflow_resources iv' = workflow_resources iv"
    and inj: "dispatch_ok d \<Longrightarrow> names_ok d \<Longrightarrow> names_ok d'"
  shows "tracks d iv d' iv'"
proof -
  have "invocation_id iv' = invocation_id iv" using assms(1) by (simp add: advances_def same_run_def)
  then have "tidy d' iv'" if "inv_ok n0 d iv" "tidy d iv" for n0
    using that inj assms(2) by (simp add: tidy_def inv_ok_def)
  then show ?thesis using assms(1,2) by (auto simp: tracks_def)
qed

lemma tracks_make_cown: "make_cown d = (c, d') \<Longrightarrow> tracks d iv d' iv"
  using grows_make_cown by (intro tracks_same_wr advances_grows) (auto simp: names_ok_def inj_map_def)

lemma find_or_make_inj:
  assumes "find_or_make n d = ((c, k), d')" and "dispatch_ok d" and names: "names_ok d" and "\<not> scoped n"
  shows "names_ok d'"
proof (cases "resource_map d n")
  case None
  with assms(1) have d': "resource_map d' = (resource_map d)(n \<mapsto> (next_cown d, 0))" by (auto simp: find_or_make_def make_cown_def)
  have lt: "c < next_cown d" if "resource_map d m = Some (c, j)" for m c j
    using globalsI [OF that] assms(2) by (auto simp: dispatch_ok_def)
  have "x = y" if "resource_map d' x = Some (e, j)" "resource_map d' y = Some (e, l)" for x y e j l
    using that lt inj_mapD [of d] names unfolding d' by (auto simp: names_ok_def split: if_splits)
  then have "inj_map d'" by (simp add: inj_map_def)
  then show ?thesis using names assms(4) by (auto simp: names_ok_def d')
next
  case (Some ck)
  then show ?thesis using assms by (auto simp: find_or_make_def)
qed

lemma update_inj:
  assumes "names_ok d" and "resource_map d n = Some (c, k)"
  shows "names_ok (d\<lparr>resource_map := (resource_map d)(n \<mapsto> (c, k'))\<rparr>)" (is "names_ok ?d")
proof -
  have inj: "inj_map d" using assms(1) by (simp add: names_ok_def)
  have "\<exists>l. resource_map d x = Some (e, l)" if "resource_map ?d x = Some (e, j)" for x e j
    using that assms(2) by (auto split: if_splits)
  then have "inj_map ?d" using inj_mapD [OF inj] unfolding inj_map_def by metis
  then show ?thesis using assms by (auto simp: names_ok_def)
qed

lemma tracks_ensure_local:
  assumes "scoped n"
  shows "tracks (r_dispatch r) (r_inv r) (r_dispatch (ensure_local n r)) (r_inv (ensure_local n r))"
proof (cases "workflow_resources (r_inv r) n")
  case None
  let ?d = "r_dispatch r" and ?iv = "r_inv r"
  let ?iv' = "?iv\<lparr>workflow_resources := (workflow_resources ?iv)(n \<mapsto> next_cown ?d)\<rparr>"
  have el: "r_dispatch (ensure_local n r) = ?d\<lparr>next_cown := Suc (next_cown ?d)\<rparr>" "r_inv (ensure_local n r) = ?iv'"
    using None by (simp_all add: ensure_local_def make_cown_def)
  have "tidy (?d\<lparr>next_cown := Suc (next_cown ?d)\<rparr>) ?iv'" if ok: "inv_ok n0 ?d ?iv" and ti: "tidy ?d ?iv" for n0
  proof -
    have "c < next_cown ?d" if "workflow_resources ?iv m = Some c" for m c
      using that ok by (auto simp: inv_ok_def ran_def owned_def)
    then have "x = y" if "workflow_resources ?iv' x = Some c" "workflow_resources ?iv' y = Some c" for x y c
      using that ti by (auto simp: tidy_def split: if_splits)
    moreover have "names_ok (?d\<lparr>next_cown := Suc (next_cown ?d)\<rparr>)" using ti by (simp add: tidy_def names_ok_def inj_map_def)
    moreover have "scoped x" if "workflow_resources ?iv' x \<noteq> None" for x
      using that ti assms by (cases "x = n") (simp_all add: tidy_def)
    ultimately show ?thesis unfolding tidy_def by blast
  qed
  moreover have "workflow_resources ?iv \<subseteq>\<^sub>m workflow_resources ?iv'" using None by (auto simp: map_le_def)
  ultimately show ?thesis using advances_ensure_local [of r n] unfolding tracks_def el by blast
qed (simp add: ensure_local_def)

text \<open>The names of a node lead to local resources of the invocation or are no local names.\<close>

definition nameable :: "invocation \<Rightarrow> string \<Rightarrow> bool" where
  "nameable iv n \<longleftrightarrow> workflow_resources iv n \<noteq> None \<or> \<not> scoped n"

lemma nameable_stays: "tracks d iv d' iv' \<Longrightarrow> nameable iv n \<Longrightarrow> nameable iv' n"
  by (auto simp: tracks_def advances_def same_run_def nameable_def map_le_def dom_def)

definition resolved_to :: "resolution \<Rightarrow> resolution \<Rightarrow> bool" where
  "resolved_to r r' \<longleftrightarrow> tracks (r_dispatch r) (r_inv r) (r_dispatch r') (r_inv r')
     \<and> ((\<forall>n\<in>set (res_names r). nameable (r_inv r) n) \<longrightarrow> (\<forall>n\<in>set (res_names r'). nameable (r_inv r') n))"

lemma resolved_to_refl [simp, intro]: "resolved_to r r"
  by (simp add: resolved_to_def)

lemma resolved_to_trans [trans]: "resolved_to r r' \<Longrightarrow> resolved_to r' r'' \<Longrightarrow> resolved_to r r''"
  using tracks_trans unfolding resolved_to_def by blast

lemma resolved_add_name:
  assumes "is_local cur \<longrightarrow> scoped n" and "\<not> is_local cur \<longrightarrow> \<not> scoped n"
  shows "resolved_to r (add_name track cur n r)"
proof (cases "is_local cur")
  case True
  let ?r = "ensure_local n r"
  have tr: "tracks (r_dispatch r) (r_inv r) (r_dispatch ?r) (r_inv ?r)" using True assms(1) tracks_ensure_local by blast
  have "nameable (r_inv ?r) n" by (auto simp: nameable_def ensure_local_def make_cown_def)
  then show ?thesis using tr nameable_stays [OF tr] True by (auto simp: resolved_to_def add_name_def Let_def)
next
  case False
  then show ?thesis using assms(2) by (auto simp: resolved_to_def add_name_def Let_def nameable_def)
qed

lemma add_name_id [simp]:
  "invocation_id (r_inv (add_name track cur n r)) = invocation_id (r_inv r)"
  "request (r_inv (add_name track cur n r)) = request (r_inv r)"
  by (simp_all add: add_name_def Let_def)

lemma resolved_fold_names:
  "\<forall>n\<in>set ns. (is_local cur \<longrightarrow> scoped n) \<and> (\<not> is_local cur \<longrightarrow> \<not> scoped n) \<Longrightarrow>
     resolved_to r (fold (add_name track cur) ns r)"
proof (induction ns arbitrary: r)
  case (Cons n ns)
  have "resolved_to r (add_name track cur n r)" using Cons.prems by (intro resolved_add_name) auto
  also have "resolved_to (add_name track cur n r) (fold (add_name track cur) ns (add_name track cur n r))"
    using Cons.prems by (intro Cons.IH) auto
  finally show ?case by simp
qed simp

text \<open>A request whose strings are no local names of its invocation.\<close>

definition plain_input :: "invoke_request \<Rightarrow> bool" where
  "plain_input req \<longleftrightarrow> (\<forall>f\<in>snd ` set (req_input req). \<not> scoped (string_value f)
     \<and> (\<forall>es. get_string_array f = Some es \<longrightarrow> (\<forall>e\<in>set es. \<not> scoped e)))"

lemma resolved_binding:
  assumes "resolve_binding av track cur r = (res, r')" and "plain_input (request (r_inv r))"
  shows "resolved_to r r'"
proof (cases "map_of (req_input (request (r_inv r))) (key cur)")
  case None
  then show ?thesis using assms(1) by (auto simp: resolve_binding_def)
next
  case (Some f)
  then have "f \<in> snd ` set (req_input (request (r_inv r)))" by (force dest: map_of_SomeD)
  then have plain: "\<not> scoped (string_value f)"
    "\<And>es e. get_string_array f = Some es \<Longrightarrow> e \<in> set es \<Longrightarrow> \<not> scoped e"
    using assms(2) by (auto simp: plain_input_def)
  have name: "(is_local cur \<longrightarrow> scoped (runtime_name cur r e))
      \<and> (\<not> is_local cur \<longrightarrow> \<not> scoped (runtime_name cur r e))"
    if "\<not> scoped e" for e
    using that scoped_runtime_name [of cur r e] by (auto simp: runtime_name_def)
  have outputs: "resolved_to r (x\<lparr>res_inputs := y\<rparr>) = resolved_to r x" "resolved_to r (x\<lparr>val_inputs := z\<rparr>) = resolved_to r x" for x y z
    by (simp_all add: resolved_to_def)
  have "resolved_to r (add_name track cur (runtime_name cur r (string_value f)) r)"
    using name [OF plain(1)] by (intro resolved_add_name) auto
  moreover have "resolved_to r (fold (add_name track cur) (map (runtime_name cur r) es) r)" if "get_string_array f = Some es" for es
    using name plain(2) [OF that] by (intro resolved_fold_names) auto
  ultimately show ?thesis
    using assms(1) Some by (auto simp: resolve_binding_def outputs Let_def split: if_splits option.splits)
qed

lemma resolve_binding_id:
  assumes "resolve_binding av track cur r = (res, r')"
  shows "invocation_id (r_inv r') = invocation_id (r_inv r)" and "request (r_inv r') = request (r_inv r)"
  using advances_resolve_binding [OF assms] unfolding advances_def same_run_def by blast+

lemma resolved_resources:
  "resolve_resources av track bs r = (res, r') \<Longrightarrow> plain_input (request (r_inv r)) \<Longrightarrow> resolved_to r r'"
proof (induction bs arbitrary: r)
  case Nil
  then show ?case by simp
next
  case (Cons cur bs)
  obtain x r1 where step: "resolve_binding av track cur r = (x, r1)" by (cases "resolve_binding av track cur r")
  have 1: "resolved_to r r1" using resolved_binding [OF step Cons.prems(2)] .
  show ?case
  proof (cases x)
    case (Inl e)
    then have "r' = r1" using Cons.prems(1) step by simp
    with 1 show ?thesis by simp
  next
    case (Inr y)
    then have rest: "resolve_resources av track bs r1 = (res, r')" using Cons.prems(1) step by simp
    have "plain_input (request (r_inv r1))"
      unfolding resolve_binding_id [OF step] by (rule Cons.prems(2))
    from resolved_to_trans [OF 1 Cons.IH [OF rest this]] show ?thesis .
  qed
qed

lemma tracks_use: "nameable (u_inv u) n \<Longrightarrow> tracks (u_dispatch u) (u_inv u) (u_dispatch (use_resource ro n u)) (u_inv (use_resource ro n u))"
proof (rule tracks_same_wr)
  assume nm: "nameable (u_inv u) n"
  show "advances (u_dispatch u) (u_inv u) (u_dispatch (use_resource ro n u)) (u_inv (use_resource ro n u))"
    "workflow_resources (u_inv (use_resource ro n u)) = workflow_resources (u_inv u)"
    using uses_step_use [of ro n u] unfolding uses_step_def by blast+
  assume ok: "dispatch_ok (u_dispatch u)" and inj: "names_ok (u_dispatch u)"
  show "names_ok (u_dispatch (use_resource ro n u))"
  proof (cases "workflow_resources (u_inv u) n")
    case None
    obtain c k d where fm: "find_or_make n (u_dispatch u) = ((c, k), d)" by (metis surj_pair)
    have "u_dispatch (use_resource ro n u) = d\<lparr>resource_map := (resource_map d)(n \<mapsto> (c, k + 1))\<rparr>"
      by (simp add: use_resource_def None fm Let_def)
    moreover have "\<not> scoped n" using nm None by (simp add: nameable_def)
    ultimately show ?thesis using update_inj [OF find_or_make_inj [OF fm ok inj] grows_find(2) [OF fm]] by simp
  next
    case (Some c)
    then show ?thesis using inj by (simp add: use_resource_def)
  qed
qed

lemma tracks_uses: "\<forall>n\<in>set ns. nameable (u_inv u) n \<Longrightarrow> tracks (u_dispatch u) (u_inv u) (u_dispatch (fold (use_resource ro) ns u)) (u_inv (fold (use_resource ro) ns u))"
proof (induction ns arbitrary: u)
  case (Cons n ns)
  have use: "tracks (u_dispatch u) (u_inv u) (u_dispatch (use_resource ro n u)) (u_inv (use_resource ro n u))"
    using Cons.prems by (intro tracks_use) simp
  have "tracks (u_dispatch (use_resource ro n u)) (u_inv (use_resource ro n u))
      (u_dispatch (fold (use_resource ro) ns (use_resource ro n u))) (u_inv (fold (use_resource ro) ns (use_resource ro n u)))"
    using Cons.prems nameable_stays [OF use] by (intro Cons.IH) simp
  with use show ?case using tracks_trans by simp
qed simp

definition task_at :: "dispatch \<Rightarrow> invocation \<Rightarrow> wasm_func_info \<Rightarrow> task_run \<Rightarrow> bool" where
  "task_at d iv info t \<longleftrightarrow> t_inv t = invocation_id iv \<and> t_can_abort t = req_can_abort (request iv) \<and> t_info t = info
     \<and> t_rw t = map (lookup d iv) (filter (\<lambda>n. n \<notin> set (read_only info)) (resources info))
     \<and> t_ro t = map (lookup d iv) (filter (\<lambda>n. n \<in> set (read_only info)) (resources info))
     \<and> (\<forall>n\<in>set (resources info). used d iv n)"

definition choice_at :: "dispatch \<Rightarrow> invocation \<Rightarrow> node \<Rightarrow> resource_inputs \<times> value_inputs \<times> string list \<Rightarrow> choice_run \<Rightarrow> bool" where
  "choice_at d iv nd ins c \<longleftrightarrow> c_inv c = invocation_id iv \<and> c_can_abort c = req_can_abort (request iv)
     \<and> c_edges c = node_choices nd \<and> (c_inputs c, c_values c, c_names c) = ins
     \<and> c_cowns c = map (lookup d iv) (c_names c) \<and> (\<forall>n\<in>set (c_names c). used d iv n)"

lemma task_at_stays:
  assumes "task_at d iv info t" and "tracks d iv d' iv'" and "tidy d' iv'"
  shows "task_at d' iv' info t"
proof -
  have "\<forall>n\<in>set (resources info). used d' iv' n \<and> lookup d' iv' n = lookup d iv n"
    using assms used_stays [OF assms(2,3)] by (simp add: task_at_def)
  moreover have "invocation_id iv' = invocation_id iv" "request iv' = request iv"
    using tracksD(1) [OF assms(2)] by (simp_all add: advances_def same_run_def)
  ultimately show ?thesis using assms(1) by (simp add: task_at_def)
qed

lemma choice_at_stays:
  assumes "choice_at d iv nd ins c" and "tracks d iv d' iv'" and "tidy d' iv'"
  shows "choice_at d' iv' nd ins c"
proof -
  have "\<forall>n\<in>set (c_names c). used d' iv' n \<and> lookup d' iv' n = lookup d iv n"
    using assms used_stays [OF assms(2,3)] by (simp add: choice_at_def)
  moreover have "invocation_id iv' = invocation_id iv" "request iv' = request iv"
    using tracksD(1) [OF assms(2)] by (simp_all add: advances_def same_run_def)
  ultimately show ?thesis using assms(1) by (simp add: choice_at_def)
qed

lemma scheduled_function_at:
  assumes "schedule_function info g d iv = (b, d', iv')" and "\<forall>n\<in>set (resources info). nameable iv n"
  shows "tracks d iv d' iv'" and "\<exists>t. b = RunTask t \<and> t_guard t = g \<and> task_at d' iv' info t"
proof -
  let ?ro = "read_only info" and ?ns = "resources info"
  let ?start = "\<lparr>u_dispatch = d, u_inv = iv, u_rw = [], u_ro = [], u_refs = Map.empty\<rparr>"
  let ?u = "fold (use_resource ?ro) ?ns ?start"
  have st: "uses_steps ?ro ?ns ?start ?u" by (rule uses_steps_fold)
  have d': "d' = u_dispatch ?u" "iv' = u_inv ?u" using assms(1) by (auto simp: schedule_function_def Let_def)
  show tr: "tracks d iv d' iv'" using tracks_uses [of ?ns ?start ?ro] assms(2) by (simp add: d')
  have same: "invocation_id iv' = invocation_id iv" "request iv' = request iv" "workflow_resources iv' = workflow_resources iv"
    using tracksD(1) [OF tr] st by (simp_all add: advances_def same_run_def uses_steps_def d')
  have "\<forall>n\<in>set ?ns. used d' iv' n"
    using st assms(2) same by (auto simp: uses_steps_def d' used_def nameable_def)
  moreover have "u_rw ?u = map (lookup d' iv') (filter (\<lambda>n. n \<notin> set ?ro) ?ns)"
    "u_ro ?u = map (lookup d' iv') (filter (\<lambda>n. n \<in> set ?ro) ?ns)" using st by (simp_all add: uses_steps_def d')
  moreover have "b = RunTask \<lparr>t_inv = invocation_id iv, t_can_abort = req_can_abort (request iv), t_guard = g,
            t_ic = invocation_cown iv, t_info = info, t_rw = u_rw ?u, t_ro = u_ro ?u,
            t_globals = set (workflow_rw_resources (u_inv ?u)), t_refs = u_refs ?u\<rparr>"
    using assms(1) by (auto simp: schedule_function_def Let_def)
  ultimately show "\<exists>t. b = RunTask t \<and> t_guard t = g \<and> task_at d' iv' info t"
    using same by (simp add: task_at_def)
qed

text \<open>The functions that are registered with resources of their own name no local ones.\<close>

definition plain_function :: "wasm_func_info option \<Rightarrow> bool" where
  "plain_function f = (case f of None \<Rightarrow> True | Some g \<Rightarrow> list_all (\<lambda>n. \<not> scoped n) (resources g))"

fun plain_graph :: "node \<Rightarrow> bool"
  and plain_edge :: "edge \<Rightarrow> bool" where
  "plain_graph (Node w s ty f fn bs en next es) =
     (plain_function fn \<and> pred_option plain_graph next \<and> list_all plain_edge es)"
| "plain_edge (Edge v oper val next) = pred_option plain_graph next"

definition clash_free :: "invocation \<Rightarrow> bool" where
  "clash_free iv \<longleftrightarrow> plain_input (request iv)"

lemma task_node_at:
  assumes "run_task_node nd g d iv = (res, d', iv')" and "clash_free iv" and "plain_function (node_func nd)"
  shows "tracks d iv d' iv'"
    and "res = Inl e \<Longrightarrow> \<exists>e'. task_info (invocation_id iv) (request iv) nd = Inl e'"
    and "res = Inr b \<Longrightarrow> \<exists>t info. b = RunTask t \<and> t_guard t = g
        \<and> task_info (invocation_id iv) (request iv) nd = Inr info \<and> task_at d' iv' info t"
proof -
  have "tracks d iv d' iv' \<and> (\<forall>e. res = Inl e \<longrightarrow> (\<exists>e'. task_info (invocation_id iv) (request iv) nd = Inl e'))
     \<and> (\<forall>b. res = Inr b \<longrightarrow> (\<exists>t info. b = RunTask t \<and> t_guard t = g
          \<and> task_info (invocation_id iv) (request iv) nd = Inr info \<and> task_at d' iv' info t))"
  proof (cases "node_func nd")
    case None
    then show ?thesis using assms(1) by (auto simp: run_task_node_def task_info_def)
  next
    case (Some f)
    let ?r0 = "\<lparr>r_dispatch = d, r_inv = iv, res_inputs = [], res_names = resources f, res_ro = read_only f, val_inputs = []\<rparr>"
    let ?b0 = "blank (invocation_id iv) (request iv) (resources f) (read_only f)"
    obtain x r where rr: "resolve_resources True True (bindings nd) ?r0 = (x, r)"
      by (cases "resolve_resources True True (bindings nd) ?r0")
    obtain y r' where rb: "resolve_resources True True (bindings nd) ?b0 = (y, r')"
      by (cases "resolve_resources True True (bindings nd) ?b0")
    have "same_outputs ?r0 ?b0" by (simp add: same_outputs_def blank_def)
    from same_outputs_resolve [OF this, of True True "bindings nd"] rr rb
    have out: "x = y" "same_outputs r r'" by simp_all
    have rt: "resolved_to ?r0 r" using resolved_resources [OF rr] assms(2) by (simp add: clash_free_def)
    then have tr: "tracks d iv (r_dispatch r) (r_inv r)" by (simp add: resolved_to_def)
    have same: "invocation_id (r_inv r) = invocation_id iv" "request (r_inv r) = request iv"
      using tracksD(1) [OF tr] by (simp_all add: advances_def same_run_def)
    have "\<forall>n\<in>set (resources f). nameable iv n"
      using assms(3) by (auto simp: nameable_def plain_function_def Some list_all_iff)
    then have nm: "\<forall>n\<in>set (res_names r). nameable (r_inv r) n" using rt by (simp add: resolved_to_def)
    show ?thesis
    proof (cases x)
      case (Inl e)
      then show ?thesis using assms(1) Some rr rb out tr by (auto simp: run_task_node_def task_info_def)
    next
      case (Inr z)
      let ?info = "set_input_data (dump_task_input (res_inputs r) (val_inputs r)) (f\<lparr>resources := res_names r, read_only := res_ro r\<rparr>)"
      obtain b where sf: "schedule_function ?info g (r_dispatch r) (r_inv r) = (b, d', iv')" "res = Inr b"
        using assms(1) Some rr Inr by (auto simp: run_task_node_def split: prod.splits)
      have "\<forall>n\<in>set (resources ?info). nameable (r_inv r) n" using nm by (simp add: set_input_data_def)
      note at = scheduled_function_at [OF sf(1) this]
      have "task_info (invocation_id iv) (request iv) nd = Inr ?info"
        using Some rb out(2) Inr unfolding out(1) by (simp add: task_info_def same_outputs_def)
      then show ?thesis using at sf(2) tracks_trans [OF tr at(1)] by auto
    qed
  qed
  then show "tracks d iv d' iv'" "res = Inl e \<Longrightarrow> \<exists>e'. task_info (invocation_id iv) (request iv) nd = Inl e'"
    "res = Inr b \<Longrightarrow> \<exists>t info. b = RunTask t \<and> t_guard t = g
        \<and> task_info (invocation_id iv) (request iv) nd = Inr info \<and> task_at d' iv' info t" by blast+
qed

lemma tracks_choose:
  "fold (choose_cown iv) ns (cs0, d) = (cs, d') \<Longrightarrow> \<forall>n\<in>set ns. nameable iv n \<Longrightarrow>
     tracks d iv d' iv \<and> cs = cs0 @ map (lookup d' iv) ns \<and> (\<forall>n\<in>set ns. known d' iv n)"
proof (induction ns arbitrary: cs0 d)
  case Nil
  then show ?case by simp
next
  case (Cons n ns)
  obtain c d1 where ch: "choose_cown iv n (cs0, d) = (cs0 @ [c], d1)" "tracks d iv d1 iv" "known d1 iv n" "lookup d1 iv n = c"
  proof (cases "workflow_resources iv n")
    case None
    obtain c k d1 where fm: "find_or_make n d = ((c, k), d1)" by (metis surj_pair)
    have "tracks d iv d1 iv"
      using grows_find(1) [OF fm] find_or_make_inj [OF fm] Cons.prems(2) None
      by (intro tracks_same_wr advances_grows) (auto simp: nameable_def)
    then show ?thesis using None fm grows_find(2) [OF fm] by (intro that) (auto simp: choose_cown_def known_def lookup_def)
  next
    case (Some c)
    then show ?thesis by (intro that [of c d]) (auto simp: choose_cown_def known_def lookup_def)
  qed
  have "fold (choose_cown iv) ns (cs0 @ [c], d1) = (cs, d')" using Cons.prems(1) ch(1) by simp
  from Cons.IH [OF this] Cons.prems(2) have ih: "tracks d1 iv d' iv" "cs = (cs0 @ [c]) @ map (lookup d' iv) ns"
    "\<forall>n\<in>set ns. known d' iv n" by auto
  have gr: "grows d1 d'" using tracksD(1) [OF ih(1)] by (simp add: advances_def)
  show ?case
    using ih ch(4) tracks_trans [OF ch(2) ih(1)] lookup_grows [OF gr refl ch(3)] known_grows [OF gr refl ch(3)] by auto
qed

lemma choice_node_at:
  assumes "schedule_choice_node nd control g d iv = (res, d', iv')" and "clash_free iv"
  shows "tracks d iv d' iv'"
    and "res = Inl e \<Longrightarrow> \<exists>e'. choice_inputs (invocation_id iv) (request iv) nd = Inl e'"
    and "res = Inr b \<Longrightarrow> \<exists>c ins. b = EvalChoice c \<and> c_guard c = g \<and> c_control c = control
        \<and> choice_inputs (invocation_id iv) (request iv) nd = Inr ins \<and> choice_at d' iv' nd ins c"
proof -
  let ?r0 = "\<lparr>r_dispatch = d, r_inv = iv, res_inputs = [], res_names = [], res_ro = [], val_inputs = []\<rparr>"
  let ?b0 = "blank (invocation_id iv) (request iv) [] []"
  obtain x r where rr: "resolve_resources False False (bindings nd) ?r0 = (x, r)"
    by (cases "resolve_resources False False (bindings nd) ?r0")
  obtain y r' where rb: "resolve_resources False False (bindings nd) ?b0 = (y, r')"
    by (cases "resolve_resources False False (bindings nd) ?b0")
  have "same_outputs ?r0 ?b0" by (simp add: same_outputs_def blank_def)
  from same_outputs_resolve [OF this, of False False "bindings nd"] rr rb
  have out: "x = y" "same_outputs r r'" by simp_all
  have rt: "resolved_to ?r0 r" using resolved_resources [OF rr] assms(2) by (simp add: clash_free_def)
  then have tr: "tracks d iv (r_dispatch r) (r_inv r)" and nm: "\<forall>n\<in>set (res_names r). nameable (r_inv r) n"
    by (simp_all add: resolved_to_def)
  have same: "invocation_id (r_inv r) = invocation_id iv" "request (r_inv r) = request iv"
    using tracksD(1) [OF tr] by (simp_all add: advances_def same_run_def)
  have "tracks d iv d' iv' \<and> (\<forall>e. res = Inl e \<longrightarrow> (\<exists>e'. choice_inputs (invocation_id iv) (request iv) nd = Inl e'))
     \<and> (\<forall>b. res = Inr b \<longrightarrow> (\<exists>c ins. b = EvalChoice c \<and> c_guard c = g \<and> c_control c = control
          \<and> choice_inputs (invocation_id iv) (request iv) nd = Inr ins \<and> choice_at d' iv' nd ins c))"
  proof (cases x)
    case (Inl e)
    then show ?thesis using assms(1) rr rb out tr by (auto simp: schedule_choice_node_def choice_inputs_def)
  next
    case (Inr z)
    obtain cs where cs: "fold (choose_cown (r_inv r)) (res_names r) ([], r_dispatch r) = (cs, d')"
      and res: "res = Inr (EvalChoice \<lparr>c_inv = invocation_id iv, c_can_abort = req_can_abort (request iv), c_guard = g,
                 c_ic = invocation_cown iv, c_control = control, c_edges = node_choices nd, c_inputs = res_inputs r,
                 c_values = val_inputs r, c_names = res_names r, c_cowns = cs\<rparr>)" and iv': "iv' = r_inv r"
      using assms(1) rr Inr by (auto simp: schedule_choice_node_def split: prod.splits)
    from tracks_choose [OF cs nm] have ch: "tracks (r_dispatch r) (r_inv r) d' iv'" "cs = map (lookup d' iv') (res_names r)"
      "\<forall>n\<in>set (res_names r). known d' iv' n" by (simp_all add: iv')
    have "\<forall>n\<in>set (res_names r). used d' iv' n" using ch(3) nm by (auto simp: iv' used_def nameable_def)
    moreover have "choice_inputs (invocation_id iv) (request iv) nd = Inr (res_inputs r, val_inputs r, res_names r)"
      using rb out(2) Inr unfolding out(1) by (simp add: choice_inputs_def same_outputs_def)
    ultimately show ?thesis
      using tracks_trans [OF tr ch(1)] res ch(2) same by (simp add: choice_at_def iv')
  qed
  then show "tracks d iv d' iv'" "res = Inl e \<Longrightarrow> \<exists>e'. choice_inputs (invocation_id iv) (request iv) nd = Inl e'"
    "res = Inr b \<Longrightarrow> \<exists>c ins. b = EvalChoice c \<and> c_guard c = g \<and> c_control c = control
        \<and> choice_inputs (invocation_id iv) (request iv) nd = Inr ins \<and> choice_at d' iv' nd ins c" by blast+
qed

subsection \<open>The tree of an invocation\<close>

definition branches :: "edge list \<Rightarrow> (int \<times> node) list" where
  "branches es = concat (map (\<lambda>(i, e). case edge_next e of None \<Rightarrow> [] | Some m \<Rightarrow> [(int i, m)]) (enumerate 0 es))"

lemma edge_items_branches: "edge_items control es = map (\<lambda>(j, m). (m, Some (control, j))) (branches es)"
  unfolding edge_items_def branches_def map_concat map_map
  by (rule arg_cong [of _ _ concat]) (auto split: option.splits)

lemma branches_index: "distinct (map fst (branches es)) \<and> (\<forall>j\<in>set (map fst (branches es)). 0 \<le> j)"
proof -
  have "sorted_wrt (<) (map fst (concat (map (\<lambda>(i, e). case edge_next e of None \<Rightarrow> [] | Some m \<Rightarrow> [(int i, m)]) (enumerate k es))))
      \<and> (\<forall>j\<in>set (map fst (concat (map (\<lambda>(i, e). case edge_next e of None \<Rightarrow> [] | Some m \<Rightarrow> [(int i, m)]) (enumerate k es)))). int k \<le> j)" for k
  proof (induction es arbitrary: k)
    case (Cons e es)
    then show ?case using Cons.IH [of "Suc k"] by (cases "edge_next e") fastforce+
  qed simp
  from this [of 0] show ?thesis by (simp add: branches_def strict_sorted_iff)
qed

lemma branches_plain: "list_all plain_edge es \<Longrightarrow> m \<in> snd ` set (branches es) \<Longrightarrow> plain_graph m"
proof -
  assume plain: "list_all plain_edge es" and "m \<in> snd ` set (branches es)"
  then obtain k e where "(k, e) \<in> set (enumerate 0 es)" "edge_next e = Some m"
    by (auto simp: branches_def split: option.splits)
  then have "e \<in> set es" "edge_next e = Some m" by (auto simp: in_set_enumerate_eq)
  with plain show ?thesis by (cases e) (auto simp: list_all_iff)
qed

text \<open>A tree of behaviours that mirrors the graph below a node.\<close>

inductive mirrors :: "dispatch \<Rightarrow> invocation \<Rightarrow> node \<Rightarrow> spawn \<Rightarrow> bool" for d iv where
  mirrors_end: "ntype nd = NTask \<Longrightarrow> node_end nd \<Longrightarrow> task_info (invocation_id iv) (request iv) nd = Inr info \<Longrightarrow>
     task_at d iv info t \<Longrightarrow> mirrors d iv nd (STask t None)"
| mirrors_next: "ntype nd = NTask \<Longrightarrow> \<not> node_end nd \<Longrightarrow> node_next nd = Some m \<Longrightarrow>
     task_info (invocation_id iv) (request iv) nd = Inr info \<Longrightarrow> task_at d iv info t \<Longrightarrow> mirrors d iv m x \<Longrightarrow>
     mirrors d iv nd (STask t (Some x))"
| mirrors_choice: "ntype nd = NChoice \<Longrightarrow> choice_inputs (invocation_id iv) (request iv) nd = Inr ins \<Longrightarrow> choice_at d iv nd ins c \<Longrightarrow>
     js = map fst (branches (node_choices nd)) \<Longrightarrow> list_all2 (mirrors d iv) (map snd (branches (node_choices nd))) ks \<Longrightarrow>
     mirrors d iv nd (SChoice c js ks)"

text \<open>What the scheduler makes of one node.\<close>

lemma node_cases:
  assumes "schedule_node it d iv = (Inr (b, Some items), d', iv')" and "clash_free iv" and "plain_graph (fst it)"
  obtains
    (task) t info where "ntype (fst it) = NTask" "tracks d iv d' iv'" "b = RunTask t" "t_guard t = snd it"
      "task_info (invocation_id iv) (request iv) (fst it) = Inr info" "task_at d' iv' info t"
      "items = (if node_end (fst it) then [] else [(the (node_next (fst it)), snd it)])"
      "node_end (fst it) \<or> node_next (fst it) \<noteq> None"
  | (choice) c ins where "ntype (fst it) = NChoice" "tracks d iv d' iv'" "b = EvalChoice c" "c_guard c = snd it"
      "choice_inputs (invocation_id iv) (request iv) (fst it) = Inr ins" "choice_at d' iv' (fst it) ins c"
      "items = edge_items (c_control c) (node_choices (fst it))" "c_control c = next_cown d" "next_cown d < next_cown d'"
proof (cases "ntype (fst it)")
  case NTask
  have plain: "plain_function (node_func (fst it))" using assms(3) by (cases "fst it") simp
  have rt: "run_task_node (fst it) (snd it) d iv = (Inr b, d', iv')"
    and its: "items = (if node_end (fst it) then [] else [(the (node_next (fst it)), snd it)])"
      "node_end (fst it) \<or> node_next (fst it) \<noteq> None"
    using assms(1) NTask by (auto simp: schedule_node_def split: prod.splits sum.splits if_splits option.splits)
  from task_node_at(1,3) [OF rt assms(2) plain] its NTask task show thesis by blast
next
  case NChoice
  obtain control d1 where mk: "make_cown d = (control, d1)" by (cases "make_cown d")
  have sc: "schedule_choice_node (fst it) control (snd it) d1 iv = (Inr b, d', iv')"
    and its: "items = edge_items control (node_choices (fst it))"
    using assms(1) NChoice mk by (auto simp: schedule_node_def split: prod.splits sum.splits)
  have "control = next_cown d" "next_cown d < next_cown d1" using mk by (auto simp: make_cown_def)
  moreover have "next_cown d1 \<le> next_cown d'" using tracksD(1) [OF choice_node_at(1) [OF sc assms(2)]] by (simp add: advances_def grows_def)
  moreover note choice_node_at(3) [OF sc assms(2) refl] tracks_trans [OF tracks_make_cown [OF mk, of iv] choice_node_at(1) [OF sc assms(2)]]
  ultimately show thesis using its NChoice choice by (metis order_less_le_trans)
next
  case NUnknown
  then show thesis using assms(1) by (simp add: schedule_node_def)
qed

lemma plain_next:
  assumes "schedule_node it d iv = (Inr (b, Some items), d', iv')" and "plain_graph (fst it)" and "x \<in> set items"
  shows "plain_graph (fst x)"
proof (cases "ntype (fst it)")
  case NTask
  then have "node_next (fst it) = Some (fst x)"
    using assms(1,3) by (auto simp: schedule_node_def split: prod.splits sum.splits if_splits)
  then show ?thesis using assms(2) by (cases "fst it") auto
next
  case NChoice
  then obtain control where "items = edge_items control (node_choices (fst it))"
    using assms(1) by (auto simp: schedule_node_def split: prod.splits sum.splits)
  then have "fst x \<in> snd ` set (branches (node_choices (fst it)))" using assms(3) by (force simp: edge_items_branches)
  moreover have "list_all plain_edge (node_choices (fst it))" using assms(2) by (cases "fst it") simp
  ultimately show ?thesis by (rule branches_plain [rotated])
next
  case NUnknown
  then show ?thesis using assms(1) by (simp add: schedule_node_def)
qed

definition grown :: "dispatch \<Rightarrow> invocation \<Rightarrow> queue_item \<Rightarrow> spawn \<Rightarrow> bool" where
  "grown d iv x t \<longleftrightarrow> mirrors d iv (fst x) t \<and> guard_of t = snd x \<and> guards_ok t"

lemma spawned_trees:
  "schedule_queue q d iv = (bs, None, d', iv') \<Longrightarrow> inv_ok n0 d iv \<Longrightarrow> tidy d iv \<Longrightarrow> clash_free iv \<Longrightarrow>
     \<forall>x\<in>set q. plain_graph (fst x) \<Longrightarrow>
     \<exists>ts. breadth_first ts = bs \<and> list_all2 (grown d' iv') q ts \<and> tracks d iv d' iv'
        \<and> distinct (forest_controls ts) \<and> set (forest_controls ts) \<subseteq> {next_cown d..}"
proof (induction "queue_nodes q" arbitrary: q d iv bs rule: less_induct)
  case less
  show ?case
  proof (cases q)
    case Nil
    with less.prems(1) have "breadth_first [] = bs \<and> list_all2 (grown d' iv') q [] \<and> tracks d iv d' iv'" by auto
    then show ?thesis by force
  next
    case (Cons it q')
    obtain b items d1 iv1 bs1 where sn: "schedule_node it d iv = (Inr (b, Some items), d1, iv1)"
      and sq: "schedule_queue (q' @ items) d1 iv1 = (bs1, None, d', iv')" and bs: "bs = b # bs1"
      using less.prems(1) by (auto simp: Cons schedule_queue_Cons split: prod.splits sum.splits option.splits)
    have plain: "plain_graph (fst it)" using less.prems(5) by (simp add: Cons)
    have tr: "tracks d iv d1 iv1" using sn less.prems(4) plain by (cases rule: node_cases) simp_all
    have same: "invocation_id iv1 = invocation_id iv" "request iv1 = request iv" and mono: "next_cown d \<le> next_cown d1"
      using tracksD(1) [OF tr] by (simp_all add: advances_def same_run_def grows_def)
    have "queue_nodes (q' @ items) < queue_nodes q" using schedule_node_nodes [OF sn] by (simp add: Cons)
    moreover have "\<forall>x\<in>set (q' @ items). plain_graph (fst x)"
      using plain_next [OF sn plain] less.prems(5) same by (auto simp: Cons)
    moreover have "clash_free iv1" using less.prems(4) same by (simp add: clash_free_def)
    ultimately obtain ts where ts: "breadth_first ts = bs1" "list_all2 (grown d' iv') (q' @ items) ts" "tracks d1 iv1 d' iv'"
      "distinct (forest_controls ts)" "set (forest_controls ts) \<subseteq> {next_cown d1..}"
      using less.hyps [of "q' @ items"] sq tracksD(4) [OF tr less.prems(2)] tracksD(3) [OF tr less.prems(2,3)] by metis
    have ti': "tidy d' iv'" using tracksD(3) [OF ts(3)] tracksD(4) [OF tr less.prems(2)] tracksD(3) [OF tr less.prems(2,3)] by blast
    have same': "invocation_id iv' = invocation_id iv" "request iv' = request iv"
      using tracksD(1) [OF ts(3)] same by (simp_all add: advances_def same_run_def)
    from ts(2) obtain tq tk where split: "ts = tq @ tk" "list_all2 (grown d' iv') q' tq" "list_all2 (grown d' iv') items tk"
      by (auto simp: list_all2_append1)
    have "\<exists>t. grown d' iv' it t \<and> behaviour_of t = b \<and> kids t = tk \<and> set (own_controls t) \<subseteq> {next_cown d..<next_cown d1}
        \<and> distinct (own_controls t)"
      using sn less.prems(4) plain
    proof (cases rule: node_cases)
      case (task t info)
      have at: "task_at d' iv' info t" using task_at_stays [OF task(6) ts(3) ti'] .
      show ?thesis
      proof (cases "node_end (fst it)")
        case True
        then have "mirrors d' iv' (fst it) (STask t None)" using task at same' by (intro mirrors_end) simp_all
        moreover have "tk = []" using split(3) task(7) True by simp
        ultimately show ?thesis using task(3,4) by (intro exI [of _ "STask t None"]) (simp add: grown_def)
      next
        case False
        then obtain m where m: "node_next (fst it) = Some m" using task(8) by auto
        with split(3) task(7) False obtain x where x: "tk = [x]" "grown d' iv' (m, snd it) x" by (auto simp: list_all2_Cons1)
        then have "mirrors d' iv' (fst it) (STask t (Some x))"
          using task at same' False m by (intro mirrors_next) (auto simp: grown_def)
        then show ?thesis using task(3,4) x by (intro exI [of _ "STask t (Some x)"]) (simp add: grown_def)
      qed
    next
      case (choice c ins)
      let ?br = "branches (node_choices (fst it))"
      have all: "list_all2 (\<lambda>(j, m) k. grown d' iv' (m, Some (c_control c, j)) k) ?br tk"
        using split(3) by (simp add: choice(7) edge_items_branches list_all2_map1 case_prod_unfold)
      then have "list_all2 (mirrors d' iv') (map snd ?br) tk"
        by (auto simp: list_all2_map1 grown_def elim!: list_all2_mono)
      then have mir: "mirrors d' iv' (fst it) (SChoice c (map fst ?br) tk)"
        using choice choice_at_stays [OF choice(6) ts(3) ti'] same' by (intro mirrors_choice) simp_all
      have "map guard_of tk = map (\<lambda>j. Some (c_control c, j)) (map fst ?br)"
        using all by (auto simp: list_all2_conv_all_nth grown_def case_prod_unfold intro!: nth_equalityI)
      moreover have "\<forall>k\<in>set tk. guards_ok k"
        using all by (auto simp: list_all2_conv_all_nth in_set_conv_nth grown_def case_prod_unfold)
      ultimately have "guards_ok (SChoice c (map fst ?br) tk)" using branches_index [of "node_choices (fst it)"] by simp
      then show ?thesis using mir choice(3,4,8,9) by (intro exI [of _ "SChoice c (map fst ?br) tk"]) (simp add: grown_def)
    qed
    then obtain t where t: "grown d' iv' it t" "behaviour_of t = b" "kids t = tk"
      "set (own_controls t) \<subseteq> {next_cown d..<next_cown d1}" "distinct (own_controls t)" by blast
    have "breadth_first (t # tq) = bs" using t(2,3) ts(1) bs split(1) by simp
    moreover have "list_all2 (grown d' iv') q (t # tq)" using t(1) split(2) by (simp add: Cons)
    moreover have "distinct (forest_controls (t # tq))" "set (forest_controls (t # tq)) \<subseteq> {next_cown d..}"
      using ts(4,5) t(3,4,5) mono unfolding split(1) by (fastforce simp: kids_controls)+
    ultimately show ?thesis using tracks_trans [OF tr ts(3)] by blast
  qed
qed

end
