(* ===== verification/Specification.thy ===== *)
theory Specification
  imports Names
begin

section \<open>What an invocation does: the sequential specification\<close>

text \<open>
  The effect that a client may expect of an invocation, without cowns, behaviours, guards and
  threads: a walk over the graph of the workflow that changes a map from names to resources, and at
  the end keeps all of it or nothing. The theory defines it and shows that the behaviours of an
  invocation, run one after the other, have this effect.
\<close>

type_synonym contents = "string \<Rightarrow> resource"

subsection \<open>Definition\<close>

definition spec_storage :: "wasm_func_info \<Rightarrow> contents \<Rightarrow> storage" where
  "spec_storage info \<sigma> = \<lparr>local_resources = map_of (map (\<lambda>n. (n, \<sigma> n)) (resources info)),
     read_only_resources = set (read_only info)\<rparr>"

fun spec_finalize :: "bool \<Rightarrow> string list \<Rightarrow> string list \<Rightarrow> storage \<Rightarrow> storage" where
  "spec_finalize ok ro [] st = st"
| "spec_finalize ok ro (n # ns) st =
     (if n \<in> set ro then spec_finalize ok ro ns st
      else case get_resource st n of
             None \<Rightarrow> spec_finalize ok ro ns st
           | Some r \<Rightarrow> spec_finalize ok ro ns (put_local n (finish_resource (\<not> ok) r) st))"

text \<open>What is in the storage of a function afterwards replaces the contents, unless it is read-only.\<close>

definition keep_written :: "wasm_func_info \<Rightarrow> storage \<Rightarrow> contents \<Rightarrow> contents" where
  "keep_written info st \<sigma> = (\<lambda>n. if n \<in> set (resources info) \<and> n \<notin> set (read_only info)
      then (case local_resources st n of None \<Rightarrow> \<sigma> n | Some r \<Rightarrow> r) else \<sigma> n)"

text \<open>A task: the new contents, and whether it makes the invocation fail.\<close>

definition spec_left :: "executor \<Rightarrow> bool \<Rightarrow> wasm_func_info \<Rightarrow> contents \<Rightarrow> bool \<times> storage" where
  "spec_left exec ab info \<sigma> =
     (let (ok, st) = exec info (spec_storage info \<sigma>)
      in (ok, if ab then st else spec_finalize ok (read_only info) (resources info) st))"

definition spec_task :: "executor \<Rightarrow> bool \<Rightarrow> wasm_func_info \<Rightarrow> contents \<Rightarrow> contents \<times> bool" where
  "spec_task exec ab info \<sigma> =
     (let (ok, st) = spec_left exec ab info \<sigma> in (keep_written info st \<sigma>, ab \<and> \<not> ok))"

definition spec_choice :: "platform \<Rightarrow> node \<Rightarrow> resource_inputs \<times> value_inputs \<times> string list \<Rightarrow> contents \<Rightarrow> int \<times> bool" where
  "spec_choice p nd ins \<sigma> =
     (case ins of (inputs, vals, names) \<Rightarrow>
        eval_edges p vals inputs (map_of (map (\<lambda>n. (n, \<sigma> n)) names)) 0 (node_choices nd) (-1) False)"

lemma branch_nodes: "m \<in> snd ` set (branches es) \<Longrightarrow> nodes_in m \<le> sum_list (map edge_nodes es)"
proof -
  assume "m \<in> snd ` set (branches es)"
  then obtain k e where "(k, e) \<in> set (enumerate 0 es)" "edge_next e = Some m"
    by (auto simp: branches_def split: option.splits)
  then have "e \<in> set es" "edge_nodes e = nodes_in m" by (auto simp: in_set_enumerate_eq edge_nodes_next)
  then have "nodes_in m \<in> set (map edge_nodes es)" by (metis image_eqI set_map)
  then show ?thesis by (rule member_le_sum_list) simp
qed

lemma branch_smaller: "map_of (branches (node_choices nd)) j = Some m \<Longrightarrow> nodes_in m < nodes_in nd"
  using branch_nodes [of m "node_choices nd"] nodes_in_choices [of nd] by (force dest: map_of_SomeD)

lemma branch_smaller': "m \<in> snd ` set (branches (node_choices nd)) \<Longrightarrow> nodes_in m < nodes_in nd"
  using branch_nodes [of m "node_choices nd"] nodes_in_choices [of nd] by simp

function spec_walk :: "platform \<Rightarrow> executor \<Rightarrow> 64 word \<Rightarrow> invoke_request \<Rightarrow> node \<Rightarrow> contents \<Rightarrow> bool \<Rightarrow> contents \<times> bool" where
  "spec_walk p exec i req nd \<sigma> failed =
     (if req_can_abort req \<and> failed then (\<sigma>, failed)
      else case ntype nd of
        NTask \<Rightarrow>
          (case task_info i req nd of
             Inl e \<Rightarrow> (\<sigma>, True)
           | Inr info \<Rightarrow>
               (case spec_task exec (req_can_abort req) info \<sigma> of
                  (\<sigma>', f) \<Rightarrow>
                    if node_end nd then (\<sigma>', failed \<or> f)
                    else (case node_next nd of None \<Rightarrow> (\<sigma>', failed \<or> f) | Some m \<Rightarrow> spec_walk p exec i req m \<sigma>' (failed \<or> f))))
      | NChoice \<Rightarrow>
          (case choice_inputs i req nd of
             Inl e \<Rightarrow> (\<sigma>, True)
           | Inr ins \<Rightarrow>
               (case spec_choice p nd ins \<sigma> of
                  (j, f) \<Rightarrow>
                    (case map_of (branches (node_choices nd)) j of
                       None \<Rightarrow> (\<sigma>, failed \<or> f)
                     | Some m \<Rightarrow> spec_walk p exec i req m \<sigma> (failed \<or> f))))
      | NUnknown \<Rightarrow> (\<sigma>, True))"
  by pat_completeness auto

termination
  by (relation "measure (\<lambda>(p, exec, i, req, nd, \<sigma>, failed). nodes_in nd)") (auto simp: nodes_in_next branch_smaller)

declare spec_walk.simps [simp del]

text \<open>Whether every node of the graph finds its inputs in the request.\<close>

function schedulable :: "64 word \<Rightarrow> invoke_request \<Rightarrow> node \<Rightarrow> bool" where
  "schedulable i req nd =
     (case ntype nd of
        NTask \<Rightarrow> (\<exists>info. task_info i req nd = Inr info)
          \<and> (node_end nd \<or> (case node_next nd of None \<Rightarrow> False | Some m \<Rightarrow> schedulable i req m))
      | NChoice \<Rightarrow> (\<exists>ins. choice_inputs i req nd = Inr ins)
          \<and> list_all (schedulable i req) (map snd (branches (node_choices nd)))
      | NUnknown \<Rightarrow> False)"
  by pat_completeness auto

termination
  by (relation "measure (\<lambda>(i, req, nd). nodes_in nd)") (simp_all add: nodes_in_next branch_smaller')

declare schedulable.simps [simp del]

text \<open>
  An invocation. Local resources are new at its start. At its end an aborting invocation commits
  all that it has written, or restores what was there.
\<close>

definition spec_invoke :: "platform \<Rightarrow> executor \<Rightarrow> workflow_registry \<Rightarrow> invoke_request \<Rightarrow> 64 word \<Rightarrow> contents \<Rightarrow> contents \<times> bool" where
  "spec_invoke p exec workflows req i \<sigma> =
     (case workflow_find workflows (req_workflow_id req) of
        None \<Rightarrow> (\<sigma>, False)
      | Some nd \<Rightarrow>
          if \<not> schedulable i req nd then (\<sigma>, True)
          else (case spec_walk p exec i req nd \<sigma> False of
                  (\<sigma>', failed) \<Rightarrow>
                    (\<lambda>n. if scoped n then \<sigma> n
                         else if req_can_abort req then finish_resource failed (\<sigma>' n) else \<sigma>' n, failed)))"

text \<open>
  A log of orders: the contents, and the statuses that are published, in the order of the log. An
  invocation of an unknown workflow publishes none.
\<close>

fun spec_order :: "platform \<Rightarrow> executor \<Rightarrow> order \<Rightarrow> contents \<times> (64 word \<times> bool) list \<Rightarrow> contents \<times> (64 word \<times> bool) list" where
  "spec_order p exec (Invoke workflows req i) (\<sigma>, out) =
     (case spec_invoke p exec workflows req i \<sigma> of
        (\<sigma>', failed) \<Rightarrow> (\<sigma>', if workflow_find workflows (req_workflow_id req) = None then out else out @ [(i, failed)]))"
| "spec_order p exec (GetResource n reply) st = st"
| "spec_order p exec (Cleanup q) st = st"

definition empty_contents :: contents where
  "empty_contents = (\<lambda>n. new_resource)"

definition spec_log :: "platform \<Rightarrow> executor \<Rightarrow> order list \<Rightarrow> contents \<times> (64 word \<times> bool) list" where
  "spec_log p exec rs = fold (spec_order p exec) rs (empty_contents, [])"

subsection \<open>When everything can be scheduled\<close>

lemma queue_schedulable:
  "schedule_queue q d iv = (bs, err, d', iv') \<Longrightarrow> clash_free iv \<Longrightarrow> \<forall>x\<in>set q. plain_graph (fst x) \<Longrightarrow>
     err = None \<longleftrightarrow> (\<forall>x\<in>set q. schedulable (invocation_id iv) (request iv) (fst x))"
proof (induction "queue_nodes q" arbitrary: q d iv bs err rule: less_induct)
  case less
  show ?case
  proof (cases q)
    case Nil
    with less.prems(1) show ?thesis by auto
  next
    case (Cons it q')
    obtain res d1 iv1 where sn: "schedule_node it d iv = (res, d1, iv1)" by (metis surj_pair)
    let ?s = "schedulable (invocation_id iv) (request iv)"
    have plain: "plain_graph (fst it)" "plain_function (node_func (fst it))"
      using less.prems(3) by (cases "fst it"; simp add: Cons)+
    show ?thesis
    proof (cases "\<exists>b items. res = Inr (b, Some items)")
      case True
      then obtain b items where res: "res = Inr (b, Some items)" by blast
      note sn' = sn [unfolded res]
      obtain bs1 where sq: "schedule_queue (q' @ items) d1 iv1 = (bs1, err, d', iv')"
        using less.prems(1) sn' by (auto simp: Cons schedule_queue_Cons split: prod.splits)
      have tr: "tracks d iv d1 iv1" using sn' less.prems(2) plain(1) by (cases rule: node_cases) simp_all
      have same: "invocation_id iv1 = invocation_id iv" "request iv1 = request iv"
        using tracksD(1) [OF tr] by (simp_all add: advances_def same_run_def)
      have "?s (fst it) \<longleftrightarrow> (\<forall>x\<in>set items. ?s (fst x))"
        using sn' less.prems(2) plain(1)
      proof (cases rule: node_cases)
        case (task t info)
        then show ?thesis by (cases "node_next (fst it)") (auto simp: schedulable.simps [of _ _ "fst it"])
      next
        case (choice c ins)
        have "fst ` set items = snd ` set (branches (node_choices (fst it)))" by (force simp: choice(7) edge_items_branches)
        then have "(\<forall>x\<in>set items. ?s (fst x)) \<longleftrightarrow> (\<forall>m\<in>snd ` set (branches (node_choices (fst it))). ?s m)"
          by (metis (no_types, lifting) image_iff)
        then show ?thesis using choice(1,5) by (cases ins) (simp add: schedulable.simps [of _ _ "fst it"] list_all_iff)
      qed
      moreover have "queue_nodes (q' @ items) < queue_nodes q" using schedule_node_nodes [OF sn'] by (simp add: Cons)
      moreover have "\<forall>x\<in>set (q' @ items). plain_graph (fst x)"
        using plain_next [OF sn' plain(1)] less.prems(3) by (auto simp: Cons)
      moreover have "clash_free iv1" using less.prems(2) same by (simp add: clash_free_def)
      ultimately show ?thesis using less.hyps [of "q' @ items", OF _ sq] same by (auto simp: Cons)
    next
      case False
      then have err: "err \<noteq> None" using less.prems(1) sn
        by (auto simp: Cons schedule_queue_Cons split: sum.splits prod.splits option.splits)
      have "\<not> ?s (fst it)"
      proof (cases "ntype (fst it)")
        case NTask
        obtain x d2 iv2 where rt: "run_task_node (fst it) (snd it) d iv = (x, d2, iv2)" by (metis surj_pair)
        show ?thesis
        proof (cases x)
          case (Inl e)
          with task_node_at(2) [OF rt less.prems(2) plain(2)] NTask show ?thesis by (auto simp: schedulable.simps [of _ _ "fst it"])
        next
          case (Inr b)
          with False sn NTask rt have "\<not> node_end (fst it) \<and> node_next (fst it) = None"
            by (cases "node_next (fst it)") (auto simp: schedule_node_def split: if_splits)
          then show ?thesis using NTask by (simp add: schedulable.simps [of _ _ "fst it"])
        qed
      next
        case NChoice
        obtain control d2 where mk: "make_cown d = (control, d2)" by (cases "make_cown d")
        obtain x d3 iv3 where sc: "schedule_choice_node (fst it) control (snd it) d2 iv = (x, d3, iv3)" by (metis surj_pair)
        show ?thesis
        proof (cases x)
          case (Inl e)
          with choice_node_at(2) [OF sc less.prems(2)] NChoice show ?thesis by (auto simp: schedulable.simps [of _ _ "fst it"])
        next
          case (Inr b)
          with False sn NChoice mk sc show ?thesis by (auto simp: schedule_node_def)
        qed
      next
        case NUnknown
        then show ?thesis by (simp add: schedulable.simps [of _ _ "fst it"])
      qed
      with err show ?thesis by (auto simp: Cons)
    qed
  qed
qed

subsection \<open>The walk of the behaviours is the walk of the specification\<close>

definition sim :: "dispatch \<Rightarrow> invocation \<Rightarrow> store \<Rightarrow> contents \<Rightarrow> bool" where
  "sim d iv s \<sigma> \<longleftrightarrow> (\<forall>n. used d iv n \<longrightarrow> cells s (lookup d iv n) = \<sigma> n)"

lemma finalize_spec: "fst (finalize ok t ns (st, evs)) = spec_finalize ok (read_only (t_info t)) ns st"
proof (induction ns arbitrary: st evs)
  case (Cons n ns)
  then show ?case by (cases "get_resource st n") (auto simp: finish_resource_def Let_def split: if_splits)
qed simp

lemma task_binds_at: "task_at d iv info t \<Longrightarrow> task_binds t = map (\<lambda>n. (n, lookup d iv n)) (resources info)"
  by (simp add: task_at_def task_binds_def runner_binds_lookup)

lemma task_storage_at:
  assumes "task_at d iv info t" and "sim d iv s \<sigma>"
  shows "task_storage t s = spec_storage info \<sigma>"
proof -
  have "map (\<lambda>(n, c). (n, cells s c)) (task_binds t) = map (\<lambda>n. (n, \<sigma> n)) (resources info)"
    using assms by (simp add: task_binds_at [OF assms(1)] task_at_def sim_def)
  moreover have "t_info t = info" using assms(1) by (simp add: task_at_def)
  ultimately show ?thesis unfolding task_storage_def spec_storage_def by (simp only:)
qed

lemma find_lookup:
  assumes "tidy d iv" and "inv_ok n0 d iv" and "\<forall>n\<in>set ns. used d iv n" and "used d iv m"
  shows "find (\<lambda>(n, c). c = lookup d iv m) (map (\<lambda>n. (n, lookup d iv n)) ns) = (if m \<in> set ns then Some (m, lookup d iv m) else None)"
  using assms(3) lookup_inj [OF assms(1,2) _ assms(4)] by (induction ns) auto

lemma task_outcome_at:
  assumes "task_at d iv info t" and "sim d iv s \<sigma>"
  shows "fst (task_outcome exec t s) = fst (spec_left exec (t_can_abort t) info \<sigma>)"
    and "fst (snd (task_outcome exec t s)) = snd (spec_left exec (t_can_abort t) info \<sigma>)"
proof -
  have info: "t_info t = info" using assms(1) by (simp add: task_at_def)
  obtain ok st where ex: "exec info (spec_storage info \<sigma>) = (ok, st)" by (cases "exec info (spec_storage info \<sigma>)")
  obtain st' evs where fi: "finalize ok t (resources info) (st, []) = (st', evs)" by (cases "finalize ok t (resources info) (st, [])")
  have "st' = spec_finalize ok (read_only info) (resources info) st"
    using finalize_spec [of ok t "resources info" st "[]"] fi info by simp
  then show "fst (task_outcome exec t s) = fst (spec_left exec (t_can_abort t) info \<sigma>)"
    "fst (snd (task_outcome exec t s)) = snd (spec_left exec (t_can_abort t) info \<sigma>)"
    using ex fi info by (simp_all add: task_outcome_def spec_left_def task_storage_at [OF assms])
qed

lemma write_back_sim:
  assumes at: "task_at d iv info t" and sim: "sim d iv s \<sigma>" and ok: "tidy d iv" "inv_ok n0 d iv"
  shows "sim d iv (write_back t st s) (keep_written info st \<sigma>)"
proof -
  have used: "\<forall>n\<in>set (resources info). used d iv n" using at by (simp add: task_at_def)
  have "cells (write_back t st s) (lookup d iv m) = (if m \<in> set (resources info) \<and> m \<notin> set (read_only info)
      then (case local_resources st m of None \<Rightarrow> \<sigma> m | Some r \<Rightarrow> r) else \<sigma> m)" if m: "used d iv m" for m
  proof -
    have "lookup d iv m \<in> set (t_rw t) \<longleftrightarrow> m \<in> set (resources info) \<and> m \<notin> set (read_only info)"
      using at used lookup_inj [OF ok _ m] m by (auto simp: task_at_def)
    moreover have "cells s (lookup d iv m) = \<sigma> m" using sim m by (simp add: sim_def)
    ultimately show ?thesis
      by (auto simp: write_back_def task_binds_at [OF at] find_lookup [OF ok used m] split: option.split)
  qed
  then show ?thesis by (simp add: sim_def keep_written_def)
qed

lemma run_task_sim:
  assumes at: "task_at d iv info t" and sim: "sim d iv s \<sigma>" and ok: "tidy d iv" "inv_ok n0 d iv"
    and "guard_open (t_guard t) s" and "\<not> (req_can_abort (request iv) \<and> flags s (invocation_id iv))"
    and "spec_task exec (req_can_abort (request iv)) info \<sigma> = (\<sigma>', f)"
  shows "sim d iv (run p exec (RunTask t) s) \<sigma>'"
    and "flags (run p exec (RunTask t) s) (invocation_id iv) = (flags s (invocation_id iv) \<or> f)"
proof -
  obtain okay st evs where out: "task_outcome exec t s = (okay, st, evs)" by (metis surj_pair)
  have t: "t_inv t = invocation_id iv" "t_can_abort t = req_can_abort (request iv)" using at by (simp_all add: task_at_def)
  have left: "okay = fst (spec_left exec (t_can_abort t) info \<sigma>)" "st = snd (spec_left exec (t_can_abort t) info \<sigma>)"
    using task_outcome_at [OF at sim, of exec] out by simp_all
  have \<sigma>': "\<sigma>' = keep_written info st \<sigma>" and f: "f = (t_can_abort t \<and> \<not> okay)"
    using assms(7) left t(2) by (simp_all add: spec_task_def split_beta)
  have run: "run p exec (RunTask t) s = run_task exec t s" using assms(6) t by (auto simp: run_def)
  have "cells (run_task exec t s) = cells (write_back t st s)"
    using assms(5) by (simp add: run_task_def out Let_def)
  then show "sim d iv (run p exec (RunTask t) s) \<sigma>'" using write_back_sim [OF at sim ok, of st] by (simp add: sim_def run \<sigma>')
  show "flags (run p exec (RunTask t) s) (invocation_id iv) = (flags s (invocation_id iv) \<or> f)"
    using assms(5) by (auto simp: run run_task_def out Let_def t f set_flag_def)
qed

lemma run_choice_sim:
  assumes at: "choice_at d iv nd ins c" and sim: "sim d iv s \<sigma>"
    and "guard_open (c_guard c) s" and "\<not> (req_can_abort (request iv) \<and> flags s (invocation_id iv))"
    and "spec_choice p nd ins \<sigma> = (j, f)"
  shows "cells (run p exec (EvalChoice c) s) = cells s" and "controls (run p exec (EvalChoice c) s) (c_control c) = j"
    and "flags (run p exec (EvalChoice c) s) (invocation_id iv) = (flags s (invocation_id iv) \<or> f)"
proof -
  have c: "c_inv c = invocation_id iv" "c_can_abort c = req_can_abort (request iv)" using at by (simp_all add: choice_at_def)
  have "zip (c_names c) (map (cells s) (c_cowns c)) = map (\<lambda>n. (n, \<sigma> n)) (c_names c)"
    using at sim by (auto simp: choice_at_def sim_def zip_map2 zip_same_conv_map)
  then have "eval_choice p c s = (j, f)" using at assms(5) unfolding eval_choice_def by (auto simp: choice_at_def spec_choice_def)
  moreover have "run p exec (EvalChoice c) s = run_choice p c s" using assms(4) c by (auto simp: run_def)
  ultimately show "cells (run p exec (EvalChoice c) s) = cells s" "controls (run p exec (EvalChoice c) s) (c_control c) = j"
    "flags (run p exec (EvalChoice c) s) (invocation_id iv) = (flags s (invocation_id iv) \<or> f)"
    using assms(3) c by (simp_all add: run_choice_def Let_def)
qed

text \<open>Nothing happens on the way once an aborting invocation has failed.\<close>

lemma skipped_walk:
  assumes "mirrors d iv nd t" and "guards_ok t" and "req_can_abort (request iv)" and "flags s (invocation_id iv)"
  shows "cells (walk p exec t s) = cells s \<and> flags (walk p exec t s) = flags s"
  using assms(1,2,4)
proof (induction arbitrary: s rule: mirrors.induct)
  case (mirrors_end nd info t)
  then show ?case using assms(3) by (simp add: walk.simps [of p exec "STask t None"] follow_def run_def task_at_def)
next
  case (mirrors_next nd m info t x)
  then have "run p exec (RunTask t) s = s" using assms(3) by (simp add: run_def task_at_def)
  then show ?case using mirrors_next by (simp add: walk.simps [of p exec "STask t (Some x)"] follow_def)
next
  case (mirrors_choice nd ins c js ks)
  then have run: "run p exec (EvalChoice c) s = select (c_control c) (-1) s" using assms(3) by (simp add: run_def choice_at_def)
  have "map_of (zip js ks) (-1) = None"
    using mirrors_choice(6) by (fastforce simp: map_of_eq_None_iff dest: set_zip_leftD)
  then show ?case by (simp add: walk.simps [of p exec "SChoice c js ks"] follow_def run select_def)
qed

lemma mirrored_branch:
  "list_all2 P (map snd br) ks \<Longrightarrow>
     (case map_of br j of None \<Rightarrow> map_of (zip (map fst br) ks) j = None
      | Some m \<Rightarrow> \<exists>k. map_of (zip (map fst br) ks) j = Some k \<and> P m k)"
proof (induction br arbitrary: ks)
  case (Cons b br)
  then obtain k ks' where "ks = k # ks'" "P (snd b) k" "list_all2 P (map snd br) ks'" by (auto simp: list_all2_Cons1)
  with Cons.IH [of ks'] show ?case by (cases b) (auto split: option.splits)
qed simp

lemma follow_open:
  assumes "guards_ok t" and "is_open s t" and "follow t (run p exec (behaviour_of t) s) = Some x"
  shows "is_open (run p exec (behaviour_of t) s) x" and "guards_ok x"
proof -
  have "filter (is_open (run p exec (behaviour_of t) s)) (kids t) = [x]" using kids_after(1) [OF assms(1,2)] assms(3) by simp
  then have "x \<in> set (filter (is_open (run p exec (behaviour_of t) s)) (kids t))" by simp
  then show "is_open (run p exec (behaviour_of t) s) x" by simp
  show "guards_ok x" using kid_guard(1) [OF assms(1) follow_kid [OF assms(3)]] .
qed

definition walks_alike :: "platform \<Rightarrow> executor \<Rightarrow> dispatch \<Rightarrow> invocation \<Rightarrow> node \<Rightarrow> spawn \<Rightarrow> bool" where
  "walks_alike p exec d iv nd t \<longleftrightarrow> (\<forall>(s::store) \<sigma> \<sigma>' failed. guards_ok t \<longrightarrow> is_open s t \<longrightarrow> sim d iv s \<sigma> \<longrightarrow>
     spec_walk p exec (invocation_id iv) (request iv) nd \<sigma> (flags s (invocation_id iv)) = (\<sigma>', failed) \<longrightarrow>
     sim d iv (walk p exec t s) \<sigma>' \<and> flags (walk p exec t s) (invocation_id iv) = failed)"

lemma walk_sim:
  assumes "mirrors d iv nd t" and ok: "tidy d iv" "inv_ok n0 d iv"
  shows "walks_alike p exec d iv nd t"
  using assms(1)
proof (induction rule: mirrors.induct)
  case (mirrors_end nd info t)
  show ?case unfolding walks_alike_def
  proof (intro allI impI)
    fix s :: store and \<sigma> \<sigma>' failed
    let ?fl = "flags s (invocation_id iv)" and ?ab = "req_can_abort (request iv)"
    assume g: "guards_ok (STask t None)" "is_open s (STask t None)" and sim: "sim d iv s \<sigma>"
      and sw: "spec_walk p exec (invocation_id iv) (request iv) nd \<sigma> ?fl = (\<sigma>', failed)"
    show "sim d iv (walk p exec (STask t None) s) \<sigma>' \<and> flags (walk p exec (STask t None) s) (invocation_id iv) = failed"
    proof (cases "?ab \<and> ?fl")
      case True
      then show ?thesis using sw sim skipped_walk [OF mirrors.mirrors_end [OF mirrors_end] g(1), of s p exec]
        by (simp add: spec_walk.simps [of _ _ _ _ nd] sim_def)
    next
      case False
      obtain \<sigma>1 f where st: "spec_task exec ?ab info \<sigma> = (\<sigma>1, f)" by (cases "spec_task exec ?ab info \<sigma>")
      have "\<sigma>' = \<sigma>1" "failed = (?fl \<or> f)" using sw False st mirrors_end by (auto simp: spec_walk.simps [of _ _ _ _ nd])
      then show ?thesis using run_task_sim [OF mirrors_end(4) sim ok _ False st, of p] g(2)
        by (simp add: walk.simps [of p exec "STask t None"] follow_def is_open_def)
    qed
  qed
next
  case (mirrors_next nd m info t x)
  show ?case unfolding walks_alike_def
  proof (intro allI impI)
    fix s :: store and \<sigma> \<sigma>' failed
    let ?fl = "flags s (invocation_id iv)" and ?ab = "req_can_abort (request iv)" and ?t = "STask t (Some x)"
    let ?s1 = "run p exec (RunTask t) s"
    assume g: "guards_ok ?t" "is_open s ?t" and sim: "sim d iv s \<sigma>"
      and sw: "spec_walk p exec (invocation_id iv) (request iv) nd \<sigma> ?fl = (\<sigma>', failed)"
    show "sim d iv (walk p exec ?t s) \<sigma>' \<and> flags (walk p exec ?t s) (invocation_id iv) = failed"
    proof (cases "?ab \<and> ?fl")
      case True
      then show ?thesis using sw sim skipped_walk [OF mirrors.mirrors_next [OF mirrors_next(1-6)] g(1), of s p exec]
        by (simp add: spec_walk.simps [of _ _ _ _ nd] sim_def)
    next
      case False
      obtain \<sigma>1 f where st: "spec_task exec ?ab info \<sigma> = (\<sigma>1, f)" by (cases "spec_task exec ?ab info \<sigma>")
      have "guard_open (t_guard t) s" using g(2) by (simp add: is_open_def)
      note r = run_task_sim [OF mirrors_next(5) sim ok this False st, of p]
      have "spec_walk p exec (invocation_id iv) (request iv) m \<sigma>1 (flags ?s1 (invocation_id iv)) = (\<sigma>', failed)"
        using sw False st mirrors_next(1-4) r(2) by (simp add: spec_walk.simps [of _ _ _ _ nd])
      moreover have "is_open ?s1 x" "guards_ok x" using follow_open [OF g, of p exec x] by (simp_all add: follow_def)
      ultimately have "sim d iv (walk p exec x ?s1) \<sigma>' \<and> flags (walk p exec x ?s1) (invocation_id iv) = failed"
        using mirrors_next(7) r(1) unfolding walks_alike_def by blast
      then show ?thesis by (simp add: walk.simps [of p exec ?t] follow_def)
    qed
  qed
next
  case (mirrors_choice nd ins c js ks)
  let ?t = "SChoice c js ks" and ?br = "branches (node_choices nd)"
  have kids: "list_all2 (mirrors d iv) (map snd ?br) ks" "list_all2 (walks_alike p exec d iv) (map snd ?br) ks"
    using mirrors_choice(5) by (auto elim!: list_all2_mono)
  show ?case unfolding walks_alike_def
  proof (intro allI impI)
    fix s :: store and \<sigma> \<sigma>' failed
    let ?fl = "flags s (invocation_id iv)" and ?ab = "req_can_abort (request iv)" and ?s1 = "run p exec (EvalChoice c) s"
    assume g: "guards_ok ?t" "is_open s ?t" and sim: "sim d iv s \<sigma>"
      and sw: "spec_walk p exec (invocation_id iv) (request iv) nd \<sigma> ?fl = (\<sigma>', failed)"
    show "sim d iv (walk p exec ?t s) \<sigma>' \<and> flags (walk p exec ?t s) (invocation_id iv) = failed"
    proof (cases "?ab \<and> ?fl")
      case True
      then show ?thesis
        using sw sim skipped_walk [OF mirrors.mirrors_choice [OF mirrors_choice(1-4) kids(1)] g(1), of s p exec]
        by (simp add: spec_walk.simps [of _ _ _ _ nd] sim_def)
    next
      case False
      obtain j f where st: "spec_choice p nd ins \<sigma> = (j, f)" by (cases "spec_choice p nd ins \<sigma>")
      have "guard_open (c_guard c) s" using g(2) by (simp add: is_open_def)
      note r = run_choice_sim [OF mirrors_choice(3) sim this False st, of exec]
      have sim1: "sim d iv ?s1 \<sigma>" using sim r(1) by (simp add: sim_def)
      have fol: "follow ?t ?s1 = map_of (zip (map fst ?br) ks) j" using r(2) mirrors_choice(4) by (simp add: follow_def)
      show ?thesis
      proof (cases "map_of ?br j")
        case None
        then have "follow ?t ?s1 = None" using mirrored_branch [OF kids(2), of j] fol by simp
        moreover have "\<sigma>' = \<sigma>" "failed = (?fl \<or> f)"
          using sw False st None mirrors_choice(1,2) by (auto simp: spec_walk.simps [of _ _ _ _ nd])
        ultimately show ?thesis using sim1 r(3) by (simp add: walk.simps [of p exec ?t])
      next
        case (Some m)
        then obtain k where k: "follow ?t ?s1 = Some k" "walks_alike p exec d iv m k"
          using mirrored_branch [OF kids(2), of j] fol by auto
        have "spec_walk p exec (invocation_id iv) (request iv) m \<sigma> (flags ?s1 (invocation_id iv)) = (\<sigma>', failed)"
          using sw False st Some mirrors_choice(1,2) r(3) by (simp add: spec_walk.simps [of _ _ _ _ nd])
        moreover have "is_open ?s1 k" "guards_ok k" using follow_open [OF g, of p exec k] k(1) by simp_all
        ultimately have "sim d iv (walk p exec k ?s1) \<sigma>' \<and> flags (walk p exec k ?s1) (invocation_id iv) = failed"
          using k(2) sim1 unfolding walks_alike_def by blast
        then show ?thesis using k(1) by (simp add: walk.simps [of p exec ?t])
      qed
    qed
  qed
qed

end
