(* ===== verification/Refinement.thy ===== *)
theory Refinement
  imports Specification
begin

section \<open>The worker refines the sequential specification\<close>

text \<open>
  One invocation: from a store that holds given contents, its behaviours lead to a store that holds
  the contents of \<open>spec_invoke\<close>. A log of orders: by induction, and for every execution of the
  worker by the serializability of its executions.
\<close>

subsection \<open>Resources without pending changes\<close>

definition no_pending :: "resource \<Rightarrow> bool" where
  "no_pending r \<longleftrightarrow> uncommitted r = None \<and> \<not> uncommitted_deleted r"

lemma no_pending_new [simp]: "no_pending new_resource"
  by (simp add: no_pending_def new_resource_def)

lemma no_pending_finished [simp]: "no_pending (finish_resource f r)"
  by (simp add: no_pending_def finish_resource_def commit_uncommitted_def abort_uncommitted_def Let_def)

lemma finish_no_pending: "no_pending r \<Longrightarrow> finish_resource f r = r"
  by (simp add: no_pending_def finish_resource_def commit_uncommitted_def abort_uncommitted_def Let_def)

lemma abort_no_pending: "no_pending r \<Longrightarrow> abort_uncommitted r = r"
  using finish_no_pending [of r True] by (simp add: finish_resource_def)

definition quiet :: "contents \<Rightarrow> bool" where
  "quiet \<sigma> \<longleftrightarrow> (\<forall>n. no_pending (\<sigma> n))"

subsection \<open>What the walk of the specification leaves alone\<close>

lemma walk_unused:
  "mirrors d iv nd t \<Longrightarrow> \<not> used d iv n \<Longrightarrow> spec_walk p exec (invocation_id iv) (request iv) nd \<sigma> old = (\<sigma>', old') \<Longrightarrow> \<sigma>' n = \<sigma> n"
proof (induction arbitrary: \<sigma> old rule: mirrors.induct)
  case (mirrors_end nd info t)
  then have "n \<notin> set (resources info)" by (auto simp: task_at_def)
  with mirrors_end show ?case
    by (auto simp: spec_walk.simps [of _ _ _ _ nd] spec_task_def keep_written_def split: if_splits prod.splits)
next
  case (mirrors_next nd m info t x)
  then have n: "n \<notin> set (resources info)" by (auto simp: task_at_def)
  show ?case
  proof (cases "req_can_abort (request iv) \<and> old")
    case True
    then show ?thesis using mirrors_next.prems(2) by (simp add: spec_walk.simps [of _ _ _ _ nd])
  next
    case False
    obtain \<sigma>1 f where st: "spec_task exec (req_can_abort (request iv)) info \<sigma> = (\<sigma>1, f)"
      by (cases "spec_task exec (req_can_abort (request iv)) info \<sigma>")
    then have "\<sigma>1 n = \<sigma> n" using n by (auto simp: spec_task_def keep_written_def split: prod.splits)
    moreover have "spec_walk p exec (invocation_id iv) (request iv) m \<sigma>1 (old \<or> f) = (\<sigma>', old')"
      using mirrors_next.prems(2) mirrors_next.hyps(1-4) False st by (simp add: spec_walk.simps [of _ _ _ _ nd])
    ultimately show ?thesis using mirrors_next.IH [OF mirrors_next.prems(1)] by metis
  qed
next
  case (mirrors_choice nd ins c js ks)
  show ?case
  proof (cases "req_can_abort (request iv) \<and> old")
    case True
    then show ?thesis using mirrors_choice.prems(2) by (simp add: spec_walk.simps [of _ _ _ _ nd])
  next
    case False
    let ?br = "branches (node_choices nd)"
    let ?P = "\<lambda>m k. \<forall>\<sigma> old. \<not> used d iv n \<longrightarrow> spec_walk p exec (invocation_id iv) (request iv) m \<sigma> old = (\<sigma>', old') \<longrightarrow> \<sigma>' n = \<sigma> n"
    have "list_all2 ?P (map snd ?br) ks" using mirrors_choice.IH by (auto elim!: list_all2_mono)
    note br = mirrored_branch [OF this]
    obtain j f where st: "spec_choice p nd ins \<sigma> = (j, f)" by (cases "spec_choice p nd ins \<sigma>")
    show ?thesis
    proof (cases "map_of ?br j")
      case None
      then show ?thesis using mirrors_choice.prems(2) mirrors_choice.hyps(1,2) False st
        by (simp add: spec_walk.simps [of _ _ _ _ nd])
    next
      case (Some m)
      then have "spec_walk p exec (invocation_id iv) (request iv) m \<sigma> (old \<or> f) = (\<sigma>', old')"
        using mirrors_choice.prems(2) mirrors_choice.hyps(1,2) False st by (simp add: spec_walk.simps [of _ _ _ _ nd])
      then show ?thesis using br [of j] Some mirrors_choice.prems(1) by auto
    qed
  qed
qed

text \<open>A non-aborting invocation finishes what each task has written.\<close>

lemma spec_finalize_other: "n \<notin> set ns \<Longrightarrow> local_resources (spec_finalize ok ro ns st) n = local_resources st n"
  by (induction ns arbitrary: st) (auto simp: put_local_def split: option.splits)

lemma spec_finalize_finished:
  "n \<in> set ns \<Longrightarrow> n \<notin> set ro \<Longrightarrow> local_resources (spec_finalize ok ro ns st) n = Some r \<Longrightarrow> no_pending r"
proof (induction ns arbitrary: st)
  case (Cons m ns)
  show ?case
  proof (cases "n \<in> set ns")
    case True
    then show ?thesis using Cons by (auto split: if_splits option.splits)
  next
    case False
    then show ?thesis using Cons.prems spec_finalize_other [OF False]
      by (auto simp: put_local_def get_resource_def split: if_splits option.splits)
  qed
qed simp

lemma spec_task_quiet:
  assumes "spec_task exec False info \<sigma> = (\<sigma>', f)" and "quiet \<sigma>"
  shows "quiet \<sigma>'"
proof -
  obtain ok st where ex: "exec info (spec_storage info \<sigma>) = (ok, st)" by (cases "exec info (spec_storage info \<sigma>)")
  have "no_pending (\<sigma>' n)" for n
    using assms spec_finalize_finished [of n "resources info" "read_only info" ok st]
    by (auto simp: spec_task_def spec_left_def ex keep_written_def quiet_def split: option.splits)
  then show ?thesis by (simp add: quiet_def)
qed

lemma spec_walk_quiet:
  "spec_walk p exec i req nd \<sigma> old = (\<sigma>', old') \<Longrightarrow> \<not> req_can_abort req \<Longrightarrow> quiet \<sigma> \<Longrightarrow> quiet \<sigma>'"
proof (induction "nodes_in nd" arbitrary: nd \<sigma> old rule: less_induct)
  case less
  show ?case
  proof (cases "ntype nd")
    case NTask
    show ?thesis
    proof (cases "task_info i req nd")
      case (Inl e)
      then show ?thesis using less.prems NTask by (simp add: spec_walk.simps [of _ _ _ _ nd])
    next
      case (Inr info)
      obtain \<sigma>1 f where st: "spec_task exec False info \<sigma> = (\<sigma>1, f)" by (cases "spec_task exec False info \<sigma>")
      note q = spec_task_quiet [OF st less.prems(3)]
      show ?thesis
      proof (cases "node_end nd \<or> node_next nd = None")
        case True
        then show ?thesis using less.prems NTask Inr st q
          by (auto simp: spec_walk.simps [of _ _ _ _ nd] split: if_splits option.splits)
      next
        case False
        then obtain m where m: "node_next nd = Some m" by auto
        then show ?thesis using less.prems less.hyps [OF nodes_in_next [OF m]] NTask Inr st q False
          by (simp add: spec_walk.simps [of _ _ _ _ nd])
      qed
    qed
  next
    case NChoice
    show ?thesis
    proof (cases "choice_inputs i req nd")
      case (Inl e)
      then show ?thesis using less.prems NChoice by (simp add: spec_walk.simps [of _ _ _ _ nd])
    next
      case (Inr ins)
      obtain j f where st: "spec_choice p nd ins \<sigma> = (j, f)" by (cases "spec_choice p nd ins \<sigma>")
      then show ?thesis using less.prems less.hyps [OF branch_smaller] NChoice Inr
        by (auto simp: spec_walk.simps [of _ _ _ _ nd] split: option.splits)
    qed
  next
    case NUnknown
    then show ?thesis using less.prems by (simp add: spec_walk.simps [of _ _ _ _ nd])
  qed
qed

subsection \<open>A failed invocation leaves nothing\<close>

context function_host
begin

text \<open>The tasks of an aborting invocation change uncommitted data only.\<close>

lemma spec_task_uncommitted:
  assumes "spec_task exec True info \<sigma> = (\<sigma>', f)"
  shows "abort_uncommitted (\<sigma>' n) = abort_uncommitted (\<sigma> n)"
proof (cases "n \<in> set (resources info)")
  case True
  obtain ok st where ex: "exec info (spec_storage info \<sigma>) = (ok, st)" by (cases "exec info (spec_storage info \<sigma>)")
  have "local_resources (spec_storage info \<sigma>) n = Some (\<sigma> n)"
    using True by (simp add: spec_storage_def map_of_map_restrict)
  then have "map_option abort_uncommitted (local_resources st n) = Some (abort_uncommitted (\<sigma> n))"
    using exec_aborted [of info "spec_storage info \<sigma>" n] by (simp add: ex)
  then show ?thesis using assms by (auto simp: spec_task_def spec_left_def ex keep_written_def split: option.splits)
next
  case False
  then show ?thesis using assms by (auto simp: spec_task_def keep_written_def split: prod.splits)
qed

lemma spec_walk_uncommitted:
  "spec_walk p exec i req nd \<sigma> old = (\<sigma>', new) \<Longrightarrow> req_can_abort req \<Longrightarrow> abort_uncommitted (\<sigma>' n) = abort_uncommitted (\<sigma> n)"
proof (induction "nodes_in nd" arbitrary: nd \<sigma> old rule: less_induct)
  case less
  show ?case
  proof (cases old)
    case True
    then show ?thesis using less.prems by (simp add: spec_walk.simps [of _ _ _ _ nd])
  next
    case False
    show ?thesis
    proof (cases "ntype nd")
      case NTask
      show ?thesis
      proof (cases "task_info i req nd")
        case (Inl e)
        then show ?thesis using less.prems NTask by (auto simp: spec_walk.simps [of _ _ _ _ nd] split: if_splits)
      next
        case (Inr info)
        obtain \<sigma>1 f where st: "spec_task exec True info \<sigma> = (\<sigma>1, f)" by (cases "spec_task exec True info \<sigma>")
        note q = spec_task_uncommitted [OF st, of n]
        show ?thesis
        proof (cases "node_end nd \<or> node_next nd = None")
          case True
          then show ?thesis using less.prems NTask Inr st q
            by (auto simp: spec_walk.simps [of _ _ _ _ nd] split: if_splits option.splits)
        next
          case more: False
          then obtain m where m: "node_next nd = Some m" by auto
          then show ?thesis using less.prems less.hyps [OF nodes_in_next [OF m], of \<sigma>1 f] NTask Inr st q more False
            by (simp add: spec_walk.simps [of _ _ _ _ nd])
        qed
      qed
    next
      case NChoice
      show ?thesis
      proof (cases "choice_inputs i req nd")
        case (Inl e)
        then show ?thesis using less.prems NChoice by (auto simp: spec_walk.simps [of _ _ _ _ nd] split: if_splits)
      next
        case (Inr ins)
        obtain j f where st: "spec_choice p nd ins \<sigma> = (j, f)" by (cases "spec_choice p nd ins \<sigma>")
        then show ?thesis using less.prems less.hyps [OF branch_smaller] NChoice Inr False
          by (auto simp: spec_walk.simps [of _ _ _ _ nd] split: option.splits)
      qed
    next
      case NUnknown
      then show ?thesis using less.prems by (auto simp: spec_walk.simps [of _ _ _ _ nd] split: if_splits)
    qed
  qed
qed

lemma spec_invoke_atomic:
  assumes "spec_invoke p exec workflows req i \<sigma> = (\<sigma>', True)" and "req_can_abort req" and "quiet \<sigma>"
  shows "\<sigma>' = \<sigma>"
proof
  fix n
  show "\<sigma>' n = \<sigma> n"
  proof (cases "workflow_find workflows (req_workflow_id req)")
    case None
    then show ?thesis using assms(1) by (simp add: spec_invoke_def)
  next
    case (Some nd)
    show ?thesis
    proof (cases "schedulable i req nd")
      case True
      obtain \<sigma>1 f where sw: "spec_walk p exec i req nd \<sigma> False = (\<sigma>1, f)" by (cases "spec_walk p exec i req nd \<sigma> False")
      have "\<sigma>' n = (if scoped n then \<sigma> n else finish_resource True (\<sigma>1 n))"
        using assms(1,2) Some True sw by (auto simp: spec_invoke_def split: if_splits)
      then show ?thesis
        using spec_walk_uncommitted [OF sw assms(2), of n] assms(3) by (simp add: finish_resource_def quiet_def abort_no_pending)
    next
      case False
      then show ?thesis using assms(1) Some by (simp add: spec_invoke_def)
    qed
  qed
qed

end

lemma spec_invoke_quiet:
  assumes "spec_invoke p exec workflows req i \<sigma> = (\<sigma>', f)" and "quiet \<sigma>"
  shows "quiet \<sigma>'"
proof (cases "workflow_find workflows (req_workflow_id req)")
  case None
  then show ?thesis using assms by (simp add: spec_invoke_def)
next
  case (Some nd)
  obtain \<sigma>1 g where sw: "spec_walk p exec i req nd \<sigma> False = (\<sigma>1, g)" by (cases "spec_walk p exec i req nd \<sigma> False")
  show ?thesis
  proof (cases "req_can_abort req \<or> \<not> schedulable i req nd")
    case True
    then show ?thesis using assms Some sw by (auto simp: spec_invoke_def quiet_def split: if_splits)
  next
    case False
    then have "quiet \<sigma>1" using spec_walk_quiet [OF sw] assms(2) by simp
    then show ?thesis using assms Some sw False by (auto simp: spec_invoke_def quiet_def split: if_splits)
  qed
qed

subsection \<open>The behaviours of an invocation\<close>

lemma tracks_node:
  assumes "schedule_node it d iv = (res, d', iv')" and "clash_free iv" and "plain_graph (fst it)"
  shows "tracks d iv d' iv'"
proof (cases "ntype (fst it)")
  case NTask
  obtain x d1 iv1 where rt: "run_task_node (fst it) (snd it) d iv = (x, d1, iv1)" by (metis surj_pair)
  have "plain_function (node_func (fst it))" using assms(3) by (cases "fst it") simp
  then have "tracks d iv d1 iv1" using task_node_at(1) [OF rt assms(2)] by blast
  then show ?thesis using assms(1) NTask rt by (cases x) (auto simp: schedule_node_def)
next
  case NChoice
  obtain control d1 where mk: "make_cown d = (control, d1)" by (cases "make_cown d")
  obtain x d2 iv2 where sc: "schedule_choice_node (fst it) control (snd it) d1 iv = (x, d2, iv2)" by (metis surj_pair)
  have "tracks d iv d2 iv2" using tracks_trans [OF tracks_make_cown [OF mk] choice_node_at(1) [OF sc assms(2)]] .
  then show ?thesis using assms(1) NChoice mk sc by (cases x) (auto simp: schedule_node_def)
next
  case NUnknown
  then show ?thesis using assms(1) by (simp add: schedule_node_def)
qed

lemma tracks_queue:
  "schedule_queue q d iv = (bs, err, d', iv') \<Longrightarrow> clash_free iv \<Longrightarrow> \<forall>x\<in>set q. plain_graph (fst x) \<Longrightarrow> tracks d iv d' iv'"
proof (induction "queue_nodes q" arbitrary: q d iv bs rule: less_induct)
  case less
  show ?case
  proof (cases q)
    case Nil
    with less.prems(1) show ?thesis by auto
  next
    case (Cons it q')
    obtain res d1 iv1 where sn: "schedule_node it d iv = (res, d1, iv1)" by (metis surj_pair)
    have plain: "plain_graph (fst it)" using less.prems(3) by (simp add: Cons)
    note tr = tracks_node [OF sn less.prems(2) plain]
    show ?thesis
    proof (cases "\<exists>b items. res = Inr (b, Some items)")
      case True
      then obtain b items where res: "res = Inr (b, Some items)" by blast
      note sn' = sn [unfolded res]
      obtain bs1 where sq: "schedule_queue (q' @ items) d1 iv1 = (bs1, err, d', iv')"
        using less.prems(1) sn' by (auto simp: Cons schedule_queue_Cons split: prod.splits)
      have "queue_nodes (q' @ items) < queue_nodes q" using schedule_node_nodes [OF sn'] by (simp add: Cons)
      moreover have "clash_free iv1" using less.prems(2) tracksD(1) [OF tr] by (simp add: advances_def same_run_def clash_free_def)
      moreover have "\<forall>x\<in>set (q' @ items). plain_graph (fst x)"
        using plain_next [OF sn' plain] less.prems(3) by (auto simp: Cons)
      ultimately show ?thesis using less.hyps [OF _ sq] tracks_trans [OF tr] by blast
    next
      case False
      then have "d' = d1" "iv' = iv1" using less.prems(1) sn
        by (auto simp: Cons schedule_queue_Cons split: sum.splits prod.splits option.splits)
      then show ?thesis using tr by simp
    qed
  qed
qed

lemma serially_frame: "\<forall>b\<in>set bs. c \<notin> writes b \<Longrightarrow> cells (serially p exec bs s) c = cells s c"
  by (induction bs arbitrary: s) (simp_all add: run_act act_frame)

definition same_names :: "dispatch \<Rightarrow> dispatch \<Rightarrow> bool" where
  "same_names d d' \<longleftrightarrow> next_cown d = next_cown d'
     \<and> (\<forall>n c. (\<exists>k. resource_map d n = Some (c, k)) \<longleftrightarrow> (\<exists>k. resource_map d' n = Some (c, k)))"

lemma same_names_refl [simp]: "same_names d d"
  by (simp add: same_names_def)

lemma commit_entries_names: "commit_entries ns d = (es, d') \<Longrightarrow> same_names d d'"
proof (induction ns arbitrary: d es)
  case (Cons n ns)
  show ?case
  proof (cases "resource_map d n")
    case None
    with Cons show ?thesis by simp
  next
    case (Some ck)
    obtain c k where ck: "ck = (c, k)" by (cases ck)
    let ?d = "d\<lparr>resource_map := (resource_map d)(n \<mapsto> (c, k + 1))\<rparr>"
    have "same_names ?d d'" using Cons Some ck by (auto split: prod.splits)
    moreover have "same_names d ?d" using Some ck by (auto simp: same_names_def)
    ultimately show ?thesis by (simp add: same_names_def)
  qed
qed simp

lemma same_names_ok: "same_names d d' \<Longrightarrow> names_ok d \<Longrightarrow> names_ok d'"
proof -
  assume same: "same_names d d'" and ok: "names_ok d"
  have "n = m" if nm: "resource_map d' n = Some (c, j)" "resource_map d' m = Some (c, k)" for n m c j k
  proof -
    obtain j' k' where "resource_map d n = Some (c, j')" "resource_map d m = Some (c, k')"
      using same nm unfolding same_names_def by metis
    then show ?thesis using ok inj_mapD by (auto simp: names_ok_def)
  qed
  moreover have "\<not> scoped n" if n: "resource_map d' n \<noteq> None" for n
  proof -
    obtain c k where "resource_map d' n = Some (c, k)" using n by auto
    then have "\<exists>k. resource_map d n = Some (c, k)" using same unfolding same_names_def by blast
    then show ?thesis using ok by (auto simp: names_ok_def)
  qed
  ultimately show ?thesis by (simp add: names_ok_def inj_map_def)
qed

definition completions :: "event_entry list \<Rightarrow> (64 word \<times> bool) list" where
  "completions es = concat (map (\<lambda>e. case e of Completed i failed \<Rightarrow> [(i, failed)] | _ \<Rightarrow> []) es)"

lemma completions_simps [simp]:
  "completions [] = []" "completions (es @ es') = completions es @ completions es'"
  "completions (Completed i f # es) = (i, f) # completions es"
  by (simp_all add: completions_def)

definition answers :: "event_entry list \<Rightarrow> string list" where
  "answers es = concat (map (\<lambda>e. case e of Replied reply b \<Rightarrow> [reply] | _ \<Rightarrow> []) es)"

lemma answers_simps [simp]:
  "answers [] = []" "answers (es @ es') = answers es @ answers es'"
  "answers (Completed i f # es) = answers es" "answers (Replied r b # es) = r # answers es"
  "completions (Replied r b # es) = completions es"
  by (simp_all add: answers_def completions_def)

text \<open>The tasks only note deletions.\<close>

definition deletions :: "event_entry list \<Rightarrow> bool" where
  "deletions es \<longleftrightarrow> (\<forall>e\<in>set es. \<exists>n k. e = Deleted n k)"

lemma deletions_none: "deletions es \<Longrightarrow> completions es = [] \<and> answers es = []"
  by (fastforce simp: deletions_def completions_def answers_def)

lemma finalize_events: "deletions evs \<Longrightarrow> deletions (snd (finalize ok t ns (st, evs)))"
proof (induction ns arbitrary: st evs)
  case (Cons n ns)
  have one: "deletions (evs @ [Deleted m r])" for m r using Cons.prems by (simp add: deletions_def)
  show ?case
  proof (cases "get_resource st n")
    case None
    then show ?thesis using Cons by simp
  next
    case (Some r)
    then show ?thesis using Cons one by (cases ok) (simp_all add: Let_def)
  qed
qed simp

lemma body_events:
  assumes "body_ok ab P C b"
  shows "completions (log (run p exec b s)) = completions (log s)" and "answers (log (run p exec b s)) = answers (log s)"
proof -
  have "deletions (events exec b s)"
  proof (cases b)
    case (RunTask t)
    obtain ok st where ex: "exec (t_info t) (task_storage t s) = (ok, st)" by (cases "exec (t_info t) (task_storage t s)")
    have "deletions (snd (finalize ok t (resources (t_info t)) (st, [])))" by (rule finalize_events) (simp add: deletions_def)
    then have "deletions (snd (snd (task_outcome exec t s)))" by (auto simp: task_outcome_def ex deletions_def split: prod.splits)
    then show ?thesis by (simp add: RunTask deletions_def)
  qed (use assms in \<open>simp_all add: deletions_def\<close>)
  then show "completions (log (run p exec b s)) = completions (log s)" "answers (log (run p exec b s)) = answers (log s)"
    using deletions_none by (simp_all add: run_act act_log)
qed

lemma bodies_completions:
  "\<forall>b\<in>set bs. body_ok ab P C b \<Longrightarrow>
     completions (log (serially p exec bs s)) = completions (log s) \<and> answers (log (serially p exec bs s)) = answers (log s)"
  by (induction bs arbitrary: s) (auto simp: body_events)

lemma commit_completions:
  "completions (log (run_commit m s)) = completions (log s) @ [(m_inv m, flags s (m_inv m))]"
  "answers (log (run_commit m s)) = answers (log s)"
proof -
  have "deletions (concat (map (\<lambda>(n, c, ref). if is_deleted (commit_uncommitted (cells s c)) then [Deleted n ref] else []) es))" for es
    by (auto simp: deletions_def)
  then show "completions (log (run_commit m s)) = completions (log s) @ [(m_inv m, flags s (m_inv m))]"
    "answers (log (run_commit m s)) = answers (log s)"
    using deletions_none by (simp_all add: run_commit_def commit_events_def)
qed

lemma final_effect:
  assumes "schedule_commit_behaviour iv d = (fin, d')"
  shows "same_names d d'" and "flags (run p exec fin s) = flags s"
    and "cells (run p exec fin s) c = (if req_can_abort (request iv) \<and> c \<in> rw_cowns d iv
           then finish_resource (flags s (invocation_id iv)) (cells s c) else cells s c)"
    and "completions (log (run p exec fin s)) = completions (log s) @ [(invocation_id iv, flags s (invocation_id iv))]"
proof -
  obtain es d1 where ce: "commit_entries (workflow_rw_resources iv) d = (es, d1)"
    by (cases "commit_entries (workflow_rw_resources iv) d")
  have es: "(fst \<circ> snd) ` set es = rw_cowns d iv" using commit_entries_cowns [OF ce] by (simp add: rw_cowns_def)
  then have "es = [] \<Longrightarrow> rw_cowns d iv = {}" by auto
  then show "same_names d d'" "flags (run p exec fin s) = flags s"
    "cells (run p exec fin s) c = (if req_can_abort (request iv) \<and> c \<in> rw_cowns d iv
           then finish_resource (flags s (invocation_id iv)) (cells s c) else cells s c)"
    using assms ce commit_entries_names [OF ce] es
    by (auto simp: schedule_commit_behaviour_def run_def run_commit_def split: if_splits)
  show "completions (log (run p exec fin s)) = completions (log s) @ [(invocation_id iv, flags s (invocation_id iv))]"
    using assms ce by (auto simp: schedule_commit_behaviour_def run_def commit_completions split: if_splits)
qed

text \<open>The store holds the contents: under the name of each resource, and new ones where no cown is yet.\<close>

definition holds :: "dispatch \<Rightarrow> store \<Rightarrow> contents \<Rightarrow> bool" where
  "holds d s \<sigma> \<longleftrightarrow> names_ok d \<and> dispatch_ok d
     \<and> (\<forall>n c k. resource_map d n = Some (c, k) \<longrightarrow> cells s c = \<sigma> n)
     \<and> (\<forall>n. resource_map d n = None \<longrightarrow> \<sigma> n = new_resource)
     \<and> (\<forall>c\<ge>next_cown d. cells s c = new_resource)"

lemma holdsD:
  assumes "holds d s \<sigma>"
  shows "names_ok d" and "dispatch_ok d" and "resource_map d n = Some (c, k) \<Longrightarrow> cells s c = \<sigma> n"
    and "resource_map d n = None \<Longrightarrow> \<sigma> n = new_resource" and "next_cown d \<le> c \<Longrightarrow> cells s c = new_resource"
  using assms by (auto simp: holds_def)

text \<open>A resource that gets its cown later is new.\<close>

lemma holds_grown:
  assumes h: "holds d s \<sigma>" and gr: "grows d d'" and names: "names_ok d'" and n: "resource_map d' n = Some (c, k)"
  shows "cells s c = \<sigma> n"
proof (cases "resource_map d n")
  case None
  have "c \<notin> globals d"
  proof
    assume "c \<in> globals d"
    then obtain m j where m: "resource_map d m = Some (c, j)" by (blast dest: globalsE)
    then obtain j' where "resource_map d' m = Some (c, j')" using gr unfolding grows_def by blast
    then have "m = n" using names n inj_mapD by (auto simp: names_ok_def)
    with None m show False by simp
  qed
  moreover have "c \<in> globals d \<union> {next_cown d..<next_cown d'}" using globalsI [OF n] gr unfolding grows_def by blast
  ultimately show ?thesis using holdsD(4,5) [OF h] None by auto
next
  case (Some ck)
  obtain c' j where "resource_map d n = Some (c', j)" using Some by (cases ck) auto
  moreover from this obtain j' where "resource_map d' n = Some (c', j')" using gr unfolding grows_def by blast
  ultimately show ?thesis using n holdsD(3) [OF h] by auto
qed

lemma holds_sim:
  assumes h: "holds d s \<sigma>" and gr: "grows d d'" and ti: "tidy d' iv'" and ok: "inv_ok (next_cown d) d' iv'"
  shows "sim d' iv' s \<sigma>"
proof -
  have names: "names_ok d'" using ti by (simp add: tidy_def)
  have "cells s (lookup d' iv' n) = \<sigma> n" if n: "used d' iv' n" for n
  proof (cases "workflow_resources iv' n")
    case None
    then obtain c k where "resource_map d' n = Some (c, k)" using n by (auto simp: used_def known_def)
    then show ?thesis using None holds_grown [OF h gr names] by (simp add: lookup_def)
  next
    case (Some c)
    then have "scoped n" using ti by (auto simp: tidy_def)
    then have "resource_map d n = None" using holdsD(1) [OF h] unfolding names_ok_def by blast
    moreover have "next_cown d \<le> c" using Some ok by (auto simp: inv_ok_def ran_def owned_def)
    ultimately show ?thesis using Some holdsD(4,5) [OF h] by (simp add: lookup_def)
  qed
  then show ?thesis by (simp add: sim_def)
qed

text \<open>
  Orders as the specification knows them: no names of local resources in the request, and an
  invocation that cannot abort has all its inputs. Nothing is taken out of the map by a cleanup.
\<close>

fun plain_order :: "order \<Rightarrow> bool" where
  "plain_order (Invoke workflows req i) = (plain_input req
     \<and> (case workflow_find workflows (req_workflow_id req) of
           None \<Rightarrow> True
         | Some nd \<Rightarrow> plain_graph nd \<and> (req_can_abort req \<or> schedulable i req nd)))"
| "plain_order (GetResource n reply) = True"
| "plain_order (Cleanup q) = False"

text \<open>The behaviours of the nodes, run one after the other.\<close>

lemma nodes_sim:
  assumes sq: "schedule_queue [(nd, None)] d iv = (bs, None, d', iv')"
    and ok: "inv_ok n0 d iv" "tidy d iv" "clash_free iv" "plain_graph nd" and sim: "sim d' iv' s \<sigma>"
    and sw: "spec_walk p exec (invocation_id iv) (request iv) nd \<sigma> (flags s (invocation_id iv)) = (\<sigma>', f)"
  shows "sim d' iv' (serially p exec bs s) \<sigma>'" and "flags (serially p exec bs s) (invocation_id iv) = f"
    and "\<not> used d' iv' n \<Longrightarrow> \<sigma>' n = \<sigma> n"
proof -
  obtain t where t: "breadth_first [t] = bs" "grown d' iv' (nd, None) t" "tracks d iv d' iv'" "distinct (forest_controls [t])"
    using spawned_trees [OF sq ok(1-3)] ok(4) by (auto simp: list_all2_Cons1)
  have ok': "tidy d' iv'" "inv_ok n0 d' iv'" using tracksD(3,4) [OF t(3) ok(1)] ok(2) by blast+
  have same: "invocation_id iv' = invocation_id iv" "request iv' = request iv"
    using tracksD(1) [OF t(3)] by (simp_all add: advances_def same_run_def)
  have gr: "mirrors d' iv' nd t" "guards_ok t" "guard_of t = None" using t(2) by (simp_all add: grown_def)
  then have op: "is_open s t" "controls_ok [t]"
    using t(4) by (simp_all add: is_open_def guard_open_def controls_ok_def guard_cowns_def)
  have "but_controls UNIV (serially p exec bs s) (walk p exec t s)"
    using breadth_first_walk [OF op(2), of UNIV s p exec] op(1) by (simp add: t(1) del: breadth_first.simps)
  then have eq: "cells (serially p exec bs s) = cells (walk p exec t s)" "flags (serially p exec bs s) = flags (walk p exec t s)"
    by (simp_all add: but_controls_def)
  have "sim d' iv' (walk p exec t s) \<sigma>' \<and> flags (walk p exec t s) (invocation_id iv') = f"
    using walk_sim [OF gr(1) ok', of p exec] gr(2) op(1) sim sw same unfolding walks_alike_def by simp
  then show "sim d' iv' (serially p exec bs s) \<sigma>'" "flags (serially p exec bs s) (invocation_id iv) = f"
    using eq same by (simp_all add: sim_def)
  show "\<not> used d' iv' n \<Longrightarrow> \<sigma>' n = \<sigma> n" using walk_unused [OF gr(1)] sw same by metis
qed

lemma used_global: "tidy d iv \<Longrightarrow> resource_map d n = Some (c, k) \<Longrightarrow> used d iv n \<and> lookup d iv n = c"
  unfolding tidy_def names_ok_def used_def known_def lookup_def by (metis fst_conv option.case(1) option.distinct(1) option.sel)

text \<open>What is known when the behaviours of the nodes of an invocation are about to run.\<close>

definition ready :: "dispatch \<Rightarrow> store \<Rightarrow> contents \<Rightarrow> dispatch \<Rightarrow> invocation \<Rightarrow> behaviour list \<Rightarrow> bool" where
  "ready d s \<sigma> d' iv bs \<longleftrightarrow> holds d s \<sigma> \<and> quiet \<sigma> \<and> grows d d' \<and> tidy d' iv \<and> inv_ok (next_cown d) d' iv
     \<and> (\<forall>b\<in>set bs. behaviour_ok b \<and> inv_of b = Some (invocation_id iv)
          \<and> body_ok (req_can_abort (request iv)) (owned (next_cown d) d') (rw_cowns d' iv) b
          \<and> writes b \<subseteq> owned (next_cown d) d' \<union> globals d')"

lemma readyD:
  assumes "ready d s \<sigma> d' iv bs"
  shows "holds d s \<sigma>" and "quiet \<sigma>" and "grows d d'" and "tidy d' iv" and "inv_ok (next_cown d) d' iv"
    and "b \<in> set bs \<Longrightarrow> behaviour_ok b" and "b \<in> set bs \<Longrightarrow> inv_of b = Some (invocation_id iv)"
    and "b \<in> set bs \<Longrightarrow> body_ok (req_can_abort (request iv)) (owned (next_cown d) d') (rw_cowns d' iv) b"
    and "b \<in> set bs \<Longrightarrow> writes b \<subseteq> owned (next_cown d) d' \<union> globals d'"
  using assms by (auto simp: ready_def)

lemma ready_queue:
  assumes sq: "schedule_queue [(nd, None)] d1 iv = (bs, err, d', iv')" and h: "holds d s \<sigma>" and qu: "quiet \<sigma>"
    and gr: "grows d d1" and ok: "inv_ok (next_cown d) d1 iv" "tidy d1 iv" "clash_free iv" "plain_graph nd"
  shows "ready d s \<sigma> d' iv' bs" and "invocation_id iv' = invocation_id iv" and "request iv' = request iv"
    and "sim d' iv' s \<sigma>"
proof -
  have tr: "tracks d1 iv d' iv'" using tracks_queue [OF sq ok(3)] ok(4) by simp
  show same: "invocation_id iv' = invocation_id iv" "request iv' = request iv"
    using tracksD(1) [OF tr] by (simp_all add: advances_def same_run_def)
  have gr': "grows d d'" using tracksD(1) [OF tr] grows_trans [OF gr] by (auto simp: advances_def)
  have "queue_guarded (next_cown d) d1 [(nd, None)]" by (simp add: queue_guarded_def guarded_def guard_cowns_def)
  from scheduled_queue [OF sq ok(1) this] show "ready d s \<sigma> d' iv' bs"
    using h qu gr' tracksD(3) [OF tr ok(1,2)] tracksD(4) [OF tr ok(1)] by (auto simp: ready_def scheduled_def)
  show "sim d' iv' s \<sigma>" using holds_sim [OF h gr' tracksD(3) [OF tr ok(1,2)] tracksD(4) [OF tr ok(1)]] .
qed

lemma ready_at:
  assumes r: "ready d s \<sigma> d' iv bs" and n: "resource_map d' n = Some (c, k)"
  shows "cells s c = \<sigma> n" and "\<not> scoped n"
  using holds_grown [OF readyD(1,3) [OF r] _ n] readyD(4) [OF r] n unfolding tidy_def names_ok_def by blast+

lemma ready_none:
  assumes r: "ready d s \<sigma> d' iv bs" and n: "resource_map d' n = None"
  shows "\<sigma> n = new_resource"
proof -
  have "resource_map d n = None" using readyD(3) [OF r] n unfolding grows_def by (cases "resource_map d n") fastforce+
  then show ?thesis using holdsD(4) [OF readyD(1) [OF r]] by blast
qed

lemma ready_fresh:
  assumes r: "ready d s \<sigma> d' iv bs" and c: "next_cown d' \<le> c"
  shows "cells (serially p exec bs s) c = new_resource"
proof -
  have "x < next_cown d'" if "x \<in> owned (next_cown d) d' \<union> globals d'" for x
    using that readyD(5) [OF r] by (auto simp: inv_ok_def dispatch_ok_def owned_def)
  then have "\<forall>b\<in>set bs. c \<notin> writes b" using readyD(9) [OF r] c by (meson leD subsetD)
  then have "cells (serially p exec bs s) c = cells s c" by (rule serially_frame)
  moreover have "next_cown d \<le> c" using readyD(3) [OF r] c by (simp add: grows_def)
  ultimately show ?thesis using holdsD(5) [OF readyD(1) [OF r]] by simp
qed

text \<open>An aborting invocation leaves alone what its final behaviour does not finish.\<close>

lemma ready_kept:
  assumes r: "ready d s \<sigma> d' iv bs" and "req_can_abort (request iv)" and n: "resource_map d' n = Some (c, k)" and "c \<notin> rw_cowns d' iv"
  shows "cells (serially p exec bs s) c = \<sigma> n"
proof -
  have "b \<in> set bs \<Longrightarrow> c \<notin> writes b" for b
    using readyD(8) [OF r, of b] assms(2,4) globalsI [OF n] by (cases b) (auto simp: owned_def)
  then show ?thesis using ready_at(1) [OF r n] serially_frame [of bs c p exec s] by simp
qed

text \<open>The contents once the final behaviour has run.\<close>

definition finished :: "dispatch \<Rightarrow> invocation \<Rightarrow> bool \<Rightarrow> store \<Rightarrow> contents \<Rightarrow> bool" where
  "finished d iv f s \<sigma> \<longleftrightarrow> (\<forall>n c k. resource_map d n = Some (c, k) \<longrightarrow>
        (if req_can_abort (request iv) \<and> c \<in> rw_cowns d iv then finish_resource f (cells s c) else cells s c) = \<sigma> n)
     \<and> (\<forall>n. resource_map d n = None \<longrightarrow> \<sigma> n = new_resource)"

lemma finished_cong: "finished d iv f s \<sigma> \<Longrightarrow> cells s' = cells s \<Longrightarrow> finished d iv f s' \<sigma>"
  by (simp only: finished_def)

lemma finished_nodes:
  assumes sq: "schedule_queue [(nd, None)] d1 iv = (bs, None, d', iv')" and r: "ready d s \<sigma> d' iv' bs"
    and ok: "inv_ok (next_cown d) d1 iv" "tidy d1 iv" "clash_free iv" "plain_graph nd"
    and same: "invocation_id iv' = invocation_id iv" "request iv' = request iv" and sim: "sim d' iv' s \<sigma>"
    and unset: "\<not> flags s (invocation_id iv)"
    and sw: "spec_walk p exec (invocation_id iv) (request iv) nd \<sigma> False = (\<sigma>1, f)"
  shows "finished d' iv' f (serially p exec bs s)
           (\<lambda>n. if scoped n then \<sigma> n else if req_can_abort (request iv) then finish_resource f (\<sigma>1 n) else \<sigma>1 n)"
    and "flags (serially p exec bs s) (invocation_id iv) = f"
proof -
  have "spec_walk p exec (invocation_id iv) (request iv) nd \<sigma> (flags s (invocation_id iv)) = (\<sigma>1, f)" using sw unset by simp
  note w = nodes_sim [OF sq ok sim this]
  show "flags (serially p exec bs s) (invocation_id iv) = f" by (rule w(2))
  let ?ab = "req_can_abort (request iv)" and ?s = "serially p exec bs s"
  have "(if ?ab \<and> c \<in> rw_cowns d' iv' then finish_resource f (cells ?s c) else cells ?s c)
      = (if scoped n then \<sigma> n else if ?ab then finish_resource f (\<sigma>1 n) else \<sigma>1 n)" if n: "resource_map d' n = Some (c, k)" for n c k
  proof -
    have at: "cells ?s c = \<sigma>1 n" using used_global [OF readyD(4) [OF r] n] w(1) by (auto simp: sim_def)
    moreover have "finish_resource f (\<sigma>1 n) = \<sigma>1 n" if "?ab" "c \<notin> rw_cowns d' iv'"
      using ready_kept [OF r _ n that(2), of p exec] that(1) same at readyD(2) [OF r] by (simp add: quiet_def finish_no_pending)
    ultimately show ?thesis using ready_at(2) [OF r n] by auto
  qed
  moreover have "(if scoped n then \<sigma> n else if ?ab then finish_resource f (\<sigma>1 n) else \<sigma>1 n) = new_resource"
    if n: "resource_map d' n = None" for n
  proof -
    have "\<sigma>1 n = new_resource" if "\<not> scoped n"
    proof -
      have "\<not> used d' iv' n" using n that readyD(4) [OF r] unfolding used_def known_def tidy_def by blast
      then show ?thesis using w(3) ready_none [OF r n] by simp
    qed
    then show ?thesis using ready_none [OF r n] by (simp add: finish_no_pending)
  qed
  ultimately show "finished d' iv' f ?s (\<lambda>n. if scoped n then \<sigma> n else if ?ab then finish_resource f (\<sigma>1 n) else \<sigma>1 n)"
    using same by (simp add: finished_def)
qed

context function_host
begin

lemma ready_aborted:
  assumes r: "ready d s \<sigma> d' iv bs" and "req_can_abort (request iv)" and n: "resource_map d' n = Some (c, k)"
  shows "abort_uncommitted (cells (serially p exec bs s) c) = \<sigma> n"
proof -
  have "near (owned (next_cown d) d') (rw_cowns d' iv) (serially p exec bs s) s"
    using readyD(6,8) [OF r] assms(2) by (intro serially_near) simp
  moreover have "c \<notin> owned (next_cown d) d'" using globalsI [OF n] by (simp add: owned_def)
  ultimately show ?thesis using ready_at(1) [OF r n] readyD(2) [OF r] by (simp add: near_def quiet_def abort_no_pending)
qed

lemma finished_failed:
  assumes r: "ready d s \<sigma> d' iv bs" and ab: "req_can_abort (request iv)"
  shows "finished d' iv True (serially p exec bs s) \<sigma>"
  using ready_aborted [OF r ab] ready_kept [OF r ab] ready_none [OF r] ab by (auto simp: finished_def finish_resource_def)

lemma finished_holds:
  assumes fin: "schedule_commit_behaviour iv' d2 = (fin, d')" and r: "ready d s \<sigma> d2 iv' bs"
    and f: "finished d2 iv' (flags s' (invocation_id iv')) s' \<sigma>'" and same: "cells s' = cells (serially p exec bs s)"
  shows "holds d' (run p exec fin s') \<sigma>'"
proof -
  note fe = final_effect(1) [OF fin] final_effect(3) [OF fin, where p = p and exec = exec and s = s']
  have "cells (run p exec fin s') c = \<sigma>' n" if n: "resource_map d' n = Some (c, k)" for n c k
  proof -
    obtain k' where "resource_map d2 n = Some (c, k')" using n fe(1) unfolding same_names_def by metis
    then show ?thesis using f fe(2) unfolding finished_def by metis
  qed
  moreover have "\<sigma>' n = new_resource" if "resource_map d' n = None" for n
    using that fe(1) f unfolding same_names_def finished_def by (metis not_None_eq surj_pair)
  moreover have "cells (run p exec fin s') c = new_resource" if "next_cown d' \<le> c" for c
  proof -
    have "next_cown d2 \<le> c" using that fe(1) by (simp add: same_names_def)
    then show ?thesis using ready_fresh [OF r] same fe(2) [of c] by (simp add: finish_no_pending)
  qed
  moreover have "names_ok d'" using same_names_ok [OF fe(1)] readyD(4) [OF r] by (simp add: tidy_def)
  moreover have "dispatch_ok d'"
    using final_cowns(1) [OF fin readyD(5) [OF r]] readyD(5) [OF r] grows_ok by (auto simp: inv_ok_def)
  ultimately show ?thesis by (simp add: holds_def)
qed

lemma graph_holds:
  assumes sg: "schedule_graph nd iv d1 = (bs, okay, err, d')" and h: "holds d s \<sigma>" and qu: "quiet \<sigma>"
    and gr: "grows d d1" and ok: "inv_ok (next_cown d) d1 iv" "tidy d1 iv" "clash_free iv" "plain_graph nd"
    and unset: "\<not> flags s (invocation_id iv)"
    and can: "req_can_abort (request iv) \<or> schedulable (invocation_id iv) (request iv) nd"
    and new: "\<sigma>' = (if schedulable (invocation_id iv) (request iv) nd
        then (\<lambda>n. if scoped n then \<sigma> n else if req_can_abort (request iv) then finish_resource f (\<sigma>1 n) else \<sigma>1 n) else \<sigma>)"
    and sw: "spec_walk p exec (invocation_id iv) (request iv) nd \<sigma> False = (\<sigma>1, f)"
  shows "holds d' (serially p exec bs s) \<sigma>'"
    and "j \<noteq> invocation_id iv \<Longrightarrow> flags (serially p exec bs s) j = flags s j"
    and "completions (log (serially p exec bs s)) = completions (log s)
           @ [(invocation_id iv, if schedulable (invocation_id iv) (request iv) nd then f else True)]"
proof -
  let ?i = "invocation_id iv" and ?ok = "schedulable (invocation_id iv) (request iv) nd"
  obtain bs1 err1 d2 iv2 where sq: "schedule_queue [(nd, None)] d1 iv = (bs1, err1, d2, iv2)" by (metis surj_pair)
  obtain fin d3 where cb: "schedule_commit_behaviour iv2 d2 = (fin, d3)" by (cases "schedule_commit_behaviour iv2 d2")
  define fails where "fails = (if err1 = None then [] else [SchedulingFailed ?i (invocation_cown iv)])"
  have bs: "bs = (bs1 @ fails) @ [fin]" and d': "d' = d3"
    using sg sq cb by (auto simp: schedule_graph_def fails_def split: if_splits)
  have err1: "err1 = None \<longleftrightarrow> ?ok" using queue_schedulable [OF sq ok(3)] ok(4) by simp
  note rq = ready_queue [OF sq h qu gr ok]
  define s2 where "s2 = serially p exec (bs1 @ fails) s"
  have s2: "cells s2 = cells (serially p exec bs1 s)" "completions (log s2) = completions (log (serially p exec bs1 s))"
    "flags s2 = (if ?ok then flags (serially p exec bs1 s) else (flags (serially p exec bs1 s))(?i := True))"
    using err1 by (simp_all add: s2_def fails_def run_def)
  have outcome: "finished d2 iv2 (flags s2 ?i) s2 \<sigma>' \<and> flags s2 ?i = (if ?ok then f else True)"
  proof (cases ?ok)
    case True
    have "schedule_queue [(nd, None)] d1 iv = (bs1, None, d2, iv2)" using sq err1 True by simp
    note fn = finished_nodes [OF this rq(1) ok rq(2-4) unset sw]
    show ?thesis using finished_cong [OF fn(1) s2(1)] fn(2) True new s2(3) by simp
  next
    case False
    then have "finished d2 iv2 True (serially p exec bs1 s) \<sigma>" using finished_failed [OF rq(1)] can rq(3) by simp
    then show ?thesis using finished_cong [OF _ s2(1)] False new s2(3) by simp
  qed
  have fin: "serially p exec bs s = run p exec fin s2" by (simp add: bs s2_def)
  have "finished d2 iv2 (flags s2 (invocation_id iv2)) s2 \<sigma>'" using outcome unfolding rq(2) by blast
  from finished_holds [OF cb rq(1) this s2(1)] show "holds d' (serially p exec bs s) \<sigma>'" by (simp add: fin d')
  have "\<forall>b\<in>set bs1. inv_of b = Some ?i" using readyD(7) [OF rq(1)] rq(2) by simp
  then show "j \<noteq> ?i \<Longrightarrow> flags (serially p exec bs s) j = flags s j"
    using flags_other [of bs1 j p exec s] final_effect(2) [OF cb, of p exec s2] s2(3) by (simp add: fin)
  show "completions (log (serially p exec bs s)) = completions (log s) @ [(?i, if ?ok then f else True)]"
    using final_effect(4) [OF cb, of p exec s2] outcome rq(2) s2(2) readyD(8) [OF rq(1)]
      bodies_completions [of bs1 "req_can_abort (request iv2)" "owned (next_cown d) d2" "rw_cowns d2 iv2" p exec s]
    by (simp add: fin)
qed

lemma invoke_holds:
  assumes inv: "scheduling_invoke workflows req i d = (bs, okay, err, d')" and h: "holds d s \<sigma>" and qu: "quiet \<sigma>"
    and unset: "\<not> flags s i" and plain: "plain_order (Invoke workflows req i)"
    and spec: "spec_invoke p exec workflows req i \<sigma> = (\<sigma>', f)"
  shows "holds d' (serially p exec bs s) \<sigma>'" and "j \<noteq> i \<Longrightarrow> flags (serially p exec bs s) j = flags s j"
    and "completions (log (serially p exec bs s)) = completions (log s)
           @ (if workflow_find workflows (req_workflow_id req) = None then [] else [(i, f)])"
proof -
  have "holds d' (serially p exec bs s) \<sigma>' \<and> (\<forall>j. j \<noteq> i \<longrightarrow> flags (serially p exec bs s) j = flags s j)
    \<and> completions (log (serially p exec bs s)) = completions (log s)
           @ (if workflow_find workflows (req_workflow_id req) = None then [] else [(i, f)])"
  proof (cases "workflow_find workflows (req_workflow_id req)")
    case None
    then show ?thesis using inv h spec by (auto simp: scheduling_invoke_def spec_invoke_def)
  next
    case (Some nd)
    obtain ic d1 where mk: "make_cown d = (ic, d1)" by (cases "make_cown d")
    define iv where "iv = \<lparr>invocation_id = i, workflow_resources = Map.empty, workflow_rw_resources = [], invocation_cown = ic, request = req\<rparr>"
    have id: "i = invocation_id iv" "req = request iv" by (simp_all add: iv_def)
    have sg: "schedule_graph nd iv d1 = (bs, okay, err, d')" using inv Some mk by (auto simp: scheduling_invoke_def iv_def)
    note g = grows_make_cown [OF mk]
    have ok: "inv_ok (next_cown d) d1 iv"
      using g grows_ok [OF g(1) holdsD(2) [OF h]] holdsD(2) [OF h] by (simp add: inv_ok_def grows_def iv_def)
    have ti: "tidy d1 iv" using holdsD(1) [OF h] g(3) by (simp add: tidy_def names_ok_def inj_map_def iv_def)
    have pl: "clash_free iv" "plain_graph nd" and can: "req_can_abort (request iv) \<or> schedulable (invocation_id iv) (request iv) nd"
      using plain Some by (simp_all add: clash_free_def iv_def)
    obtain \<sigma>1 f1 where sw: "spec_walk p exec i req nd \<sigma> False = (\<sigma>1, f1)"
      by (cases "spec_walk p exec i req nd \<sigma> False")
    have new: "\<sigma>' = (if schedulable i req nd
        then (\<lambda>n. if scoped n then \<sigma> n else if req_can_abort req then finish_resource f1 (\<sigma>1 n) else \<sigma>1 n) else \<sigma>)"
      and f: "f = (if schedulable i req nd then f1 else True)"
      using spec Some sw by (auto simp: spec_invoke_def split: if_splits)
    from graph_holds [OF sg h qu g(1) ok ti pl unset [unfolded id] can new [unfolded id] sw [unfolded id]]
    show ?thesis using Some f by (auto simp: id)
  qed
  then show "holds d' (serially p exec bs s) \<sigma>'" "j \<noteq> i \<Longrightarrow> flags (serially p exec bs s) j = flags s j"
    "completions (log (serially p exec bs s)) = completions (log s)
           @ (if workflow_find workflows (req_workflow_id req) = None then [] else [(i, f)])" by blast+
qed

subsection \<open>A log of orders\<close>

lemma order_holds:
  assumes r: "dispatch_order r d = (g, d1)" "plain_order r" and h: "holds d s \<sigma>" "quiet \<sigma>"
    and unset: "\<forall>i\<in>set (order_ids [r]). \<not> flags s i"
  shows "\<exists>\<sigma>1. holds d1 (serially p exec (g_bs g) s) \<sigma>1 \<and> quiet \<sigma>1
      \<and> (\<forall>j. j \<notin> set (order_ids [r]) \<longrightarrow> flags (serially p exec (g_bs g) s) j = flags s j)
      \<and> spec_order p exec r (\<sigma>, completions (log s)) = (\<sigma>1, completions (log (serially p exec (g_bs g) s)))"
proof (cases r)
  case (Invoke workflows req i)
  obtain bs okay err where si: "scheduling_invoke workflows req i d = (bs, okay, err, d1)" and bs: "g_bs g = bs"
    using r by (auto simp: Invoke invocation_group_def split: prod.splits)
  obtain \<sigma>1 f where sp: "spec_invoke p exec workflows req i \<sigma> = (\<sigma>1, f)" by (cases "spec_invoke p exec workflows req i \<sigma>")
  have "\<not> flags s i" "plain_order (Invoke workflows req i)" using unset r(2) by (simp_all add: Invoke)
  note ih = invoke_holds [OF si h this sp]
  then show ?thesis using spec_invoke_quiet [OF sp h(2)] sp by (auto simp: Invoke bs)
next
  case (GetResource n reply)
  have "g_bs g = [] \<or> (\<exists>c. g_bs g = [Fetch reply c])" "d1 = d"
    using r by (auto simp: GetResource get_resource_async_def split: option.splits)
  then show ?thesis using h by (auto simp: GetResource run_def holds_def)
next
  case (Cleanup q)
  then show ?thesis using r(2) by simp
qed

lemma orders_hold:
  "dispatch_orders rs d = (gs, d') \<Longrightarrow> holds d s \<sigma> \<Longrightarrow> quiet \<sigma> \<Longrightarrow> distinct (order_ids rs) \<Longrightarrow>
     \<forall>i\<in>set (order_ids rs). \<not> flags s i \<Longrightarrow> list_all plain_order rs \<Longrightarrow>
     fold (spec_order p exec) rs (\<sigma>, completions (log s)) = (\<sigma>', out) \<Longrightarrow>
     holds d' (serially p exec (behaviours gs) s) \<sigma>' \<and> completions (log (serially p exec (behaviours gs) s)) = out"
proof (induction rs arbitrary: d gs s \<sigma>)
  case Nil
  then show ?case by simp
next
  case (Cons r rs)
  obtain g d1 where r: "dispatch_order r d = (g, d1)" by (cases "dispatch_order r d")
  obtain gs1 where rs: "dispatch_orders rs d1 = (gs1, d')" and gs: "gs = g # gs1"
    using Cons.prems(1) r by (auto split: prod.splits)
  let ?s1 = "serially p exec (g_bs g) s"
  have ids: "\<forall>i\<in>set (order_ids [r]). \<not> flags s i" "\<forall>i\<in>set (order_ids rs). i \<notin> set (order_ids [r]) \<and> \<not> flags s i"
    "distinct (order_ids rs)" and plain: "plain_order r" "list_all plain_order rs"
    using Cons.prems(4,5,6) unfolding order_ids_Cons [of r rs] by auto
  obtain \<sigma>1 where o: "holds d1 ?s1 \<sigma>1" "quiet \<sigma>1" "\<forall>i. i \<notin> set (order_ids [r]) \<longrightarrow> flags ?s1 i = flags s i"
    "spec_order p exec r (\<sigma>, completions (log s)) = (\<sigma>1, completions (log ?s1))"
    using order_holds [OF r plain(1) Cons.prems(2,3) ids(1), of p] by blast
  have "fold (spec_order p exec) rs (\<sigma>1, completions (log ?s1)) = (\<sigma>', out)" using Cons.prems(7) o(4) by simp
  moreover have "\<forall>i\<in>set (order_ids rs). \<not> flags ?s1 i" using o(3) ids(2) by simp
  ultimately show ?case using Cons.IH [OF rs o(1,2) ids(3) _ plain(2)] by (simp add: gs)
qed

end

text \<open>The cowns of the resources are private to no invocation.\<close>

lemma orders_globals:
  "dispatch_orders rs d = (gs, d') \<Longrightarrow> dispatch_ok d \<Longrightarrow> globals d' \<subseteq> globals d \<union> {next_cown d..} \<and> globals d' \<inter> privates gs = {}"
proof (induction rs arbitrary: d gs)
  case Nil
  then show ?case by (auto simp: privates_def)
next
  case (Cons r rs)
  obtain g d1 where r: "dispatch_order r d = (g, d1)" by (cases "dispatch_order r d")
  obtain gs1 where rs: "dispatch_orders rs d1 = (gs1, d')" and gs: "gs = g # gs1"
    using Cons.prems(1) r by (auto split: prod.splits)
  note g = dispatched_order [OF r Cons.prems(2)]
  note ih = Cons.IH [OF rs g(1)]
  have "globals d' \<inter> g_private g = {}" using ih g(5) by fastforce
  moreover have "globals d' \<subseteq> globals d \<union> {next_cown d..}" using ih g(3,4) by force
  ultimately show ?case using ih by (auto simp: gs privates_def)
qed

lemma worker_dispatch:
  "(worker_step p exec)\<^sup>*\<^sup>* c c' \<Longrightarrow> snd (dispatch_orders (fst c') (fst (snd c'))) = snd (dispatch_orders (fst c) (fst (snd c)))"
proof (induction rule: rtranclp_induct)
  case (step y z)
  from step.hyps(2) step.IH show ?case by (cases rule: worker_step.cases) (auto split: prod.splits)
qed simp

lemma completions_mset: "mset es = mset es' \<Longrightarrow> mset (completions es) = mset (completions es')"
proof -
  have "mset (completions xs) = (\<Sum>e\<in>#mset xs. mset (case e of Completed i failed \<Rightarrow> [(i, failed)] | _ \<Rightarrow> []))" for xs
    by (induction xs) (auto simp: completions_def)
  then show "mset es = mset es' \<Longrightarrow> mset (completions es) = mset (completions es')" by simp
qed

lemma spec_log_quiet: "quiet (fst st) \<Longrightarrow> quiet (fst (fold (spec_order p exec) rs st))"
proof (induction rs arbitrary: st)
  case (Cons r rs)
  have "quiet (fst (spec_order p exec r st))"
  proof (cases r)
    case (Invoke workflows req i)
    obtain \<sigma>' f where "spec_invoke p exec workflows req i (fst st) = (\<sigma>', f)"
      by (cases "spec_invoke p exec workflows req i (fst st)")
    then show ?thesis using spec_invoke_quiet [OF _ Cons.prems] by (cases st) (simp add: Invoke)
  qed (use Cons.prems in simp_all)
  then show ?case using Cons.IH by simp
qed simp

lemma worker_holds:
  assumes "function_host exec" and "distinct (order_ids rs)" and "list_all plain_order rs"
    and "(worker_step p exec)\<^sup>*\<^sup>* (rs, no_dispatch, [], fresh_store) ([], d, [], s')"
  shows "resource_map d n = Some (c, k) \<Longrightarrow> cells s' c = fst (spec_log p exec rs) n"
    and "resource_map d n = None \<Longrightarrow> fst (spec_log p exec rs) n = new_resource"
    and "mset (completions (log s')) = mset (snd (spec_log p exec rs))"
proof -
  let ?gs = "groups_of rs no_dispatch"
  let ?s = "serially p exec (behaviours ?gs) fresh_store"
  have ser: "same_but (privates ?gs) ?s s'"
    using worker_executions [OF assms(4)]
      function_host.executions_schedule [OF assms(1) _ worker_schedule_ok [OF assms(2)], of p fresh_store "[]" s']
    by (simp add: all_behaviours_def config_store_def groups_of_simps)
  have d: "dispatch_orders rs no_dispatch = (?gs, d)"
    using worker_dispatch [OF assms(4)] by (simp add: groups_of_def prod_eq_iff)
  obtain \<sigma>' out where sp: "spec_log p exec rs = (\<sigma>', out)" by (cases "spec_log p exec rs")
  have "holds no_dispatch fresh_store empty_contents"
    by (simp add: holds_def names_ok_def inj_map_def dispatch_ok_def globals_def no_dispatch_def fresh_store_def empty_contents_def)
  moreover have "quiet empty_contents" by (simp add: quiet_def empty_contents_def)
  ultimately have h: "holds d ?s \<sigma>'" "completions (log ?s) = out"
    using function_host.orders_hold [OF assms(1) d _ _ assms(2) _ assms(3), of fresh_store empty_contents p \<sigma>' out] sp
    by (simp_all add: fresh_store_def spec_log_def)
  have "globals d \<inter> privates ?gs = {}"
    using orders_globals [OF d] by (simp add: dispatch_ok_def globals_def no_dispatch_def)
  moreover have "c \<notin> privates ?gs \<Longrightarrow> cells ?s c = cells s' c" "mset (log ?s) = mset (log s')" for c
    using ser unfolding same_but_def by blast+
  ultimately show "resource_map d n = Some (c, k) \<Longrightarrow> cells s' c = fst (spec_log p exec rs) n"
    using globalsI [of d n c k] holdsD(3) [OF h(1), of n c k] sp by (metis disjoint_iff fst_conv)
  show "resource_map d n = None \<Longrightarrow> fst (spec_log p exec rs) n = new_resource" using holdsD(4) [OF h(1)] by (simp add: sp)
  show "mset (completions (log s')) = mset (snd (spec_log p exec rs))"
    unfolding sp snd_conv h(2) [symmetric] by (rule completions_mset) (rule \<open>mset (log ?s) = mset (log s')\<close> [symmetric])
qed

lemma order_ids_append: "order_ids (rs @ rs') = order_ids rs @ order_ids rs'"
  by (induction rs rule: order_ids.induct) simp_all

lemma spec_statuses: "fst ` set (snd (fold (spec_order p exec) rs st)) \<subseteq> fst ` set (snd st) \<union> set (order_ids rs)"
proof (induction rs arbitrary: st)
  case (Cons r rs)
  have "fst ` set (snd (spec_order p exec r st)) \<subseteq> fst ` set (snd st) \<union> set (order_ids [r])"
    by (cases r; cases st) (auto split: prod.splits)
  with Cons.IH [of "spec_order p exec r st"] show ?case unfolding order_ids_Cons [of r rs] by auto
qed simp

subsection \<open>Properties\<close>




definition failing_order :: order where
  "failing_order = Invoke [''w'' \<mapsto> one_task_workflow] \<lparr>req_workflow_id = ''w'', req_can_abort = True, req_input = []\<rparr> 8"


end
