(* ===== verification/Cleanup.thy ===== *)
theory Cleanup
  imports Refinement "HOL-Library.Sublist"
begin

section \<open>Cleaning up deleted resources\<close>

text \<open>
  A behaviour that leaves a global resource deleted pushes its name on \<open>deleted_resources_queue\<close>
  (\<open>src/support/mpsc_queue.hpp\<close>), with the number of uses that the dispatcher had counted when it
  scheduled the behaviour. Now and then the dispatcher empties the queue and takes a name out of its
  map if the number is still the current one (\<open>cleanup_resources\<close>). Other behaviours may be
  running. The theory shows that this is safe: what is taken out is deleted for good, no behaviour
  that is not finished writes it, and so the next use of the name may start with a new resource.
\<close>

subsection \<open>The uses that the dispatcher counts\<close>

text \<open>A behaviour's uses of global resources: the name, the cown and the number of the use.\<close>

type_synonym use_mark = "string \<times> cown \<times> 64 word"

fun marks :: "behaviour \<Rightarrow> use_mark list" where
  "marks (RunTask t) = concat (map (\<lambda>(n, c). case t_refs t n of None \<Rightarrow> [] | Some k \<Rightarrow> [(n, c, k)]) (task_binds t))"
| "marks (Commit m) = m_entries m"
| "marks _ = []"

definition all_marks :: "behaviour list \<Rightarrow> use_mark list" where
  "all_marks bs = concat (map marks bs)"

lemma all_marks_simps [simp]:
  "all_marks [] = []" "all_marks (b # bs) = marks b @ all_marks bs"
  "all_marks (as @ bs) = all_marks as @ all_marks bs"
  by (simp_all add: all_marks_def)

type_synonym counts = "string \<Rightarrow> 64 word"

definition counts_of :: "dispatch \<Rightarrow> counts" where
  "counts_of d n = (case resource_map d n of None \<Rightarrow> 0 | Some (c, k) \<Rightarrow> k)"

definition one_more :: "string \<Rightarrow> counts \<Rightarrow> counts" where
  "one_more n K = K(n := K n + 1)"

fun follows :: "counts \<Rightarrow> use_mark list \<Rightarrow> bool" where
  "follows K [] = True"
| "follows K ((n, c, k) # ms) = (k = as_int (K n + 1) \<and> follows (one_more n K) ms)"

fun tally :: "counts \<Rightarrow> use_mark list \<Rightarrow> counts" where
  "tally K [] = K"
| "tally K ((n, c, k) # ms) = tally (one_more n K) ms"

lemma follows_append: "follows K (ms @ ms') \<longleftrightarrow> follows K ms \<and> follows (tally K ms) ms'"
  by (induction K ms rule: follows.induct) simp_all

lemma tally_append [simp]: "tally K (ms @ ms') = tally (tally K ms) ms'"
  by (induction K ms rule: tally.induct) simp_all

text \<open>The marks number the uses that lead from one state of the dispatcher to another.\<close>

definition counted :: "dispatch \<Rightarrow> use_mark list \<Rightarrow> dispatch \<Rightarrow> bool" where
  "counted d ms d' \<longleftrightarrow> follows (counts_of d) ms \<and> counts_of d' = tally (counts_of d) ms
     \<and> (\<forall>n c k. (n, c, k) \<in> set ms \<longrightarrow> (\<exists>j. resource_map d' n = Some (c, j)))"

lemma counted_none: "counts_of d' = counts_of d \<Longrightarrow> counted d [] d'"
  by (simp add: counted_def)

lemma counted_refl [simp, intro]: "counted d [] d"
  by (simp add: counted_none)

lemma counted_trans:
  assumes "counted d ms d'" and "counted d' ms' d''" and "grows d' d''"
  shows "counted d (ms @ ms') d''"
proof -
  have "\<exists>j. resource_map d'' n = Some (c, j)" if "(n, c, k) \<in> set ms" for n c k
    using that assms(1,3) unfolding counted_def grows_def by blast
  then show ?thesis using assms(1,2) by (auto simp: counted_def follows_append)
qed

lemma counts_make_cown: "make_cown d = (c, d') \<Longrightarrow> counts_of d' = counts_of d"
  by (auto simp: make_cown_def counts_of_def fun_eq_iff)

lemma counts_find: "find_or_make n d = ((c, k), d') \<Longrightarrow> counts_of d' = counts_of d \<and> k = counts_of d n"
  by (auto simp: find_or_make_def make_cown_def counts_of_def fun_eq_iff split: option.splits if_splits)

lemma counted_use:
  assumes "resource_map d n = Some (c, k)"
  shows "counted d [(n, c, as_int (k + 1))] (d\<lparr>resource_map := (resource_map d)(n \<mapsto> (c, k + 1))\<rparr>)"
  using assms by (auto simp: counted_def counts_of_def one_more_def)

subsection \<open>What the operations of the scheduler count\<close>

lemma counts_ensure_local [simp]: "counts_of (r_dispatch (ensure_local n r)) = counts_of (r_dispatch r)"
  by (auto simp: ensure_local_def Let_def counts_make_cown split: prod.splits)

lemma counts_add_name [simp]: "counts_of (r_dispatch (add_name track cur n r)) = counts_of (r_dispatch r)"
  by (simp add: add_name_def Let_def)

lemma counts_fold_names [simp]: "counts_of (r_dispatch (fold (add_name track cur) ns r)) = counts_of (r_dispatch r)"
  by (induction ns arbitrary: r) simp_all

lemma counts_resolve_binding: "resolve_binding av track cur r = (res, r') \<Longrightarrow> counts_of (r_dispatch r') = counts_of (r_dispatch r)"
  by (auto simp: resolve_binding_def Let_def split: option.splits if_splits)

lemma counts_resolve: "resolve_resources av track bs r = (res, r') \<Longrightarrow> counts_of (r_dispatch r') = counts_of (r_dispatch r)"
proof (induction bs arbitrary: r)
  case (Cons cur bs)
  obtain x r1 where step: "resolve_binding av track cur r = (x, r1)" by (cases "resolve_binding av track cur r")
  then show ?case using Cons counts_resolve_binding [OF step] by (cases x) auto
qed simp

lemma counts_choose: "fold (choose_cown iv) ns st = (cs, d') \<Longrightarrow> counts_of d' = counts_of (snd st)"
proof (induction ns arbitrary: st)
  case (Cons n ns)
  have "counts_of (snd (choose_cown iv n st)) = counts_of (snd st)"
    by (auto simp: choose_cown_def counts_find split: option.splits prod.splits)
  then show ?case using Cons by simp
qed simp

text \<open>The loop over the resources of a task, each of another name.\<close>

definition task_marks :: "dispatch \<Rightarrow> (string \<rightharpoonup> 64 word) \<Rightarrow> string list \<Rightarrow> use_mark list" where
  "task_marks d refs ns = map (\<lambda>n. (n, fst (the (resource_map d n)), the (refs n))) ns"

lemma uses_counted:
  "distinct ns \<Longrightarrow>
   counted (u_dispatch u)
     (task_marks (u_dispatch (fold (use_resource ro) ns u)) (u_refs (fold (use_resource ro) ns u))
        (filter (\<lambda>n. workflow_resources (u_inv u) n = None) ns))
     (u_dispatch (fold (use_resource ro) ns u))
   \<and> (\<forall>n. n \<in> set ns \<and> workflow_resources (u_inv u) n = None \<longrightarrow> u_refs (fold (use_resource ro) ns u) n \<noteq> None)
   \<and> (\<forall>n. n \<notin> set ns \<or> workflow_resources (u_inv u) n \<noteq> None \<longrightarrow> u_refs (fold (use_resource ro) ns u) n = u_refs u n)"
proof (induction ns arbitrary: u)
  case Nil
  then show ?case by (simp add: task_marks_def)
next
  case (Cons n ns)
  let ?u1 = "use_resource ro n u"
  let ?u2 = "fold (use_resource ro) ns ?u1"
  have one: "uses_step ro n u ?u1" by (rule uses_step_use)
  then have wr: "workflow_resources (u_inv ?u1) = workflow_resources (u_inv u)" by (simp add: uses_step_def)
  have st: "uses_steps ro ns ?u1 ?u2" by (rule uses_steps_fold)
  then have gr: "grows (u_dispatch ?u1) (u_dispatch ?u2)" by (simp add: uses_steps_def advances_def)
  note ih = Cons.IH [of ?u1, unfolded wr]
  show ?case
  proof (cases "workflow_resources (u_inv u) n")
    case (Some c)
    then have "u_dispatch ?u1 = u_dispatch u" "u_refs ?u1 = u_refs u" by (simp_all add: use_resource_def)
    then show ?thesis using ih Cons.prems(1) Some by auto
  next
    case None
    obtain c k d where fm: "find_or_make n (u_dispatch u) = ((c, k), d)" by (metis surj_pair)
    have u1: "u_dispatch ?u1 = d\<lparr>resource_map := (resource_map d)(n \<mapsto> (c, k + 1))\<rparr>"
      "u_refs ?u1 = (u_refs u)(n \<mapsto> as_int (k + 1))"
      by (simp_all add: use_resource_def None fm Let_def)
    have "counted d [(n, c, as_int (k + 1))] (u_dispatch ?u1)"
      unfolding u1 by (rule counted_use) (rule grows_find(2) [OF fm])
    then have c1: "counted (u_dispatch u) [(n, c, as_int (k + 1))] (u_dispatch ?u1)"
      using counts_find [OF fm] by (simp add: counted_def)
    have "resource_map (u_dispatch ?u1) n = Some (c, k + 1)" by (simp add: u1)
    then obtain j where j: "resource_map (u_dispatch ?u2) n = Some (c, j)" using gr unfolding grows_def by blast
    have ref: "u_refs ?u2 n = Some (as_int (k + 1))" using ih Cons.prems(1) by (simp add: u1)
    have "counted (u_dispatch u) ([(n, c, as_int (k + 1))] @ task_marks (u_dispatch ?u2) (u_refs ?u2)
        (filter (\<lambda>n. workflow_resources (u_inv u) n = None) ns)) (u_dispatch ?u2)"
      using counted_trans [OF c1 _ gr] ih Cons.prems(1) by simp
    then show ?thesis using ih Cons.prems(1) None ref j by (auto simp: task_marks_def u1)
  qed
qed

text \<open>What a task must satisfy so that the deletions it notes are those of its own uses.\<close>

definition neat_task :: "task_run \<Rightarrow> bool" where
  "neat_task t \<longleftrightarrow> map fst (task_binds t) = resources (t_info t)
     \<and> distinct (map fst (task_binds t)) \<and> distinct (map snd (task_binds t))
     \<and> (\<forall>n c. (n, c) \<in> set (task_binds t) \<longrightarrow> n \<notin> set (read_only (t_info t)) \<longrightarrow> c \<in> set (t_rw t))
     \<and> (\<forall>n\<in>t_globals t. n \<in> set (resources (t_info t)) \<longrightarrow> t_refs t n \<noteq> None)"

fun neat :: "behaviour \<Rightarrow> bool" where
  "neat (RunTask t) = neat_task t"
| "neat _ = True"

text \<open>Every global resource that a behaviour writes is one of its marked uses.\<close>

definition settled :: "dispatch \<Rightarrow> behaviour \<Rightarrow> bool" where
  "settled d b \<longleftrightarrow> behaviour_ok b \<and> neat b \<and> writes b \<subseteq> {..<next_cown d}
     \<and> (\<forall>c\<in>writes b. c \<in> globals d \<longrightarrow> (\<exists>n k. (n, c, k) \<in> set (marks b)))"

lemma settled_later:
  assumes "settled d b" and "next_cown d \<le> next_cown d'" and "globals d' \<subseteq> globals d \<union> {next_cown d..}"
  shows "settled d' b"
proof -
  have "c \<in> globals d" if "c \<in> writes b" "c \<in> globals d'" for c
  proof -
    have "c < next_cown d" using that(1) assms(1) by (auto simp: settled_def)
    then show ?thesis using that(2) assms(3) by auto
  qed
  then show ?thesis using assms(1,2) unfolding settled_def by fastforce
qed

lemma settled_grows: "settled d b \<Longrightarrow> grows d d' \<Longrightarrow> settled d' b"
  by (rule settled_later) (auto simp: grows_def)

text \<open>A function names each of its resources once.\<close>

fun names_once :: "behaviour \<Rightarrow> bool" where
  "names_once (RunTask t) = distinct (resources (t_info t))"
| "names_once _ = True"

lemma function_counted:
  assumes sf: "schedule_function info guard d iv = (b, d', iv')" and nm: "\<forall>n\<in>set (resources info). nameable iv n"
    and ok: "inv_ok n0 d iv" "tidy d iv" and dist: "distinct (resources info)"
  shows "counted d (marks b) d'" and "neat b"
    and "c \<in> writes b \<Longrightarrow> c \<in> globals d' \<Longrightarrow> \<exists>n k. (n, c, k) \<in> set (marks b)"
proof -
  let ?ns = "resources info" and ?ro = "read_only info"
  define start where "start = \<lparr>u_dispatch = d, u_inv = iv, u_rw = [], u_ro = [], u_refs = Map.empty\<rparr>"
  define u where "u = fold (use_resource ?ro) ?ns start"
  have start: "u_dispatch start = d" "u_inv start = iv" "u_refs start = Map.empty" by (simp_all add: start_def)
  note at = scheduled_function_at [OF sf nm]
  then obtain t where b: "b = RunTask t" and t: "task_at d' iv' info t" by blast
  have u: "d' = u_dispatch u" "iv' = u_inv u" "t_refs t = u_refs u" "t_globals t = set (workflow_rw_resources iv')"
    using sf by (auto simp: schedule_function_def Let_def u_def start_def b)
  have ok': "inv_ok n0 d' iv'" "tidy d' iv'" using tracksD(3,4) [OF at(1) ok(1)] ok(2) by blast+
  have info: "t_info t = info" and used: "\<forall>n\<in>set ?ns. used d' iv' n"
    and rw: "t_rw t = map (lookup d' iv') (filter (\<lambda>n. n \<notin> set ?ro) ?ns)" using t by (simp_all add: task_at_def)
  have binds: "task_binds t = map (\<lambda>n. (n, lookup d' iv' n)) ?ns" by (rule task_binds_at [OF t])
  have st: "uses_steps ?ro ?ns start u" unfolding u_def by (rule uses_steps_fold)
  then have wr: "workflow_resources iv' = workflow_resources iv" by (simp add: uses_steps_def u start)
  note uc = uses_counted [OF dist, where ro = ?ro and u = start, folded u_def, unfolded start]
  have refs: "t_refs t n = None \<longleftrightarrow> workflow_resources iv n \<noteq> None" if "n \<in> set ?ns" for n
    using uc that unfolding u by auto
  have lk: "lookup d' iv' n = fst (the (resource_map d' n))" if "workflow_resources iv n = None" for n
    using that by (simp add: lookup_def wr)
  have ms: "concat (map (\<lambda>(n, c). case t_refs t n of None \<Rightarrow> [] | Some k \<Rightarrow> [(n, c, k)]) (map (\<lambda>n. (n, lookup d' iv' n)) ns))
      = task_marks d' (t_refs t) (filter (\<lambda>n. workflow_resources iv n = None) ns)" if "set ns \<subseteq> set ?ns" for ns
    using that
  proof (induction ns)
    case (Cons n ns)
    then show ?case using refs [of n] lk [of n] by (cases "t_refs t n") (auto simp: task_marks_def)
  qed (simp add: task_marks_def)
  then have marks: "marks b = task_marks d' (t_refs t) (filter (\<lambda>n. workflow_resources iv n = None) ?ns)"
    by (simp add: b binds)
  then show "counted d (marks b) d'" using uc by (simp add: u)
  have "inj_on (lookup d' iv') (set ?ns)"
    using lookup_inj [OF ok'(2,1)] used by (auto intro: inj_onI)
  then have "distinct (map snd (task_binds t))" using dist by (simp add: binds comp_def distinct_map)
  moreover have "t_refs t n \<noteq> None" if "n \<in> t_globals t" "n \<in> set ?ns" for n
  proof -
    have "resource_map d' n \<noteq> None" using that(1) ok'(1) by (auto simp: inv_ok_def u)
    then have "\<not> scoped n" using ok'(2) by (auto simp: tidy_def names_ok_def)
    then have "workflow_resources iv n = None" using ok'(2) by (auto simp: tidy_def wr)
    then show ?thesis using refs [OF that(2)] by simp
  qed
  ultimately show "neat b" using dist by (auto simp: b neat_task_def info binds rw comp_def)
  show "\<exists>n k. (n, c, k) \<in> set (marks b)" if c: "c \<in> writes b" "c \<in> globals d'"
  proof -
    obtain n where n: "n \<in> set ?ns" "c = lookup d' iv' n" using c(1) by (auto simp: b rw)
    have "workflow_resources iv n = None"
    proof (cases "workflow_resources iv n")
      case (Some e)
      then have "c \<in> owned n0 d'" using n(2) ok'(1) by (auto simp: lookup_def wr inv_ok_def ran_def)
      then show ?thesis using c(2) by (simp add: owned_def)
    qed
    then have "(n, c, the (t_refs t n)) \<in> set (marks b)" using n lk by (force simp: marks task_marks_def)
    then show ?thesis by blast
  qed
qed

lemma node_counted:
  assumes sn: "schedule_node it d iv = (res, d', iv')" and ok: "inv_ok n0 d iv" "tidy d iv"
    and plain: "clash_free iv" "plain_graph (fst it)" and gd: "guarded n0 d (snd it)"
  shows "res = Inl e \<Longrightarrow> counted d [] d'"
    and "res = Inr (b, items) \<Longrightarrow> names_once b \<Longrightarrow> counted d (marks b) d' \<and> settled d' b"
proof -
  note node = scheduled_node [OF sn ok(1) gd]
  have ok': "dispatch_ok d'" using node(1) ok(1) by (auto simp: advances_def inv_ok_def)
  have settled: "settled d' b" if "res = Inr (b, items)" "neat b"
      "\<forall>c\<in>writes b. c \<in> globals d' \<longrightarrow> (\<exists>n k. (n, c, k) \<in> set (marks b))" for b items
    using node(2) [OF that(1)] that(2,3) ok' by (auto simp: settled_def scheduled_def owned_def dispatch_ok_def)
  have "(\<forall>e. res = Inl e \<longrightarrow> counted d [] d')
      \<and> (\<forall>b items. res = Inr (b, items) \<longrightarrow> names_once b \<longrightarrow> counted d (marks b) d' \<and> settled d' b)"
  proof (cases "ntype (fst it)")
    case NTask
    obtain x d1 iv1 where rt: "run_task_node (fst it) (snd it) d iv = (x, d1, iv1)" by (metis surj_pair)
    have d1: "d1 = d'" "iv1 = iv'" using sn NTask rt by (auto simp: schedule_node_def split: sum.splits)
    have pf: "plain_function (node_func (fst it))" using plain(2) by (cases "fst it") simp
    show ?thesis
    proof (cases "node_func (fst it)")
      case None
      then have "x = Inl (''unbound function '' @ node_func_id (fst it))" "d1 = d" using rt by (auto simp: run_task_node_def)
      then show ?thesis using sn NTask rt by (auto simp: schedule_node_def)
    next
      case (Some f)
      let ?r0 = "\<lparr>r_dispatch = d, r_inv = iv, res_inputs = [], res_names = resources f, res_ro = read_only f, val_inputs = []\<rparr>"
      obtain y r where rr: "resolve_resources True True (bindings (fst it)) ?r0 = (y, r)"
        by (cases "resolve_resources True True (bindings (fst it)) ?r0")
      have cn: "counts_of (r_dispatch r) = counts_of d" using counts_resolve [OF rr] by simp
      have rt0: "resolved_to ?r0 r" using resolved_resources [OF rr] plain(1) by (simp add: clash_free_def)
      then have tr: "tracks d iv (r_dispatch r) (r_inv r)" by (simp add: resolved_to_def)
      have "\<forall>n\<in>set (resources f). nameable iv n"
        using pf by (auto simp: nameable_def plain_function_def Some list_all_iff)
      then have nm: "\<forall>n\<in>set (res_names r). nameable (r_inv r) n" using rt0 by (simp add: resolved_to_def)
      show ?thesis
      proof (cases y)
        case (Inl e)
        then have "x = Inl e" "d1 = r_dispatch r" using rt Some rr by (auto simp: run_task_node_def)
        then show ?thesis using sn NTask rt cn d1(1) by (auto simp: schedule_node_def counted_none)
      next
        case (Inr z)
        let ?info = "set_input_data (dump_task_input (res_inputs r) (val_inputs r)) (f\<lparr>resources := res_names r, read_only := res_ro r\<rparr>)"
        obtain b where sf: "schedule_function ?info (snd it) (r_dispatch r) (r_inv r) = (b, d', iv')" and x: "x = Inr b"
          using rt Some rr Inr by (auto simp: run_task_node_def d1 split: prod.splits)
        have nm': "\<forall>n\<in>set (resources ?info). nameable (r_inv r) n" using nm by (simp add: set_input_data_def)
        have info: "\<exists>t. b = RunTask t \<and> t_info t = ?info"
          using scheduled_function_at(2) [OF sf nm'] by (auto simp: task_at_def)
        have "counted d (marks b) d' \<and> settled d' b" if "res = Inr (b, items)" "names_once b" for items
        proof -
          have dist: "distinct (resources ?info)" using info that(2) by auto
          note fc = function_counted [OF sf nm' tracksD(4) [OF tr ok(1)] tracksD(3) [OF tr ok] dist]
          have "counted d (marks b) d'" using fc(1) cn by (simp add: counted_def)
          then show ?thesis using settled [OF that(1) fc(2)] fc(3) by blast
        qed
        then show ?thesis using sn NTask rt by (auto simp: schedule_node_def x)
      qed
    qed
  next
    case NChoice
    obtain control d1 where mk: "make_cown d = (control, d1)" by (cases "make_cown d")
    obtain x d2 iv2 where sc: "schedule_choice_node (fst it) control (snd it) d1 iv = (x, d2, iv2)" by (metis surj_pair)
    have d2: "d2 = d'" using sn NChoice mk sc by (auto simp: schedule_node_def split: sum.splits)
    have "counts_of d2 = counts_of d1"
      using sc counts_resolve counts_choose
      by (fastforce simp: schedule_choice_node_def split: prod.splits sum.splits)
    then have cn: "counted d [] d'" using counts_make_cown [OF mk] by (simp add: counted_none d2)
    have "counted d (marks b) d' \<and> settled d' b" if res: "res = Inr (b, items)" for b items
    proof -
      have "\<exists>c. b = EvalChoice c" using res sn NChoice mk sc
        by (auto simp: schedule_node_def schedule_choice_node_def split: prod.splits sum.splits)
      then obtain c where b: "b = EvalChoice c" by blast
      have "c_control c \<in> owned n0 d'" using node(2) [OF res] by (simp add: scheduled_def b)
      then show ?thesis using settled [OF res] cn by (simp add: b owned_def)
    qed
    then show ?thesis using cn by blast
  next
    case NUnknown
    then show ?thesis using sn by (auto simp: schedule_node_def)
  qed
  then show "res = Inl e \<Longrightarrow> counted d [] d'"
    "res = Inr (b, items) \<Longrightarrow> names_once b \<Longrightarrow> counted d (marks b) d' \<and> settled d' b" by blast+
qed

lemma queue_counted:
  "schedule_queue q d iv = (bs, err, d', iv') \<Longrightarrow> inv_ok n0 d iv \<Longrightarrow> tidy d iv \<Longrightarrow> clash_free iv \<Longrightarrow>
     \<forall>x\<in>set q. plain_graph (fst x) \<Longrightarrow> queue_guarded n0 d q \<Longrightarrow> list_all names_once bs \<Longrightarrow>
     counted d (all_marks bs) d' \<and> (\<forall>b\<in>set bs. settled d' b)"
proof (induction "queue_nodes q" arbitrary: q d iv bs rule: less_induct)
  case less
  show ?case
  proof (cases q)
    case Nil
    with less.prems(1) show ?thesis by auto
  next
    case (Cons it q')
    obtain res d1 iv1 where sn: "schedule_node it d iv = (res, d1, iv1)" by (metis surj_pair)
    have it: "plain_graph (fst it)" "guarded n0 d (snd it)" using less.prems(5,6) by (simp_all add: Cons queue_guarded_def)
    note nc = node_counted [OF sn less.prems(2-4) it] and node = scheduled_node [OF sn less.prems(2) it(2)]
    show ?thesis
    proof (cases "\<exists>b items. res = Inr (b, Some items)")
      case False
      then show ?thesis
        using less.prems(1,7) nc sn
        by (auto simp: Cons schedule_queue_Cons split: sum.splits prod.splits option.splits)
    next
      case True
      then obtain b items where res: "res = Inr (b, Some items)" by blast
      obtain bs1 where sq: "schedule_queue (q' @ items) d1 iv1 = (bs1, err, d', iv')" and bs: "bs = b # bs1"
        using less.prems(1) sn by (auto simp: Cons schedule_queue_Cons res split: prod.splits)
      have b: "counted d (marks b) d1 \<and> settled d1 b" using nc(2) [OF res] less.prems(7) by (simp add: bs)
      have tr: "tracks d iv d1 iv1" using tracks_node [OF sn less.prems(4) it(1)] .
      have ok1: "inv_ok n0 d1 iv1" "tidy d1 iv1" using tracksD(3,4) [OF tr less.prems(2)] less.prems(3) by blast+
      have cf: "clash_free iv1" using less.prems(4) tracksD(1) [OF tr] by (simp add: advances_def same_run_def clash_free_def)
      have "queue_nodes (q' @ items) < queue_nodes q" using schedule_node_nodes sn res by (auto simp: Cons)
      moreover have gd: "queue_guarded n0 d1 (q' @ items)"
        using node(3) [OF res] queue_guarded_mono [OF less.prems(6) node(1) less.prems(2)]
        by (auto simp: Cons queue_guarded_def)
      moreover have "\<forall>x\<in>set (q' @ items). plain_graph (fst x)"
        using plain_next [OF sn [unfolded res] it(1)] less.prems(5) by (auto simp: Cons)
      moreover have "list_all names_once bs1" using less.prems(7) by (simp add: bs)
      ultimately have ih: "counted d1 (all_marks bs1) d' \<and> (\<forall>b\<in>set bs1. settled d' b)"
        using less.hyps [OF _ sq ok1 cf] by blast
      have gr: "grows d1 d'" using scheduled_queue [OF sq ok1(1) gd] by (simp add: advances_def)
      then show ?thesis using b ih counted_trans [OF _ _ gr] settled_grows [OF _ gr] by (auto simp: bs)
    qed
  qed
qed

lemma commit_counted: "commit_entries ns d = (es, d') \<Longrightarrow> counted d es d'"
proof (induction ns arbitrary: d es)
  case (Cons n ns)
  show ?case
  proof (cases "resource_map d n")
    case None
    with Cons show ?thesis by simp
  next
    case (Some ck)
    obtain c k where ck: "ck = (c, k)" by (cases ck)
    let ?d = "d\<lparr>resource_map := (resource_map d)(n \<mapsto> (c, k + 1))\<rparr>"
    obtain es1 where es1: "commit_entries ns ?d = (es1, d')" "es = [(n, c, as_int (k + 1))] @ es1"
      using Cons.prems Some ck by (auto split: prod.splits)
    have one: "counted d [(n, c, as_int (k + 1))] ?d" using counted_use Some ck by simp
    have gr: "grows ?d d'" using commit_entries_cowns [OF es1(1)] by blast
    show ?thesis unfolding es1(2) by (rule counted_trans [OF one Cons.IH [OF es1(1)] gr])
  qed
qed simp

lemma final_counted:
  assumes cb: "schedule_commit_behaviour iv d = (fin, d')" and ok: "inv_ok n0 d iv"
  shows "counted d (marks fin) d'" and "settled d' fin"
proof -
  obtain es d1 where ce: "commit_entries (workflow_rw_resources iv) d = (es, d1)"
    by (cases "commit_entries (workflow_rw_resources iv) d")
  have cases: "(\<exists>k ic. fin = Complete k ic) \<and> counted d [] d'
      \<or> (\<exists>m. fin = Commit m \<and> m_entries m = es) \<and> d' = d1"
    using cb ce commit_counted [OF ce] by (auto simp: schedule_commit_behaviour_def split: if_splits)
  then show "counted d (marks fin) d'" using commit_counted [OF ce] by auto
  note fc = final_cowns [OF cb ok]
  have "dispatch_ok d'" using fc(1) ok grows_ok by (auto simp: inv_ok_def)
  then have "writes fin \<subseteq> {..<next_cown d'}" using fc(5) by (auto simp: owned_def dispatch_ok_def)
  moreover have "\<exists>n k. (n, c, k) \<in> set (marks fin)" if c: "c \<in> writes fin" "c \<in> globals d'" for c
  proof -
    have "invocation_cown iv \<in> owned n0 d" using ok by (simp add: inv_ok_def)
    then have "invocation_cown iv \<notin> globals d'" using owned_mono [OF fc(1), of n0] ok by (auto simp: owned_def inv_ok_def)
    then have ic: "invocation_cown iv \<noteq> c" using c(2) by blast
    have "c \<in> (fst \<circ> snd) ` set (marks fin)"
      using cb ce ic c(1) by (cases "es = []") (auto simp: schedule_commit_behaviour_def split: if_splits)
    then show ?thesis by force
  qed
  moreover have "behaviour_ok fin \<and> neat fin" using cases by auto
  ultimately show "settled d' fin" by (simp add: settled_def)
qed

text \<open>
  Orders in which no name of the request and of the registered functions looks like the name of a
  local resource.
\<close>

fun unambiguous :: "order \<Rightarrow> bool" where
  "unambiguous (Invoke workflows req i) = (plain_input req
     \<and> (case workflow_find workflows (req_workflow_id req) of None \<Rightarrow> True | Some nd \<Rightarrow> plain_graph nd))"
| "unambiguous _ = True"

fun is_cleanup :: "order \<Rightarrow> bool" where
  "is_cleanup (Cleanup q) = True"
| "is_cleanup _ = False"

lemma graph_counted:
  assumes sg: "schedule_graph nd iv d = (bs, okay, err, d')" and ok: "inv_ok n0 d iv" "tidy d iv"
    and plain: "clash_free iv" "plain_graph nd" and once: "list_all names_once bs"
  shows "counted d (all_marks bs) d'" and "\<forall>b\<in>set bs. settled d' b" and "names_ok d'"
proof -
  obtain bs1 err1 d1 iv1 where sq: "schedule_queue [(nd, None)] d iv = (bs1, err1, d1, iv1)" by (metis surj_pair)
  obtain fin d2 where cb: "schedule_commit_behaviour iv1 d1 = (fin, d2)" by (cases "schedule_commit_behaviour iv1 d1")
  define fails where "fails = (if err1 = None then [] else [SchedulingFailed (invocation_id iv) (invocation_cown iv)])"
  have bs: "bs = bs1 @ fails @ [fin]" and d': "d' = d2"
    using sg sq cb by (auto simp: schedule_graph_def fails_def split: if_splits)
  have gd: "queue_guarded n0 d [(nd, None)]" by (simp add: queue_guarded_def guarded_def guard_cowns_def)
  have tr: "tracks d iv d1 iv1" using tracks_queue [OF sq plain(1)] plain(2) by simp
  have ok1: "inv_ok n0 d1 iv1" "tidy d1 iv1" using tracksD(3,4) [OF tr ok(1)] ok(2) by blast+
  have q: "counted d (all_marks bs1) d1 \<and> (\<forall>b\<in>set bs1. settled d1 b)"
    using queue_counted [OF sq ok plain(1) _ gd] plain(2) once by (simp add: bs)
  note fin = final_counted [OF cb ok1(1)] final_cowns(1) [OF cb ok1(1)]
  have none: "all_marks fails = []" "\<forall>b\<in>set fails. settled d2 b" by (simp_all add: fails_def settled_def)
  show "counted d (all_marks bs) d'" using counted_trans [OF _ fin(1,3)] q by (simp add: bs d' none)
  show "\<forall>b\<in>set bs. settled d' b" using q settled_grows [OF _ fin(3)] fin(2) none(2) by (auto simp: bs d')
  show "names_ok d'" using same_names_ok [OF final_effect(1) [OF cb]] ok1(2) by (simp add: d' tidy_def)
qed

lemma order_counted:
  assumes r: "dispatch_order r d = (g, d')" "\<not> is_cleanup r" and d: "dispatch_ok d" "names_ok d"
    and plain: "unambiguous r" "list_all names_once (g_bs g)"
  shows "counted d (all_marks (g_bs g)) d'" and "\<forall>b\<in>set (g_bs g). settled d' b" and "names_ok d'" and "grows d d'"
proof -
  have "counted d (all_marks (g_bs g)) d' \<and> (\<forall>b\<in>set (g_bs g). settled d' b) \<and> names_ok d' \<and> grows d d'"
  proof (cases r)
    case (Invoke workflows req i)
    obtain bs okay err where si: "scheduling_invoke workflows req i d = (bs, okay, err, d')" and bs: "g_bs g = bs"
      using r by (auto simp: Invoke invocation_group_def split: prod.splits)
    show ?thesis
    proof (cases "workflow_find workflows (req_workflow_id req)")
      case None
      then show ?thesis using si d(2) by (auto simp: scheduling_invoke_def bs)
    next
      case (Some nd)
      obtain ic d1 where mk: "make_cown d = (ic, d1)" by (cases "make_cown d")
      define iv where "iv = \<lparr>invocation_id = i, workflow_resources = Map.empty, workflow_rw_resources = [], invocation_cown = ic, request = req\<rparr>"
      have sg: "schedule_graph nd iv d1 = (bs, okay, err, d')" using si Some mk by (auto simp: scheduling_invoke_def iv_def)
      note mc = grows_make_cown [OF mk]
      have ok: "inv_ok (next_cown d) d1 iv"
        using mc grows_ok [OF mc(1) d(1)] d(1) by (simp add: inv_ok_def grows_def iv_def)
      have ti: "tidy d1 iv" using d(2) mc(3) by (simp add: tidy_def names_ok_def inj_map_def iv_def)
      have pl: "clash_free iv" "plain_graph nd" using plain(1) Some by (simp_all add: Invoke clash_free_def iv_def)
      note gc = graph_counted [OF sg ok ti pl, folded bs, OF plain(2)]
      have "counted d (all_marks (g_bs g)) d'" using gc(1) counts_make_cown [OF mk] by (simp add: counted_def)
      moreover have "grows d d'" using invoked_workflow(1) [OF si d(1)] .
      ultimately show ?thesis using gc(2,3) by blast
    qed
  next
    case (GetResource n reply)
    then show ?thesis using r d(2)
      by (auto simp: get_resource_async_def settled_def split: option.splits)
  next
    case (Cleanup q)
    then show ?thesis using r(2) by simp
  qed
  then show "counted d (all_marks (g_bs g)) d'" "\<forall>b\<in>set (g_bs g). settled d' b" "names_ok d'" "grows d d'" by blast+
qed

subsection \<open>The numbers of the uses of a name increase\<close>

lemma as_int_small: "unat k < 2 ^ 31 \<Longrightarrow> as_int k = k"
proof -
  assume k: "unat k < 2 ^ 31"
  then have "take_bit 31 k = k" by (simp add: word_unat_eq_iff unsigned_take_bit_eq take_bit_nat_eq_self)
  moreover from this have "\<not> bit k 31" by (metis bit_take_bit_iff less_irrefl)
  ultimately show ?thesis by (simp add: as_int_def signed_take_bit_def)
qed

definition names_uses :: "use_mark list \<Rightarrow> (string \<times> 64 word) list" where
  "names_uses ms = map (\<lambda>(n, c, k). (n, k)) ms"

lemma names_uses_simps [simp]:
  "names_uses [] = []" "names_uses ((n, c, k) # ms) = (n, k) # names_uses ms"
  "names_uses (ms @ ms') = names_uses ms @ names_uses ms'"
  by (simp_all add: names_uses_def)

lemma names_uses_iff: "(n, k) \<in> set (names_uses ms) \<longleftrightarrow> (\<exists>c. (n, c, k) \<in> set ms)"
  by (force simp: names_uses_def)

definition before :: "string \<times> 64 word \<Rightarrow> string \<times> 64 word \<Rightarrow> bool" where
  "before x y \<longleftrightarrow> (fst x = fst y \<longrightarrow> snd x < snd y)"

lemma follows_increase:
  "follows K ms \<Longrightarrow> \<forall>n. unat (K n) + length ms < 2 ^ 31 \<Longrightarrow>
     sorted_wrt before (names_uses ms)
     \<and> (\<forall>n k. (n, k) \<in> set (names_uses ms) \<longrightarrow> K n < k \<and> k \<le> tally K ms n)
     \<and> (\<forall>n. K n \<le> tally K ms n \<and> unat (tally K ms n) \<le> unat (K n) + length ms)"
proof (induction K ms rule: follows.induct)
  case (2 K n c k ms)
  have lt: "unat (K n) + Suc (length ms) < 2 ^ 31" using 2(3) by simp
  then have un: "unat (K n + 1) = Suc (unat (K n))" by (intro unat_add_lem [THEN iffD1, THEN trans]) (simp_all)
  then have k: "k = K n + 1" using 2(2) lt by (simp add: as_int_small)
  have less: "K n < k" by (simp add: k word_less_nat_alt un)
  have "\<forall>m. unat (one_more n K m) + length ms < 2 ^ 31"
  proof
    fix m
    show "unat (one_more n K m) + length ms < 2 ^ 31"
      using lt spec [OF 2(3), of m] by (cases "m = n") (simp_all add: one_more_def un)
  qed
  with 2 have ih: "sorted_wrt before (names_uses ms)"
    "\<forall>m l. (m, l) \<in> set (names_uses ms) \<longrightarrow> one_more n K m < l \<and> l \<le> tally (one_more n K) ms m"
    "\<forall>m. one_more n K m \<le> tally (one_more n K) ms m \<and> unat (tally (one_more n K) ms m) \<le> unat (one_more n K m) + length ms"
    by simp_all
  have more: "K m \<le> one_more n K m" "unat (one_more n K m) \<le> Suc (unat (K m))" for m
    using less_imp_le [OF less] un by (simp_all add: one_more_def k)
  have nk: "one_more n K n = k" by (simp add: one_more_def k)
  have "before (n, k) y" if "y \<in> set (names_uses ms)" for y
    using ih(2) that nk by (cases y) (auto simp: before_def)
  then have 1: "sorted_wrt before (names_uses ((n, c, k) # ms))" using ih(1) by simp
  have 2: "K m < l \<and> l \<le> tally K ((n, c, k) # ms) m" if "(m, l) \<in> set (names_uses ((n, c, k) # ms))" for m l
  proof (cases "(m, l) = (n, k)")
    case True
    then show ?thesis using less ih(3) nk by auto
  next
    case False
    then have "(m, l) \<in> set (names_uses ms)" using that by auto
    then show ?thesis using ih(2) more(1) [of m] by (auto intro: le_less_trans)
  qed
  have 3: "K m \<le> tally K ((n, c, k) # ms) m \<and> unat (tally K ((n, c, k) # ms) m) \<le> unat (K m) + length ((n, c, k) # ms)" for m
  proof -
    have "K m \<le> tally (one_more n K) ms m" using more(1) [of m] ih(3) order_trans by blast
    moreover have "unat (tally (one_more n K) ms m) \<le> unat (one_more n K m) + length ms" using ih(3) by blast
    ultimately show ?thesis using more(2) [of m] by simp
  qed
  from 1 2 3 show ?case by blast
qed simp

subsection \<open>What a behaviour pushes\<close>

text \<open>The queue: all names that were ever pushed, with the numbers.\<close>

definition pushed :: "event_entry list \<Rightarrow> (string \<times> 64 word) list" where
  "pushed es = concat (map (\<lambda>e. case e of Deleted n k \<Rightarrow> [(n, k)] | _ \<Rightarrow> []) es)"

lemma pushed_simps [simp]:
  "pushed [] = []" "pushed (es @ es') = pushed es @ pushed es'" "pushed (Deleted n k # es) = (n, k) # pushed es"
  "pushed (Completed i f # es) = pushed es" "pushed (Replied r b # es) = pushed es"
  by (simp_all add: pushed_def)

definition dead :: "resource \<Rightarrow> bool" where
  "dead r \<longleftrightarrow> committed_deleted r \<and> no_pending r"

lemma dead_committed: "is_deleted (commit_uncommitted r) \<Longrightarrow> dead (commit_uncommitted r)"
  using no_pending_finished [of False r] by (auto simp: dead_def finish_resource_def no_pending_def is_deleted_def)

text \<open>The pushes of a behaviour are among its uses, in their order.\<close>

definition pushes_uses :: "platform \<Rightarrow> executor \<Rightarrow> behaviour \<Rightarrow> store \<Rightarrow> bool" where
  "pushes_uses p exec b s \<longleftrightarrow> subseq (pushed (events exec b s)) (names_uses (marks b))
     \<and> (\<forall>n k. (n, k) \<in> set (pushed (events exec b s)) \<longrightarrow>
          (\<exists>c. (n, c, k) \<in> set (marks b) \<and> c \<in> writes b \<and> dead (cells (perform_behaviour p exec b s) c)))"

lemma subseq_set: "subseq xs ys \<Longrightarrow> x \<in> set xs \<Longrightarrow> x \<in> set ys"
  by (auto elim: list_emb_set)

lemma subseq_sorted: "subseq xs ys \<Longrightarrow> sorted_wrt P ys \<Longrightarrow> sorted_wrt P xs"
  by (induction rule: list_emb.induct) (auto dest: subseq_set)

lemma finalize_pushes:
  "distinct ns \<Longrightarrow> \<exists>new. snd (finalize ok t ns (st, evs)) = evs @ new
     \<and> subseq (pushed new) (map (\<lambda>n. (n, the (t_refs t n))) (filter (\<lambda>n. n \<in> t_globals t \<and> n \<notin> set (read_only (t_info t))) ns))
     \<and> (\<forall>n k. (n, k) \<in> set (pushed new) \<longrightarrow>
          (\<exists>r. local_resources (fst (finalize ok t ns (st, evs))) n = Some r \<and> dead r))"
proof (induction ns arbitrary: st evs)
  case Nil
  then show ?case by (intro exI [of _ "[]"]) simp
next
  case (Cons n ns)
  have fresh: "n \<notin> set ns" "distinct ns" using Cons.prems by simp_all
  show ?case
  proof (cases "n \<in> set (read_only (t_info t)) \<or> get_resource st n = None \<or> \<not> ok")
    case True
    then obtain st1 where "finalize ok t (n # ns) (st, evs) = finalize ok t ns (st1, evs)"
      by (cases "n \<in> set (read_only (t_info t))"; cases "get_resource st n") auto
    then show ?thesis using Cons.IH [OF fresh(2), of st1 evs] by (auto intro: subseq_Cons')
  next
    case False
    then obtain r where r: "get_resource st n = Some r" by auto
    let ?r = "commit_uncommitted r" and ?st = "put_local n (commit_uncommitted r) st"
    have kept: "local_resources (fst (finalize ok t ns (?st, e))) n = Some ?r" for e
      using spec_finalize_other [OF fresh(1), of ok "read_only (t_info t)" ?st] by (simp add: finalize_spec put_local_def)
    show ?thesis
    proof (cases "n \<in> t_globals t \<and> is_deleted ?r")
      case True
      let ?e = "Deleted n (the (t_refs t n))"
      have f: "finalize ok t (n # ns) (st, evs) = finalize ok t ns (?st, evs @ [?e])"
        using False r True by (simp add: Let_def)
      obtain new where new: "snd (finalize ok t ns (?st, evs @ [?e])) = (evs @ [?e]) @ new"
        "subseq (pushed new) (map (\<lambda>n. (n, the (t_refs t n))) (filter (\<lambda>n. n \<in> t_globals t \<and> n \<notin> set (read_only (t_info t))) ns))"
        "\<forall>n k. (n, k) \<in> set (pushed new) \<longrightarrow>
          (\<exists>r. local_resources (fst (finalize ok t ns (?st, evs @ [?e]))) n = Some r \<and> dead r)"
        using Cons.IH [OF fresh(2), of ?st "evs @ [?e]"] by blast
      then show ?thesis unfolding f
        using False True kept dead_committed by (intro exI [of _ "?e # new"]) auto
    next
      case False': False
      then have f: "finalize ok t (n # ns) (st, evs) = finalize ok t ns (?st, evs)"
        using False r False' by (auto simp: Let_def)
      show ?thesis unfolding f using Cons.IH [OF fresh(2), of ?st evs] by (auto intro: subseq_Cons')
    qed
  qed
qed

lemma task_uses:
  assumes "map fst (task_binds t) = resources (t_info t)"
  shows "names_uses (marks (RunTask t)) = map (\<lambda>n. (n, the (t_refs t n))) (filter (\<lambda>n. t_refs t n \<noteq> None) (resources (t_info t)))"
proof -
  have "names_uses (concat (map (\<lambda>(n, c). case t_refs t n of None \<Rightarrow> [] | Some k \<Rightarrow> [(n, c, k)]) bs))
      = map (\<lambda>n. (n, the (t_refs t n))) (filter (\<lambda>n. t_refs t n \<noteq> None) (map fst bs))" for bs
  proof (induction bs)
    case (Cons b bs)
    then show ?case by (cases b; cases "t_refs t (fst b)") simp_all
  qed simp
  then show ?thesis by (simp add: assms [symmetric])
qed

lemma find_bind:
  "distinct (map snd xs) \<Longrightarrow> (n, c) \<in> set xs \<Longrightarrow> find (\<lambda>(n, d). d = c) xs = Some (n, c)"
  by (induction xs) (auto simp: image_iff)

lemma task_pushes:
  assumes neat: "neat_task t"
  shows "pushes_uses p exec (RunTask t) s"
proof (cases "guard_open (t_guard t) s \<and> \<not> t_can_abort t")
  case False
  then have "pushed (events exec (RunTask t) s) = []" by (auto simp: task_outcome_def split: prod.splits)
  then show ?thesis by (simp only: pushes_uses_def) simp
next
  case True
  let ?ns = "resources (t_info t)" and ?ro = "set (read_only (t_info t))" and ?u = "\<lambda>n. (n, the (t_refs t n))"
  have nt: "map fst (task_binds t) = ?ns" "distinct ?ns" "distinct (map snd (task_binds t))"
    "\<And>n c. (n, c) \<in> set (task_binds t) \<Longrightarrow> n \<notin> ?ro \<Longrightarrow> c \<in> set (t_rw t)"
    "\<And>n. n \<in> t_globals t \<Longrightarrow> n \<in> set ?ns \<Longrightarrow> t_refs t n \<noteq> None"
    using neat unfolding neat_task_def by auto
  obtain ok st where ex: "exec (t_info t) (task_storage t s) = (ok, st)" by (cases "exec (t_info t) (task_storage t s)")
  obtain st' evs where fi: "finalize ok t ?ns (st, []) = (st', evs)" by (cases "finalize ok t ?ns (st, [])")
  have ev: "events exec (RunTask t) s = evs" and pb: "cells (perform_behaviour p exec (RunTask t) s) = cells (write_back t st' s)"
    using True by (simp_all add: task_outcome_def ex fi run_task_def)
  have sub: "subseq (pushed evs) (map ?u (filter (\<lambda>n. n \<in> t_globals t \<and> n \<notin> ?ro) ?ns))"
    and del: "\<And>n k. (n, k) \<in> set (pushed evs) \<Longrightarrow> \<exists>r. local_resources st' n = Some r \<and> dead r"
    using finalize_pushes [OF nt(2), of ok t st "[]"] by (auto simp: fi)
  have eq: "filter (\<lambda>n. n \<in> t_globals t \<and> n \<notin> ?ro) (filter (\<lambda>n. t_refs t n \<noteq> None) ?ns)
      = filter (\<lambda>n. n \<in> t_globals t \<and> n \<notin> ?ro) ?ns"
    using nt(5) by (auto intro!: filter_cong)
  have "subseq (filter (\<lambda>n. n \<in> t_globals t \<and> n \<notin> ?ro) ?ns) (filter (\<lambda>n. t_refs t n \<noteq> None) ?ns)"
    unfolding eq [symmetric] by (rule subseq_filter_left)
  then have "subseq (map ?u (filter (\<lambda>n. n \<in> t_globals t \<and> n \<notin> ?ro) ?ns)) (map ?u (filter (\<lambda>n. t_refs t n \<noteq> None) ?ns))"
    by (rule subseq_map)
  then have 1: "subseq (pushed evs) (names_uses (marks (RunTask t)))"
    unfolding task_uses [OF nt(1)] by (rule subseq_order.trans [OF sub])
  have "\<exists>c. (n, c, k) \<in> set (marks (RunTask t)) \<and> c \<in> set (t_rw t) \<and> dead (cells (write_back t st' s) c)"
    if nk: "(n, k) \<in> set (pushed evs)" for n k
  proof -
    obtain c where c: "(n, c, k) \<in> set (marks (RunTask t))" using subseq_set [OF 1 nk] by (auto simp: names_uses_iff simp del: marks.simps)
    have "n \<notin> ?ro" using subseq_set [OF sub nk] by auto
    moreover have bind: "(n, c) \<in> set (task_binds t)" using c by (auto split: option.splits)
    ultimately have rw: "c \<in> set (t_rw t)" using nt(4) by blast
    obtain r where "local_resources st' n = Some r" "dead r" using del [OF nk] by blast
    then have "dead (cells (write_back t st' s) c)" using rw find_bind [OF nt(3) bind] by (simp add: write_back_def)
    then show ?thesis using c rw by blast
  qed
  then show ?thesis using 1 by (simp only: pushes_uses_def ev pb writes.simps) blast
qed

lemma commit_pushes: "pushes_uses p exec (Commit m) s"
proof (cases "flags s (m_inv m)")
  case True
  then show ?thesis by (simp add: pushes_uses_def commit_events_def)
next
  case False
  let ?d = "\<lambda>x. is_deleted (commit_uncommitted (cells s (fst (snd x))))"
  have "pushed (concat (map (\<lambda>(n, c, ref). if is_deleted (commit_uncommitted (cells s c)) then [Deleted n ref] else []) es))
      = names_uses (filter ?d es)" for es
  proof (induction es)
    case (Cons e es)
    then show ?case by (cases e) simp
  qed simp
  then have ev: "pushed (events exec (Commit m) s) = names_uses (filter ?d (m_entries m))"
    using False by (simp add: commit_events_def)
  have "\<exists>c. (n, c, k) \<in> set (m_entries m) \<and> c \<in> writes (Commit m) \<and> dead (cells (perform_behaviour p exec (Commit m) s) c)"
    if nk: "(n, k) \<in> set (names_uses (filter ?d (m_entries m)))" for n k
  proof -
    obtain c where c: "(n, c, k) \<in> set (m_entries m)" "is_deleted (commit_uncommitted (cells s c))"
      using nk by (auto simp: names_uses_iff)
    then have "c \<in> (fst \<circ> snd) ` set (m_entries m)" by force
    then show ?thesis using c dead_committed [OF c(2)] False by (auto simp: run_commit_def finish_resource_def)
  qed
  moreover have "subseq (names_uses (filter ?d (m_entries m))) (names_uses (m_entries m))"
    unfolding names_uses_def by (intro subseq_map subseq_filter_left)
  ultimately show ?thesis by (simp only: pushes_uses_def ev marks.simps) blast
qed

lemma behaviour_pushes: "neat b \<Longrightarrow> pushes_uses p exec b s"
proof (cases b)
  case (RunTask t)
  then show "neat b \<Longrightarrow> ?thesis" using task_pushes by simp
next
  case (Commit m)
  then show ?thesis using commit_pushes by simp
qed (simp_all add: pushes_uses_def)

lemma marks_touched:
  assumes "behaviour_ok b" and "(n, c, k) \<in> set (marks b)"
  shows "c \<in> writes b \<union> reads b"
proof (cases b)
  case (RunTask t)
  then have "(n, c) \<in> set (task_binds t)" using assms(2) by (auto split: option.splits)
  then have "c \<in> snd ` set (task_binds t)" by force
  then show ?thesis using assms(1) by (auto simp: RunTask task_ok_def)
next
  case (Commit m)
  then show ?thesis using assms(2) by force
qed (use assms in simp_all)

subsection \<open>The invariant of the queue\<close>

text \<open>
  The entries of the queue that the dispatcher has not taken, and then the uses of the behaviours
  that are not finished, are in the order of their numbers, name by name. None is above the number
  of uses that the map holds, and an entry with that number is of a resource that is deleted.
\<close>

definition tended :: "dispatch \<Rightarrow> behaviour list \<Rightarrow> store \<Rightarrow> (string \<times> 64 word) list \<Rightarrow> bool" where
  "tended d bs s q \<longleftrightarrow> dispatch_ok d \<and> names_ok d \<and> (\<forall>b\<in>set bs. settled d b)
     \<and> sorted_wrt before (q @ names_uses (all_marks bs))
     \<and> (\<forall>n k. (n, k) \<in> set q \<longrightarrow> (\<exists>c j. resource_map d n = Some (c, j) \<and> k \<le> j \<and> (k = j \<longrightarrow> dead (cells s c))))
     \<and> (\<forall>n c k. (n, c, k) \<in> set (all_marks bs) \<longrightarrow> (\<exists>j. resource_map d n = Some (c, j) \<and> k \<le> j))"

lemma tendedD:
  assumes "tended d bs s q"
  shows "dispatch_ok d" and "names_ok d" and "b \<in> set bs \<Longrightarrow> settled d b"
    and "sorted_wrt before (q @ names_uses (all_marks bs))"
    and "(n, k) \<in> set q \<Longrightarrow> \<exists>c j. resource_map d n = Some (c, j) \<and> k \<le> j \<and> (k = j \<longrightarrow> dead (cells s c))"
    and "(n, c, k) \<in> set (all_marks bs) \<Longrightarrow> \<exists>j. resource_map d n = Some (c, j) \<and> k \<le> j"
  using assms unfolding tended_def by blast+

lemma mark_of_behaviour: "b \<in> set bs \<Longrightarrow> x \<in> set (marks b) \<Longrightarrow> x \<in> set (all_marks bs)"
  by (auto simp: all_marks_def)

text \<open>A resource with a current entry in the queue is used by no behaviour that is not finished.\<close>

lemma current_unused:
  assumes "tended d bs s q" and "(n, k) \<in> set q" and "resource_map d n = Some (c, k)"
  shows "dead (cells s c)" and "(n, c', j) \<notin> set (all_marks bs)" and "\<forall>b\<in>set bs. c \<notin> writes b"
proof -
  show "dead (cells s c)" using tendedD(5) [OF assms(1,2)] assms(3) by auto
  show unused: "(n, c', j) \<notin> set (all_marks bs)" for c' j
  proof
    assume m: "(n, c', j) \<in> set (all_marks bs)"
    then have "(n, j) \<in> set (names_uses (all_marks bs))" by (auto simp: names_uses_iff)
    then have "before (n, k) (n, j)" using tendedD(4) [OF assms(1)] assms(2) unfolding sorted_wrt_append by blast
    moreover have "j \<le> k" using tendedD(6) [OF assms(1) m] assms(3) by auto
    ultimately show False by (simp add: before_def)
  qed
  show "\<forall>b\<in>set bs. c \<notin> writes b"
  proof (intro ballI notI)
    fix b
    assume b: "b \<in> set bs" "c \<in> writes b"
    then obtain m j where m: "(m, c, j) \<in> set (all_marks bs)"
      using tendedD(3) [OF assms(1) b(1)] globalsI [OF assms(3)] mark_of_behaviour unfolding settled_def by blast
    then obtain l where "resource_map d m = Some (c, l)" using tendedD(6) [OF assms(1)] by blast
    then have "m = n" using tendedD(2) [OF assms(1)] assms(3) inj_mapD unfolding names_ok_def by blast
    then show False using unused m by blast
  qed
qed

lemma tended_dispatch:
  assumes t: "tended d bs s q" and r: "dispatch_order r d = (g, d')" "\<not> is_cleanup r"
    and plain: "unambiguous r" "list_all names_once (g_bs g)"
    and bound: "\<forall>n. unat (counts_of d n) + length (all_marks (g_bs g)) < 2 ^ 31"
  shows "tended d' (bs @ g_bs g) s q"
    and "\<forall>n. unat (counts_of d' n) \<le> unat (counts_of d n) + length (all_marks (g_bs g))"
proof -
  note oc = order_counted [OF r tendedD(1,2) [OF t] plain]
  have fo: "follows (counts_of d) (all_marks (g_bs g))" and ta: "counts_of d' = tally (counts_of d) (all_marks (g_bs g))"
    and at: "\<And>n c k. (n, c, k) \<in> set (all_marks (g_bs g)) \<Longrightarrow> \<exists>j. resource_map d' n = Some (c, j)"
    using oc(1) unfolding counted_def by blast+
  note inc = follows_increase [OF fo bound, folded ta]
  show "\<forall>n. unat (counts_of d' n) \<le> unat (counts_of d n) + length (all_marks (g_bs g))" using inc by blast
  have new: "\<exists>j. resource_map d' n = Some (c, j) \<and> k \<le> j \<and> counts_of d n < k" if m: "(n, c, k) \<in> set (all_marks (g_bs g))" for n c k
  proof -
    obtain j where "resource_map d' n = Some (c, j)" using at [OF m] by blast
    moreover have "counts_of d n < k" "k \<le> counts_of d' n" using inc m by (auto simp: names_uses_iff)
    ultimately show ?thesis by (simp add: counts_of_def)
  qed
  have old: "\<exists>j'. resource_map d' n = Some (c, j') \<and> j \<le> j'" if m: "resource_map d n = Some (c, j)" for n c j
  proof -
    obtain j' where "resource_map d' n = Some (c, j')" using oc(4) m unfolding grows_def by blast
    moreover have "counts_of d n \<le> counts_of d' n" using inc by blast
    ultimately show ?thesis using m by (simp add: counts_of_def)
  qed
  have below: "k \<le> counts_of d n" if "(n, k) \<in> set (q @ names_uses (all_marks bs))" for n k
    using that tendedD(5,6) [OF t] by (fastforce simp: names_uses_iff counts_of_def)
  have above: "counts_of d n < k" if "(n, k) \<in> set (names_uses (all_marks (g_bs g)))" for n k
    using that new by (auto simp: names_uses_iff)
  have "before x y" if "x \<in> set (q @ names_uses (all_marks bs))" "y \<in> set (names_uses (all_marks (g_bs g)))" for x y
    using below [of "fst x" "snd x"] above [of "fst y" "snd y"] that by (auto simp: before_def)
  then have "sorted_wrt before ((q @ names_uses (all_marks bs)) @ names_uses (all_marks (g_bs g)))"
    using tendedD(4) [OF t] inc by (subst sorted_wrt_append) blast
  then have srt: "sorted_wrt before (q @ names_uses (all_marks (bs @ g_bs g)))" by simp
  have "\<exists>c j. resource_map d' n = Some (c, j) \<and> k \<le> j \<and> (k = j \<longrightarrow> dead (cells s c))" if e: "(n, k) \<in> set q" for n k
  proof -
    obtain c j where j: "resource_map d n = Some (c, j)" "k \<le> j" "k = j \<longrightarrow> dead (cells s c)" using tendedD(5) [OF t e] by blast
    obtain j' where "resource_map d' n = Some (c, j')" "j \<le> j'" using old [OF j(1)] by blast
    then show ?thesis using j by (intro exI [of _ c] exI [of _ j']) auto
  qed
  moreover have "\<exists>j. resource_map d' n = Some (c, j) \<and> k \<le> j" if e: "(n, c, k) \<in> set (all_marks (bs @ g_bs g))" for n c k
  proof (cases "(n, c, k) \<in> set (all_marks bs)")
    case True
    then obtain j where "resource_map d n = Some (c, j)" "k \<le> j" using tendedD(6) [OF t] by blast
    then show ?thesis using old [of n c j] order_trans by blast
  next
    case False
    then have "(n, c, k) \<in> set (all_marks (g_bs g))" using e by simp
    then show ?thesis using new by blast
  qed
  moreover have "\<forall>b\<in>set (bs @ g_bs g). settled d' b" using oc(2) settled_grows [OF tendedD(3) [OF t] oc(4)] by auto
  moreover have "dispatch_ok d'" using grows_ok [OF oc(4) tendedD(1) [OF t]] .
  ultimately show "tended d' (bs @ g_bs g) s q" using srt oc(3) unfolding tended_def by blast
qed

lemma tended_finish:
  assumes t: "tended d (xs @ b # ys) s q" and free: "\<forall>x\<in>set xs. \<not> conflict x b"
  shows "tended d (xs @ ys) (act p exec sk b s) (q @ (if sk then [] else pushed (events exec b s)))"
proof -
  let ?s = "act p exec sk b s" and ?new = "if sk then [] else pushed (events exec b s)"
  let ?M = "\<lambda>bs. names_uses (all_marks bs)"
  have b: "settled d b" using tendedD(3) [OF t] by simp
  then have pu: "pushes_uses p exec b s" using behaviour_pushes by (simp add: settled_def)
  then have sub: "subseq ?new (names_uses (marks b))" by (simp add: pushes_uses_def)
  have dead: "\<exists>c. (n, c, k) \<in> set (marks b) \<and> c \<in> writes b \<and> dead (cells ?s c)" if "(n, k) \<in> set ?new" for n k
    using that pu by (auto simp: pushes_uses_def act_def split: if_splits)
  have at: "\<exists>j. resource_map d n = Some (c, j) \<and> k \<le> j" if "x \<in> set (xs @ b # ys)" "(n, c, k) \<in> set (marks x)" for x n c k
    using tendedD(6) [OF t mark_of_behaviour [OF that]] .
  have srt: "sorted_wrt before (q @ ?M xs @ names_uses (marks b) @ ?M ys)" using tendedD(4) [OF t] by simp
  have other: "before (n, k) (n', l)" if e: "(n, k) \<in> set ?new" "(n', l) \<in> set (?M xs)" for n k n' l
  proof (rule ccontr)
    assume "\<not> before (n, k) (n', l)"
    then have n: "n' = n" by (auto simp: before_def)
    obtain c where c: "(n, c, k) \<in> set (marks b)" "c \<in> writes b" using dead [OF e(1)] by blast
    obtain x c' where x: "x \<in> set xs" "(n, c', l) \<in> set (marks x)" using e(2) by (auto simp: names_uses_iff all_marks_def n)
    have "c' = c" using at [of b n c k] at [of x n c' l] c(1) x by auto
    moreover have "settled d x" using tendedD(3) [OF t] x(1) by simp
    then have "c' \<in> writes x \<union> reads x" using marks_touched x(2) by (auto simp: settled_def)
    ultimately have "conflict x b" using c(2) by (auto simp: conflict_def)
    then show False using free x(1) by blast
  qed
  have "sorted_wrt before ?new" using subseq_sorted [OF sub] srt by (simp add: sorted_wrt_append)
  moreover have "set ?new \<subseteq> set (names_uses (marks b))" using subseq_set [OF sub] by (rule subsetI)
  moreover have "\<forall>x\<in>set ?new. \<forall>y\<in>set (?M xs). before x y" using other by (metis prod.collapse)
  ultimately have "sorted_wrt before (q @ ?new @ ?M xs @ ?M ys)"
    using srt unfolding sorted_wrt_append set_append by blast
  then have srt': "sorted_wrt before ((q @ ?new) @ ?M (xs @ ys))" by simp
  have "\<exists>c j. resource_map d n = Some (c, j) \<and> k \<le> j \<and> (k = j \<longrightarrow> dead (cells ?s c))" if e: "(n, k) \<in> set (q @ ?new)" for n k
  proof (cases "(n, k) \<in> set q")
    case True
    then obtain c j where j: "resource_map d n = Some (c, j)" "k \<le> j" "k = j \<longrightarrow> dead (cells s c)" using tendedD(5) [OF t] by blast
    have "k = j \<longrightarrow> c \<notin> writes b" using current_unused(3) [OF t True] j(1) by auto
    then show ?thesis using j by (auto simp: act_frame)
  next
    case False
    then have "(n, k) \<in> set ?new" using e by simp
    then show ?thesis using dead [of n k] at [of b] by fastforce
  qed
  moreover have "\<exists>j. resource_map d n = Some (c, j) \<and> k \<le> j" if "(n, c, k) \<in> set (all_marks (xs @ ys))" for n c k
    using that tendedD(6) [OF t, of n c k] by auto
  moreover have "\<forall>b\<in>set (xs @ ys). settled d b" using tendedD(3) [OF t] by simp
  ultimately show ?thesis using srt' tendedD(1,2) [OF t] unfolding tended_def by blast
qed

text \<open>One turn of the loop of \<open>cleanup_resources\<close>.\<close>

lemma tended_drop: "tended d bs s (x # q) \<Longrightarrow> tended d bs s q"
  unfolding tended_def by simp

lemma tended_remove:
  assumes t: "tended d bs s ((n, k) # q)" and n: "resource_map d n = Some (c, k)"
  shows "tended (d\<lparr>resource_map := (resource_map d)(n := None)\<rparr>) bs s q"
proof -
  let ?d = "d\<lparr>resource_map := (resource_map d)(n := None)\<rparr>"
  have q: "(n, j) \<notin> set q" for j
  proof
    assume e: "(n, j) \<in> set q"
    then have "before (n, k) (n, j)" using tendedD(4) [OF t] by simp
    moreover have "j \<le> k" using tendedD(5) [OF t, of n j] e n by auto
    ultimately show False by (simp add: before_def)
  qed
  have m: "(n, c', j) \<notin> set (all_marks bs)" for c' j using current_unused(2) [OF t _ n] by simp
  have gl: "globals ?d \<subseteq> globals d" by (auto simp: globals_def ran_def split: if_splits)
  have "dispatch_ok ?d" using tendedD(1) [OF t] gl by (auto simp: dispatch_ok_def)
  moreover have "names_ok ?d" using tendedD(2) [OF t] by (auto simp: names_ok_def inj_map_def)
  moreover have "settled ?d b" if "b \<in> set bs" for b using settled_later [OF tendedD(3) [OF t that], of ?d] gl by auto
  moreover have "sorted_wrt before (q @ names_uses (all_marks bs))" using tendedD(4) [OF t] by simp
  moreover have "\<exists>c j. resource_map ?d m = Some (c, j) \<and> l \<le> j \<and> (l = j \<longrightarrow> dead (cells s c))" if "(m, l) \<in> set q" for m l
    using tendedD(5) [OF t, of m l] that q by (cases "m = n") auto
  moreover have "\<exists>j. resource_map ?d x = Some (c', j) \<and> l \<le> j" if "(x, c', l) \<in> set (all_marks bs)" for x c' l
    using tendedD(6) [OF t that] that m by (cases "x = n") auto
  ultimately show ?thesis unfolding tended_def by blast
qed

lemma tended_cleanup:
  "tended d bs s (q @ q') \<Longrightarrow> cleanup_resources q d = (rest, d') \<Longrightarrow>
     tended d' bs s (rest @ q') \<and> suffix rest q
     \<and> (\<forall>n c k. resource_map d n = Some (c, k) \<longrightarrow> resource_map d' n = None \<longrightarrow>
          dead (cells s c) \<and> (\<forall>b\<in>set bs. c \<notin> writes b))
     \<and> (\<forall>n. resource_map d' n = None \<or> resource_map d' n = resource_map d n)"
proof (induction q d rule: cleanup_resources.induct)
  case (1 d)
  then show ?case by simp
next
  case (2 n k q d)
  show ?case
  proof (cases "n = []")
    case True
    then show ?thesis using 2(2,3) tended_drop by (auto simp: suffix_def)
  next
    case False
    show ?thesis
    proof (cases "\<exists>c. resource_map d n = Some (c, k)")
      case removed: True
      then obtain c where c: "resource_map d n = Some (c, k)" by blast
      let ?d = "d\<lparr>resource_map := (resource_map d)(n := None)\<rparr>"
      have t: "tended d bs s ((n, k) # q @ q')" using 2(2) by simp
      have cu: "dead (cells s c)" "\<forall>b\<in>set bs. c \<notin> writes b" using current_unused(1,3) [OF t _ c] by simp_all
      have "cleanup_resources q ?d = (rest, d')" using 2(3) False c by simp
      then have ih: "tended d' bs s (rest @ q') \<and> suffix rest q
         \<and> (\<forall>n c k. resource_map ?d n = Some (c, k) \<longrightarrow> resource_map d' n = None \<longrightarrow>
              dead (cells s c) \<and> (\<forall>b\<in>set bs. c \<notin> writes b))
         \<and> (\<forall>n. resource_map d' n = None \<or> resource_map d' n = resource_map ?d n)"
        using 2(1) [OF False] tended_remove [OF t c] c by simp
      have "dead (cells s e) \<and> (\<forall>b\<in>set bs. e \<notin> writes b)" if "resource_map d m = Some (e, j)" "resource_map d' m = None" for m e j
      proof (cases "m = n")
        case True
        then show ?thesis using that(1) c cu by simp
      next
        case False
        then have "resource_map ?d m = Some (e, j)" using that(1) by simp
        then show ?thesis using ih that(2) by blast
      qed
      moreover have "resource_map d' m = None \<or> resource_map d' m = resource_map d m" for m
        using ih by (cases "m = n") (auto dest: spec [of _ m])
      ultimately show ?thesis using ih by (auto intro: suffix_ConsI)
    next
      case kept: False
      then have same: "(case resource_map d n of None \<Rightarrow> d
          | Some (c, k') \<Rightarrow> if k' = k then d\<lparr>resource_map := (resource_map d)(n := None)\<rparr> else d) = d"
        by (auto split: option.splits)
      have "tended d bs s (q @ q')" using 2(2) tended_drop by simp
      moreover have "cleanup_resources q d = (rest, d')" using 2(3) False by (simp add: same)
      ultimately show ?thesis using 2(1) [OF False, unfolded same] by (simp add: suffix_ConsI)
    qed
  qed
qed

subsection \<open>The worker with its queue of deletions\<close>

text \<open>
  \<open>BasicMPSCQueue\<close> is first in, first out, and the loop of \<open>cleanup_resources\<close> pops from it. A step of
  the worker in which a cleanup takes the entries of the queue in this order: \<open>taken\<close> is the number of entries that are gone, and the entries that a cleanup finds
  are the next ones, as many as had been pushed when the loop found the queue empty.
\<close>

type_synonym queued_config = "config \<times> nat"

definition mpsc_push :: "string \<times> 64 word \<Rightarrow> (string \<times> 64 word) list \<Rightarrow> (string \<times> 64 word) list" where
  "mpsc_push x q = q @ [x]"

fun mpsc_pop :: "(string \<times> 64 word) list \<Rightarrow> (string \<times> 64 word) \<times> (string \<times> 64 word) list" where
  "mpsc_pop [] = (([], 0), [])"
| "mpsc_pop (x # q) = (x, q)"

lemma pushed_push: "pushed (es @ [Deleted n k]) = mpsc_push (n, k) (pushed es)"
  by (simp add: mpsc_push_def)

lemma cleanup_pops:
  "cleanup_resources q d =
     (case mpsc_pop q of ((n, k), q') \<Rightarrow>
        if n = [] then (q', d)
        else cleanup_resources q'
               (case resource_map d n of
                  Some (c, k') \<Rightarrow> if k' = k then d\<lparr>resource_map := (resource_map d)(n := None)\<rparr> else d
                | None \<Rightarrow> d))"
  by (cases q) auto

definition waiting :: "store \<Rightarrow> nat \<Rightarrow> (string \<times> 64 word) list" where
  "waiting s taken = drop taken (pushed (log s))"

inductive cleaning_step :: "platform \<Rightarrow> executor \<Rightarrow> queued_config \<Rightarrow> queued_config \<Rightarrow> bool" for p exec where
  dispatching: "dispatch_order r d = (g, d') \<Longrightarrow> \<not> is_cleanup r \<Longrightarrow>
     cleaning_step p exec ((r # rs, d, bs, s), taken) ((rs, d', bs @ g_bs g, s), taken)"
| cleaning: "prefix q (waiting s taken) \<Longrightarrow> cleanup_resources q d = (rest, d') \<Longrightarrow>
     cleaning_step p exec ((Cleanup q # rs, d, bs, s), taken) ((rs, d', bs, s), taken + (length q - length rest))"
| executing: "finishes p exec (bs, s) (bs', s') \<Longrightarrow>
     cleaning_step p exec ((rs, d, bs, s), taken) ((rs, d, bs', s'), taken)"

inductive_cases cleaning_stepE: "cleaning_step p exec c c'"

text \<open>Every step is one of the worker, so what holds of all executions of the worker holds here.\<close>

lemma cleaning_is_worker: "cleaning_step p exec c c' \<Longrightarrow> worker_step p exec (fst c) (fst c')"
proof (erule cleaning_stepE)
  fix q s taken d rest d' rs bs
  assume c: "c = ((Cleanup q # rs, d, bs, s), taken)" "c' = ((rs, d', bs, s), taken + (length q - length rest))"
    "cleanup_resources q d = (rest, d')"
  then show "worker_step p exec (fst c) (fst c')"
    using worker_step.dispatches [of "Cleanup q" d _ d' p exec rs bs s] by simp
qed (auto intro: worker_step.intros)

lemma cleaning_runs_worker: "(cleaning_step p exec)\<^sup>*\<^sup>* c c' \<Longrightarrow> (worker_step p exec)\<^sup>*\<^sup>* (fst c) (fst c')"
  by (induction rule: rtranclp_induct) (auto intro: rtranclp.rtrancl_into_rtrancl dest: cleaning_is_worker)

text \<open>Every task names a resource once, and the numbers of the uses fit the \<open>int\<close> of the closures.\<close>

definition countable_orders :: "order list \<Rightarrow> dispatch \<Rightarrow> bool" where
  "countable_orders rs d \<longleftrightarrow> list_all unambiguous rs \<and> list_all names_once (behaviours (groups_of rs d))
     \<and> (\<forall>n. unat (counts_of d n) + length (all_marks (behaviours (groups_of rs d))) < 2 ^ 31)"

definition queue_ok :: "queued_config \<Rightarrow> bool" where
  "queue_ok cq = (case cq of ((rs, d, bs, s), taken) \<Rightarrow>
     countable_orders rs d \<and> tended d bs s (waiting s taken) \<and> taken \<le> length (pushed (log s)))"

lemma waiting_later: "taken \<le> length (pushed (log s)) \<Longrightarrow> log s' = log s @ es \<Longrightarrow> waiting s' taken = waiting s taken @ pushed es"
  by (simp add: waiting_def)

lemma queue_ok_step:
  assumes "cleaning_step p exec c c'" and "queue_ok c"
  shows "queue_ok c'"
  using assms(1)
proof cases
  case (dispatching r d g d' rs bs s taken)
  have co: "countable_orders (r # rs) d" and t: "tended d bs s (waiting s taken)" and tk: "taken \<le> length (pushed (log s))"
    using assms(2) by (simp_all add: dispatching queue_ok_def)
  have gr: "behaviours (groups_of (r # rs) d) = g_bs g @ behaviours (groups_of rs d')"
    by (simp add: groups_of_simps(2) [OF dispatching(3)])
  have un: "unambiguous r" "list_all names_once (g_bs g)" "list_all unambiguous rs" "list_all names_once (behaviours (groups_of rs d'))"
    and bd: "\<And>n. unat (counts_of d n) + (length (all_marks (g_bs g)) + length (all_marks (behaviours (groups_of rs d')))) < 2 ^ 31"
    using co by (simp_all add: countable_orders_def gr)
  have small: "\<forall>n. unat (counts_of d n) + length (all_marks (g_bs g)) < 2 ^ 31"
  proof
    fix n
    show "unat (counts_of d n) + length (all_marks (g_bs g)) < 2 ^ 31" using bd [of n] by linarith
  qed
  note td = tended_dispatch [OF t dispatching(3,4) un(1,2) small]
  have "unat (counts_of d' n) + length (all_marks (behaviours (groups_of rs d'))) < 2 ^ 31" for n
    using bd [of n] spec [OF td(2), of n] by linarith
  then show ?thesis using td(1) un tk by (simp add: dispatching queue_ok_def countable_orders_def)
next
  case (cleaning q s taken d rest d' rs bs)
  obtain q' where q': "waiting s taken = q @ q'" using cleaning(3) by (auto simp: prefix_def)
  have co: "countable_orders (Cleanup q # rs) d" and t: "tended d bs s (q @ q')" and tk: "taken \<le> length (pushed (log s))"
    using assms(2) by (simp_all add: cleaning queue_ok_def q')
  note tc = tended_cleanup [OF t cleaning(4)]
  then obtain used where used: "q = used @ rest" by (auto simp: suffix_def)
  have "waiting s (taken + (length q - length rest)) = rest @ q'"
    using q' unfolding waiting_def by (simp add: used add.commute [of taken] flip: drop_drop)
  moreover have "taken + (length q - length rest) \<le> length (pushed (log s))"
    using tk arg_cong [OF q', of length] unfolding waiting_def by (simp add: used)
  moreover have "countable_orders rs d'"
  proof -
    have "groups_of (Cleanup q # rs) d = \<lparr>g_inv = 0, g_ab = False, g_private = {}, g_bs = []\<rparr> # groups_of rs d'"
      using cleaning(4) by (intro groups_of_simps) simp
    moreover have "counts_of d' n \<le> counts_of d n" for n
    proof (cases "resource_map d' n = None")
      case True
      then show ?thesis by (simp add: counts_of_def)
    next
      case False
      moreover have "resource_map d' n = None \<or> resource_map d' n = resource_map d n" using tc by blast
      ultimately show ?thesis by (auto simp: counts_of_def)
    qed
    ultimately show ?thesis using co unfolding countable_orders_def
      by (auto simp: word_le_nat_alt intro: le_less_trans [OF add_right_mono])
  qed
  ultimately show ?thesis using tc by (simp add: cleaning queue_ok_def)
next
  case (executing bs s bs' s' rs d taken)
  have co: "countable_orders rs d" and t: "tended d bs s (waiting s taken)" and tk: "taken \<le> length (pushed (log s))"
    using assms(2) by (simp_all add: executing queue_ok_def)
  obtain xs b ys sk where b: "bs = xs @ b # ys" "bs' = xs @ ys" "s' = act p exec sk b s" "\<forall>x\<in>set xs. \<not> conflict x b"
    using executing(3) by cases (auto simp: act_def intro: that [where sk = True] that [where sk = False])
  have "log s' = log s @ (if sk then [] else events exec b s)" by (simp add: b(3) act_log)
  from waiting_later [OF tk this]
  have "waiting s' taken = waiting s taken @ (if sk then [] else pushed (events exec b s))" by (cases sk) simp_all
  moreover have "taken \<le> length (pushed (log s'))" using tk by (simp add: b(3) act_log)
  ultimately show ?thesis
    using tended_finish [OF t [unfolded b(1)] b(4), of p exec sk] co by (simp add: executing queue_ok_def b(2,3))
qed

lemma queue_ok_start:
  "list_all unambiguous rs \<Longrightarrow> list_all names_once (behaviours (groups_of rs no_dispatch)) \<Longrightarrow>
     length (all_marks (behaviours (groups_of rs no_dispatch))) < 2 ^ 31 \<Longrightarrow> queue_ok ((rs, no_dispatch, [], fresh_store), 0)"
  by (simp add: queue_ok_def countable_orders_def tended_def waiting_def no_dispatch_def counts_of_def
      dispatch_ok_def globals_def names_ok_def inj_map_def fresh_store_def)

lemma queue_ok_run: "(cleaning_step p exec)\<^sup>*\<^sup>* c c' \<Longrightarrow> queue_ok c \<Longrightarrow> queue_ok c'"
  by (induction rule: rtranclp_induct) (auto intro: queue_ok_step)

subsection \<open>Properties\<close>


text \<open>A function that deletes its resource, and an invocation of it that is followed by a cleanup.\<close>

definition deletes_key :: executor where
  "deletes_key info st = (True, snd (host_delete ''k'' st))"

definition delete_workflow :: node where
  "delete_workflow = Node ''w'' ''0'' NTask ''write'' (Some (one_function\<lparr>resources := [''k'']\<rparr>)) [] True None []"

definition delete_order :: order where
  "delete_order = Invoke [''w'' \<mapsto> delete_workflow] \<lparr>req_workflow_id = ''w'', req_can_abort = False, req_input = []\<rparr> 7"

definition delete_task :: task_run where
  "delete_task = \<lparr>t_inv = 7, t_can_abort = False, t_guard = None, t_ic = 0,
     t_info = set_input_data (dump_task_input [] []) (one_function\<lparr>resources := [''k''], read_only := []\<rparr>),
     t_rw = [1], t_ro = [], t_globals = {''k''}, t_refs = [''k'' \<mapsto> 1]\<rparr>"

definition one_use :: dispatch where
  "one_use = \<lparr>resource_map = [''k'' \<mapsto> (1, 1)], next_cown = 2\<rparr>"

lemma as_int_one [simp]: "as_int 1 = 1"
  by (simp add: as_int_small)

lemma delete_dispatched:
  "\<exists>g. dispatch_order delete_order no_dispatch = (g, one_use) \<and> g_bs g = [RunTask delete_task, Complete 7 0]"
  by (simp add: delete_order_def delete_workflow_def no_dispatch_def scheduling_invoke_def workflow_find_def make_cown_def
      schedule_graph_def run_task_node_def schedule_function_def use_resource_def find_or_make_def schedule_commit_behaviour_def
      one_function_def delete_task_def one_use_def invocation_group_def set_input_data_def Let_def)

definition deleted_store :: store where
  "deleted_store = perform_behaviour common_platform deletes_key (RunTask delete_task) fresh_store"

lemma delete_performed: "pushed (log deleted_store) = [(''k'', 1)]"
  by (simp add: deleted_store_def run_task_def delete_task_def guard_open_def task_outcome_def deletes_key_def host_delete_def
      delete_resource_def task_storage_def task_binds_def set_input_data_def one_function_def get_resource_def
      resource_ops put_local_def fresh_store_def new_resource_def)

lemma delete_cleaned: "cleanup_resources [(''k'', 1)] one_use = ([], \<lparr>resource_map = Map.empty, next_cown = 2\<rparr>)"
  by (simp add: one_use_def)

lemma delete_orders:
  shows "list_all unambiguous [delete_order, Cleanup [(''k'', 1)]]"
    and "list_all names_once (behaviours (groups_of [delete_order, Cleanup [(''k'', 1)]] no_dispatch))"
    and "length (all_marks (behaviours (groups_of [delete_order, Cleanup [(''k'', 1)]] no_dispatch))) < 2 ^ 31"
proof -
  obtain g where g: "dispatch_order delete_order no_dispatch = (g, one_use)" "g_bs g = [RunTask delete_task, Complete 7 0]"
    using delete_dispatched by blast
  have gs: "behaviours (groups_of [delete_order, Cleanup [(''k'', 1)]] no_dispatch) = [RunTask delete_task, Complete 7 0]"
    using g delete_cleaned by (simp add: groups_of_simps(2) [OF g(1)] groups_of_def)
  show "list_all unambiguous [delete_order, Cleanup [(''k'', 1)]]"
    by (simp add: delete_order_def delete_workflow_def workflow_find_def plain_input_def plain_function_def scoped_def)
  show "list_all names_once (behaviours (groups_of [delete_order, Cleanup [(''k'', 1)]] no_dispatch))"
    "length (all_marks (behaviours (groups_of [delete_order, Cleanup [(''k'', 1)]] no_dispatch))) < 2 ^ 31"
    by (simp_all add: gs delete_task_def set_input_data_def task_binds_def one_function_def)
qed

lemma delete_run:
  "(cleaning_step common_platform deletes_key)\<^sup>*\<^sup>*
     (([delete_order, Cleanup [(''k'', 1)]], no_dispatch, [], fresh_store), 0) (([Cleanup [(''k'', 1)]], one_use, [Complete 7 0], deleted_store), 0)"
proof -
  let ?q = "[(''k'', 1 :: 64 word)]" and ?step = "cleaning_step common_platform deletes_key"
  obtain g where g: "dispatch_order delete_order no_dispatch = (g, one_use)" "g_bs g = [RunTask delete_task, Complete 7 0]"
    using delete_dispatched by blast
  have "?step (([delete_order, Cleanup ?q], no_dispatch, [], fresh_store), 0) (([Cleanup ?q], one_use, [] @ g_bs g, fresh_store), 0)"
    by (rule cleaning_step.dispatching [OF g(1)]) (simp add: delete_order_def)
  moreover have "?step (([Cleanup ?q], one_use, [] @ g_bs g, fresh_store), 0) (([Cleanup ?q], one_use, [Complete 7 0], deleted_store), 0)"
    using finishes.performed [of "[]" "RunTask delete_task" common_platform deletes_key "[Complete 7 0]" fresh_store]
    by (intro cleaning_step.executing) (simp add: g(2) deleted_store_def)
  ultimately show ?thesis by (meson r_into_rtranclp rtranclp_trans)
qed


subsection \<open>A resource that a task names twice\<close>

text \<open>
  The condition on the names is needed. A task whose inputs lead to one resource under two names
  notes the deletion twice, with the same number. If a cleanup comes between the two pushes, the
  second entry outlives the name's entry in the map, and a later cleanup can take it for the deletion
  of a new resource: it removes the name while a task that writes it is not finished.
\<close>

definition twice_order :: "64 word \<Rightarrow> order" where
  "twice_order i = Invoke [''w'' \<mapsto> Node ''w'' ''0'' NTask ''write'' (Some (one_function\<lparr>resources := [''k'', ''k'']\<rparr>)) [] True None []]
     \<lparr>req_workflow_id = ''w'', req_can_abort = False, req_input = []\<rparr> i"

definition twice_task :: "64 word \<Rightarrow> cown \<Rightarrow> task_run" where
  "twice_task i c = \<lparr>t_inv = i, t_can_abort = False, t_guard = None, t_ic = c,
     t_info = set_input_data (dump_task_input [] []) (one_function\<lparr>resources := [''k'', ''k''], read_only := []\<rparr>),
     t_rw = [Suc c, Suc c], t_ro = [], t_globals = {''k''}, t_refs = [''k'' \<mapsto> 2]\<rparr>"

definition two_uses :: "cown \<Rightarrow> dispatch" where
  "two_uses c = \<lparr>resource_map = [''k'' \<mapsto> (c, 2)], next_cown = Suc c\<rparr>"

lemma twice_dispatched:
  assumes "resource_map d = Map.empty"
  shows "\<exists>g. dispatch_order (twice_order i) d = (g, two_uses (Suc (next_cown d)))
    \<and> g_bs g = [RunTask (twice_task i (next_cown d)), Complete i (next_cown d)]"
proof -
  have "as_int 2 = 2" by (simp add: as_int_small)
  then show ?thesis using assms
    by (simp add: twice_order_def scheduling_invoke_def workflow_find_def make_cown_def
      schedule_graph_def run_task_node_def schedule_function_def use_resource_def find_or_make_def schedule_commit_behaviour_def
      one_function_def twice_task_def two_uses_def invocation_group_def set_input_data_def Let_def)
qed

definition twice_store :: store where
  "twice_store = perform_behaviour common_platform deletes_key (RunTask (twice_task 7 0)) fresh_store"

lemma twice_performed: "pushed (log twice_store) = [(''k'', 2), (''k'', 2)]"
  by (simp add: twice_store_def run_task_def twice_task_def guard_open_def task_outcome_def deletes_key_def host_delete_def
      delete_resource_def task_storage_def task_binds_def set_input_data_def one_function_def get_resource_def
      resource_ops put_local_def fresh_store_def new_resource_def)

lemma double_name_unsafe:
  "\<exists>d bs s. (cleaning_step common_platform deletes_key)\<^sup>*\<^sup>*
        (([twice_order 7, Cleanup [(''k'', 2)], twice_order 8, Cleanup [(''k'', 2)]], no_dispatch, [], fresh_store), 0)
        (([Cleanup [(''k'', 2)]], d, bs, s), 1)
     \<and> prefix [(''k'', 2)] (waiting s 1)
     \<and> (\<exists>c. resource_map d ''k'' = Some (c, 2) \<and> resource_map (snd (cleanup_resources [(''k'', 2)] d)) ''k'' = None
           \<and> (\<exists>b\<in>set bs. c \<in> writes b))"
proof -
  let ?q = "[(''k'', 2 :: 64 word)]" and ?step = "cleaning_step common_platform deletes_key"
  let ?d = "\<lparr>resource_map = Map.empty, next_cown = 2\<rparr> :: dispatch" and ?T = "\<lambda>i c. [RunTask (twice_task i c), Complete i c]"
  have cl: "cleanup_resources ?q (two_uses c) = ([], \<lparr>resource_map = Map.empty, next_cown = Suc c\<rparr>)" for c
    by (simp add: two_uses_def)
  obtain g where g: "dispatch_order (twice_order 7) no_dispatch = (g, two_uses 1)" "g_bs g = ?T 7 0"
    using twice_dispatched [of no_dispatch 7] by (auto simp: no_dispatch_def)
  obtain h where h: "dispatch_order (twice_order 8) ?d = (h, two_uses 3)" "g_bs h = ?T 8 2"
    using twice_dispatched [of ?d 8] by (auto simp: numeral_3_eq_3)
  have no: "\<not> is_cleanup (twice_order i)" for i by (simp add: twice_order_def)
  let ?rs = "[Cleanup ?q, twice_order 8, Cleanup ?q]"
  have "?step ((twice_order 7 # ?rs, no_dispatch, [], fresh_store), 0) ((?rs, two_uses 1, ?T 7 0, fresh_store), 0)"
    using cleaning_step.dispatching [OF g(1) no, of common_platform deletes_key ?rs "[]" fresh_store 0] g(2) by simp
  moreover have "?step ((?rs, two_uses 1, ?T 7 0, fresh_store), 0) ((?rs, two_uses 1, [Complete 7 0], twice_store), 0)"
    using finishes.performed [of "[]" "RunTask (twice_task 7 0)" common_platform deletes_key "[Complete 7 0]" fresh_store]
    by (intro cleaning_step.executing) (simp add: twice_store_def)
  moreover have "?step ((?rs, two_uses 1, [Complete 7 0], twice_store), 0) (([twice_order 8, Cleanup ?q], ?d, [Complete 7 0], twice_store), 1)"
    using cleaning_step.cleaning [OF _ cl [of 1], where s = twice_store and taken = 0 and p = common_platform and exec = deletes_key
        and rs = "[twice_order 8, Cleanup ?q]" and bs = "[Complete 7 0]"]
    by (simp add: waiting_def twice_performed numeral_2_eq_2)
  moreover have "?step (([twice_order 8, Cleanup ?q], ?d, [Complete 7 0], twice_store), 1)
      (([Cleanup ?q], two_uses 3, [Complete 7 0] @ ?T 8 2, twice_store), 1)"
    using cleaning_step.dispatching [OF h(1) no, of common_platform deletes_key "[Cleanup ?q]" "[Complete 7 0]" twice_store 1] h(2) by simp
  ultimately have "?step\<^sup>*\<^sup>* ((twice_order 7 # ?rs, no_dispatch, [], fresh_store), 0)
      (([Cleanup ?q], two_uses 3, [Complete 7 0] @ ?T 8 2, twice_store), 1)" by (meson r_into_rtranclp rtranclp_trans)
  moreover have "prefix ?q (waiting twice_store 1)" by (simp add: waiting_def twice_performed)
  moreover have "3 \<in> writes (RunTask (twice_task 8 2))" by (simp add: twice_task_def)
  ultimately show ?thesis
    by (intro exI [of _ "two_uses 3"] exI [of _ "[Complete 7 0] @ ?T 8 2"] exI [of _ twice_store])
       (auto simp: two_uses_def)
qed

end
