(* ===== verification/Cleaned.thy ===== *)
theory Cleaned
  imports Cleanup
begin

section \<open>The worker refines the specification, cleanups included\<close>

text \<open>
  The specification knows nothing of the map and its numbers: at a cleanup it may forget any names,
  as long as their resources are deleted and have nothing pending. What is forgotten is as good as
  new, and no read of a function or of a client can tell the one from the other.
\<close>

subsection \<open>The specification\<close>

definition forget :: "string set \<Rightarrow> contents \<Rightarrow> contents" where
  "forget N \<sigma> = (\<lambda>n. if n \<in> N then new_resource else \<sigma> n)"

inductive spec_runs :: "platform \<Rightarrow> executor \<Rightarrow> order list \<Rightarrow> contents \<times> (64 word \<times> bool) list \<Rightarrow> bool" for p exec where
  spec_start: "spec_runs p exec [] (empty_contents, [])"
| spec_does: "spec_runs p exec rs st \<Longrightarrow> \<not> is_cleanup r \<Longrightarrow> spec_runs p exec (rs @ [r]) (spec_order p exec r st)"
| spec_forgets: "spec_runs p exec rs (\<sigma>, out) \<Longrightarrow> \<forall>n\<in>N. dead (\<sigma> n) \<Longrightarrow> spec_runs p exec (rs @ [Cleanup q]) (forget N \<sigma>, out)"

text \<open>Without cleanups this is the specification of \<open>Refinement\<close>.\<close>

lemma spec_runs_log: "spec_runs p exec rs st \<Longrightarrow> list_all (\<lambda>r. \<not> is_cleanup r) rs \<Longrightarrow> st = spec_log p exec rs"
  by (induction rule: spec_runs.induct) (simp_all add: spec_log_def)

text \<open>A forgotten resource reads as before.\<close>

lemma forgotten_reads:
  assumes "dead r" and "resource_inv r"
  shows "get_data new_resource = get_data r"
    and "host_get host k (st\<lparr>local_resources := (local_resources st)(m \<mapsto> new_resource)\<rparr>)
       = host_get host k (st\<lparr>local_resources := (local_resources st)(m \<mapsto> r)\<rparr>)"
  using assms by (auto simp: dead_def no_pending_def resource_inv_def new_resource_def host_get_def get_resource_def resource_ops)

subsection \<open>One order\<close>

fun cleanable_order :: "order \<Rightarrow> bool" where
  "cleanable_order (Cleanup q) = True"
| "cleanable_order r = plain_order r"

lemma cleanable_plain: "\<not> is_cleanup r \<Longrightarrow> cleanable_order r = plain_order r"
  by (cases r) simp_all

lemma cleanable_unambiguous: "cleanable_order r \<Longrightarrow> unambiguous r"
  by (cases r) (auto split: option.splits)

context function_host
begin

text \<open>A cleanup forgets what is deleted.\<close>

lemma cleanup_holds:
  assumes h: "holds d s \<sigma>" "quiet \<sigma>" and cl: "cleanup_resources q d = (rest, d')" and names: "names_ok d'"
    and kept: "\<forall>n. resource_map d' n = None \<or> resource_map d' n = resource_map d n"
    and gone: "\<forall>n c k. resource_map d n = Some (c, k) \<longrightarrow> resource_map d' n = None \<longrightarrow> dead (cells s c)"
  shows "\<exists>N. (\<forall>n\<in>N. dead (\<sigma> n)) \<and> holds d' s (forget N \<sigma>) \<and> quiet (forget N \<sigma>)"
proof -
  define N where "N = {n. resource_map d n \<noteq> None \<and> resource_map d' n = None}"
  have "dead (\<sigma> n)" if n: "n \<in> N" for n
  proof -
    obtain c k where c: "resource_map d n = Some (c, k)" using n by (auto simp: N_def)
    then have "dead (cells s c)" using gone n by (auto simp: N_def)
    then show ?thesis using holdsD(3) [OF h(1) c] by simp
  qed
  moreover have "next_cown d' = next_cown d" "globals d' \<subseteq> globals d" using cleanup_shrinks [of q d] cl by auto
  then have "dispatch_ok d'" "\<forall>c\<ge>next_cown d'. cells s c = new_resource"
    using holdsD(2,5) [OF h(1)] by (auto simp: dispatch_ok_def)
  moreover have "cells s c = forget N \<sigma> n" if "resource_map d' n = Some (c, k)" for n c k
  proof -
    have "resource_map d n = Some (c, k)" using kept that by (metis option.distinct(1))
    then show ?thesis using holdsD(3) [OF h(1)] that by (simp add: forget_def N_def)
  qed
  moreover have "forget N \<sigma> n = new_resource" if "resource_map d' n = None" for n
    using holdsD(4) [OF h(1), of n] that by (cases "resource_map d n") (auto simp: forget_def N_def)
  moreover have "quiet (forget N \<sigma>)" using h(2) by (simp add: quiet_def forget_def)
  ultimately show ?thesis using names by (auto simp: holds_def)
qed

end

subsection \<open>The invariant of a run\<close>

text \<open>
  The orders that are dispatched: the behaviours they led to, run one after the other, hold what the
  specification says. What is left of them is on its way to the same store.
\<close>

definition on_course :: "platform \<Rightarrow> executor \<Rightarrow> order list \<Rightarrow> config \<Rightarrow> bool" where
  "on_course p exec rs0 c \<longleftrightarrow> (case c of (rs, d, bs, s) \<Rightarrow> \<exists>ds gs \<sigma>.
     rs0 = ds @ rs \<and> dispatch_orders ds no_dispatch = (gs, d)
     \<and> executions p exec (behaviours gs, fresh_store) (bs, s)
     \<and> spec_runs p exec ds (\<sigma>, completions (log (serially p exec (behaviours gs) fresh_store)))
     \<and> holds d (serially p exec (behaviours gs) fresh_store) \<sigma> \<and> quiet \<sigma>
     \<and> (\<forall>i\<in>set (order_ids rs). \<not> flags (serially p exec (behaviours gs) fresh_store) i))"

lemma on_courseI:
  assumes "rs0 = ds @ rs" and "dispatch_orders ds no_dispatch = (gs, d)" and "executions p exec (behaviours gs, fresh_store) (bs, s)"
    and "spec_runs p exec ds (\<sigma>, completions (log (serially p exec (behaviours gs) fresh_store)))"
    and "holds d (serially p exec (behaviours gs) fresh_store) \<sigma>" and "quiet \<sigma>"
    and "\<forall>i\<in>set (order_ids rs). \<not> flags (serially p exec (behaviours gs) fresh_store) i"
  shows "on_course p exec rs0 (rs, d, bs, s)"
  using assms unfolding on_course_def by blast

lemma executions_append: "executions p exec (bs, s) (bs', s') \<Longrightarrow> executions p exec (bs @ cs, s) (bs' @ cs, s')"
  unfolding executions_def
proof (induction "(bs', s')" arbitrary: bs' s' rule: rtranclp_induct)
  case (step y)
  then show ?case by (cases y) (auto intro: rtranclp.rtrancl_into_rtrancl dest: finishes_append)
qed simp

lemma dispatch_ok_start: "dispatch_ok no_dispatch" "names_ok no_dispatch"
  by (simp_all add: dispatch_ok_def no_dispatch_def globals_def names_ok_def inj_map_def)

lemma on_course_start: "on_course p exec rs (rs, no_dispatch, [], fresh_store)"
proof (rule on_courseI)
  show "spec_runs p exec [] (empty_contents, completions (log (serially p exec (behaviours []) fresh_store)))"
    using spec_start by (simp add: fresh_store_def)
  show "holds no_dispatch (serially p exec (behaviours []) fresh_store) empty_contents"
    using dispatch_ok_start by (simp add: holds_def no_dispatch_def fresh_store_def empty_contents_def)
qed (simp_all add: executions_def quiet_def empty_contents_def fresh_store_def)

context function_host
begin

lemma on_course_step:
  assumes step: "cleaning_step p exec c c'" and ok: "queue_ok c" and course: "on_course p exec rs0 (fst c)"
    and orders: "distinct (order_ids rs0)" "list_all cleanable_order rs0"
  shows "on_course p exec rs0 (fst c')"
  using step
proof cases
  case (dispatching r d g d' rs bs s taken)
  obtain ds gs \<sigma> where h: "rs0 = ds @ r # rs" "dispatch_orders ds no_dispatch = (gs, d)"
    "executions p exec (behaviours gs, fresh_store) (bs, s)"
    "spec_runs p exec ds (\<sigma>, completions (log (serially p exec (behaviours gs) fresh_store)))"
    "holds d (serially p exec (behaviours gs) fresh_store) \<sigma>" "quiet \<sigma>"
    "\<forall>i\<in>set (order_ids (r # rs)). \<not> flags (serially p exec (behaviours gs) fresh_store) i"
    using course by (auto simp: dispatching on_course_def)
  have ids: "order_ids rs0 = order_ids ds @ order_ids [r] @ order_ids rs"
    using order_ids_append [of ds "r # rs"] order_ids_Cons [of r rs] by (simp add: h(1))
  have plain: "plain_order r" using orders(2) cleanable_plain [OF dispatching(4)] by (simp add: h(1))
  have unset: "\<forall>i\<in>set (order_ids [r]). \<not> flags (serially p exec (behaviours gs) fresh_store) i"
    using h(7) unfolding order_ids_Cons [of r rs] by simp
  obtain \<sigma>1 where o: "holds d' (serially p exec (behaviours (gs @ [g])) fresh_store) \<sigma>1" "quiet \<sigma>1"
    "\<forall>j. j \<notin> set (order_ids [r]) \<longrightarrow>
       flags (serially p exec (behaviours (gs @ [g])) fresh_store) j = flags (serially p exec (behaviours gs) fresh_store) j"
    "spec_order p exec r (\<sigma>, completions (log (serially p exec (behaviours gs) fresh_store)))
       = (\<sigma>1, completions (log (serially p exec (behaviours (gs @ [g])) fresh_store)))"
    using order_holds [OF dispatching(3) plain h(5,6) unset, of p] by auto
  have "on_course p exec rs0 (rs, d', bs @ g_bs g, s)"
  proof (rule on_courseI)
    show "rs0 = (ds @ [r]) @ rs" by (simp add: h(1))
    show "dispatch_orders (ds @ [r]) no_dispatch = (gs @ [g], d')"
      using h(2) dispatching(3) by (simp add: dispatch_orders_append)
    show "executions p exec (behaviours (gs @ [g]), fresh_store) (bs @ g_bs g, s)" using executions_append [OF h(3)] by simp
    show "spec_runs p exec (ds @ [r]) (\<sigma>1, completions (log (serially p exec (behaviours (gs @ [g])) fresh_store)))"
      using spec_does [OF h(4) dispatching(4)] o(4) by simp
    show "\<forall>i\<in>set (order_ids rs). \<not> flags (serially p exec (behaviours (gs @ [g])) fresh_store) i"
    proof
      fix i
      assume i: "i \<in> set (order_ids rs)"
      then have "i \<notin> set (order_ids [r])" using orders(1) unfolding ids by auto
      then show "\<not> flags (serially p exec (behaviours (gs @ [g])) fresh_store) i"
        using o(3) h(7) i unfolding order_ids_Cons [of r rs] by simp
    qed
  qed (use o in simp_all)
  then show ?thesis by (simp add: dispatching)
next
  case (cleaning q s taken d rest d' rs bs)
  obtain ds gs \<sigma> where h: "rs0 = ds @ Cleanup q # rs" "dispatch_orders ds no_dispatch = (gs, d)"
    "executions p exec (behaviours gs, fresh_store) (bs, s)"
    "spec_runs p exec ds (\<sigma>, completions (log (serially p exec (behaviours gs) fresh_store)))"
    "holds d (serially p exec (behaviours gs) fresh_store) \<sigma>" "quiet \<sigma>"
    "\<forall>i\<in>set (order_ids rs). \<not> flags (serially p exec (behaviours gs) fresh_store) i"
    using course by (auto simp: cleaning on_course_def)
  let ?S = "serially p exec (behaviours gs) fresh_store"
  obtain q' where q': "waiting s taken = q @ q'" using cleaning(3) by (auto simp: prefix_def)
  then have t: "tended d bs s (q @ q')" using ok by (simp add: cleaning queue_ok_def)
  note tc = tended_cleanup [OF t cleaning(4)]
  have "distinct (order_ids ds)" using orders(1) by (simp add: h(1) order_ids_append)
  then have "schedule_ok gs" using dispatched_orders [OF h(2) dispatch_ok_start(1)] by blast
  then have same: "same_but (privates gs) ?S (serially p exec bs s)" using executions_schedule [OF h(3)] by blast
  have shared: "globals d \<inter> privates gs = {}" using orders_globals [OF h(2) dispatch_ok_start(1)] by blast
  have "dead (cells ?S c)" if c: "resource_map d n = Some (c, k)" "resource_map d' n = None" for n c k
  proof -
    have "dead (cells s c)" "\<forall>b\<in>set bs. c \<notin> writes b" using tc c by blast+
    moreover from this have "cells (serially p exec bs s) c = cells s c" by (simp add: serially_frame)
    moreover have "cells ?S c = cells (serially p exec bs s) c"
      using same shared globalsI [OF c(1)] unfolding same_but_def by blast
    ultimately show ?thesis by simp
  qed
  then have gone: "\<forall>n c k. resource_map d n = Some (c, k) \<longrightarrow> resource_map d' n = None \<longrightarrow> dead (cells ?S c)" by blast
  have names: "names_ok d'" using tc tendedD(2) by blast
  have kept: "\<forall>n. resource_map d' n = None \<or> resource_map d' n = resource_map d n" using tc by blast
  obtain N where N: "\<forall>n\<in>N. dead (\<sigma> n)" "holds d' ?S (forget N \<sigma>)" "quiet (forget N \<sigma>)"
    using cleanup_holds [OF h(5,6) cleaning(4) names kept gone] by blast
  define g where "g = \<lparr>g_inv = 0, g_ab = False, g_private = {}, g_bs = []\<rparr>"
  have "on_course p exec rs0 (rs, d', bs, s)"
  proof (rule on_courseI)
    show "rs0 = (ds @ [Cleanup q]) @ rs" by (simp add: h(1))
    show "dispatch_orders (ds @ [Cleanup q]) no_dispatch = (gs @ [g], d')"
      using h(2) cleaning(4) by (simp add: dispatch_orders_append g_def)
    show "spec_runs p exec (ds @ [Cleanup q]) (forget N \<sigma>, completions (log (serially p exec (behaviours (gs @ [g])) fresh_store)))"
      using spec_forgets [OF h(4) N(1)] by (simp add: g_def)
  qed (use h N in \<open>simp_all add: g_def\<close>)
  then show ?thesis by (simp add: cleaning)
next
  case (executing bs s bs' s' rs d taken)
  then show ?thesis using course unfolding on_course_def executions_def
    by (auto intro: rtranclp.rtrancl_into_rtrancl)
qed

lemma on_course_run:
  "(cleaning_step p exec)\<^sup>*\<^sup>* c c' \<Longrightarrow> queue_ok c \<Longrightarrow> on_course p exec rs0 (fst c) \<Longrightarrow>
     distinct (order_ids rs0) \<Longrightarrow> list_all cleanable_order rs0 \<Longrightarrow> on_course p exec rs0 (fst c')"
proof (induction rule: rtranclp_induct)
  case (step y z)
  then show ?case using on_course_step [OF step.hyps(2) queue_ok_run [OF step.hyps(1)]] by blast
qed

end

subsection \<open>Properties\<close>


lemma deletes_key_host: "function_host deletes_key"
proof
  fix st info
  show "same_committed st (snd (deletes_key info st))"
    by (auto simp: deletes_key_def host_delete_def same_committed_def delete_resource_def writable_def split: option.splits)
qed


end
