(* ===== verification/CreateConfig.thy ===== *)
theory CreateConfig
  imports Metrics
begin

section \<open>The generator of the experiment configuration\<close>

text \<open>
  \<open>scripts/create_config.py\<close>: the scenarios asked for, the tables of rates and the rows of the
  configuration, without those whose result file already exists. The parsed arguments and the
  names of the files in the results directory (\<open>None\<close> when it does not exist) are arguments.
\<close>

record config_args =
  partitions :: int
  n_keys :: int
  experiment_time :: int
  warmup_time :: int
  scenario_values :: "string list option"
  include_existing :: bool

definition default_scenarios :: "string list" where
  "default_scenarios = [''ycsbt_uni'', ''ycsbt_zipf'', ''dhr'']"

definition expand_part :: "string \<Rightarrow> string set" where
  "expand_part part =
     (if part = ''hotel-reservation'' then {''dhr''}
      else if part = ''hotel'' \<or> part = ''d_hotel_reservation'' then {''dhr''}
      else if part = ''ycsb'' then {''ycsbt_uni'', ''ycsbt_zipf''}
      else {part})"

definition expand_scenarios :: "string list \<Rightarrow> string set" where
  "expand_scenarios values = \<Union> (expand_part ` set (concat (map (\<lambda>v. str_split (replace_char (CHR '','') '' '' v)) values)))"

definition result_files :: "string list option \<Rightarrow> string set" where
  "result_files dir = (case dir of None \<Rightarrow> {} | Some names \<Rightarrow> set names)"

definition should_emit :: "string \<Rightarrow> string set \<Rightarrow> bool \<Rightarrow> bool" where
  "should_emit file_name existing_results inc \<longleftrightarrow> inc \<or> file_name \<notin> existing_results"

subsection \<open>The tables\<close>

definition ycsbt_uniform_rates :: "(int \<times> int) list" where
  "ycsbt_uniform_rates =
     [(100, 1), (200, 1), (300, 1), (500, 1), (700, 1), (1000, 1), (1500, 1), (2000, 1), (3000, 1),
      (3000, 2), (4000, 2), (5000, 2), (4000, 3), (5000, 3), (4000, 4), (5000, 4),
      (4400, 5), (4800, 5), (5200, 5), (5600, 5), (5000, 6), (5500, 6),
      (3400, 10), (3500, 10), (3600, 10), (3700, 10), (3800, 10), (3900, 10), (4000, 10), (4100, 10),
      (4200, 10), (4300, 10), (4400, 10), (4500, 10), (4600, 10), (4700, 10), (4800, 10), (4900, 10),
      (5000, 10), (5100, 10), (5200, 10), (5300, 10), (5400, 10), (5500, 10), (5600, 10), (5700, 10),
      (5800, 10), (5900, 10), (6000, 10), (10000, 10), (10000, 11), (10000, 12), (10000, 13), (10000, 14),
      (10000, 15), (6400, 25), (6800, 25), (7200, 25), (8000, 25), (8400, 25), (8600, 25), (9200, 25), (9600, 25)]"

definition ycsbt_zipf_rates :: "(int \<times> int) list" where
  "ycsbt_zipf_rates = [(200, 1), (700, 1), (1000, 1), (2000, 1), (3000, 1), (3000, 2), (3500, 2), (4000, 2)]"

definition zipf_consts :: "rat list" where
  "zipf_consts = map (\<lambda>k. dec k (-1)) [1, 2, 3, 4, 5, 6, 7, 8, 9] @ [dec 99 (-2), dec 999 (-3)]"

definition hotel_rates :: "(int \<times> int) list" where
  "hotel_rates =
     [(100, 1), (300, 1), (500, 1), (700, 1), (1000, 1), (1500, 1), (2000, 1), (3000, 1), (3000, 2), (4000, 2),
      (5000, 2), (4000, 3), (5000, 3), (6000, 3), (7000, 3), (5000, 5), (6000, 5), (7000, 5), (8000, 5),
      (9000, 5), (10000, 5), (5500, 10), (6000, 10)]"

subsection \<open>The rows\<close>

record config_row =
  workload :: string
  input_rate :: int
  row_keys :: int
  row_partitions :: int
  row_zipf :: rat
  client_threads :: int
  row_time :: int
  row_warmup :: int
  epoch :: int
  styx_metadata :: "bool list"

definition config_row_of :: "config_args \<Rightarrow> string \<Rightarrow> int \<Rightarrow> rat \<Rightarrow> int \<Rightarrow> int \<times> int \<Rightarrow> config_row" where
  "config_row_of a wl keys z ep = (\<lambda>(rate, threads).
     \<lparr>workload = wl, input_rate = rate, row_keys = keys, row_partitions = partitions a, row_zipf = z,
      client_threads = threads, row_time = experiment_time a, row_warmup = warmup_time a, epoch = ep,
      styx_metadata = [True, True, True]\<rparr>)"

definition uniform_rows :: "config_args \<Rightarrow> string set \<Rightarrow> config_row list" where
  "uniform_rows a existing =
     map (config_row_of a ''ycsbt'' (n_keys a) 0 1000)
       (filter (\<lambda>(rate, threads). should_emit (''ycsbt_uni_'' @ int_str (rate * threads) @ ''.json'') existing (include_existing a))
          ycsbt_uniform_rates)"

definition zipf_rows :: "config_args \<Rightarrow> string set \<Rightarrow> config_row list" where
  "zipf_rows a existing =
     concat (map (\<lambda>(rate, threads).
       map (\<lambda>z. config_row_of a ''ycsbt'' (n_keys a) z 100 (rate, threads))
         (filter (\<lambda>z. should_emit (''ycsbt_zipf_'' @ py_str (JFloat z) @ ''_'' @ int_str (rate * threads) @ ''.json'')
                        existing (include_existing a)) zipf_consts)) ycsbt_zipf_rates)"

definition hotel_rows :: "config_args \<Rightarrow> string set \<Rightarrow> config_row list" where
  "hotel_rows a existing =
     map (config_row_of a ''dhr'' (-1) 0 1000)
       (filter (\<lambda>(rate, threads). should_emit (''d_hotel_reservation_'' @ int_str (rate * threads) @ ''.json'') existing (include_existing a))
          hotel_rates)"

definition create_config :: "config_args \<Rightarrow> string list option \<Rightarrow> config_row list" where
  "create_config a results_dir =
     (let scenarios = expand_scenarios (case scenario_values a of Some vs \<Rightarrow> vs | None \<Rightarrow> default_scenarios);
          existing_results = result_files results_dir
      in (if ''ycsbt_uni'' \<in> scenarios then uniform_rows a existing_results else [])
       @ (if ''ycsbt_zipf'' \<in> scenarios then zipf_rows a existing_results else [])
       @ (if ''dhr'' \<in> scenarios then hotel_rows a existing_results else []))"

subsection \<open>Lemmas\<close>

text \<open>The file that the metrics program of a row writes.\<close>

definition result_file_of :: "config_row \<Rightarrow> string" where
  "result_file_of r =
     (if workload r = ''dhr'' then ''d_hotel_reservation_'' @ int_str (input_rate r * client_threads r) @ ''.json''
      else ycsb_exp_name (input_rate r) (JFloat (row_zipf r)) (client_threads r) @ ''.json'')"

lemma result_file_written:
  "ycsb_metrics_main st rows nk rate z threads w dir False = Inr (path, d) \<Longrightarrow>
     path = dir @ ''/'' @ ycsb_exp_name rate z threads @ ''.json''"
  "hotel_metrics_main st rows dir rate w threads = Inr (path, d) \<Longrightarrow>
     path = dir @ ''/d_hotel_reservation_'' @ int_str (rate * threads) @ ''.json''"
  by (auto simp: ycsb_metrics_main_def hotel_metrics_main_def rbind_Inr_iff)

lemma num_lt_floats: "num_lt (JFloat x) (JFloat y) = Some (x < y)"
  by (simp add: num_lt_def num_key_def)

lemma dec_positive: "0 < m \<Longrightarrow> 0 < dec m e"
proof -
  assume "0 < m"
  then have "(0::rat) < of_int m * 10 powi e" by simp
  note pos = this fl_pos_positive [OF this]
  from pos(1) have "\<not> of_int m * 10 powi e < (0::rat)" "of_int m * 10 powi e \<noteq> (0::rat)" by linarith+
  with pos(2) show ?thesis by (simp only: dec_def fl_def if_False)
qed

lemma zipf_consts_positive: "z \<in> set zipf_consts \<Longrightarrow> 0 < z"
  by (auto simp: zipf_consts_def dec_positive)

definition wanted :: "config_args \<Rightarrow> string set \<Rightarrow> config_row \<Rightarrow> bool" where
  "wanted a existing r \<longleftrightarrow> include_existing a \<or> result_file_of r \<notin> existing"

lemma uniform_rows_filter: "uniform_rows a ex = filter (wanted a ex) (map (config_row_of a ''ycsbt'' (n_keys a) 0 1000) ycsbt_uniform_rates)"
  unfolding uniform_rows_def filter_map comp_def
  by (intro arg_cong [where f = "map _"] filter_cong refl)
    (auto simp: config_row_of_def wanted_def result_file_of_def ycsb_exp_name_def num_lt_floats should_emit_def)

lemma hotel_rows_filter: "hotel_rows a ex = filter (wanted a ex) (map (config_row_of a ''dhr'' (-1) 0 1000) hotel_rates)"
  unfolding hotel_rows_def filter_map comp_def
  by (intro arg_cong [where f = "map _"] filter_cong refl)
    (auto simp: config_row_of_def wanted_def result_file_of_def should_emit_def)

lemma zipf_rows_filter: "zipf_rows a ex = filter (wanted a ex) (concat (map (\<lambda>rt.
    map (\<lambda>z. config_row_of a ''ycsbt'' (n_keys a) z 100 rt) zipf_consts) ycsbt_zipf_rates))"
proof -
  have one: "map (\<lambda>z. config_row_of a ''ycsbt'' (n_keys a) z 100 (rate, threads))
         (filter (\<lambda>z. should_emit (''ycsbt_zipf_'' @ py_str (JFloat z) @ ''_'' @ int_str (rate * threads) @ ''.json'')
                        ex (include_existing a)) zipf_consts)
     = filter (wanted a ex) (map (\<lambda>z. config_row_of a ''ycsbt'' (n_keys a) z 100 (rate, threads)) zipf_consts)" for rate threads
    unfolding filter_map comp_def
    by (intro arg_cong [where f = "map _"] filter_cong refl)
      (simp add: config_row_of_def wanted_def result_file_of_def ycsb_exp_name_def num_lt_floats
        zipf_consts_positive should_emit_def del: py_str.simps)
  show ?thesis unfolding zipf_rows_def filter_concat map_map comp_def
  proof (intro arg_cong [where f = concat] map_cong refl)
    fix x
    show "(case x of (rate, threads) \<Rightarrow> map (\<lambda>z. config_row_of a ''ycsbt'' (n_keys a) z 100 (rate, threads))
         (filter (\<lambda>z. should_emit (''ycsbt_zipf_'' @ py_str (JFloat z) @ ''_'' @ int_str (rate * threads) @ ''.json'')
                        ex (include_existing a)) zipf_consts))
     = filter (wanted a ex) (map (\<lambda>z. config_row_of a ''ycsbt'' (n_keys a) z 100 x) zipf_consts)"
      by (cases x) (simp only: one prod.case)
  qed
qed

lemma create_config_filter:
  "create_config a dir = filter (wanted a (result_files dir)) (create_config (a\<lparr>include_existing := True\<rparr>) None)"
proof -
  have all: "filter (wanted (a\<lparr>include_existing := True\<rparr>) ex) xs = xs" for ex xs
    by (simp add: wanted_def)
  have row: "config_row_of (a\<lparr>include_existing := True\<rparr>) = config_row_of a"
    by (simp add: config_row_of_def fun_eq_iff)
  show ?thesis
    by (simp add: create_config_def Let_def uniform_rows_filter zipf_rows_filter hotel_rows_filter all row)
qed

lemma split_scenarios: "str_split ''ycsbt_uni'' = [''ycsbt_uni'']" "str_split ''ycsbt_zipf'' = [''ycsbt_zipf'']"
  "str_split ''dhr'' = [''dhr'']" "str_split ''ycsb dhr'' = [''ycsb'', ''dhr'']"
  by code_simp+

lemma default_scenario_set: "expand_scenarios default_scenarios = {''ycsbt_uni'', ''ycsbt_zipf'', ''dhr''}"
  by (auto simp: expand_scenarios_def default_scenarios_def replace_char_def split_scenarios expand_part_def)

subsection \<open>Properties\<close>

text \<open>
  The configuration resumes an experiment. The rows that are emitted are, in order, those of
  the full configuration whose result file, by the name under which the metrics programs write it,
  does not exist yet; once the results of all rows exist nothing is emitted any more, and the full
  configuration of the default scenarios has 174 rows.
\<close>

lemma config_resumes:
  "create_config (a\<lparr>include_existing := False\<rparr>) (Some names) =
       filter (\<lambda>r. result_file_of r \<notin> set names) (create_config (a\<lparr>include_existing := True\<rparr>) None)
   \<and> create_config (a\<lparr>include_existing := False\<rparr>)
       (Some (map result_file_of (create_config (a\<lparr>include_existing := True\<rparr>) None))) = []
   \<and> length (create_config (a\<lparr>include_existing := True, scenario_values := None\<rparr>) None) = 174"
proof -
  have eq: "create_config (a\<lparr>include_existing := False\<rparr>) (Some ns) =
       filter (\<lambda>r. result_file_of r \<notin> set ns) (create_config (a\<lparr>include_existing := True\<rparr>) None)" for ns
    by (subst create_config_filter) (simp add: wanted_def [abs_def] result_files_def)
  have "length (create_config (a\<lparr>include_existing := True, scenario_values := None\<rparr>) None) = 174"
    by (simp add: create_config_def default_scenario_set uniform_rows_def zipf_rows_def hotel_rows_def should_emit_def
        ycsbt_uniform_rates_def ycsbt_zipf_rates_def hotel_rates_def zipf_consts_def)
  with eq show ?thesis by (simp add: filter_empty_conv)
qed

end
