(* ===== verification/EinsumPath.thy ===== *)
theory EinsumPath
  imports PyText
begin

section \<open>numpy: the order of the contractions of an Einstein sum\<close>

text \<open>
  \<open>numpy/core/einsumfunc.py\<close>, the copy under \<open>applications/hotel-reservation/function\<close>: the costs of
  contractions, the two searches for an order of contractions, the parser of subscripts and
  \<open>einsum_path\<close>. Of an operand only its shape is used. A Python set of labels is a list without
  repetitions; the order in which a set is iterated is not specified, it decides only which of several
  missing labels is reported and which labels an ellipsis gets. That choice is the argument \<open>iterate\<close>.
\<close>

subsection \<open>Sets and lists\<close>

definition set_union :: "string \<Rightarrow> string \<Rightarrow> string" where
  "set_union xs ys = xs @ filter (\<lambda>y. y \<notin> set xs) ys"

definition set_inter :: "string \<Rightarrow> string \<Rightarrow> string" where
  "set_inter xs ys = filter (\<lambda>x. x \<in> set ys) xs"

definition set_minus :: "string \<Rightarrow> string \<Rightarrow> string" where
  "set_minus xs ys = filter (\<lambda>x. x \<notin> set ys) xs"

lemma set_operations [simp]:
  "set (set_union xs ys) = set xs \<union> set ys"
  "set (set_inter xs ys) = set xs \<inter> set ys"
  "set (set_minus xs ys) = set xs - set ys"
  by (auto simp: set_union_def set_inter_def set_minus_def)

definition combinations2 :: "nat \<Rightarrow> nat list list" where
  "combinations2 n = concat (map (\<lambda>i. map (\<lambda>j. [i, j]) [Suc i..<n]) [0..<n])"

lemma set_combinations2: "set (combinations2 n) = {[i, j] | i j. i < j \<and> j < n}"
  by (force simp: combinations2_def Suc_le_eq)

text \<open>\<open>min(xs, key=...)\<close> returns the first of the smallest elements.\<close>

fun first_min :: "('a \<Rightarrow> 'a \<Rightarrow> bool) \<Rightarrow> 'a \<Rightarrow> 'a list \<Rightarrow> 'a" where
  "first_min lt x [] = x"
| "first_min lt x (y # ys) = first_min lt (if lt y x then y else x) ys"

lemma first_min_mem: "first_min lt x ys \<in> insert x (set ys)"
  by (induction lt x ys rule: first_min.induct) (auto split: if_splits)

lemma first_min_le:
  fixes key :: "'a \<Rightarrow> 'b :: linorder"
  assumes "z \<in> insert x (set ys)"
  shows "key (first_min (\<lambda>a b. key a < key b) x ys) \<le> key z"
proof -
  have below: "key (first_min (\<lambda>a b. key a < key b) x ys) \<le> key x" for x ys
  proof (induction ys arbitrary: x)
    case (Cons y ys)
    then show ?case using Cons.IH [of x] Cons.IH [of y] by (simp, meson less_imp_le order_trans)
  qed simp
  show ?thesis using assms
  proof (induction ys arbitrary: x)
    case (Cons y ys)
    then show ?case using below [of "if key y < key x then y else x" ys] by (cases "z \<in> set ys") auto
  qed simp
qed

text \<open>\<open>del xs[k]\<close>, \<open>xs.pop(k)\<close> and \<open>xs.insert(-1, x)\<close>.\<close>

definition del_at :: "nat \<Rightarrow> 'a list \<Rightarrow> 'a list py" where
  "del_at k xs = (if k < length xs then Inr (take k xs @ drop (Suc k) xs) else Inl IndexError)"

lemma del_at_ok: "k < length xs \<Longrightarrow> \<exists>ys. del_at k xs = Inr ys \<and> length ys = length xs - 1 \<and> set ys \<subseteq> set xs"
  by (auto simp: del_at_def dest: in_set_takeD in_set_dropD)

definition pop_at :: "nat \<Rightarrow> 'a list \<Rightarrow> ('a \<times> 'a list) py" where
  "pop_at k xs = (if k < length xs then Inr (xs ! k, take k xs @ drop (Suc k) xs) else Inl IndexError)"

definition insert_before_last :: "'a \<Rightarrow> 'a list \<Rightarrow> 'a list" where
  "insert_before_last x xs = butlast xs @ [x] @ drop (length xs - 1) xs"

definition list_item :: "'a list \<Rightarrow> nat \<Rightarrow> 'a py" where
  "list_item xs k = of_option IndexError (nth_opt xs k)"

lemma list_item_nth [simp]: "k < length xs \<Longrightarrow> list_item xs k = Inr (xs ! k)"
  by (simp add: list_item_def nth_opt_Some_iff)

subsection \<open>Costs\<close>

definition compute_size_by_dict :: "string \<Rightarrow> (char, int) pydict \<Rightarrow> int py" where
  "compute_size_by_dict indices idx_dict =
     rbind (rmap (\<lambda>i. of_option (KeyError [i]) (map_of idx_dict i)) indices) (\<lambda>sizes. Inr (prod_list sizes))"

definition flop_count :: "string \<Rightarrow> bool \<Rightarrow> int \<Rightarrow> (char, int) pydict \<Rightarrow> int py" where
  "flop_count idx_contraction inner num_terms size_dictionary =
     rbind (compute_size_by_dict idx_contraction size_dictionary) (\<lambda>overall_size.
       Inr (overall_size * (max 1 (num_terms - 1) + (if inner then 1 else 0))))"

subsection \<open>One contraction\<close>

definition contraction_turn :: "nat list \<Rightarrow> nat \<times> string \<Rightarrow> string \<times> string \<times> string list \<Rightarrow> string \<times> string \<times> string list" where
  "contraction_turn positions iv st =
     (case (iv, st) of ((ind, value), (idx_contract, idx_remain, remaining)) \<Rightarrow>
        if ind \<in> set positions then (set_union idx_contract value, idx_remain, remaining)
        else (idx_contract, set_union idx_remain value, remaining @ [value]))"

definition find_contraction :: "nat list \<Rightarrow> string list \<Rightarrow> string \<Rightarrow> string \<times> string list \<times> string \<times> string" where
  "find_contraction positions input_sets output_set =
     (let (idx_contract, idx_remain, remaining) =
            fold (contraction_turn positions) (enumerate 0 input_sets) ([], output_set, []);
          new_result = set_inter idx_remain idx_contract;
          idx_removed = set_minus idx_contract new_result
      in (new_result, remaining @ [new_result], idx_removed, idx_contract))"

text \<open>The labels of the terms that are contracted, and the terms that are not, in their order.\<close>

definition contracted :: "nat list \<Rightarrow> string list \<Rightarrow> char set" where
  "contracted positions ins = (\<Union>i \<in> {i. i < length ins \<and> i \<in> set positions}. set (ins ! i))"

definition left_alone :: "nat list \<Rightarrow> 'a list \<Rightarrow> 'a list" where
  "left_alone positions ins = nths ins {i. i \<notin> set positions}"

lemma contraction_fold:
  "case fold (contraction_turn positions) (enumerate k ins) (c, r, rest) of (c', r', rest') \<Rightarrow>
     set c' = set c \<union> (\<Union>i \<in> {i. i < length ins \<and> i + k \<in> set positions}. set (ins ! i))
     \<and> set r' = set r \<union> (\<Union>x \<in> set (nths ins {i. i + k \<notin> set positions}). set x)
     \<and> rest' = rest @ nths ins {i. i + k \<notin> set positions}"
proof (induction ins arbitrary: k c r rest)
  case (Cons x ins)
  have ix: "{i. i < length (x # ins) \<and> i + k \<in> set positions}
      = (if k \<in> set positions then {0} else {}) \<union> Suc ` {i. i < length ins \<and> i + Suc k \<in> set positions}"
    by (auto simp: image_iff less_Suc_eq_0_disj)
  have shift: "{j. Suc j + k \<notin> set positions} = {i. i + Suc k \<notin> set positions}" by simp
  show ?case
  proof (cases "k \<in> set positions")
    case True
    then show ?thesis
      using Cons.IH [where k = "Suc k" and c = "set_union c x" and r = r and rest = rest]
      unfolding ix by (auto simp: contraction_turn_def nths_Cons shift)
  next
    case False
    then show ?thesis
      using Cons.IH [where k = "Suc k" and c = c and r = "set_union r x" and rest = "rest @ [x]"]
      unfolding ix by (auto simp: contraction_turn_def nths_Cons shift)
  qed
qed simp

text \<open>What a contraction keeps are the labels that the output or another term needs.\<close>

lemma find_contraction_sets:
  assumes "find_contraction positions ins out = (new, rest, removed, used)"
  shows "set used = contracted positions ins"
    and "rest = left_alone positions ins @ [new]"
    and "set new = contracted positions ins \<inter> (set out \<union> (\<Union>x \<in> set (left_alone positions ins). set x))"
    and "set removed = set used - set new"
  using assms contraction_fold [where positions = positions and k = 0 and ins = ins and c = "[]" and r = out and rest = "[]"]
  by (auto simp: find_contraction_def Let_def contracted_def left_alone_def split: prod.splits)

lemma length_left_alone:
  assumes "distinct positions" and "\<And>i. i \<in> set positions \<Longrightarrow> i < length ins"
  shows "length (left_alone positions ins) = length ins - length positions"
proof -
  have "{i. i < length ins \<and> i \<notin> set positions} = {..<length ins} - set positions" by auto
  moreover have "set positions \<subseteq> {..<length ins}" using assms(2) by auto
  ultimately show ?thesis
    using assms(1) by (simp add: left_alone_def length_nths card_Diff_subset distinct_card)
qed

subsection \<open>All orders of pairs\<close>

type_synonym partial_path = "int \<times> nat list list \<times> string list"

definition cheaper :: "partial_path \<Rightarrow> partial_path \<Rightarrow> bool" where
  "cheaper a b \<longleftrightarrow> fst a < fst b"

text \<open>One pair of one partial path; \<open>continue\<close> is the empty list.\<close>

definition extend_path :: "string \<Rightarrow> (char, int) pydict \<Rightarrow> int \<Rightarrow> partial_path \<Rightarrow> nat list \<Rightarrow> partial_path list py" where
  "extend_path output_set idx_dict memory_limit state con =
     (let (cost, positions, remaining) = state;
          (new_result, new_input_sets, idx_removed, idx_contract) = find_contraction con remaining output_set
      in rbind (compute_size_by_dict new_result idx_dict) (\<lambda>new_size.
         if new_size > memory_limit then Inr []
         else rbind (flop_count idx_contract (idx_removed \<noteq> []) (int (length con)) idx_dict) (\<lambda>flops.
                Inr [(cost + flops, positions @ [con], new_input_sets)])))"

definition extend_paths :: "string \<Rightarrow> (char, int) pydict \<Rightarrow> int \<Rightarrow> nat \<Rightarrow> partial_path list \<Rightarrow> partial_path list py" where
  "extend_paths output_set idx_dict memory_limit n full_results =
     rbind (rmap (\<lambda>state. rbind (rmap (extend_path output_set idx_dict memory_limit state) (combinations2 n))
                          (\<lambda>rs. Inr (concat rs))) full_results) (\<lambda>rs. Inr (concat rs))"

text \<open>The loop with \<open>k\<close> iterations left, \<open>k + 1\<close> terms remain in each partial path.\<close>

fun optimal_loop :: "string \<Rightarrow> (char, int) pydict \<Rightarrow> int \<Rightarrow> nat \<Rightarrow> partial_path list \<Rightarrow> partial_path list py + nat list list" where
  "optimal_loop output_set idx_dict memory_limit 0 full_results = Inl (Inr full_results)"
| "optimal_loop output_set idx_dict memory_limit (Suc k) full_results =
     (case extend_paths output_set idx_dict memory_limit (k + 2) full_results of
        Inl e \<Rightarrow> Inl (Inl e)
      | Inr [] \<Rightarrow> Inr (fst (snd (first_min cheaper (hd full_results) (tl full_results))) @ [[0..<k + 2]])
      | Inr (r # rs) \<Rightarrow> optimal_loop output_set idx_dict memory_limit k (r # rs))"

definition optimal_path :: "string list \<Rightarrow> string \<Rightarrow> (char, int) pydict \<Rightarrow> int \<Rightarrow> nat list list py" where
  "optimal_path input_sets output_set idx_dict memory_limit =
     (case optimal_loop output_set idx_dict memory_limit (length input_sets - 1) [(0, [], input_sets)] of
        Inr path \<Rightarrow> Inr path
      | Inl (Inl e) \<Rightarrow> Inl e
      | Inl (Inr full_results) \<Rightarrow>
          if full_results = [] then Inr [[0..<length input_sets]]
          else Inr (fst (snd (first_min cheaper (hd full_results) (tl full_results)))))"

subsection \<open>The greedy order\<close>

type_synonym candidate = "(int \<times> int) \<times> nat list \<times> string list"

definition parse_possible_contraction :: "nat list \<Rightarrow> string list \<Rightarrow> string \<Rightarrow> (char, int) pydict \<Rightarrow> int \<Rightarrow> int \<Rightarrow> int
    \<Rightarrow> candidate option py" where
  "parse_possible_contraction positions input_sets output_set idx_dict memory_limit path_cost naive_cost =
     (let (idx_result, new_input_sets, idx_removed, idx_contract) = find_contraction positions input_sets output_set
      in rbind (compute_size_by_dict idx_result idx_dict) (\<lambda>new_size.
         if new_size > memory_limit then Inr None
         else rbind (rmap (\<lambda>p. rbind (list_item input_sets p) (\<lambda>x. compute_size_by_dict x idx_dict)) positions) (\<lambda>old_sizes.
              rbind (flop_count idx_contract (idx_removed \<noteq> []) (int (length positions)) idx_dict) (\<lambda>cost.
                let removed_size = sum_list old_sizes - new_size
                in if path_cost + cost > naive_cost then Inr None
                   else Inr (Some ((- removed_size, cost), positions, new_input_sets))))))"

text \<open>\<open>int(a > b)\<close>, and a result for other terms after the contraction of \<open>best\<close>.\<close>

definition above :: "nat \<Rightarrow> nat \<Rightarrow> nat" where
  "above a b = (if a > b then 1 else 0)"

definition update_result :: "nat \<Rightarrow> nat \<Rightarrow> string \<Rightarrow> candidate \<Rightarrow> candidate list py" where
  "update_result bx bz new_term r =
     (case r of
        (cost, [x, y], con_sets) \<Rightarrow>
          if x \<in> {bx, bz} \<or> y \<in> {bx, bz} then Inr []
          else rbind (del_at (bz - above bz x - above bz y) con_sets) (\<lambda>con_sets.
               rbind (del_at (bx - above bx x - above bx y) con_sets) (\<lambda>con_sets.
                 Inr [(cost, [x - above x bx - above x bz, y - above y bx - above y bz],
                       insert_before_last new_term con_sets)]))
      | _ \<Rightarrow> Inl ValueError)"

definition update_other_results :: "candidate list \<Rightarrow> candidate \<Rightarrow> candidate list py" where
  "update_other_results results best =
     (case best of
        (cost, [bx, bz], sets) \<Rightarrow>
          rbind (rmap (update_result bx bz (last sets)) results) (\<lambda>rs. Inr (concat rs))
      | _ \<Rightarrow> Inl ValueError)"

definition better :: "candidate \<Rightarrow> candidate \<Rightarrow> bool" where
  "better a b \<longleftrightarrow> fst (fst a) < fst (fst b) \<or> fst (fst a) = fst (fst b) \<and> snd (fst a) < snd (fst b)"

definition disjoint_terms :: "string list \<Rightarrow> nat list \<Rightarrow> bool py" where
  "disjoint_terms input_sets positions =
     rbind (rmap (list_item input_sets) positions) (\<lambda>xs. case xs of
       x # y # _ \<Rightarrow> Inr (set x \<inter> set y = {}) | _ \<Rightarrow> Inl IndexError)"

definition candidates :: "(nat list \<Rightarrow> candidate option py) \<Rightarrow> nat list list \<Rightarrow> candidate list py" where
  "candidates parse pairs = rbind (rmap parse pairs) (\<lambda>rs. Inr (map the (filter (\<lambda>r. r \<noteq> None) rs)))"

fun greedy_loop :: "string \<Rightarrow> (char, int) pydict \<Rightarrow> int \<Rightarrow> int \<Rightarrow> nat \<Rightarrow> nat list list \<Rightarrow> string list
    \<Rightarrow> candidate list \<Rightarrow> int \<Rightarrow> nat list list \<Rightarrow> nat list list py" where
  "greedy_loop output_set idx_dict memory_limit naive_cost 0 comb_iter input_sets known path_cost path = Inr path"
| "greedy_loop output_set idx_dict memory_limit naive_cost (Suc k) comb_iter input_sets known path_cost path =
     (let parse = (\<lambda>ps. parse_possible_contraction ps input_sets output_set idx_dict memory_limit path_cost naive_cost)
      in rbind (candidates (\<lambda>ps. rbind (disjoint_terms input_sets ps) (\<lambda>apart. if apart then Inr None else parse ps)) comb_iter) (\<lambda>found.
         rbind (if known @ found = [] then candidates parse (combinations2 (length input_sets)) else Inr (known @ found)) (\<lambda>known.
         case known of
           [] \<Rightarrow> Inr (path @ [[0..<length input_sets]])
         | r # rs \<Rightarrow>
             (let best = first_min better r rs; input_sets' = snd (snd best); pos = length input_sets' - 1
              in rbind (update_other_results known best) (\<lambda>known.
                   greedy_loop output_set idx_dict memory_limit naive_cost k (map (\<lambda>i. [i, pos]) [0..<pos]) input_sets'
                     known (path_cost + snd (fst best)) (path @ [fst (snd best)]))))))"

definition greedy_path :: "string list \<Rightarrow> string \<Rightarrow> (char, int) pydict \<Rightarrow> int \<Rightarrow> nat list list py" where
  "greedy_path input_sets output_set idx_dict memory_limit =
     (if length input_sets = 1 then Inr [[0]]
      else if length input_sets = 2 then Inr [[0, 1]]
      else
        (let (idx_result, new_input_sets, idx_removed, idx_contract) =
               find_contraction [0..<length input_sets] input_sets output_set
         in rbind (flop_count idx_contract (idx_removed \<noteq> []) (int (length input_sets)) idx_dict) (\<lambda>naive_cost.
              greedy_loop output_set idx_dict memory_limit naive_cost (length input_sets - 1)
                (combinations2 (length input_sets)) input_sets [] 0 [])))"

subsection \<open>Reading the subscripts\<close>

definition einsum_symbols :: string where
  "einsum_symbols = ''abcdefghijklmnopqrstuvwxyzABCDEFGHIJKLMNOPQRSTUVWXYZ''"

text \<open>\<open>str.split(sep)\<close>, \<open>str.count(sep)\<close> and \<open>str.replace(sep, new)\<close> for a separator of any length.\<close>

fun split_from :: "string \<Rightarrow> nat \<Rightarrow> string \<Rightarrow> string \<Rightarrow> string list" where
  "split_from sep k part [] = [part]"
| "split_from sep (Suc k) part (c # cs) = split_from sep k part cs"
| "split_from sep 0 part (c # cs) =
     (if take (length sep) (c # cs) = sep then part # split_from sep (length sep - 1) [] cs
      else split_from sep 0 (part @ [c]) cs)"

definition str_split_on :: "string \<Rightarrow> string \<Rightarrow> string list" where
  "str_split_on sep s = split_from sep 0 [] s"

definition str_count :: "string \<Rightarrow> string \<Rightarrow> nat" where
  "str_count sep s = length (str_split_on sep s) - 1"

definition str_replace :: "string \<Rightarrow> string \<Rightarrow> string \<Rightarrow> string" where
  "str_replace sep new s = str_join new (str_split_on sep s)"

text \<open>\<open>sorted\<close> of a set of characters, and the slice \<open>s[-n:]\<close> for a positive \<open>n\<close>.\<close>

definition sorted_chars :: "string \<Rightarrow> string" where
  "sorted_chars s = sort_key (of_char :: char \<Rightarrow> nat) (remdups s)"

definition last_chars :: "nat \<Rightarrow> string \<Rightarrow> string" where
  "last_chars n s = drop (length s - n) s"

text \<open>
  The operands: subscripts with arrays, or arrays with lists of labels; an entry of such a list is
  \<open>Ellipsis\<close>, an integer, or something that is no index.
\<close>

datatype sublabel = Ellipsis | Label int | NoLabel

datatype einsum_operands =
    Subscripts string "nat list list"
  | Sublists "(nat list \<times> sublabel list) list" "sublabel list option"

fun label_text :: "sublabel \<Rightarrow> string py" where
  "label_text Ellipsis = Inr ''...''"
| "label_text (Label i) = rbind (py_index einsum_symbols i) (\<lambda>c. Inr [c])"
| "label_text NoLabel = Inl TypeError"

definition labels_text :: "sublabel list \<Rightarrow> string py" where
  "labels_text ls = rbind (rmap label_text ls) (\<lambda>ss. Inr (concat ss))"

fun operand_subscripts :: "einsum_operands \<Rightarrow> (string \<times> nat list list) py" where
  "operand_subscripts (Subscripts text shapes) =
     (let subscripts = replace_char CHR '' '' [] text
      in if list_all (\<lambda>c. c \<in> set ''.,->'' \<or> c \<in> set einsum_symbols) subscripts then Inr (subscripts, shapes)
         else Inl ValueError)"
| "operand_subscripts (Sublists terms out) =
     (if terms = [] \<and> out = None then Inl ValueError
      else rbind (rmap (\<lambda>t. labels_text (snd t)) terms) (\<lambda>subs.
        case out of
          None \<Rightarrow> Inr (str_join '','' subs, map fst terms)
        | Some ls \<Rightarrow> rbind (labels_text ls) (\<lambda>s. Inr (str_join '','' subs @ ''->'' @ s, map fst terms))))"

definition arrow_ok :: "string \<Rightarrow> bool" where
  "arrow_ok s = (CHR ''-'' \<notin> set s \<and> CHR ''>'' \<notin> set s
     \<or> count_list s CHR ''-'' \<le> 1 \<and> count_list s CHR ''>'' \<le> 1 \<and> str_count ''->'' s = 1)"

text \<open>Without an output the labels that occur once are kept.\<close>

definition implicit_output :: "string \<Rightarrow> string py" where
  "implicit_output tmp_subscripts =
     (let labels = sorted_chars tmp_subscripts
      in if list_all (\<lambda>c. c \<in> set einsum_symbols) labels
         then Inr (filter (\<lambda>c. count_list tmp_subscripts c = 1) labels)
         else Inl ValueError)"

fun expand_terms :: "string \<Rightarrow> nat list list \<Rightarrow> nat \<Rightarrow> int \<Rightarrow> string list \<Rightarrow> (string list \<times> int) py" where
  "expand_terms ellipse_inds shapes num longest [] = Inr ([], longest)"
| "expand_terms ellipse_inds shapes num longest (sub # subs) =
     (if CHR ''.'' \<notin> set sub then
        rbind (expand_terms ellipse_inds shapes (Suc num) longest subs) (\<lambda>(ss, l). Inr (sub # ss, l))
      else if count_list sub CHR ''.'' \<noteq> 3 \<or> str_count ''...'' sub \<noteq> 1 then Inl ValueError
      else rbind (list_item shapes num) (\<lambda>shape.
        let ellipse_count = (if shape = [] then 0 else max (int (length shape)) 1 - (int (length sub) - 3))
        in if ellipse_count < 0 then Inl ValueError
           else
             (let rep_inds = (if ellipse_count = 0 then [] else last_chars (nat ellipse_count) ellipse_inds)
              in rbind (expand_terms ellipse_inds shapes (Suc num) (max longest ellipse_count) subs) (\<lambda>(ss, l).
                   Inr (str_replace ''...'' rep_inds sub # ss, l)))))"

definition expand_ellipses :: "(string \<Rightarrow> string) \<Rightarrow> string \<Rightarrow> nat list list \<Rightarrow> string py" where
  "expand_ellipses iterate subscripts shapes =
     (let used = str_replace ''->'' [] (replace_char CHR '','' [] (replace_char CHR ''.'' [] subscripts));
          ellipse_inds = iterate (set_minus einsum_symbols used);
          parts = str_split_on ''->'' subscripts
      in rbind (expand_terms ellipse_inds shapes 0 0 (str_split_on '','' (hd parts))) (\<lambda>(split_subscripts, longest).
           let subscripts' = str_join '','' split_subscripts;
               out_ellipse = (if longest = 0 then [] else last_chars (nat longest) ellipse_inds)
           in case tl parts of
                output_sub # _ \<Rightarrow> Inr (subscripts' @ ''->'' @ str_replace ''...'' out_ellipse output_sub)
              | [] \<Rightarrow> rbind (implicit_output (replace_char CHR '','' [] subscripts')) (\<lambda>output_subscript.
                  Inr (subscripts' @ ''->'' @ out_ellipse @ sorted_chars (set_minus output_subscript out_ellipse)))))"

definition parse_einsum_input :: "(string \<Rightarrow> string) \<Rightarrow> einsum_operands \<Rightarrow> (string \<times> string \<times> nat list list) py" where
  "parse_einsum_input iterate operands =
     rbind (operand_subscripts operands) (\<lambda>(subscripts, shapes).
     if \<not> arrow_ok subscripts then Inl ValueError
     else
       rbind (if CHR ''.'' \<in> set subscripts then expand_ellipses iterate subscripts shapes else Inr subscripts) (\<lambda>subscripts.
       rbind (case str_split_on ''->'' subscripts of
                [inputs] \<Rightarrow> rbind (implicit_output (replace_char CHR '','' [] inputs)) (\<lambda>out. Inr (inputs, out))
              | [inputs, out] \<Rightarrow> Inr (inputs, out)
              | _ \<Rightarrow> Inl ValueError) (\<lambda>(input_subscripts, output_subscript).
       if \<not> list_all (\<lambda>c. c \<in> set input_subscripts) output_subscript then Inl ValueError
       else if length (str_split_on '','' input_subscripts) \<noteq> length shapes then Inl ValueError
       else Inr (input_subscripts, output_subscript, shapes))))"

subsection \<open>Contractions by matrix products\<close>

definition can_dot :: "string list \<Rightarrow> string \<Rightarrow> string \<Rightarrow> bool" where
  "can_dot inputs result idx_removed =
     (if idx_removed = [] then False
      else case inputs of
        [input_left, input_right] \<Rightarrow>
          (let rs = length idx_removed;
               count = (\<lambda>s c. count_list s c);
               mixed = (\<lambda>c. count input_left c > 1 \<or> count input_right c > 1 \<or> count input_left c + count input_right c > 2
                  \<or> count input_left c + count input_right c - 1 = (if c \<in> set result then 1 else 0))
           in if list_ex mixed (input_left @ input_right) then False
              else if input_left = input_right then True
              else if set input_left = set input_right then False
              else if last_chars rs input_left = take rs input_right then True
              else if take rs input_left = last_chars rs input_right then True
              else if last_chars rs input_left = last_chars rs input_right then True
              else if take rs input_left = take rs input_right then True
              else if set input_left \<subseteq> set idx_removed \<or> set input_right \<subseteq> set idx_removed then False
              else True)
      | _ \<Rightarrow> False)"

subsection \<open>The list of contractions\<close>

text \<open>
  The sizes of the labels. The message of the first error names \<open>input_subscripts[tnum]\<close>, which may
  lie behind the end of the text.
\<close>

fun add_dimensions :: "(char \<times> nat) list \<Rightarrow> (char, int) pydict \<Rightarrow> (char, int) pydict py" where
  "add_dimensions [] d = Inr d"
| "add_dimensions ((c, n) # xs) d =
     (case map_of d c of
        None \<Rightarrow> add_dimensions xs (AList.update c (int n) d)
      | Some e \<Rightarrow>
          if e = 1 then add_dimensions xs (AList.update c (int n) d)
          else if int n \<notin> {1, e} then Inl ValueError
          else add_dimensions xs d)"

fun dimension_dict :: "string \<Rightarrow> nat \<Rightarrow> (string \<times> nat list) list \<Rightarrow> (char, int) pydict \<Rightarrow> (char, int) pydict py" where
  "dimension_dict input_subscripts tnum [] d = Inr d"
| "dimension_dict input_subscripts tnum ((labels, sh) # ts) d =
     (if length sh \<noteq> length labels then Inl (if tnum < length input_subscripts then ValueError else IndexError)
      else rbind (add_dimensions (zip labels sh) d) (dimension_dict input_subscripts (Suc tnum) ts))"

definition broadcast_labels :: "string \<times> nat list \<Rightarrow> string" where
  "broadcast_labels ts = remdups (map fst (filter (\<lambda>(c, n). n = 1) (zip (fst ts) (snd ts))))"

record contraction =
  contract_inds :: "nat list"
  removed_labels :: string
  einsum_str :: string
  remaining_terms :: "string list"
  do_blas :: bool

fun pop_terms :: "nat list \<Rightarrow> string list \<Rightarrow> string list \<Rightarrow> (string list \<times> string \<times> string list \<times> string list) py" where
  "pop_terms [] input_list broadcast = Inr ([], [], input_list, broadcast)"
| "pop_terms (x # xs) input_list broadcast =
     rbind (pop_at x input_list) (\<lambda>(labels, input_list).
     rbind (pop_at x broadcast) (\<lambda>(b, broadcast).
     rbind (pop_terms xs input_list broadcast) (\<lambda>(terms, bcast, rest).
       Inr (labels # terms, set_union b bcast, rest))))"

fun contraction_steps :: "string \<Rightarrow> (char, int) pydict \<Rightarrow> nat list list \<Rightarrow> string list \<Rightarrow> string list \<Rightarrow> string list
    \<Rightarrow> (contraction list \<times> string list) py" where
  "contraction_steps out d [] input_sets input_list broadcast = Inr ([], input_list)"
| "contraction_steps out d (c # cs) input_sets input_list broadcast =
     (let inds = rev (sort c);
          (out_inds, input_sets', idx_removed, idx_contract) = find_contraction inds input_sets (remdups out)
      in rbind (flop_count idx_contract (idx_removed \<noteq> []) (int (length inds)) d) (\<lambda>cost.
         rbind (compute_size_by_dict out_inds d) (\<lambda>size.
         rbind (pop_terms inds input_list broadcast) (\<lambda>(tmp_inputs, bcast, input_list, broadcast).
           let blas = (set idx_removed \<inter> set bcast = {} \<and> can_dot tmp_inputs out_inds idx_removed);
               idx_result = (if cs = [] then out
                             else sort_key (\<lambda>i. the (map_of d i)) (sort_key (of_char :: char \<Rightarrow> nat) out_inds));
               input_list' = input_list @ [idx_result];
               step = \<lparr>contract_inds = inds, removed_labels = idx_removed,
                 einsum_str = str_join '','' tmp_inputs @ ''->'' @ idx_result,
                 remaining_terms = input_list', do_blas = blas\<rparr>
           in rbind (contraction_steps out d cs input_sets' input_list' (broadcast @ [set_minus bcast idx_removed]))
                (\<lambda>(steps, rest). Inr (step # steps, rest))))))"

text \<open>The argument \<open>optimize\<close>; \<open>True\<close> is \<open>Named ''greedy'' None\<close>, \<open>None\<close> and \<open>False\<close> are \<open>NotOptimized\<close>.\<close>

datatype optimize =
    NotOptimized
  | Named string "int option"
  | ExplicitPath "nat list list"
  | NotUnderstood

definition choose_path :: "optimize \<Rightarrow> string list \<Rightarrow> string \<Rightarrow> string \<Rightarrow> (char, int) pydict \<Rightarrow> int \<Rightarrow> nat list list py" where
  "choose_path opt input_sets indices out d max_size =
     (let n = length input_sets; whole = [[0..<n]];
          simple = (n \<in> {1, 2} \<or> set indices = set out)
      in case opt of
           ExplicitPath path \<Rightarrow> Inr path
         | NotOptimized \<Rightarrow> Inr whole
         | Named name limit \<Rightarrow>
             if simple then Inr whole
             else if name = ''greedy'' then greedy_path input_sets (remdups out) d (case limit of None \<Rightarrow> max_size | Some m \<Rightarrow> m)
             else if name = ''optimal'' then optimal_path input_sets (remdups out) d (case limit of None \<Rightarrow> max_size | Some m \<Rightarrow> m)
             else Inl (KeyError name)
         | NotUnderstood \<Rightarrow> Inl TypeError)"

text \<open>
  \<open>einsum_path\<close> as \<open>einsum\<close> calls it: the list of contractions instead of the printed table.
\<close>

definition einsum_path :: "(string \<Rightarrow> string) \<Rightarrow> optimize \<Rightarrow> einsum_operands \<Rightarrow> contraction list py" where
  "einsum_path iterate opt operands =
     (if opt = NotUnderstood then Inl TypeError
      else
        rbind (parse_einsum_input iterate operands) (\<lambda>(input_subscripts, out, shapes).
        let input_list = str_split_on '','' input_subscripts;
            input_sets = map remdups input_list;
            indices = remdups (replace_char CHR '','' [] input_subscripts)
        in rbind (dimension_dict input_subscripts 0 (zip input_list shapes) []) (\<lambda>d.
           rbind (rmap (\<lambda>labels. compute_size_by_dict labels d) (input_list @ [out])) (\<lambda>size_list.
           rbind (flop_count indices (sum_list (map length input_sets) > length indices) (int (length input_list)) d) (\<lambda>naive_cost.
           rbind (choose_path opt input_sets indices out d (foldr max (tl size_list) (hd size_list))) (\<lambda>path.
           rbind (contraction_steps out d path input_sets input_list (map broadcast_labels (zip input_list shapes))) (\<lambda>(steps, rest).
             if length rest = 1 then Inr steps
             else Inl (RuntimeError (''Invalid einsum_path is specified: '' @ int_str (int (length rest) - 1)
                     @ '' more operands has to be contracted.'')))))))))"

subsection \<open>Both searches end with a complete order\<close>

text \<open>
  A complete order of contractions for \<open>n\<close> terms: each step takes different terms that are there and
  puts one in their place, and in the end one is left.
\<close>

fun complete_order :: "nat \<Rightarrow> nat list list \<Rightarrow> bool" where
  "complete_order n [] = (n = 1)"
| "complete_order n (c # cs) =
     (c \<noteq> [] \<and> distinct c \<and> list_all (\<lambda>i. i < n) c \<and> complete_order (n - length c + 1) cs)"

definition sized :: "(char, int) pydict \<Rightarrow> string list \<Rightarrow> bool" where
  "sized d ins = list_all (\<lambda>x. set x \<subseteq> fst ` set d) ins"

lemma compute_size_sized: "set xs \<subseteq> fst ` set d \<Longrightarrow> \<exists>n. compute_size_by_dict xs d = Inr n"
proof -
  assume xs: "set xs \<subseteq> fst ` set d"
  have "of_option (KeyError [x]) (map_of d x) = Inr (the (map_of d x))" if "x \<in> set xs" for x
  proof -
    have "map_of d x \<noteq> None" using xs that by (auto simp: map_of_eq_None_iff)
    then show ?thesis by auto
  qed
  from rmap_all_Inr [of xs "\<lambda>x. of_option (KeyError [x]) (map_of d x)", OF this]
  show ?thesis by (simp add: compute_size_by_dict_def)
qed

lemma flop_count_sized: "set xs \<subseteq> fst ` set d \<Longrightarrow> \<exists>n. flop_count xs inner k d = Inr n"
  using compute_size_sized [of xs d] by (auto simp: flop_count_def)

lemma contracted_sized: "sized d ins \<Longrightarrow> contracted ps ins \<subseteq> fst ` set d"
  by (force simp: contracted_def sized_def list_all_length)

lemma find_contraction_sized:
  assumes "find_contraction ps ins out = (new, rest, removed, used)" and "sized d ins"
  shows "set new \<subseteq> fst ` set d" "set used \<subseteq> fst ` set d" "sized d rest"
proof -
  note sets = find_contraction_sets [OF assms(1)]
  show new: "set new \<subseteq> fst ` set d" and "set used \<subseteq> fst ` set d"
    using contracted_sized [OF assms(2), of ps] sets by auto
  show "sized d rest"
    using new assms(2) set_nths_subset [of ins "{i. i \<notin> set ps}"]
    by (auto simp: sets(2) sized_def list_all_iff left_alone_def)
qed

definition pair_of :: "nat \<Rightarrow> nat list \<Rightarrow> bool" where
  "pair_of n ps \<longleftrightarrow> (\<exists>x y. ps = [x, y] \<and> x < y \<and> y < n)"

lemma pair_combinations: "ps \<in> set (combinations2 n) \<longleftrightarrow> pair_of n ps"
  by (auto simp: set_combinations2 pair_of_def)

lemma find_contraction_length:
  assumes "find_contraction ps ins out = (new, rest, removed, used)"
    and "distinct ps" and "list_all (\<lambda>i. i < length ins) ps"
  shows "length rest = length ins - length ps + 1"
  using assms find_contraction_sets(2) [OF assms(1)] by (simp add: length_left_alone list_all_iff)

definition sound_candidate :: "(char, int) pydict \<Rightarrow> nat \<Rightarrow> candidate \<Rightarrow> bool" where
  "sound_candidate d n c \<longleftrightarrow> pair_of n (fst (snd c)) \<and> length (snd (snd c)) = n - 1 \<and> sized d (snd (snd c))"

definition yields_sound :: "(char, int) pydict \<Rightarrow> nat \<Rightarrow> candidate option py \<Rightarrow> bool" where
  "yields_sound d n r \<longleftrightarrow> (\<exists>c. r = Inr c \<and> pred_option (sound_candidate d n) c)"

lemma parse_sound:
  assumes "sized d ins" and "pair_of (length ins) ps"
  shows "yields_sound d (length ins) (parse_possible_contraction ps ins out d limit path_cost naive_cost)"
proof -
  obtain x y where ps: "ps = [x, y]" "x < y" "y < length ins" using assms(2) by (auto simp: pair_of_def)
  obtain new rest removed used where fc: "find_contraction ps ins out = (new, rest, removed, used)" by (metis prod_cases4)
  note s = find_contraction_sized [OF fc assms(1)]
  have "length rest = length ins - 1" using find_contraction_length [OF fc] ps by simp
  then have sound: "sound_candidate d (length ins) (cost, ps, rest)" for cost
    using s(3) assms(2) by (simp add: sound_candidate_def)
  have "\<exists>m. compute_size_by_dict (ins ! i) d = Inr m" if "i < length ins" for i
    using compute_size_sized [of "ins ! i" d] assms(1) that by (simp add: sized_def list_all_length)
  from this [of x] this [of y] obtain m m' where
    "compute_size_by_dict (ins ! x) d = Inr m" "compute_size_by_dict (ins ! y) d = Inr m'" using ps by auto
  moreover obtain n where "compute_size_by_dict new d = Inr n" using compute_size_sized [OF s(1)] by blast
  moreover obtain f where "flop_count used (removed \<noteq> []) 2 d = Inr f" using flop_count_sized [OF s(2)] by blast
  ultimately show ?thesis using sound ps(2,3)
    by (simp add: yields_sound_def parse_possible_contraction_def fc [unfolded ps(1)] ps(1) Let_def)
qed

lemma candidates_sound:
  assumes "\<And>ps. ps \<in> set pairs \<Longrightarrow> yields_sound d n (parse ps)"
  shows "\<exists>cs. candidates parse pairs = Inr cs \<and> list_all (sound_candidate d n) cs"
proof -
  have "\<exists>rs. rmap parse pairs = Inr rs \<and> list_all (pred_option (sound_candidate d n)) rs"
    using assms by (induction pairs) (fastforce simp: yields_sound_def)+
  then show ?thesis by (fastforce simp: candidates_def list_all_iff)
qed

lemma update_result_sound:
  assumes r: "sound_candidate d n r" and b: "bx < bz" "bz < n" and new: "set new \<subseteq> fst ` set d"
  shows "\<exists>cs. update_result bx bz new r = Inr cs \<and> list_all (sound_candidate d (n - 1)) cs"
proof -
  obtain cost x y sets where c: "r = (cost, [x, y], sets)" "x < y" "y < n"
    using r by (cases r) (auto simp: sound_candidate_def pair_of_def)
  show ?thesis
  proof (cases "x \<in> {bx, bz} \<or> y \<in> {bx, bz}")
    case True
    then show ?thesis by (simp add: c update_result_def)
  next
    case False
    let ?z = "bz - above bz x - above bz y" and ?x = "bx - above bx x - above bx y"
    have len: "length sets = n - 1" and sz: "sized d sets" using r by (auto simp: c sound_candidate_def)
    have z: "?z < n - 1" and x: "?x < n - 2" and n: "n > 3"
      using False b c by (auto simp: above_def split: if_splits)
    obtain s1 where s1: "del_at ?z sets = Inr s1" "length s1 = n - 2" "set s1 \<subseteq> set sets"
      using del_at_ok [of ?z sets] z len by auto
    obtain s2 where s2: "del_at ?x s1 = Inr s2" "length s2 = n - 3" "set s2 \<subseteq> set s1"
      using del_at_ok [of ?x s1] x s1(2) by auto
    have "sized d s2" using sz s1(3) s2(3) unfolding sized_def list_all_iff by blast
    then have "sized d (insert_before_last new s2)"
      using new by (auto simp: sized_def list_all_iff insert_before_last_def dest!: in_set_butlastD in_set_dropD)
    moreover have "length (insert_before_last new s2) = n - 2"
      using n by (simp add: insert_before_last_def s2(2))
    moreover have "pair_of (n - 1) [x - above x bx - above x bz, y - above y bx - above y bz]"
      using False b c by (auto simp: pair_of_def above_def split: if_splits)
    ultimately show ?thesis
      using False by (simp add: c update_result_def s1(1) s2(1) sound_candidate_def del: diff_diff_left)
  qed
qed

lemma update_other_sound:
  assumes "list_all (sound_candidate d n) known" and "sound_candidate d n best" and "n \<ge> 2"
  shows "\<exists>cs. update_other_results known best = Inr cs \<and> list_all (sound_candidate d (n - 1)) cs"
proof -
  obtain cost x y sets where c: "best = (cost, [x, y], sets)" "x < y" "y < n" "length sets = n - 1" "sized d sets"
    using assms(2) by (cases best) (auto simp: sound_candidate_def pair_of_def)
  have new: "set (last sets) \<subseteq> fst ` set d"
  proof -
    have "sets \<noteq> []" using c(4) assms(3) by auto
    then show ?thesis using c(5) by (simp add: sized_def list_all_iff)
  qed
  have "\<exists>rs. rmap (update_result x y (last sets)) known = Inr rs \<and> list_all (list_all (sound_candidate d (n - 1))) rs"
    using assms(1)
  proof (induction known)
    case (Cons r known)
    then show ?case using update_result_sound [OF _ c(2,3) new, of r] by fastforce
  qed simp
  then show ?thesis by (fastforce simp: update_other_results_def c(1) list_all_iff)
qed

lemma greedy_loop_complete:
  assumes "length ins = Suc k" and "sized d ins" and "list_all (pair_of (Suc k)) pairs"
    and "list_all (sound_candidate d (Suc k)) known"
  shows "\<exists>q. greedy_loop out d limit naive k pairs ins known cost path = Inr (path @ q) \<and> complete_order (Suc k) q"
  using assms
proof (induction k arbitrary: pairs ins known cost path)
  case (Suc k)
  let ?n = "length ins"
  let ?parse = "\<lambda>ps. parse_possible_contraction ps ins out d limit cost naive"
  let ?apart = "\<lambda>ps. rbind (disjoint_terms ins ps) (\<lambda>apart. if apart then Inr None else ?parse ps)"
  have parse: "yields_sound d ?n (?parse ps)" if "pair_of ?n ps" for ps
    by (rule parse_sound [OF Suc.prems(2) that])
  have "yields_sound d ?n (?apart ps)" if "pair_of ?n ps" for ps
  proof -
    obtain x y where "ps = [x, y]" "x < ?n" "y < ?n" using \<open>pair_of ?n ps\<close> by (auto simp: pair_of_def)
    then show ?thesis using parse [OF that] by (simp add: disjoint_terms_def yields_sound_def)
  qed
  then obtain found where f: "candidates ?apart pairs = Inr found" "list_all (sound_candidate d ?n) found"
    using candidates_sound [of pairs d ?n ?apart] Suc.prems(1,3) by (auto simp: list_all_iff)
  obtain all where "candidates ?parse (combinations2 ?n) = Inr all" "list_all (sound_candidate d ?n) all"
    using candidates_sound [of "combinations2 ?n" d ?n ?parse] parse pair_combinations by blast
  then obtain known' where k': "(if known @ found = [] then candidates ?parse (combinations2 ?n) else Inr (known @ found)) = Inr known'"
      "list_all (sound_candidate d ?n) known'"
    using f(2) Suc.prems(1,4) by (cases "known @ found = []") auto
  show ?case
  proof (cases known')
    case Nil
    then show ?thesis using f(1) k'(1) Suc.prems(1) by (simp add: Let_def list_all_iff)
  next
    case (Cons r rs)
    define best where "best = first_min better r rs"
    have "best \<in> set known'" using first_min_mem [of better r rs] by (simp add: best_def Cons)
    then have b: "sound_candidate d ?n best" using k'(2) by (simp add: list_all_iff)
    then obtain c x y sets where c: "best = (c, [x, y], sets)" "x < y" "y < ?n" "length sets = Suc k" "sized d sets"
      using Suc.prems(1) by (cases best) (auto simp: sound_candidate_def pair_of_def)
    obtain known'' where k'': "update_other_results known' best = Inr known''" "list_all (sound_candidate d (Suc k)) known''"
      using update_other_sound [OF k'(2) b] Suc.prems(1) by auto
    obtain q where "greedy_loop out d limit naive k (map (\<lambda>i. [i, k]) [0..<k]) sets known'' (cost + snd c) (path @ [[x, y]])
        = Inr ((path @ [[x, y]]) @ q)" "complete_order (Suc k) q"
      using Suc.IH [OF c(4,5) _ k''(2), of "map (\<lambda>i. [i, k]) [0..<k]" "cost + snd c" "path @ [[x, y]]"]
      by (auto simp: list_all_iff pair_of_def)
    then have "greedy_loop out d limit naive (Suc k) pairs ins known cost path = Inr (path @ [x, y] # q)"
      using f(1) k'(1) k''(1) by (simp add: Let_def Cons best_def [symmetric] c)
    moreover have "complete_order (Suc (Suc k)) ([x, y] # q)" using c Suc.prems(1) \<open>complete_order (Suc k) q\<close> by simp
    ultimately show ?thesis by blast
  qed
qed simp

lemma greedy_path_complete:
  assumes "ins \<noteq> []" and "sized d ins"
  shows "\<exists>path. greedy_path ins out d limit = Inr path \<and> complete_order (length ins) path"
proof -
  obtain k where n: "length ins = Suc k" using assms(1) by (cases ins) auto
  obtain new rest removed used where fc: "find_contraction [0..<Suc k] ins out = (new, rest, removed, used)" by (metis prod_cases4)
  obtain naive where "flop_count used (removed \<noteq> []) (int (Suc k)) d = Inr naive"
    using flop_count_sized [OF find_contraction_sized(2) [OF fc assms(2)]] by blast
  moreover have "list_all (pair_of (Suc k)) (combinations2 (Suc k))" by (simp add: list_all_iff pair_combinations)
  ultimately show ?thesis
    using greedy_loop_complete [OF n assms(2), of "combinations2 (Suc k)" "[]" out limit naive 0 "[]"] fc n
    by (auto simp: greedy_path_def Let_def numeral_2_eq_2 simp del: upt_Suc)
qed

subsection \<open>The cheapest order of pairs\<close>

text \<open>Following an order from a partial path: \<open>None\<close> when a step exceeds the memory limit.\<close>

fun follow_order :: "string \<Rightarrow> (char, int) pydict \<Rightarrow> int \<Rightarrow> partial_path \<Rightarrow> nat list list \<Rightarrow> partial_path option" where
  "follow_order out d limit st [] = Some st"
| "follow_order out d limit st (c # cs) =
     (case extend_path out d limit st c of Inr [st'] \<Rightarrow> follow_order out d limit st' cs | _ \<Rightarrow> None)"

definition order_cost :: "string \<Rightarrow> (char, int) pydict \<Rightarrow> int \<Rightarrow> string list \<Rightarrow> nat list list \<Rightarrow> int option" where
  "order_cost out d limit ins cs = map_option fst (follow_order out d limit (0, [], ins) cs)"

text \<open>An order that contracts two terms at a time.\<close>

fun pairwise_order :: "nat \<Rightarrow> nat list list \<Rightarrow> bool" where
  "pairwise_order n [] = (n = 1)"
| "pairwise_order n (c # cs) = (c \<in> set (combinations2 n) \<and> pairwise_order (n - 1) cs)"

lemma pairwise_complete: "pairwise_order n cs \<Longrightarrow> complete_order n cs"
  by (induction n cs rule: pairwise_order.induct) (auto simp: pair_combinations pair_of_def Suc_diff_Suc numeral_2_eq_2)

lemma pairwise_one: "pairwise_order (Suc 0) cs \<longleftrightarrow> cs = []"
  by (cases cs) (auto simp: pair_combinations pair_of_def)

definition sized_state :: "(char, int) pydict \<Rightarrow> nat \<Rightarrow> partial_path \<Rightarrow> bool" where
  "sized_state d n st \<longleftrightarrow> length (snd (snd st)) = n \<and> sized d (snd (snd st))"

definition extends :: "string \<Rightarrow> (char, int) pydict \<Rightarrow> int \<Rightarrow> partial_path \<Rightarrow> nat list \<Rightarrow> partial_path \<Rightarrow> bool" where
  "extends out d limit st con st' \<longleftrightarrow> extend_path out d limit st con = Inr [st']"

lemma extend_path_cases:
  assumes "sized_state d n st" and "pair_of n con"
  shows "extend_path out d limit st con = Inr []
    \<or> (\<exists>st'. extend_path out d limit st con = Inr [st'] \<and> sized_state d (n - 1) st' \<and> fst (snd st') = fst (snd st) @ [con])"
proof -
  obtain cost ps ins where st: "st = (cost, ps, ins)" by (metis prod_cases3)
  obtain new rest removed used where fc: "find_contraction con ins out = (new, rest, removed, used)" by (metis prod_cases4)
  have ins: "sized d ins" "length ins = n" using assms(1) by (simp_all add: st sized_state_def)
  note s = find_contraction_sized [OF fc ins(1)]
  have "length rest = n - 1" using find_contraction_length [OF fc] assms(2) ins(2) by (auto simp: pair_of_def)
  moreover obtain m where "compute_size_by_dict new d = Inr m" using compute_size_sized [OF s(1)] by blast
  moreover obtain f where "flop_count used (removed \<noteq> []) (int (length con)) d = Inr f" using flop_count_sized [OF s(2)] by blast
  ultimately show ?thesis using s(3) by (simp add: extend_path_def st fc sized_state_def)
qed

lemma extends_sized:
  assumes "extends out d limit st con st'" and "sized_state d n st" and "pair_of n con"
  shows "sized_state d (n - 1) st'" and "fst (snd st') = fst (snd st) @ [con]"
  using extend_path_cases [OF assms(2,3), of out limit] assms(1) by (auto simp: extends_def)

lemma rmap_concat_Inr:
  assumes "\<And>x. x \<in> set xs \<Longrightarrow> \<exists>ys. f x = Inr ys"
  shows "\<exists>zs. rbind (rmap f xs) (\<lambda>rs. Inr (concat rs)) = Inr zs \<and> set zs = {z. \<exists>x\<in>set xs. \<exists>ys. f x = Inr ys \<and> z \<in> set ys}"
proof -
  have "f x = Inr (projr (f x))" if "x \<in> set xs" for x using assms [OF that] by auto
  from rmap_all_Inr [of xs f, OF this]
  have "rbind (rmap f xs) (\<lambda>rs. Inr (concat rs)) = Inr (concat (map (\<lambda>x. projr (f x)) xs))" by simp
  moreover have "set (concat (map (\<lambda>x. projr (f x)) xs)) = {z. \<exists>x\<in>set xs. \<exists>ys. f x = Inr ys \<and> z \<in> set ys}"
    using assms by force
  ultimately show ?thesis by blast
qed

lemma extend_paths_all:
  assumes "list_all (sized_state d n) full"
  shows "\<exists>rs. extend_paths out d limit n full = Inr rs \<and> list_all (sized_state d (n - 1)) rs
    \<and> set rs = {st'. \<exists>st\<in>set full. \<exists>con. pair_of n con \<and> extends out d limit st con st'}"
proof -
  let ?f = "\<lambda>st. rbind (rmap (extend_path out d limit st) (combinations2 n)) (\<lambda>rs. Inr (concat rs))"
  have one: "\<exists>ys. ?f st = Inr ys \<and> set ys = {st'. \<exists>con. pair_of n con \<and> extends out d limit st con st'}"
    if st: "st \<in> set full" for st
  proof -
    have ok: "extend_path out d limit st con = Inr []
        \<or> (\<exists>st'. extend_path out d limit st con = Inr [st'])" if "pair_of n con" for con
      using extend_path_cases [OF _ that, of d st out limit] assms st by (auto simp: list_all_iff)
    have "\<exists>ys. extend_path out d limit st con = Inr ys" if "con \<in> set (combinations2 n)" for con
      using ok [of con] that by (auto simp: pair_combinations)
    from rmap_concat_Inr [of "combinations2 n" "extend_path out d limit st", OF this]
    obtain zs where zs: "?f st = Inr zs"
      "set zs = {z. \<exists>con\<in>set (combinations2 n). \<exists>ys. extend_path out d limit st con = Inr ys \<and> z \<in> set ys}" by blast
    have "set zs = {st'. \<exists>con. pair_of n con \<and> extends out d limit st con st'}"
      unfolding zs(2) extends_def using ok by (fastforce simp: pair_combinations)
    with zs(1) show ?thesis by blast
  qed
  then obtain rs where rs: "extend_paths out d limit n full = Inr rs"
    "set rs = {z. \<exists>st\<in>set full. \<exists>ys. ?f st = Inr ys \<and> z \<in> set ys}"
    using rmap_concat_Inr [of full ?f] unfolding extend_paths_def by blast
  have set_rs: "set rs = {st'. \<exists>st\<in>set full. \<exists>con. pair_of n con \<and> extends out d limit st con st'}"
    unfolding rs(2) using one by fastforce
  have "list_all (sized_state d (n - 1)) rs"
    using assms extends_sized(1) unfolding list_all_iff set_rs by blast
  with rs(1) set_rs show ?thesis by blast
qed

lemma follow_positions:
  "follow_order out d limit st cs = Some st' \<Longrightarrow> sized_state d n st \<Longrightarrow> pairwise_order n cs \<Longrightarrow> fst (snd st') = fst (snd st) @ cs"
proof (induction cs arbitrary: st n)
  case (Cons c cs)
  then obtain st1 where "extends out d limit st c st1" "follow_order out d limit st1 cs = Some st'"
    by (auto simp: extends_def split: sum.splits list.splits)
  with Cons.IH [of st1 "n - 1"] Cons.prems extends_sized [of out d limit st c st1 n] show ?case
    by (simp add: pair_combinations)
qed simp

lemma follow_Cons:
  "follow_order out d limit st (c # cs) = Some st'
    \<longleftrightarrow> (\<exists>st1. extends out d limit st c st1 \<and> follow_order out d limit st1 cs = Some st')"
  by (auto simp: extends_def split: sum.splits list.splits)

text \<open>The loop keeps exactly the results of the orders of pairs that the limit admits.\<close>

definition reached :: "string \<Rightarrow> (char, int) pydict \<Rightarrow> int \<Rightarrow> nat \<Rightarrow> partial_path set \<Rightarrow> partial_path set" where
  "reached out d limit n S = {st'. \<exists>st\<in>S. \<exists>cs. pairwise_order n cs \<and> follow_order out d limit st cs = Some st'}"

lemma reached_one: "reached out d limit (Suc 0) S = S"
  by (auto simp: reached_def pairwise_one)

lemma reached_Suc:
  "reached out d limit (Suc (Suc k)) S
    = reached out d limit (Suc k) {st'. \<exists>st\<in>S. \<exists>con. pair_of (Suc (Suc k)) con \<and> extends out d limit st con st'}"
proof -
  have split: "pairwise_order (Suc (Suc k)) cs
      \<longleftrightarrow> (\<exists>c cs'. cs = c # cs' \<and> pair_of (Suc (Suc k)) c \<and> pairwise_order (Suc k) cs')" for cs
    by (cases cs) (auto simp: pair_combinations)
  have "(\<exists>cs. pairwise_order (Suc (Suc k)) cs \<and> follow_order out d limit st cs = Some st')
    \<longleftrightarrow> (\<exists>c st1. pair_of (Suc (Suc k)) c \<and> extends out d limit st c st1
         \<and> (\<exists>cs. pairwise_order (Suc k) cs \<and> follow_order out d limit st1 cs = Some st'))" for st st'
    unfolding split using follow_Cons [of out d limit st _ _ st'] by metis
  then show ?thesis unfolding reached_def by blast
qed

lemma optimal_loop_reaches:
  assumes "list_all (sized_state d (Suc k)) full" and "full \<noteq> []"
  shows "(\<exists>res. optimal_loop out d limit k full = Inl (Inr res) \<and> res \<noteq> [] \<and> set res = reached out d limit (Suc k) (set full))
    \<or> (\<exists>st\<in>set full. \<exists>q. optimal_loop out d limit k full = Inr (fst (snd st) @ q) \<and> complete_order (Suc k) q
         \<and> reached out d limit (Suc k) (set full) = {})"
  using assms
proof (induction k arbitrary: full)
  case 0
  then show ?case by (simp add: reached_one)
next
  case (Suc k)
  let ?n = "Suc (Suc k)"
  obtain rs where rs: "extend_paths out d limit ?n full = Inr rs" "list_all (sized_state d (Suc k)) rs"
    "set rs = {st'. \<exists>st\<in>set full. \<exists>con. pair_of ?n con \<and> extends out d limit st con st'}"
    using extend_paths_all [OF Suc.prems(1), of out limit] by auto
  have reach: "reached out d limit ?n (set full) = reached out d limit (Suc k) (set rs)"
    unfolding reached_Suc rs(3) ..
  show ?case
  proof (cases rs)
    case Nil
    have "first_min cheaper (hd full) (tl full) \<in> set full"
      using first_min_mem [of cheaper "hd full" "tl full"] Suc.prems(2) by (cases full) auto
    moreover have "complete_order ?n [[0..<?n]]" by (simp add: list_all_iff del: upt_Suc)
    moreover have "reached out d limit ?n (set full) = {}" unfolding reach by (simp add: Nil reached_def)
    ultimately show ?thesis using rs(1) by (auto simp: Nil simp del: upt_Suc complete_order.simps)
  next
    case (Cons r rs')
    have step: "optimal_loop out d limit (Suc k) full = optimal_loop out d limit k rs" using rs(1) by (simp add: Cons)
    have "\<exists>st0\<in>set full. \<exists>con. pair_of ?n con \<and> fst (snd st) = fst (snd st0) @ [con]" if "st \<in> set rs" for st
      using that Suc.prems(1) extends_sized(2) unfolding rs(3) list_all_iff by blast
    moreover have "complete_order ?n (con # q)" if "pair_of ?n con" "complete_order (Suc k) q" for con q
      using that by (auto simp: pair_of_def)
    ultimately show ?thesis using Suc.IH [OF rs(2)] unfolding step reach
      by (simp add: Cons del: complete_order.simps) (metis append.assoc append_Cons append_Nil)
  qed
qed

lemma optimal_path_best:
  assumes "ins \<noteq> []" and "sized d ins"
  shows "\<exists>path. optimal_path ins out d limit = Inr path \<and> complete_order (length ins) path
    \<and> (\<forall>cs c. pairwise_order (length ins) cs \<longrightarrow> order_cost out d limit ins cs = Some c
         \<longrightarrow> pairwise_order (length ins) path \<and> (\<exists>c0. order_cost out d limit ins path = Some c0 \<and> c0 \<le> c))"
proof -
  obtain k where n: "length ins = Suc k" using assms(1) by (cases ins) auto
  let ?st = "(0, [], ins) :: partial_path"
  have st: "sized_state d (Suc k) ?st" using assms(2) n by (simp add: sized_state_def)
  from optimal_loop_reaches [of d k "[?st]" out limit] st
  consider (full) res where "optimal_loop out d limit k [?st] = Inl (Inr res)" "res \<noteq> []" "set res = reached out d limit (Suc k) {?st}"
    | (cut) q where "optimal_loop out d limit k [?st] = Inr q" "complete_order (Suc k) q" "reached out d limit (Suc k) {?st} = {}"
    by auto
  then show ?thesis
  proof cases
    case full
    define best where "best = first_min cheaper (hd res) (tl res)"
    have "best \<in> set res" using first_min_mem [of cheaper "hd res" "tl res"] full(2) by (cases res) (auto simp: best_def)
    then obtain cs where cs: "pairwise_order (Suc k) cs" "follow_order out d limit ?st cs = Some best"
      using full(3) by (auto simp: reached_def)
    have pos: "fst (snd best) = cs" using follow_positions [OF cs(2) st cs(1)] by simp
    have least: "fst best \<le> fst z" if "z \<in> set res" for z
      using first_min_le [of z "hd res" "tl res" fst] that full(2)
      by (cases res) (auto simp: best_def cheaper_def [abs_def])
    have "optimal_path ins out d limit = Inr cs" using full(1,2) by (simp add: optimal_path_def n best_def [symmetric] pos)
    moreover have "order_cost out d limit ins cs = Some (fst best)" by (simp add: order_cost_def cs(2))
    moreover have "fst best \<le> c" if "pairwise_order (Suc k) cs'" "order_cost out d limit ins cs' = Some c" for cs' c
      using least that full(3) by (force simp: order_cost_def reached_def)
    ultimately show ?thesis using cs(1) pairwise_complete [OF cs(1)] n by auto
  next
    case cut
    then show ?thesis by (auto simp: optimal_path_def n order_cost_def reached_def)
  qed
qed

subsection \<open>Every order that is searched for can be carried out\<close>

lemma split_chars:
  "split_from [c] 0 part s \<noteq> []"
  "\<Union> (set ` set (split_from [c] 0 part s)) = set part \<union> (set s - {c})"
proof -
  have "split_from [c] 0 part s \<noteq> [] \<and> \<Union> (set ` set (split_from [c] 0 part s)) = set part \<union> (set s - {c})"
    by (induction s arbitrary: part) auto
  then show "split_from [c] 0 part s \<noteq> []" "\<Union> (set ` set (split_from [c] 0 part s)) = set part \<union> (set s - {c})" by blast+
qed

lemma split_commas:
  "str_split_on '','' s \<noteq> []"
  "\<Union> (set ` set (str_split_on '','' s)) = set s - {CHR '',''}"
  by (simp_all add: str_split_on_def split_chars)

lemma set_replace_comma: "set (replace_char CHR '','' [] s) = set s - {CHR '',''}"
  by (auto simp: replace_char_def)

lemma add_dimensions_labels: "add_dimensions xs d = Inr d' \<Longrightarrow> fst ` set d' = fst ` set d \<union> fst ` set xs"
proof (induction xs d rule: add_dimensions.induct)
  case (2 c n xs d)
  have new: "fst ` set (AList.update c (int n) d) = insert c (fst ` set d)"
    using fst_set_update [of c "int n" d] by simp
  show ?case
  proof (cases "map_of d c")
    case None
    then show ?thesis using 2 new by auto
  next
    case (Some e)
    then have "c \<in> fst ` set d" by (force dest: map_of_SomeD)
    then show ?thesis using 2 new Some by (auto split: if_splits)
  qed
qed simp

lemma dimension_dict_labels:
  "dimension_dict subs tnum ts d = Inr d' \<Longrightarrow> fst ` set d' = fst ` set d \<union> \<Union> (set ` fst ` set ts)"
proof (induction ts arbitrary: tnum d)
  case (Cons t ts)
  obtain ls sh where t: "t = (ls, sh)" by (cases t)
  with Cons.prems obtain d1 where d1: "length sh = length ls" "add_dimensions (zip ls sh) d = Inr d1"
    "dimension_dict subs (Suc tnum) ts d1 = Inr d'"
    by (auto simp: rbind_Inr_iff split: if_splits)
  have "fst ` set (zip ls sh) = set ls" using d1(1) by (simp flip: set_map)
  then show ?case using Cons.IH [OF d1(3)] add_dimensions_labels [OF d1(2)] by (simp add: t Un_assoc)
qed simp

lemma pop_terms_ok:
  assumes "sorted_wrt (>) inds" and "list_all (\<lambda>i. i < length xs) inds" and "length bs = length xs"
  shows "\<exists>terms b rest brest. pop_terms inds xs bs = Inr (terms, b, rest, brest)
    \<and> length rest = length xs - length inds \<and> length brest = length xs - length inds"
  using assms
proof (induction inds arbitrary: xs bs)
  case (Cons i inds)
  let ?xs = "take i xs @ drop (Suc i) xs" and ?bs = "take i bs @ drop (Suc i) bs"
  have "list_all (\<lambda>j. j < length ?xs) inds" "length ?bs = length ?xs"
    using Cons.prems by (auto simp: list_all_iff)
  with Cons.IH [of ?xs ?bs] Cons.prems show ?case by (fastforce simp: pop_at_def)
qed simp

lemma contraction_steps_ok:
  assumes "complete_order (length ins) path" and "sized d ins" and "length terms = length ins" and "length bs = length ins"
  shows "\<exists>steps rest. contraction_steps out d path ins terms bs = Inr (steps, rest) \<and> length rest = 1
    \<and> map contract_inds steps = map (\<lambda>c. rev (sort c)) path
    \<and> (path \<noteq> [] \<longrightarrow> rest = [out] \<and> remaining_terms (last steps) = [out])"
  using assms
proof (induction path arbitrary: ins terms bs)
  case (Cons c cs)
  obtain new ins' removed used where fc: "find_contraction (rev (sort c)) ins (remdups out) = (new, ins', removed, used)"
    by (metis prod_cases4)
  note s = find_contraction_sized [OF fc Cons.prems(2)]
  have c: "c \<noteq> []" "distinct c" "list_all (\<lambda>i. i < length ins) c" "complete_order (length ins - length c + 1) cs"
    using Cons.prems(1) by simp_all
  have len: "length ins' = length ins - length c + 1"
    using find_contraction_length [OF fc] c by (simp add: list_all_iff)
  obtain f where f: "flop_count used (removed \<noteq> []) (int (length c)) d = Inr f"
    using flop_count_sized [OF s(2)] by blast
  obtain m where m: "compute_size_by_dict new d = Inr m" using compute_size_sized [OF s(1)] by blast
  have "sorted_wrt (<) (sort c)" using c(2) by (simp add: strict_sorted_iff)
  then have "sorted_wrt (>) (rev (sort c))" by (simp add: sorted_wrt_rev)
  then obtain tmp b rest brest where pop: "pop_terms (rev (sort c)) terms bs = Inr (tmp, b, rest, brest)"
    "length rest = length ins - length c" "length brest = length ins - length c"
    using pop_terms_ok [of "rev (sort c)" terms bs] Cons.prems(3,4) c(3) by (auto simp: list_all_iff)
  define res where "res = (if cs = [] then out else sort_key (\<lambda>i. the (map_of d i)) (sort_key (of_char :: char \<Rightarrow> nat) new))"
  obtain steps final where rec: "contraction_steps out d cs ins' (rest @ [res]) (brest @ [set_minus b removed]) = Inr (steps, final)"
    "length final = 1" "map contract_inds steps = map (\<lambda>c. rev (sort c)) cs"
    "cs \<noteq> [] \<longrightarrow> final = [out] \<and> remaining_terms (last steps) = [out]"
    using Cons.IH [of ins' "rest @ [res]" "brest @ [set_minus b removed]"] c(4) s(3) len pop(2,3) by auto
  have "cs = [] \<Longrightarrow> final = [out] \<and> rest = []"
    using rec(1) c(4) pop(2) by (auto simp: res_def)
  moreover have "cs \<noteq> [] \<Longrightarrow> steps \<noteq> []" "cs = [] \<Longrightarrow> steps = [] \<and> res = out" using rec(3) by (auto simp: res_def)
  moreover have "contraction_steps out d (c # cs) ins terms bs
      = Inr (\<lparr>contract_inds = rev (sort c), removed_labels = removed,
                einsum_str = str_join '','' tmp @ ''->'' @ res, remaining_terms = rest @ [res],
                do_blas = (set removed \<inter> set b = {} \<and> can_dot tmp new removed)\<rparr> # steps, final)"
    using rec(1) by (simp add: fc f m pop(1) Let_def flip: res_def)
  ultimately show ?case using rec(2,3,4) by (cases "cs = []") auto
qed simp

text \<open>What \<open>einsum_path\<close> itself computes; an explicit path is taken as it is.\<close>

fun searched :: "optimize \<Rightarrow> bool" where
  "searched NotOptimized = True"
| "searched (Named name limit) = (name = ''greedy'' \<or> name = ''optimal'')"
| "searched (ExplicitPath path) = False"
| "searched NotUnderstood = False"

lemma choose_path_complete:
  assumes "searched opt" and "ins \<noteq> []" and "sized d ins"
  shows "\<exists>path. choose_path opt ins indices out d m = Inr path \<and> complete_order (length ins) path \<and> path \<noteq> []"
proof -
  have whole: "complete_order (length ins) [[0..<length ins]]" using assms(2) by (simp add: list_all_iff)
  have some: "path \<noteq> []" if "length ins \<noteq> 1" "complete_order (length ins) path" for path using that by auto
  show ?thesis
  proof (cases opt)
    case (Named name limit)
    show ?thesis
    proof (cases "length ins \<in> {1, 2} \<or> set indices = set out")
      case True
      then show ?thesis using whole by (simp add: choose_path_def Named Let_def)
    next
      case False
      let ?limit = "case limit of None \<Rightarrow> m | Some m \<Rightarrow> m"
      have "choose_path opt ins indices out d m
          = (if name = ''greedy'' then greedy_path ins (remdups out) d ?limit else optimal_path ins (remdups out) d ?limit)"
        using False assms(1) by (auto simp: choose_path_def Named Let_def)
      moreover obtain g where "greedy_path ins (remdups out) d ?limit = Inr g" "complete_order (length ins) g"
        using greedy_path_complete [OF assms(2,3)] by blast
      moreover obtain q where "optimal_path ins (remdups out) d ?limit = Inr q" "complete_order (length ins) q"
        using optimal_path_best [OF assms(2,3)] by blast
      ultimately show ?thesis using False some by auto
    qed
  qed (use assms(1) whole in \<open>auto simp: choose_path_def Let_def\<close>)
qed

lemma complete_order_sorted: "complete_order n (map (\<lambda>c. rev (sort c)) path) = complete_order n path"
proof (induction path arbitrary: n)
  case (Cons c path)
  have "sort c = [] \<longleftrightarrow> c = []" by (metis length_0_conv length_sort)
  then show ?case using Cons.IH by (simp add: list_all_iff)
qed simp

lemma parsed_operands:
  assumes "parse_einsum_input iterate operands = Inr (subs, out, shapes)"
  shows "length (str_split_on '','' subs) = length shapes" and "set out \<subseteq> set subs"
  using assms by (auto simp: parse_einsum_input_def rbind_Inr_iff list_all_iff split: prod.splits if_splits)

subsection \<open>Properties\<close>

text \<open>
  C33: Whatever the operands, a search for the order of the contractions ends with an order that can be
  carried out: each step takes different operands that are there, and what is left in the end is one
  operand with the labels of the output. (Subscripts with a comma in the output are accepted by the
  parser; they end in a \<open>KeyError\<close>.)
\<close>

theorem einsum_path_contracts:
  assumes "searched opt" and "parse_einsum_input iterate operands = Inr (subs, out, shapes)"
    and "dimension_dict subs 0 (zip (str_split_on '','' subs) shapes) [] = Inr d" and "CHR '','' \<notin> set out"
  shows "\<exists>steps. einsum_path iterate opt operands = Inr steps
    \<and> complete_order (length shapes) (map contract_inds steps) \<and> remaining_terms (last steps) = [out]"
proof -
  let ?terms = "str_split_on '','' subs"
  let ?ins = "map remdups ?terms" and ?indices = "remdups (replace_char CHR '','' [] subs)"
  note parsed = parsed_operands [OF assms(2)]
  have labels: "fst ` set d = set subs - {CHR '',''}"
    using dimension_dict_labels [OF assms(3)] parsed(1) split_commas(2) [of subs] by (simp flip: set_map)
  have sized: "sized d ?ins" using split_commas(2) [of subs] by (auto simp: sized_def list_all_iff labels)
  have out: "set out \<subseteq> fst ` set d" using parsed(2) assms(4) by (auto simp: labels)
  have "\<exists>n. compute_size_by_dict x d = Inr n" if "x \<in> set (?terms @ [out])" for x
    using compute_size_sized [of x d] that split_commas(2) [of subs] out by (auto simp: labels)
  then have "compute_size_by_dict x d = Inr (projr (compute_size_by_dict x d))" if "x \<in> set (?terms @ [out])" for x
    using that by fastforce
  from rmap_all_Inr [of "?terms @ [out]" "\<lambda>x. compute_size_by_dict x d", OF this]
  obtain sizes where sizes: "rmap (\<lambda>x. compute_size_by_dict x d) (?terms @ [out]) = Inr sizes" by blast
  have "set ?indices \<subseteq> fst ` set d" by (simp add: set_replace_comma labels)
  then obtain naive where naive: "flop_count ?indices (sum_list (map length ?ins) > length ?indices) (int (length ?terms)) d = Inr naive"
    using flop_count_sized by blast
  obtain path where path: "choose_path opt ?ins ?indices out d (foldr max (tl sizes) (hd sizes)) = Inr path"
    "complete_order (length ?ins) path" "path \<noteq> []"
    using choose_path_complete [OF assms(1) _ sized, of ?indices out "foldr max (tl sizes) (hd sizes)"] split_commas(1) [of subs] by auto
  obtain steps rest where steps: "contraction_steps out d path ?ins ?terms (map broadcast_labels (zip ?terms shapes)) = Inr (steps, rest)"
    "length rest = 1" "map contract_inds steps = map (\<lambda>c. rev (sort c)) path" "remaining_terms (last steps) = [out]"
    using contraction_steps_ok [OF path(2) sized, of ?terms "map broadcast_labels (zip ?terms shapes)" out] parsed(1) path(3) by auto
  have "einsum_path iterate opt operands = Inr steps"
    using assms(1,2,3) sizes naive path(1) steps(1,2) by (cases opt) (simp_all add: einsum_path_def Let_def)
  moreover have "complete_order (length shapes) (map contract_inds steps)"
    using path(2) parsed(1) by (simp add: steps(3) complete_order_sorted)
  ultimately show ?thesis using steps(4) by blast
qed

theorem einsum_path_contracts_witness:
  "\<exists>steps. einsum_path id (Named ''optimal'' None) (Subscripts ''ij,jk,kl->il'' [[2, 2], [2, 5], [5, 2]]) = Inr steps
     \<and> complete_order 3 (map contract_inds steps) \<and> remaining_terms (last steps) = [''il'']"
proof -
  have parse: "parse_einsum_input id (Subscripts ''ij,jk,kl->il'' [[2, 2], [2, 5], [5, 2]])
      = Inr (''ij,jk,kl'', ''il'', [[2, 2], [2, 5], [5, 2]])" by code_simp
  have dims: "dimension_dict ''ij,jk,kl'' 0 (zip (str_split_on '','' ''ij,jk,kl'') [[2, 2], [2, 5], [5, 2]]) []
      = Inr [(CHR ''i'', 2), (CHR ''j'', 2), (CHR ''k'', 5), (CHR ''l'', 2)]" by code_simp
  have "searched (Named ''optimal'' None)" "CHR '','' \<notin> set ''il''" by simp_all
  from einsum_path_contracts [OF this(1) parse dims this(2)] show ?thesis by (simp add: numeral_3_eq_3)
qed

text \<open>
  C34: The optimal search returns the cheapest order: of all orders that contract two operands at a time
  and stay within the memory limit none costs less; when no such order exists, it still returns one
  that can be carried out.
\<close>

theorem optimal_path_cheapest:
  assumes "ins \<noteq> []" and "list_all (\<lambda>x. set x \<subseteq> fst ` set d) ins"
  shows "\<exists>path. optimal_path ins out d limit = Inr path \<and> complete_order (length ins) path
    \<and> (\<forall>cs c. pairwise_order (length ins) cs \<longrightarrow> order_cost out d limit ins cs = Some c
         \<longrightarrow> pairwise_order (length ins) path \<and> (\<exists>c0. order_cost out d limit ins path = Some c0 \<and> c0 \<le> c))"
  by (rule optimal_path_best) (use assms in \<open>simp_all add: sized_def\<close>)

theorem optimal_path_cheapest_witness:
  "\<exists>path c. optimal_path [''abd'', ''ac'', ''bdc''] [] [(CHR ''a'', 1), (CHR ''b'', 2), (CHR ''c'', 3), (CHR ''d'', 4)] 5000 = Inr path
     \<and> order_cost [] [(CHR ''a'', 1), (CHR ''b'', 2), (CHR ''c'', 3), (CHR ''d'', 4)] 5000 [''abd'', ''ac'', ''bdc''] path = Some c \<and> c \<le> 96"
proof -
  let ?ins = "[''abd'', ''ac'', ''bdc'']" and ?d = "[(CHR ''a'', 1), (CHR ''b'', 2), (CHR ''c'', 3), (CHR ''d'', 4)]"
  have "order_cost [] ?d 5000 ?ins [[0, 1], [0, 1]] = Some 96" by code_simp
  moreover have "pairwise_order (length ?ins) [[0, 1], [0, 1]]" by (simp add: pair_combinations pair_of_def)
  ultimately show ?thesis using optimal_path_cheapest [of ?ins ?d "[]" 5000] by fastforce
qed

end
