(* ===== verification/HotelClient.thy ===== *)
theory HotelClient
  imports Bench HotelFunctions PyRandom
begin

section \<open>The hotel reservation benchmark program\<close>

text \<open>
  \<open>applications/hotel-reservation/client-nats.py\<close>: the settings, the initial data, the five
  workflows, the generator of the mixed workload, the workers and the main program. The module
  \<open>random\<close> is the record \<open>rng\<close>: the numbers it would give at each position of its stream.
\<close>

subsection \<open>Settings and keys\<close>

record hotel_settings =
  h_save_dir :: string
  h_threads :: int
  h_partitions :: int
  h_messages_per_second :: int
  h_seconds :: int
  h_warmup_seconds :: int

text \<open>\<open>multiprocessing.Barrier(threads)\<close> refuses fewer than one party.\<close>

definition hotel_settings_of :: "string list \<Rightarrow> hotel_settings py" where
  "hotel_settings_of argv =
     rbind (argv_get argv 1) (\<lambda>dir.
     rbind (rbind (argv_get argv 2) int_of_str) (\<lambda>threads.
     rbind (if threads < 1 then Inl ValueError else Inr ()) (\<lambda>_.
     rbind (rbind (argv_get argv 3) int_of_str) (\<lambda>parts.
     rbind (rbind (argv_get argv 4) int_of_str) (\<lambda>rate.
     rbind (rbind (argv_get argv 5) int_of_str) (\<lambda>secs.
     rbind (rbind (argv_get argv 6) int_of_str) (\<lambda>warmup.
     Inr \<lparr>h_save_dir = dir, h_threads = threads, h_partitions = parts, h_messages_per_second = rate,
          h_seconds = secs, h_warmup_seconds = warmup\<rparr>)))))))"

definition geo_keys :: "string list" where "geo_keys = map (\<lambda>i. ''geo'' @ int_str i) [1..80]"
definition rate_keys :: "string list" where "rate_keys = map (\<lambda>i. ''rate'' @ int_str i) [1..80]"
definition rec_keys :: "string list" where "rec_keys = map (\<lambda>i. ''rec'' @ int_str i) [1..80]"
definition user_keys :: "string list" where "user_keys = map (\<lambda>i. ''Cornell_'' @ int_str i) [0..500]"
definition hotel_keys :: "string list" where "hotel_keys = map (\<lambda>i. ''hotel'' @ int_str i) [0..99]"
definition flight_keys :: "string list" where "flight_keys = map (\<lambda>i. ''flight'' @ int_str i) [0..99]"

definition hotel_client_args :: client_args where
  "hotel_client_args = bench_client_args (JInt 120)"

subsection \<open>Initial data\<close>

definition fixed_geo :: "int \<Rightarrow> json \<Rightarrow> json \<Rightarrow> string \<times> json" where
  "fixed_geo i lat lon = (''geo'' @ int_str i, JObj [(''Plat'', lat), (''Plon'', lon)])"

definition spread_lat :: "int \<Rightarrow> rat" where
  "spread_lat i = fadd (dec 377835 (-4)) (fmul (fdiv (of_pyint i) 500) 3)"

definition spread_lon :: "int \<Rightarrow> rat" where
  "spread_lon i = fadd (dec (-12241) (-2)) (fmul (fdiv (of_pyint i) 500) 4)"

definition geo_items :: "(string \<times> json) list" where
  "geo_items =
     [fixed_geo 1 (JFloat (dec 377867 (-4))) (JInt 0),
      fixed_geo 2 (JFloat (dec 377854 (-4))) (JFloat (dec (-1224005) (-4))),
      fixed_geo 3 (JFloat (dec 377867 (-4))) (JFloat (dec (-1224071) (-4))),
      fixed_geo 4 (JFloat (dec 377936 (-4))) (JFloat (dec (-1223930) (-4))),
      fixed_geo 5 (JFloat (dec 377831 (-4))) (JFloat (dec (-1224181) (-4))),
      fixed_geo 6 (JFloat (dec 377863 (-4))) (JFloat (dec (-1224015) (-4)))]
     @ map (\<lambda>i. (geo_keys ! nat (i - 1),
                  JObj [(''Plat'', JFloat (spread_lat i)), (''Plon'', JFloat (spread_lon i))])) [7..80]"

definition room_type :: "rat \<Rightarrow> string \<Rightarrow> string \<Rightarrow> rat \<Rightarrow> rat \<Rightarrow> json" where
  "room_type bookable code description total_rate inclusive =
     JObj [(''BookableRate'', JFloat bookable), (''Code'', JStr code), (''RoomDescription'', JStr description),
           (''TotalRate'', JFloat total_rate), (''TotalRateInclusive'', JFloat inclusive)]"

definition rate_item :: "string \<Rightarrow> string \<Rightarrow> json \<Rightarrow> string \<times> json" where
  "rate_item key out_date room =
     (key, JObj [(''code'', JStr ''RACK''), (''Indate'', JStr ''2015-04-09''), (''Outdate'', JStr out_date),
                 (''RoomType'', room)])"

text \<open>The rate and the inclusive rate of the remainder by five.\<close>

definition rate_pair :: "int \<Rightarrow> rat \<times> rat" where
  "rate_pair i =
     (if i mod 5 = 1 then (120, 140) else if i mod 5 = 2 then (124, 144)
      else if i mod 5 = 3 then (132, 158) else if i mod 5 = 4 then (232, 258)
      else (109, dec 12317 (-2)))"

definition rate_items :: "(string \<times> json) list" where
  "rate_items =
     [rate_item ''rate1'' ''2015-04-10'' (room_type 190 ''KNG'' ''King sized bed'' 109 (dec 12317 (-2))),
      rate_item ''rate2'' ''2015-04-10'' (room_type 139 ''QN'' ''Queen sized bed'' 139 (dec 15309 (-2))),
      rate_item ''rate3'' ''2015-04-10'' (room_type 109 ''KNG'' ''King sized bed'' 109 (dec 12317 (-2)))]
     @ map (\<lambda>i. let (rate, rate_inc) = rate_pair i
                 in rate_item (rate_keys ! nat (i - 1)) (''2015-04-'' @ (if i mod 2 = 0 then ''17'' else ''24''))
                      (room_type rate ''KNG'' ''King sized bed'' rate rate_inc))
         (filter (\<lambda>i. i mod 3 = 0) [4..80])"

definition rec_item :: "string \<Rightarrow> rat \<Rightarrow> rat \<Rightarrow> rat \<Rightarrow> rat \<Rightarrow> string \<times> json" where
  "rec_item key lat lon rate price =
     (key, JObj [(''HLat'', JFloat lat), (''HLon'', JFloat lon), (''HRate'', JFloat rate), (''HPrice'', JFloat price)])"

definition rec_items :: "(string \<times> json) list" where
  "rec_items =
     [rec_item ''rec1'' (dec 377867 (-4)) (dec (-1224112) (-4)) 109 150,
      rec_item ''rec2'' (dec 377854 (-4)) (dec (-1224005) (-4)) 139 120,
      rec_item ''rec3'' (dec 377834 (-4)) (dec (-1224071) (-4)) 109 190,
      rec_item ''rec4'' (dec 377936 (-4)) (dec (-1223930) (-4)) 129 160,
      rec_item ''rec5'' (dec 377831 (-4)) (dec (-1224181) (-4)) 119 140,
      rec_item ''rec6'' (dec 377863 (-4)) (dec (-1224015) (-4)) 149 200]
     @ map (\<lambda>i. let (rate, rate_inc) = (if i mod 3 = 0 then rate_pair i else (135, 179))
                 in rec_item (rec_keys ! nat (i - 1)) (spread_lat i) (spread_lon i) rate rate_inc) [7..80]"

definition password :: "string \<Rightarrow> string" where
  "password user_id = concat (replicate 10 user_id)"

definition user_items :: "(string \<times> json) list" where
  "user_items = map (\<lambda>i. (''Cornell_'' @ int_str i, JStr (password (int_str i)))) [0..500]"

definition ten_places :: json where
  "ten_places = JObj [(''Cap'', JInt 10), (''Customers'', JArr [])]"

definition hotel_items :: "(string \<times> json) list" where
  "hotel_items = map (\<lambda>k. (k, ten_places)) hotel_keys"

definition flight_items :: "(string \<times> json) list" where
  "flight_items = map (\<lambda>k. (k, ten_places)) flight_keys"

definition populate_with_init_data :: "world \<Rightarrow> unit client_op" where
  "populate_with_init_data w =
     pbind (init_data w ''write_string'' True geo_items) (\<lambda>_.
     pbind (init_data w ''write_string'' True rate_items) (\<lambda>_.
     pbind (init_data w ''write_string'' True rec_items) (\<lambda>_.
     pbind (init_data w ''write_string'' True user_items) (\<lambda>_.
     pbind (init_data w ''write_string'' True hotel_items) (\<lambda>_.
     init_data w ''write_string'' True flight_items)))))"

subsection \<open>Registration\<close>

definition write_string_workflow :: "(string \<times> json) list" where
  "write_string_workflow = workflow_json ''write_string''
     [task_json ''write-string'' [(''key'', ''&key:w''), (''value'', ''$value'')]]"

definition search_nearby_workflow :: "(string \<times> json) list" where
  "search_nearby_workflow = workflow_json ''search_nearby''
     [task_json ''nearby''
        [(''geo_keys'', ''&geo_keys:r''), (''lat'', ''$lat''), (''lon'', ''$lon''), (''in_date'', ''$in_date''),
         (''out_date'', ''$out_date''), (''hotel_ids'', ''&_hotel_ids:w'')],
      task_json ''get-rates''
        [(''rate_keys'', ''$rate_keys''), (''in_date'', ''$in_date''), (''out_date'', ''$out_date''),
         (''hotel_ids'', ''&_hotel_ids:w'')]]"

definition recommend_workflow :: "(string \<times> json) list" where
  "recommend_workflow = workflow_json ''recommend''
     [task_json ''get-recommendations''
        [(''requirement'', ''$requirement''), (''lat'', ''$lat''), (''lon'', ''$lon''), (''rec_keys'', ''&rec_keys:r'')]]"

definition user_login_workflow :: "(string \<times> json) list" where
  "user_login_workflow = workflow_json ''user_login''
     [task_json ''get-user'' [(''username'', ''&username''), (''password'', ''$password'')]]"

definition reserve_all_workflow :: "(string \<times> json) list" where
  "reserve_all_workflow = workflow_json ''reserve_all''
     [task_json ''reserve-hotel'' [(''hotel_data'', ''&hotel_id:w'')],
      task_json ''reserve-flight'' [(''flight_data'', ''&flight_id:w'')],
      task_json ''create-order''
        [(''hotel_id'', ''$hotel_id''), (''flight_id'', ''$flight_id''), (''user_id'', ''$user_id''), (''order_key'', ''&key'')]]"

definition deathstar_init :: "world \<Rightarrow> string \<Rightarrow> unit client_op" where
  "deathstar_init w function_dir =
     pbind (register_functions (w_net w) (w_malformed w) (w_fs w)
              [''write-string'', ''reserve-flight'', ''reserve-hotel'', ''nearby'', ''get-rates'', ''create-order'',
               ''get-recommendations'', ''get-user''] function_dir) (\<lambda>_.
     pbind (pmap (register_workflow (w_net w) (w_malformed w))
              [write_string_workflow, search_nearby_workflow, recommend_workflow, user_login_workflow,
               reserve_all_workflow]) (\<lambda>_.
     pbind (populate_with_init_data w) (\<lambda>_.
     note_action (Print ''Data populated with init_data''))))"

subsection \<open>The workload\<close>

definition april_date :: "int \<Rightarrow> string" where
  "april_date d = (if d < 10 then ''2026-04-0'' @ int_str d else ''2026-04-'' @ int_str d)"

definition random_lat :: "int \<Rightarrow> rat" where
  "random_lat k = fadd (dec 380235 (-4)) (fdiv (fsub (of_pyint k) (481 / 2)) 1000)"

definition random_lon :: "int \<Rightarrow> rat" where
  "random_lon k = fadd (dec (-122095) (-3)) (fdiv (fsub (of_pyint k) 157) 1000)"

definition search_hotel :: "rng \<Rightarrow> request draw" where
  "search_hotel g =
     pbind (randint g 9 23) (\<lambda>in_date.
     pbind (randint g (in_date + 1) 24) (\<lambda>out_date.
     pbind (randint g 0 481) (\<lambda>klat.
     pbind (randint g 0 325) (\<lambda>klon.
     ret (''search_nearby'',
          [(''lat'', JFloat (random_lat klat)), (''lon'', JFloat (random_lon klon)),
           (''in_date'', JStr (april_date in_date)), (''out_date'', JStr (april_date out_date)),
           (''_hotel_ids'', JStr ''hotel_ids''), (''geo_keys'', JArr (map JStr geo_keys)),
           (''rate_keys'', JArr (map JStr rate_keys))], None)))))"

definition recommend :: "rng \<Rightarrow> request draw" where
  "recommend g =
     pbind (random_float g) (\<lambda>coin.
     let req_param = (if coin < dec 33 (-2) then ''dis'' else if coin < dec 66 (-2) then ''rate'' else ''price'')
     in pbind (randint g 0 481) (\<lambda>klat.
        pbind (randint g 0 325) (\<lambda>klon.
        ret (''recommend'',
             [(''requirement'', JStr req_param), (''lat'', JFloat (random_lat klat)),
              (''lon'', JFloat (random_lon klon)), (''rec_keys'', JArr (map JStr rec_keys))], None))))"

definition user_login :: "rng \<Rightarrow> request draw" where
  "user_login g =
     pbind (randint g 0 500) (\<lambda>n.
     ret (''user_login'',
          [(''username'', JStr (''Cornell_'' @ int_str n)), (''password'', JStr (password (int_str n)))], None))"

definition reserve_all :: "rng \<Rightarrow> int \<Rightarrow> request draw" where
  "reserve_all g c =
     pbind (randint g 0 (100 - 1)) (\<lambda>hotel_id.
     pbind (randint g 0 (100 - 1)) (\<lambda>flight_id.
     ret (''reserve_all'',
          [(''hotel_id'', JStr (''hotel'' @ int_str hotel_id)), (''flight_id'', JStr (''flight'' @ int_str flight_id)),
           (''user_id'', JStr ''user1''), (''key'', JStr (int_str c))], None)))"

definition deathstar_request :: "rng \<Rightarrow> int \<Rightarrow> request draw" where
  "deathstar_request g c =
     (let search_ratio = dec 6 (-1); recommend_ratio = dec 39 (-2); user_ratio = dec 5 (-3)
      in pbind (random_float g) (\<lambda>coin.
         if coin < search_ratio then search_hotel g
         else if coin < fadd search_ratio recommend_ratio then recommend g
         else if coin < fadd (fadd search_ratio recommend_ratio) user_ratio then user_login g
         else reserve_all g c))"

text \<open>The first \<open>k\<close> requests of the generator from the count \<open>c\<close> on.\<close>

fun deathstar_workload_generator :: "rng \<Rightarrow> nat \<Rightarrow> int \<Rightarrow> nat \<Rightarrow> request py list" where
  "deathstar_workload_generator g 0 c pos = []"
| "deathstar_workload_generator g (Suc k) c pos =
     (case deathstar_request g c pos of
        (Inl e, pos') \<Rightarrow> [Inl e]
      | (Inr r, pos') \<Rightarrow> Inr r # deathstar_workload_generator g k (c + 1) pos')"

subsection \<open>The workers and the main program\<close>

record hotel_process =
  hp_world :: world
  hp_rng :: rng
  hp_epoch_ms :: "nat \<Rightarrow> int"
  hp_elapsed :: "nat \<Rightarrow> rat"

definition hotel_meta :: "(nat \<Rightarrow> int) \<Rightarrow> nat \<Rightarrow> request \<Rightarrow> req_meta" where
  "hotel_meta epoch_ms n r =
     (case r of (wf_id, inp, _) \<Rightarrow>
        \<lparr>m_op = wf_id @ '' : '' @ py_str (JObj inp), m_started = epoch_ms n, m_completed = None, m_latency = None\<rparr>)"

definition hotel_bench :: "hotel_settings \<Rightarrow> hotel_process \<Rightarrow> req_meta bench" where
  "hotel_bench h p =
     (let rs = deathstar_workload_generator (hp_rng p) (nat (h_seconds h) * nat (h_messages_per_second h)) 0 0
      in \<lparr>b_seconds = h_seconds h, b_rate = h_messages_per_second h, b_sleeps_per_second = 10,
          b_sleep_time = JFloat (dec 85 (-4)), b_elapsed = hp_elapsed p,
          b_request = (\<lambda>n. case nth_opt rs n of Some r \<Rightarrow> r | None \<Rightarrow> Inl OtherError),
          b_meta = hotel_meta (hp_epoch_ms p)\<rparr>)"

definition hotel_run_worker :: "environ \<Rightarrow> hotel_settings \<Rightarrow> hotel_process \<Rightarrow> (int, req_meta) pydict py" where
  "hotel_run_worker env h p =
     rbind (client_init env hotel_client_args) (\<lambda>c.
     fst (bench_runner (hp_world p) (hotel_bench h p) \<lparr>self = c, trace = []\<rparr>))"

definition hotel_main ::
  "environ \<Rightarrow> string \<Rightarrow> hotel_settings \<Rightarrow> world \<Rightarrow> (int \<Rightarrow> hotel_process) \<Rightarrow> (csv_row list py \<times> session) py" where
  "hotel_main env function_dir h w procs =
     rbind (client_init env hotel_client_args) (\<lambda>c.
     Inr (client_main w True (deathstar_init w function_dir)
            (run_pool (\<lambda>i. hotel_run_worker env h (procs i)) (h_threads h)) \<lparr>self = c, trace = []\<rparr>))"

definition hotel_program ::
  "environ \<Rightarrow> stats_ops \<Rightarrow> (csv_row list \<Rightarrow> req_row list) \<Rightarrow> string \<Rightarrow> string list \<Rightarrow> world
     \<Rightarrow> (int \<Rightarrow> hotel_process) \<Rightarrow> (string \<times> json) py" where
  "hotel_program env st read_csv function_dir argv w procs =
     rbind (hotel_settings_of argv) (\<lambda>h.
     rbind (hotel_main env function_dir h w procs) (\<lambda>(rows, s).
     rbind rows (\<lambda>rows.
     hotel_metrics_main st (read_csv rows) (h_save_dir h) (h_messages_per_second h) (h_warmup_seconds h) (h_threads h))))"

subsection \<open>Lemmas on the initial data\<close>

lemma keys_split: "[1..80] = [1..6] @ [7..80::int]"
  using upto_split2 [of 1 6 80] by simp

lemma key_nth: "i \<in> set [7..k] \<Longrightarrow> map f [1..k] ! nat (i - 1) = f i"
  by (simp add: nth_upto)

lemma geo_items_keys: "map fst geo_items = geo_keys"
proof -
  have "map (\<lambda>i. geo_keys ! nat (i - 1)) [7..80] = map (\<lambda>i. ''geo'' @ int_str i) [7..80]"
    unfolding geo_keys_def by (intro map_cong refl key_nth)
  then show ?thesis
    by (simp add: geo_items_def fixed_geo_def geo_keys_def keys_split comp_def upto.simps [of 1] upto.simps [of 2]
        upto.simps [of 3] upto.simps [of 4] upto.simps [of 5] upto.simps [of 6])
qed

lemma rec_items_keys: "map fst rec_items = rec_keys"
proof -
  have "map (\<lambda>i. rec_keys ! nat (i - 1)) [7..80] = map (\<lambda>i. ''rec'' @ int_str i) [7..80]"
    unfolding rec_keys_def by (intro map_cong refl key_nth)
  moreover have "int_str 1 = ''1''" "int_str 2 = ''2''" "int_str 3 = ''3''" "int_str 4 = ''4''" "int_str 5 = ''5''" "int_str 6 = ''6''"
    by code_simp+
  ultimately show ?thesis
    by (simp add: rec_items_def rec_item_def rec_keys_def keys_split comp_def upto.simps [of 1] upto.simps [of 2]
        upto.simps [of 3] upto.simps [of 4] upto.simps [of 5] upto.simps [of 6] Let_def split_beta)
qed

lemma stock_items_keys: "map fst hotel_items = hotel_keys" "map fst flight_items = flight_keys"
  "map fst user_items = user_keys"
  by (simp_all add: hotel_items_def flight_items_def user_items_def user_keys_def comp_def)

subsection \<open>Lemmas on the workload\<close>

text \<open>The requests that the workload may hold, against the initial data.\<close>

inductive workload_request :: "int \<Rightarrow> request \<Rightarrow> bool" for c where
  search: "9 \<le> i \<Longrightarrow> i < out \<Longrightarrow> out \<le> 24 \<Longrightarrow>
    workload_request c (''search_nearby'',
          [(''lat'', JFloat lat), (''lon'', JFloat lon),
           (''in_date'', JStr (april_date i)), (''out_date'', JStr (april_date out)),
           (''_hotel_ids'', JStr ''hotel_ids''), (''geo_keys'', JArr (map (JStr \<circ> fst) geo_items)),
           (''rate_keys'', JArr (map JStr rate_keys))], None)"
| recommendation: "q \<in> {''dis'', ''rate'', ''price''} \<Longrightarrow>
    workload_request c (''recommend'',
          [(''requirement'', JStr q), (''lat'', JFloat lat), (''lon'', JFloat lon),
           (''rec_keys'', JArr (map (JStr \<circ> fst) rec_items))], None)"
| login: "(u, JStr p) \<in> set user_items \<Longrightarrow>
    workload_request c (''user_login'', [(''username'', JStr u), (''password'', JStr p)], None)"
| reservation: "h \<in> fst ` set hotel_items \<Longrightarrow> f \<in> fst ` set flight_items \<Longrightarrow>
    workload_request c (''reserve_all'',
          [(''hotel_id'', JStr h), (''flight_id'', JStr f), (''user_id'', JStr ''user1''), (''key'', JStr (int_str c))], None)"

lemma yields_search: "rng_ok g \<Longrightarrow> yields (workload_request c) (search_hotel g)"
  unfolding search_hotel_def geo_items_keys [symmetric] map_map
  by (intro yields_rules search) auto

lemma yields_recommend: "rng_ok g \<Longrightarrow> yields (workload_request c) (recommend g)"
  unfolding recommend_def rec_items_keys [symmetric] map_map Let_def
  by (intro yields_rules recommendation) auto

lemma yields_login: "rng_ok g \<Longrightarrow> yields (workload_request c) (user_login g)"
  unfolding user_login_def by (intro yields_rules login) (auto simp: user_items_def)

lemma yields_reserve: "rng_ok g \<Longrightarrow> yields (workload_request c) (reserve_all g c)"
  unfolding reserve_all_def
  by (intro yields_rules reservation)
    (auto simp: hotel_items_def flight_items_def hotel_keys_def flight_keys_def image_iff)

lemma yields_request: "rng_ok g \<Longrightarrow> yields (workload_request c) (deathstar_request g c)"
  unfolding deathstar_request_def Let_def
  by (intro yields_float) (simp add: yields_search yields_recommend yields_login yields_reserve)

lemma workload_requests:
  "rng_ok g \<Longrightarrow> \<exists>rs. deathstar_workload_generator g k c pos = map Inr rs \<and> length rs = k
     \<and> (\<forall>i<k. workload_request (c + int i) (rs ! i))"
proof (induction k arbitrary: c pos)
  case 0
  then show ?case by simp
next
  case (Suc k)
  from yields_request [OF Suc.prems, of c] obtain r pos' where r: "deathstar_request g c pos = (Inr r, pos')"
    "workload_request c r" unfolding yields_def by blast
  from Suc.IH [OF Suc.prems, of "c + 1" pos'] obtain rs where
    "deathstar_workload_generator g k (c + 1) pos' = map Inr rs" "length rs = k"
    "\<forall>i<k. workload_request (c + 1 + int i) (rs ! i)" by blast
  with r show ?case
    by (intro exI [of _ "r # rs"]) (auto simp: less_Suc_eq_0_disj add.assoc)
qed

subsection \<open>Lemmas on passwords\<close>

lemma takeWhile_all: "list_all P xs \<Longrightarrow> takeWhile P xs = xs \<and> dropWhile P xs = []"
  by (induction xs) auto

lemma digit_facts:
  assumes "is_digit c"
  shows "c \<noteq> quote_char" "c \<noteq> CHR ''{''" "c \<noteq> CHR ''[''" "c \<noteq> CHR ''-''" "c \<noteq> CHR ''n''" "c \<noteq> CHR ''t''" "c \<noteq> CHR ''f''"
    "\<not> is_ws c"
  using assms by (auto simp: is_digit_def is_ws_def)

lemma loads_digits:
  assumes "list_all is_digit (c # cs)" and "c \<noteq> CHR ''0''"
  shows "loads (c # cs) = Inr (JInt (digits_val (c # cs)))"
proof -
  have c: "is_digit c" using assms(1) by simp
  note d = digit_facts [OF c]
  have dw: "dropWhile is_digit cs = []" "takeWhile is_digit cs = cs"
    using takeWhile_all [of is_digit cs] assms(1) by simp_all
  have "scan_number (c # cs) = Some (JInt (digits_val (c # cs)), [])"
    using assms(2) c d
    by (simp add: dw scan_number_def scan_int_part_def scan_frac_def scan_exp_def)
  then have "scan_literal (c # cs) = Some (JInt (digits_val (c # cs)), [])"
    using d by (simp add: scan_literal_def strip_prefix_def)
  then show ?thesis using d by (simp add: loads_def)
qed

lemma password_digits: "0 \<le> n \<Longrightarrow> list_all is_digit (password (int_str n))"
  using dec_str_digits [of n] by (auto simp: password_def int_str_def list_all_iff)

lemma loads_password: "0 < n \<Longrightarrow> \<exists>j. loads (password (int_str n)) = Inr j"
proof -
  assume n: "0 < n"
  obtain c cs where s: "int_str n = c # cs" "c \<noteq> CHR ''0''"
    using n dec_str_hd [OF n] by (cases "dec_str n") (auto simp: int_str_def)
  have "password (int_str n) = c # cs @ concat (replicate 9 (int_str n))"
    by (simp add: password_def s(1) eval_nat_numeral)
  with loads_digits [of c] password_digits [of n] n s(2) show ?thesis by fastforce
qed

lemma loads_password_zero: "loads (password (int_str 0)) = Inl JSONDecodeError"
  by code_simp

subsection \<open>Properties\<close>

text \<open>
  C39: The mixed workload fits the initial data. Whatever the random numbers are, the generator
  yields without end, and its i-th request is a search with a stay of at least one night in April
  2026 over places that were all written, a recommendation over written hotels, a login of a
  written user with the password written for it, or a reservation of a written hotel and flight
  under the order key of its own number.
\<close>

theorem hotel_workload_valid:
  assumes "rng_ok g"
  shows "\<exists>rs. deathstar_workload_generator g k 0 0 = map Inr rs \<and> length rs = k
     \<and> (\<forall>i<k. workload_request (int i) (rs ! i))"
  using workload_requests [OF assms, of k 0 0] by simp

theorem hotel_workload_valid_witness:
  "\<exists>rs. deathstar_workload_generator low_rng 3 0 0 = map Inr rs \<and> length rs = 3
     \<and> (\<forall>i<3. workload_request (int i) (rs ! i))"
  by (rule hotel_workload_valid [OF low_rng_ok])

text \<open>
  C40: One user can never log in. The initial data writes for the user \<open>i\<close> the digits of \<open>i\<close> ten
  times. With \<open>i\<close> from 1 to 500 the text is stored and the login with it succeeds; for the user 0
  it is no JSON text, so \<open>write-string\<close> stores nothing and the login that the workload sends is
  refused.
\<close>

theorem initial_passwords:
  assumes "0 \<le> i" and "u = ''Cornell_'' @ int_str i" and "p = password (int_str i)"
    and "local_resources s u = Some new_resource" and "u \<notin> read_only_resources s"
  shows "\<exists>out s'. write_string_handle host_set (task_event [(''key'', JStr u)] [(''value'', JStr p)]) s = (Inr out, s')
     \<and> get_user_handle (host_get host) msg (task_event [(''username'', JStr u)] [(''password'', JStr p)]) s'
       = (Inr (Output (dumps (if i \<noteq> 0 then JObj [(''success'', JBool True)]
                              else if host then failure_json (msg AttributeError)
                              else JObj [(''success'', JBool False)]))), s')"
proof (cases "i = 0")
  case False
  then obtain j where j: "loads p = Inr j" using loads_password [of i] assms(1,3) by auto
  have "writable u s" using assms(4,5) by (auto simp: writable_def)
  from login_after_write [OF this j, of host msg p] write_string_text(1) [OF j, of host_set u s] False
  show ?thesis by simp
next
  case True
  then have j: "loads p = Inl JSONDecodeError" using assms(3) loads_password_zero by simp
  have p: "p \<noteq> []" using True assms(3) by (simp add: password_def int_str_def)
  have got: "host_get host u s = (if host then None else Some (str_encode []))"
    using assms(4) by (simp add: host_get_def get_resource_def resource_ops new_resource_def str_encode_def)
  then show ?thesis
    using True p write_string_text(2) [OF j, of host_set u s] get_user_stored(1) [of "host_get host" u s "[]" msg p]
      get_user_stored(2) [of "host_get host" u s msg p]
    by (cases host) (simp_all del: dumps.simps)
qed

theorem initial_passwords_witness:
  "\<exists>out s'. write_string_handle host_set
        (task_event [(''key'', JStr (''Cornell_'' @ int_str 0))] [(''value'', JStr (password (int_str 0)))])
        \<lparr>local_resources = [''Cornell_'' @ int_str 0 \<mapsto> new_resource], read_only_resources = {}\<rparr> = (Inr out, s')
     \<and> get_user_handle (host_get False) (\<lambda>_. [])
        (task_event [(''username'', JStr (''Cornell_'' @ int_str 0))] [(''password'', JStr (password (int_str 0)))]) s'
       = (Inr (Output (dumps (JObj [(''success'', JBool False)]))), s')"
  using initial_passwords [of 0 "''Cornell_'' @ int_str 0" "password (int_str 0)"
      "\<lparr>local_resources = [''Cornell_'' @ int_str 0 \<mapsto> new_resource], read_only_resources = {}\<rparr>" False "\<lambda>_. []"]
  by simp

end
