(* ===== verification/NatsWorker.thy ===== *)
theory NatsWorker
  imports ClientMetrics Refinement
begin

section \<open>The worker at its messages\<close>

text \<open>
  \<open>src/nats/worker.cpp\<close> and \<open>src/workflow/status.hpp\<close>: the configuration, the thread that answers
  the core messages, the thread that pulls the invocations, the dispatcher that takes their tasks
  from one queue, and the status that is published when an invocation is complete.

  The NATS library, the JSON parsers and the compiler of functions are not part of the repository:
  the parsers (\<open>nlohmann::json::parse\<close> and the one of \<open>simdjson\<close>), the text of an exception
  and the compiler are parameters. The queue of tasks is a list; a full queue only delays. Printing
  to the standard streams and the pinning of threads are left out.
\<close>

subsection \<open>Configuration\<close>

definition env_or :: "environ \<Rightarrow> string \<Rightarrow> string \<Rightarrow> string" where
  "env_or env k d = (case env k of Some v \<Rightarrow> if v \<noteq> [] then v else d | None \<Rightarrow> d)"

text \<open>\<open>std::atoi\<close>, for numbers in the range of \<open>int\<close>.\<close>

definition is_space :: "char \<Rightarrow> bool" where
  "is_space c = (let n = (of_char c :: nat) in n = 32 \<or> 9 \<le> n \<and> n \<le> 13)"

definition atoi :: "string \<Rightarrow> int" where
  "atoi s =
     (let t = dropWhile is_space s in
      case t of
        [] \<Rightarrow> 0
      | c # u \<Rightarrow> if c = CHR ''-'' then - digits_val (takeWhile is_digit u)
                  else if c = CHR ''+'' then digits_val (takeWhile is_digit u)
                  else digits_val (takeWhile is_digit t))"

definition env_or_int :: "environ \<Rightarrow> string \<Rightarrow> int \<Rightarrow> int" where
  "env_or_int env k d = (case env k of Some v \<Rightarrow> if v \<noteq> [] then atoi v else d | None \<Rightarrow> d)"

record nats_config =
  cfg_url :: string
  cfg_subject :: string
  cfg_stream :: string
  cfg_durable :: string
  batch_size :: int
  fetch_timeout_ms :: int

record worker_settings =
  cfg :: nats_config
  js_invoke :: string
  worker_core_subject :: string
  status_subject :: string
  status_stream :: string
  task_queue_capacity :: int

definition worker_config :: "string \<Rightarrow> environ \<Rightarrow> worker_settings" where
  "worker_config default_url env =
     (let c = \<lparr>cfg_url = env_or env ''NATSURL'' default_url, cfg_subject = env_or env ''SUBJECT'' ''detersl.worker'',
               cfg_stream = env_or env ''STREAM'' ''DETERSL'', cfg_durable = env_or env ''DURABLE'' ''detersl-mt-worker'',
               batch_size = max 1 (env_or_int env ''BATCH_SIZE'' 500),
               fetch_timeout_ms = max 1 (env_or_int env ''FETCH_TIMEOUT_MS'' 3)\<rparr>
      in \<lparr>cfg = c, js_invoke = cfg_subject c @ ''.invoke'',
          worker_core_subject = env_or env ''CORE_SUBJECT'' (cfg_subject c @ ''.core''),
          status_subject = env_or env ''STATUS_SUBJECT'' (env_or env ''METRICS_SUBJECT'' (cfg_subject c @ ''.status'')),
          status_stream = env_or env ''STATUS_STREAM'' (env_or env ''METRICS_STREAM'' (cfg_stream c @ ''_STATUS'')),
          task_queue_capacity = max (batch_size c) (env_or_int env ''INVOKE_QUEUE_CAPACITY'' 100000)\<rparr>)"

subsection \<open>The core messages\<close>

definition error_resp :: "string \<Rightarrow> json" where
  "error_resp msg = JObj [(''status'', JStr ''error''), (''error'', JStr msg)]"

definition ok_resp :: json where
  "ok_resp = JObj [(''status'', JStr ''ok'')]"

datatype task_kind = TaskGetResource | TaskInvoke

record worker_task =
  task_kind :: task_kind
  task_payload :: json
  task_request :: invoke_request
  task_id :: "64 word option"
  task_reply :: string

definition no_request :: invoke_request where
  "no_request = \<lparr>req_workflow_id = [], req_can_abort = True, req_input = []\<rparr>"

text \<open>A message without data has none or an empty text; a reply that is missing or empty is not sent.\<close>

record core_message =
  msg_subject :: string
  msg_data :: bytes
  msg_reply :: string

definition publish_reply :: "string \<Rightarrow> json \<Rightarrow> (string \<times> json) list" where
  "publish_reply reply body = (if reply = [] then [] else [(reply, body)])"

record worker_parts =
  known_functions :: function_registry
  known_workflows :: workflow_registry

definition handler_error :: "(cpperr \<Rightarrow> string) \<Rightarrow> cpperr \<Rightarrow> json" where
  "handler_error what e = error_resp (''handler error: '' @ what e)"

definition registered :: "unit fallible \<Rightarrow> json" where
  "registered r = (case r of Inr _ \<Rightarrow> ok_resp | Inl e \<Rightarrow> error_resp e)"

text \<open>
  One turn of the core thread: the replies, the tasks for the dispatcher, and the registries. The
  operation is what follows \<open><core subject>.\<close> in the subject.
\<close>

definition core_operation ::
    "platform \<Rightarrow> (json \<Rightarrow> unit cpp) \<Rightarrow> (cpperr \<Rightarrow> string) \<Rightarrow> string \<Rightarrow> json \<Rightarrow> string \<Rightarrow> worker_parts
     \<Rightarrow> (json option \<times> worker_task list) cpp \<times> worker_parts" where
  "core_operation p compile what op payload reply w =
     (if op = ''register_wasm'' then
        (case register_wasm_function compile what payload (known_functions w) of
           (Inl e, f) \<Rightarrow> (Inl e, w\<lparr>known_functions := f\<rparr>)
         | (Inr r, f) \<Rightarrow> (Inr (Some (registered r), []), w\<lparr>known_functions := f\<rparr>))
      else if op = ''register_workflow'' then
        (case workflow_from_json payload of
           Inl e \<Rightarrow> (Inl e, w)
         | Inr wfl \<Rightarrow>
             (case register_workflow_graph p (known_functions w) wfl (known_workflows w) of
                (r, ws) \<Rightarrow> (Inr (Some (registered r), []), w\<lparr>known_workflows := ws\<rparr>)))
      else if op = ''get_resource'' then
        (Inr (None, [\<lparr>task_kind = TaskGetResource, task_payload = payload, task_request = no_request, task_id = None,
                      task_reply = reply\<rparr>]), w)
      else (Inr (Some (error_resp (''unsupported op: '' @ op)), []), w))"

definition core_turn ::
    "platform \<Rightarrow> (bytes \<Rightarrow> json cpp) \<Rightarrow> (json \<Rightarrow> unit cpp) \<Rightarrow> (cpperr \<Rightarrow> string) \<Rightarrow> string \<Rightarrow> core_message \<Rightarrow> worker_parts
     \<Rightarrow> (string \<times> json) list \<times> worker_task list \<times> worker_parts" where
  "core_turn p parse compile what core_subj msg w =
     (let core_prefix = core_subj @ ''.''; reply = msg_reply msg in
      case strip_prefix core_prefix (msg_subject msg) of
        None \<Rightarrow> (publish_reply reply (error_resp (''unexpected subject: '' @ msg_subject msg)), [], w)
      | Some op \<Rightarrow>
          if msg_data msg = [] then (publish_reply reply (error_resp ''empty message''), [], w)
          else
            (case parse (msg_data msg) of
               Inl e \<Rightarrow> (publish_reply reply (handler_error what e), [], w)
             | Inr parsed \<Rightarrow>
                 (let payload = (case json_at parsed ''payload'' of Inr v \<Rightarrow> v | Inl _ \<Rightarrow> parsed) in
                  case core_operation p compile what op payload reply w of
                    (Inl e, w') \<Rightarrow> (publish_reply reply (handler_error what e), [], w')
                  | (Inr (None, ts), w') \<Rightarrow> ([], ts, w')
                  | (Inr (Some response, ts), w') \<Rightarrow> (publish_reply reply response, ts, w'))))"

subsection \<open>The invocations\<close>

text \<open>
  A message that was pulled: its number in the stream, if the metadata can be read, and its data.
  What happens to it: a task is appended to the queue, the message is acknowledged.
\<close>

record js_message =
  js_seq :: "64 word option"
  js_data :: bytes

datatype js_action = Enqueue worker_task | Ack

definition invoke_turn :: "(bytes \<Rightarrow> json option) \<Rightarrow> js_message \<Rightarrow> js_action list" where
  "invoke_turn parse_doc msg =
     (case js_seq msg of
        None \<Rightarrow> [Ack]
      | Some seq \<Rightarrow>
          if js_data msg = [] then [Ack]
          else
            (case parse_invoke_request (parse_doc (js_data msg)) of
               Inl e \<Rightarrow> [Ack]
             | Inr req \<Rightarrow>
                 [Enqueue \<lparr>task_kind = TaskInvoke, task_payload = JNull, task_request = req, task_id = Some seq, task_reply = []\<rparr>,
                  Ack]))"

definition invoke_batch :: "(bytes \<Rightarrow> json option) \<Rightarrow> js_message list \<Rightarrow> js_action list" where
  "invoke_batch parse_doc msgs = concat (map (invoke_turn parse_doc) msgs)"

subsection \<open>The dispatcher\<close>

record dispatcher =
  wf_count :: int
  scheduling :: dispatch

definition delete_after_n_wf :: int where
  "delete_after_n_wf = 1000"

text \<open>An answer is the data of a resource or a JSON text. NATS takes no message with an empty subject.\<close>

datatype answer = Data bytes | Body json

definition publish_bytes :: "string \<Rightarrow> bytes \<Rightarrow> (string \<times> answer) list" where
  "publish_bytes reply data = (if reply = [] then [] else [(reply, Data data)])"

definition resource_name :: "json \<Rightarrow> string option cpp" where
  "resource_name payload =
     (case payload of
        JStr s \<Rightarrow> Inr (Some s)
      | _ \<Rightarrow> if json_contains payload ''res_name'' then rbind (rbind (json_at payload ''res_name'') get_string) (\<lambda>s. Inr (Some s))
             else Inr None)"

text \<open>
  One task: the orders to the scheduler, the answers that the dispatcher gives itself, and its
  state. The workflows are those that are registered at this moment, and a cleanup finds the given
  entries in the queue of deleted resources.
\<close>

definition dispatch_turn ::
    "(cpperr \<Rightarrow> string) \<Rightarrow> workflow_registry \<Rightarrow> (string \<times> 64 word) list \<Rightarrow> worker_task \<Rightarrow> dispatcher
     \<Rightarrow> order list \<times> (string \<times> answer) list \<times> dispatcher" where
  "dispatch_turn what wr deleted t st =
     (case task_kind t of
        TaskInvoke \<Rightarrow>
          (let (pre, st1) = (if wf_count st \<ge> delete_after_n_wf
                 then ([Cleanup deleted], \<lparr>wf_count = 0, scheduling = snd (cleanup_resources deleted (scheduling st))\<rparr>)
                 else ([], st));
               (bs, okay, err, d) = scheduling_invoke wr (task_request t) (the (task_id t)) (scheduling st1)
           in (pre @ [Invoke wr (task_request t) (the (task_id t))], [],
               \<lparr>wf_count = (if okay then wf_count st1 + 1 else wf_count st1), scheduling = d\<rparr>))
      | TaskGetResource \<Rightarrow>
          (case resource_name (task_payload t) of
             Inl e \<Rightarrow> ([], map (\<lambda>(r, b). (r, Body b)) (publish_reply (task_reply t) (handler_error what e)), st)
           | Inr None \<Rightarrow> ([], publish_bytes (task_reply t) [], st)
           | Inr (Some n) \<Rightarrow>
               ([GetResource n (task_reply t)],
                if get_resource_async n (task_reply t) (scheduling st) = None then publish_bytes (task_reply t) [] else [], st)))"

text \<open>Each task comes with the workflows and the deleted resources of its moment.\<close>

type_synonym moment = "workflow_registry \<times> (string \<times> 64 word) list \<times> worker_task"

fun dispatch_tasks :: "(cpperr \<Rightarrow> string) \<Rightarrow> moment list \<Rightarrow> dispatcher \<Rightarrow> order list \<times> (string \<times> answer) list \<times> dispatcher" where
  "dispatch_tasks what [] st = ([], [], st)"
| "dispatch_tasks what ((wr, deleted, t) # ms) st =
     (let (rs, as, st1) = dispatch_turn what wr deleted t st;
          (rs', as', st2) = dispatch_tasks what ms st1
      in (rs @ rs', as @ as', st2))"

definition first_dispatcher :: dispatcher where
  "first_dispatcher = \<lparr>wf_count = 0, scheduling = no_dispatch\<rparr>"

subsection \<open>The status of an invocation\<close>

text \<open>\<open>to_json\<close> of a status and \<open>dump\<close>: the library keeps the keys sorted and writes no spaces.\<close>

definition status_json :: "64 word \<Rightarrow> bool \<Rightarrow> 64 word \<Rightarrow> (string \<times> json) list" where
  "status_json i failed completed_at =
     [(''completed_at'', JInt (sint completed_at)), (''failed'', JBool failed), (''request_id'', JInt (uint i))]"

definition dump_member :: "string \<times> json \<Rightarrow> string" where
  "dump_member kv = dump_str (fst kv) @ '':'' @ dumps (snd kv)"

definition dump_flat :: "(string \<times> json) list \<Rightarrow> string" where
  "dump_flat kvs = ''{'' @ str_join '','' (map dump_member kvs) @ ''}''"

definition status_message :: "64 word \<Rightarrow> bool \<Rightarrow> 64 word \<Rightarrow> bytes" where
  "status_message i failed completed_at = str_encode (dump_flat (status_json i failed completed_at))"

subsection \<open>Texts without spaces\<close>

lemma scan_flat_members:
  "list_all (\<lambda>kv. wf_json (snd kv)) kvs \<Longrightarrow> kvs \<noteq> [] \<Longrightarrow> length (str_join '','' (map dump_member kvs)) < f \<Longrightarrow>
     scan_members f (str_join '','' (map dump_member kvs) @ CHR ''}'' # r) = Some (kvs, r)"
proof (induction kvs arbitrary: f rule: induct_list012)
  case 1
  then show ?case by simp
next
  case (2 kv)
  obtain k v where kv: "kv = (k, v)" by (cases kv)
  obtain g where f: "f = Suc g" using 2 by (cases f) auto
  obtain c cs where c: "dumps v = c # cs" "\<not> is_ws c" using dumps_hd [of v] 2 kv by auto
  have "scan_value g (dumps v @ CHR ''}'' # r) = Some (v, CHR ''}'' # r)"
    using 2 kv f by (intro scan_value_dumps(1)) (auto simp: dump_member_def)
  then show ?case using c by (simp add: kv f dump_member_def is_ws_def dump_str_def scan_str_dump)
next
  case (3 kv kv' kvs)
  obtain k v where kv: "kv = (k, v)" by (cases kv)
  obtain g where f: "f = Suc g" using 3 by (cases f) auto
  obtain c cs where c: "dumps v = c # cs" "\<not> is_ws c" using dumps_hd [of v] 3 kv by auto
  define rest where "rest = str_join '','' (map dump_member (kv' # kvs)) @ CHR ''}'' # r"
  obtain ds where ds: "rest = quote_char # ds" by (cases kvs) (auto simp: rest_def dump_member_def dump_str_def)
  have "scan_value g (dumps v @ CHR '','' # rest) = Some (v, CHR '','' # rest)"
    using 3(3,5) kv f by (intro scan_value_dumps(1)) (auto simp: dump_member_def)
  moreover have "scan_members g rest = Some (kv' # kvs, r)"
    unfolding rest_def using 3 f by (intro 3(2)) (auto simp: kv dump_member_def dump_str_def)
  moreover have "str_join '','' (map dump_member (kv # kv' # kvs)) @ CHR ''}'' # r
      = quote_char # concat (map escape_char k) @ quote_char # CHR '':'' # dumps v @ CHR '','' # rest"
    by (simp add: kv dump_member_def [of "(k, v)"] dump_str_def rest_def)
  ultimately show ?case using c ds by (simp add: kv f is_ws_def scan_str_dump del: list.map str_join.simps)
qed

lemma loads_flat:
  assumes "list_all (\<lambda>kv. wf_json (snd kv)) kvs" and "kvs \<noteq> []"
  shows "loads (dump_flat kvs) = Inr (JObj (dict_of kvs))"
proof -
  let ?t = "str_join '','' (map dump_member kvs)"
  obtain ds where ds: "?t @ ''}'' = quote_char # ds"
    using assms(2) by (cases kvs; cases "tl kvs") (auto simp: dump_member_def dump_str_def)
  then have len: "length ds = length ?t" by (metis length_Cons length_append_singleton nat.inject)
  have "scan_members (Suc (Suc (length ?t))) (?t @ CHR ''}'' # []) = Some (kvs, [])"
    using assms by (intro scan_flat_members) simp_all
  then have "scan_members (Suc (Suc (length ds))) (quote_char # ds) = Some (kvs, [])" using ds len by simp
  then show ?thesis by (simp add: loads_def dump_flat_def is_ws_def ds del: scan_members.simps)
qed

subsection \<open>The log of the orders\<close>

definition order_answers :: "dispatch \<Rightarrow> order \<Rightarrow> string list" where
  "order_answers d r = (case r of GetResource n reply \<Rightarrow> if resource_map d n = None then [] else [reply] | _ \<Rightarrow> [])"

definition order_statuses :: "order \<Rightarrow> 64 word list" where
  "order_statuses r = (case r of Invoke wr req i \<Rightarrow> if workflow_find wr (req_workflow_id req) = None then [] else [i] | _ \<Rightarrow> [])"

lemma known_invocation_ok:
  assumes "scheduling_invoke wr req i d = (bs, okay, err, d')" and "dispatch_ok d" and "workflow_find wr (req_workflow_id req) \<noteq> None"
  shows "invocation_ok (invocation_group i (req_can_abort req) (next_cown d) bs d')"
proof -
  note iw = invoked_workflow [OF assms(1,2)]
  have "bs \<noteq> []" using assms(1,3)
    by (auto simp: scheduling_invoke_def schedule_graph_def Let_def split: prod.splits)
  then show ?thesis using iw(2,4) by (auto simp: group_ok_def invocation_group_def)
qed

lemma invocation_log:
  assumes "invocation_ok g"
  shows "map fst (completions (log (serially p exec (g_bs g) s))) = map fst (completions (log s)) @ [g_inv g]"
    and "answers (log (serially p exec (g_bs g) s)) = answers (log s)"
proof -
  obtain body fin where g: "g_bs g = body @ [fin]" "final fin" "inv_of fin = Some (g_inv g)"
    "\<forall>b\<in>set body. body_ok (g_ab g) (g_private g) (commit_cowns fin) b" using assms by (auto simp: invocation_ok_def)
  let ?s = "serially p exec body s"
  have "map fst (completions (log (run p exec fin ?s))) = map fst (completions (log ?s)) @ [g_inv g]
      \<and> answers (log (run p exec fin ?s)) = answers (log ?s)"
    using g(2,3) by (cases fin) (simp_all add: run_def commit_completions)
  then show "map fst (completions (log (serially p exec (g_bs g) s))) = map fst (completions (log s)) @ [g_inv g]"
    "answers (log (serially p exec (g_bs g) s)) = answers (log s)"
    using bodies_completions [OF g(4), of p exec s] by (simp_all add: g(1))
qed

lemma order_log:
  assumes "dispatch_order r d = (g, d')" and "dispatch_ok d"
  shows "map fst (completions (log (serially p exec (g_bs g) s))) = map fst (completions (log s)) @ order_statuses r
     \<and> answers (log (serially p exec (g_bs g) s)) = answers (log s) @ order_answers d r"
proof (cases r)
  case (Invoke wr req i)
  obtain bs okay err where si: "scheduling_invoke wr req i d = (bs, okay, err, d')"
    and g: "g = invocation_group i (req_can_abort req) (next_cown d) bs d'"
    using assms(1) by (auto simp: Invoke split: prod.splits)
  show ?thesis
  proof (cases "workflow_find wr (req_workflow_id req)")
    case None
    then have "bs = []" using si by (simp add: scheduling_invoke_def)
    then show ?thesis using None by (simp add: Invoke g invocation_group_def order_statuses_def order_answers_def)
  next
    case (Some nd)
    then show ?thesis
      using invocation_log [OF known_invocation_ok [OF si assms(2)], of p exec s]
      by (simp add: Invoke g order_statuses_def order_answers_def) (simp add: invocation_group_def)
  qed
next
  case (GetResource n reply)
  then show ?thesis using assms(1)
    by (cases "resource_map d n") (auto simp: get_resource_async_def order_statuses_def order_answers_def run_def)
next
  case (Cleanup q)
  then show ?thesis using assms(1) by (auto simp: order_statuses_def order_answers_def)
qed

fun orders_answers :: "order list \<Rightarrow> dispatch \<Rightarrow> string list" where
  "orders_answers [] d = []"
| "orders_answers (r # rs) d = order_answers d r @ orders_answers rs (snd (dispatch_order r d))"

lemma orders_log:
  "dispatch_orders rs d = (gs, d') \<Longrightarrow> dispatch_ok d \<Longrightarrow>
     map fst (completions (log (serially p exec (behaviours gs) s))) = map fst (completions (log s)) @ concat (map order_statuses rs)
   \<and> answers (log (serially p exec (behaviours gs) s)) = answers (log s) @ orders_answers rs d"
proof (induction rs arbitrary: d gs s)
  case Nil
  then show ?case by simp
next
  case (Cons r rs)
  obtain g d1 where r: "dispatch_order r d = (g, d1)" by (cases "dispatch_order r d")
  obtain gs1 where rs: "dispatch_orders rs d1 = (gs1, d')" and gs: "gs = g # gs1"
    using Cons.prems(1) r by (auto split: prod.splits)
  show ?case
    using Cons.IH [OF rs dispatched_order(1) [OF r Cons.prems(2)]] order_log [OF r Cons.prems(2)] r by (simp add: gs)
qed

lemma answers_mset: "mset es = mset es' \<Longrightarrow> mset (answers es) = mset (answers es')"
proof -
  have "mset (answers xs) = (\<Sum>e\<in>#mset xs. mset (case e of Replied reply b \<Rightarrow> [reply] | _ \<Rightarrow> []))" for xs
    by (induction xs) (auto simp: answers_def)
  then show "mset es = mset es' \<Longrightarrow> mset (answers es) = mset (answers es')" by simp
qed

lemma orders_answers_append: "orders_answers (rs @ rs') d = orders_answers rs d @ orders_answers rs' (snd (dispatch_orders rs d))"
  by (induction rs arbitrary: d) (auto simp: Let_def split: prod.splits)

subsection \<open>The turns of the dispatcher\<close>

definition asked :: "worker_task \<Rightarrow> string list" where
  "asked t = (if task_kind t = TaskGetResource then [task_reply t] else [])"

definition awaited :: "moment \<Rightarrow> 64 word list" where
  "awaited m = (case m of (wr, deleted, t) \<Rightarrow>
     if task_kind t = TaskInvoke \<and> workflow_find wr (req_workflow_id (task_request t)) \<noteq> None then [the (task_id t)] else [])"

text \<open>A task to read a resource names where to send it, an invocation has its number.\<close>

definition sound_task :: "worker_task \<Rightarrow> bool" where
  "sound_task t = (case task_kind t of TaskGetResource \<Rightarrow> task_reply t \<noteq> [] | TaskInvoke \<Rightarrow> task_id t \<noteq> None)"

lemma dispatch_turn_orders:
  assumes "dispatch_turn what wr q t st = (rs, as, st')" and "sound_task t"
  shows "snd (dispatch_orders rs (scheduling st)) = scheduling st'"
    and "map fst as @ orders_answers rs (scheduling st) = asked t"
    and "concat (map order_statuses rs) = awaited (wr, q, t)"
    and "order_ids rs = (if task_kind t = TaskInvoke then [the (task_id t)] else [])"
proof -
  have "snd (dispatch_orders rs (scheduling st)) = scheduling st' \<and> map fst as @ orders_answers rs (scheduling st) = asked t
    \<and> concat (map order_statuses rs) = awaited (wr, q, t)
    \<and> order_ids rs = (if task_kind t = TaskInvoke then [the (task_id t)] else [])"
  proof (cases "task_kind t")
    case TaskGetResource
    then show ?thesis
      using assms
      by (auto simp: dispatch_turn_def sound_task_def asked_def awaited_def publish_reply_def publish_bytes_def
          get_resource_async_def order_answers_def order_statuses_def split: sum.splits option.splits)
  next
    case TaskInvoke
    then show ?thesis
      using assms(1)
      by (auto simp: dispatch_turn_def asked_def awaited_def order_answers_def order_statuses_def Let_def
          split: if_splits prod.splits)
  qed
  then show "snd (dispatch_orders rs (scheduling st)) = scheduling st'" "map fst as @ orders_answers rs (scheduling st) = asked t"
    "concat (map order_statuses rs) = awaited (wr, q, t)"
    "order_ids rs = (if task_kind t = TaskInvoke then [the (task_id t)] else [])" by blast+
qed

definition invoke_ids :: "moment list \<Rightarrow> 64 word list" where
  "invoke_ids ms = concat (map (\<lambda>(wr, q, t). if task_kind t = TaskInvoke then [the (task_id t)] else []) ms)"

lemma dispatched_tasks:
  "dispatch_tasks what ms st = (rs, as, st') \<Longrightarrow> list_all (\<lambda>(wr, q, t). sound_task t) ms \<Longrightarrow>
     snd (dispatch_orders rs (scheduling st)) = scheduling st'
   \<and> mset (map fst as @ orders_answers rs (scheduling st)) = mset (concat (map (\<lambda>(wr, q, t). asked t) ms))
   \<and> concat (map order_statuses rs) = concat (map awaited ms) \<and> order_ids rs = invoke_ids ms"
proof (induction ms arbitrary: st rs as)
  case Nil
  then show ?case by (simp add: invoke_ids_def)
next
  case (Cons m ms)
  obtain wr q t where m: "m = (wr, q, t)" by (metis surj_pair)
  obtain rs1 as1 st1 where t: "dispatch_turn what wr q t st = (rs1, as1, st1)" by (metis surj_pair)
  obtain rs2 as2 where ms: "dispatch_tasks what ms st1 = (rs2, as2, st')" and rs: "rs = rs1 @ rs2" "as = as1 @ as2"
    using Cons.prems(1) t by (auto simp: m split: prod.splits)
  have st: "sound_task t" "list_all (\<lambda>(wr, q, t). sound_task t) ms" using Cons.prems(2) by (simp_all add: m)
  note 1 = dispatch_turn_orders [OF t st(1)] and 2 = Cons.IH [OF ms st(2)]
  have "snd (dispatch_orders rs (scheduling st)) = scheduling st'"
    using 1(1) 2 by (simp add: rs dispatch_orders_append Let_def split_beta)
  moreover have "mset (map fst as @ orders_answers rs (scheduling st))
      = mset (map fst as1 @ orders_answers rs1 (scheduling st)) + mset (map fst as2 @ orders_answers rs2 (scheduling st1))"
    using 1(1) by (simp add: rs orders_answers_append ac_simps)
  then have "mset (map fst as @ orders_answers rs (scheduling st)) = mset (concat (map (\<lambda>(wr, q, t). asked t) (m # ms)))"
    using 1(2) 2 by (simp add: m)
  moreover have "concat (map order_statuses rs) = concat (map awaited (m # ms))" "order_ids rs = invoke_ids (m # ms)"
    using 1(3,4) 2 by (simp_all add: rs order_ids_append invoke_ids_def m)
  ultimately show ?case by blast
qed

fun accepted :: "order list \<Rightarrow> dispatch \<Rightarrow> int" where
  "accepted [] d = 0"
| "accepted (r # rs) d =
     (case r of Invoke wr req i \<Rightarrow> of_bool (fst (snd (scheduling_invoke wr req i d))) | _ \<Rightarrow> 0)
     + accepted rs (snd (dispatch_order r d))"

fun cleanups :: "order list \<Rightarrow> int" where
  "cleanups [] = 0"
| "cleanups (Cleanup q # rs) = 1 + cleanups rs"
| "cleanups (_ # rs) = cleanups rs"

lemma accepted_append: "accepted (rs @ rs') d = accepted rs d + accepted rs' (snd (dispatch_orders rs d))"
  by (induction rs arbitrary: d) (auto simp: Let_def split: prod.splits)

lemma cleanups_append: "cleanups (rs @ rs') = cleanups rs + cleanups rs'"
  by (induction rs rule: cleanups.induct) simp_all

lemma cleanup_turn:
  assumes "dispatch_turn what wr q t st = (rs, as, st')" and "0 \<le> wf_count st" and "wf_count st \<le> 1000"
  shows "snd (dispatch_orders rs (scheduling st)) = scheduling st'"
    and "accepted rs (scheduling st) + wf_count st = 1000 * cleanups rs + wf_count st'"
    and "0 \<le> wf_count st' \<and> wf_count st' \<le> 1000"
proof -
  have "snd (dispatch_orders rs (scheduling st)) = scheduling st'
    \<and> accepted rs (scheduling st) + wf_count st = 1000 * cleanups rs + wf_count st' \<and> 0 \<le> wf_count st' \<and> wf_count st' \<le> 1000"
    using assms
    by (auto simp: dispatch_turn_def delete_after_n_wf_def Let_def split: task_kind.splits if_splits prod.splits sum.splits option.splits)
  then show "snd (dispatch_orders rs (scheduling st)) = scheduling st'"
    "accepted rs (scheduling st) + wf_count st = 1000 * cleanups rs + wf_count st'"
    "0 \<le> wf_count st' \<and> wf_count st' \<le> 1000" by blast+
qed

lemma cleanup_turns:
  "dispatch_tasks what ms st = (rs, as, st') \<Longrightarrow> 0 \<le> wf_count st \<Longrightarrow> wf_count st \<le> 1000 \<Longrightarrow>
     accepted rs (scheduling st) + wf_count st = 1000 * cleanups rs + wf_count st' \<and> 0 \<le> wf_count st' \<and> wf_count st' \<le> 1000"
proof (induction ms arbitrary: st rs as)
  case Nil
  then show ?case by simp
next
  case (Cons m ms)
  obtain wr q t where m: "m = (wr, q, t)" by (metis surj_pair)
  obtain rs1 as1 st1 where t: "dispatch_turn what wr q t st = (rs1, as1, st1)" by (metis surj_pair)
  obtain rs2 as2 where ms: "dispatch_tasks what ms st1 = (rs2, as2, st')" and rs: "rs = rs1 @ rs2"
    using Cons.prems(1) t by (auto simp: m split: prod.splits)
  note 1 = cleanup_turn [OF t Cons.prems(2,3)]
  with Cons.IH [OF ms] show ?case by (simp add: rs accepted_append cleanups_append)
qed

subsection \<open>The core operations\<close>

lemma core_operation_cases:
  assumes "core_operation p compile what op payload reply w = (res, w')"
  obtains (raised) e where "res = Inl e" "w' = w"
  | (queued) t where "res = Inr (None, [t])" "task_kind t = TaskGetResource" "task_reply t = reply" "w' = w"
  | (replied) body where "res = Inr (Some body, [])" "body = ok_resp \<or> w' = w"
proof (cases "op = ''register_wasm''")
  case True
  then show thesis
    using assms that(1,3)
    by (auto simp: core_operation_def register_wasm_function_def registered_def split: sum.splits)
next
  case wasm: False
  show thesis
  proof (cases "op = ''register_workflow''")
    case True
    show thesis
    proof (cases "workflow_from_json payload")
      case (Inl e)
      then show thesis using assms True that(1) by (auto simp: core_operation_def)
    next
      case (Inr wfl)
      obtain r ws where r: "register_workflow_graph p (known_functions w) wfl (known_workflows w) = (r, ws)" by (metis surj_pair)
      have "r = Inr () \<or> ws = known_workflows w"
        using r by (auto simp: register_workflow_graph_def workflow_insert_def split: sum.splits if_splits)
      then show thesis using assms True Inr r that(3) [of "registered r"] by (auto simp: core_operation_def registered_def)
    qed
  next
    case False
    then show thesis using assms wasm that(2,3) by (auto simp: core_operation_def split: if_splits)
  qed
qed

text \<open>What the client publishes, as the worker's parser reads it.\<close>

definition request_of :: "string \<times> (string \<times> json) list \<times> bool option \<Rightarrow> invoke_request \<Rightarrow> bool" where
  "request_of x req = (case x of (w, inp, can_abort) \<Rightarrow>
     req_workflow_id req = w \<and> req_can_abort req = (case can_abort of None \<Rightarrow> True | Some b \<Rightarrow> b)
   \<and> map_of (req_input req) = (\<lambda>k. Option.bind (map_of inp k) parse_input_field))"

definition sendable :: "string \<times> (string \<times> json) list \<times> bool option \<Rightarrow> bool" where
  "sendable x = (case x of (w, inp, can_abort) \<Rightarrow> wf_json (JObj inp) \<and> list_all (\<lambda>(k, v). wire_value v) inp)"

definition invocation_text :: "string \<times> (string \<times> json) list \<times> bool option \<Rightarrow> bytes" where
  "invocation_text x = (case x of (w, inp, can_abort) \<Rightarrow> str_encode (dumps (invocation_payload w inp can_abort)))"

text \<open>The documented behaviour of the parser: it reads the texts that Python's \<open>json\<close> writes.\<close>

definition reads_python :: "(bytes \<Rightarrow> json option) \<Rightarrow> bool" where
  "reads_python parse_doc \<longleftrightarrow> (\<forall>v. wf_json v \<longrightarrow> parse_doc (str_encode (dumps v)) = Some v)"

definition python_reader :: "bytes \<Rightarrow> json option" where
  "python_reader b = (case rbind (bytes_decode b) loads of Inr v \<Rightarrow> Some v | Inl _ \<Rightarrow> None)"

lemma reads_python_reader: "reads_python python_reader"
  by (simp add: reads_python_def python_reader_def loads_dumps)

lemma parsed_invocation:
  assumes "reads_python parse_doc" and "sendable x"
  shows "\<exists>req. parse_invoke_request (parse_doc (invocation_text x)) = Inr req \<and> request_of x req"
proof -
  obtain w inp ca where x: "x = (w, inp, ca)" by (metis surj_pair)
  have "wf_json (invocation_payload w inp ca)"
    using assms(2) by (auto simp: x sendable_def invocation_payload_def split: option.splits)
  then have "parse_doc (invocation_text x) = Some (invocation_payload w inp ca)"
    using assms(1) by (simp add: reads_python_def invocation_text_def x)
  moreover obtain m where m: "read_inputs inp [] = Inr m" "map_of m = (\<lambda>k. Option.bind (map_of inp k) parse_input_field)"
    using read_inputs_Inr [of inp "[]"] assms(2) by (auto simp: x sendable_def)
  ultimately show ?thesis
    by (cases ca) (simp_all add: x parse_invoke_request_def invocation_payload_def request_of_def)
qed

lemma invocation_text_nonempty: "invocation_text x \<noteq> []"
proof -
  have "encode_char CHR ''{'' \<noteq> []" by code_simp
  then show ?thesis by (cases x) (simp add: invocation_text_def invocation_payload_def str_encode_def)
qed

lemma first_set_env:
  "first_set [env k] d = env_or env k d" "first_set [env j, env k] d = env_or env j (env_or env k d)"
  by (auto simp: env_or_def split: option.splits)

subsection \<open>Properties\<close>

text \<open>
  C27: The client and the worker agree on the subjects. In one environment a client without subjects
  of its own publishes to the subject that the worker pulls, unless \<open>SUBJECT\<close> is set to the empty
  text, which the worker takes for unset and the client does not; and then the subjects of the
  registrations and of the statuses agree as well.
\<close>

theorem subjects_agree:
  assumes "client_init env a = Inr c"
    and "arg_base_subject a = None" "arg_core_subject a = None" "arg_invoke_subject a = None" "arg_metrics_subject a = None"
  shows "(invoke_subject c = js_invoke (worker_config default_url env) \<longleftrightarrow> env ''SUBJECT'' \<noteq> Some [])
    \<and> (env ''SUBJECT'' \<noteq> Some [] \<longrightarrow> core_subject c = worker_core_subject (worker_config default_url env)
         \<and> metrics_subject c = status_subject (worker_config default_url env))"
proof -
  let ?b = "env_get env ''SUBJECT'' ''detersl.worker''"
  have c: "core_subject c = env_or env ''CORE_SUBJECT'' (?b @ ''.core'')" "invoke_subject c = ?b @ ''.invoke''"
    "metrics_subject c = env_or env ''STATUS_SUBJECT'' (env_or env ''METRICS_SUBJECT'' (?b @ ''.status''))"
    using assms by (auto simp: client_init_def rbind_Inr_iff Let_def default_base_subject_def first_set_env)
  have w: "worker_core_subject (worker_config default_url env) = env_or env ''CORE_SUBJECT'' (env_or env ''SUBJECT'' ''detersl.worker'' @ ''.core'')"
    "js_invoke (worker_config default_url env) = env_or env ''SUBJECT'' ''detersl.worker'' @ ''.invoke''"
    "status_subject (worker_config default_url env)
       = env_or env ''STATUS_SUBJECT'' (env_or env ''METRICS_SUBJECT'' (env_or env ''SUBJECT'' ''detersl.worker'' @ ''.status''))"
    by (simp_all add: worker_config_def Let_def)
  show ?thesis
  proof (cases "env ''SUBJECT'' = Some []")
    case True
    then show ?thesis by (simp add: c w env_get_def env_or_def)
  next
    case False
    then have "?b = env_or env ''SUBJECT'' ''detersl.worker''" by (auto simp: env_get_def env_or_def split: option.splits)
    then show ?thesis using False by (simp only: c w) simp
  qed
qed

theorem subjects_agree_witness:
  "\<exists>c. client_init [''SUBJECT'' \<mapsto> ''s'']
        (default_args\<lparr>arg_registration_timeout_s := Some (JInt 1), arg_registration_max_retries := Some 1, arg_registration_retry_backoff_s := Some (JInt 1)\<rparr>) = Inr c
     \<and> core_subject c = worker_core_subject (worker_config ''u'' [''SUBJECT'' \<mapsto> ''s''])"
proof -
  let ?a = "default_args\<lparr>arg_registration_timeout_s := Some (JInt 1), arg_registration_max_retries := Some 1, arg_registration_retry_backoff_s := Some (JInt 1)\<rparr>"
  obtain c where c: "client_init [''SUBJECT'' \<mapsto> ''s''] ?a = Inr c" by (simp add: client_init_def Let_def)
  with subjects_agree [OF c, of "''u''"] show ?thesis by (simp add: default_args_def)
qed

text \<open>
  C15: Every core message is answered. A message that names a reply subject leads to one reply of the
  core thread and no task, or to no reply and one task for the dispatcher that carries the reply
  subject; and an error reply has changed neither registry.
\<close>

theorem core_message_answered:
  assumes "core_turn p parse compile what subj msg w = (replies, ts, w')" and "msg_reply msg \<noteq> []"
  shows "(\<exists>body. replies = [(msg_reply msg, body)] \<and> ts = [] \<and> (body \<noteq> ok_resp \<longrightarrow> w' = w))
    \<or> (\<exists>t. replies = [] \<and> ts = [t] \<and> task_kind t = TaskGetResource \<and> task_reply t = msg_reply msg \<and> w' = w)"
proof (cases "strip_prefix (subj @ ''.'') (msg_subject msg) = None \<or> msg_data msg = [] \<or> isl (parse (msg_data msg))")
  case True
  then show ?thesis
    using assms
    by (auto simp: core_turn_def publish_reply_def Let_def split: option.splits sum.splits if_splits)
next
  case False
  then obtain op parsed where op: "strip_prefix (subj @ ''.'') (msg_subject msg) = Some op" "msg_data msg \<noteq> []"
    "parse (msg_data msg) = Inr parsed" by (cases "parse (msg_data msg)") auto
  define payload where "payload = (case json_at parsed ''payload'' of Inr v \<Rightarrow> v | Inl _ \<Rightarrow> parsed)"
  obtain res w1 where co: "core_operation p compile what op payload (msg_reply msg) w = (res, w1)" by (metis surj_pair)
  from core_operation_cases [OF co] assms op co show ?thesis
    by cases (auto simp: core_turn_def payload_def publish_reply_def Let_def)
qed

theorem core_message_answered_witness:
  "\<exists>replies ts w'. core_turn common_platform (\<lambda>b. Inr (JStr ''k'')) (\<lambda>j. Inr ()) (\<lambda>e. []) ''c''
        \<lparr>msg_subject = ''c.get_resource'', msg_data = [0], msg_reply = ''r''\<rparr> \<lparr>known_functions = Map.empty, known_workflows = Map.empty\<rparr>
      = (replies, ts, w')
    \<and> (replies = [] \<and> map task_reply ts = [''r''] \<or> map fst replies = [''r''] \<and> ts = [])"
proof -
  let ?m = "\<lparr>msg_subject = ''c.get_resource'', msg_data = [0], msg_reply = ''r''\<rparr>"
  obtain replies ts w' where t: "core_turn common_platform (\<lambda>b. Inr (JStr ''k'')) (\<lambda>j. Inr ()) (\<lambda>e. []) ''c'' ?m
      \<lparr>known_functions = Map.empty, known_workflows = Map.empty\<rparr> = (replies, ts, w')" by (metis surj_pair)
  with core_message_answered [OF t] show ?thesis by auto
qed

text \<open>
  C13: An invocation arrives as it was sent. The messages of a client, one per invocation with inputs
  that fit the wire (its integers have 64 bits), are pulled in batches of any size: each is
  acknowledged once, after its task was queued, and the tasks carry the workflow, the abort flag
  (true when it was left out), every input under its name, and as id the number in the stream that the
  client was given.
\<close>

theorem invocations_reach_worker:
  assumes "reads_python parse_doc" and "list_all (\<lambda>(seq, x). sendable x) xs"
  shows "\<exists>reqs. list_all2 (\<lambda>(seq, x) req. request_of x req) xs reqs
    \<and> invoke_batch parse_doc (map (\<lambda>(seq, x). \<lparr>js_seq = Some seq, js_data = invocation_text x\<rparr>) xs)
      = concat (map2 (\<lambda>(seq, x) req. [Enqueue \<lparr>task_kind = TaskInvoke, task_payload = JNull, task_request = req,
           task_id = Some seq, task_reply = []\<rparr>, Ack]) xs reqs)"
  using assms(2)
proof (induction xs)
  case Nil
  show ?case by (simp add: invoke_batch_def)
next
  case (Cons y xs)
  obtain seq x where y: "y = (seq, x)" by (cases y)
  obtain req where req: "parse_invoke_request (parse_doc (invocation_text x)) = Inr req" "request_of x req"
    using parsed_invocation [OF assms(1), of x] Cons.prems by (auto simp: y)
  obtain reqs where "list_all2 (\<lambda>(seq, x) req. request_of x req) xs reqs"
    "invoke_batch parse_doc (map (\<lambda>(seq, x). \<lparr>js_seq = Some seq, js_data = invocation_text x\<rparr>) xs)
      = concat (map2 (\<lambda>(seq, x) req. [Enqueue \<lparr>task_kind = TaskInvoke, task_payload = JNull, task_request = req,
           task_id = Some seq, task_reply = []\<rparr>, Ack]) xs reqs)" using Cons by auto
  then show ?case using req
    by (intro exI [of _ "req # reqs"]) (simp add: y invoke_batch_def invoke_turn_def invocation_text_nonempty)
qed

theorem invocations_reach_worker_witness:
  "\<exists>req. req_workflow_id req = ''w'' \<and> req_can_abort req
     \<and> invoke_batch python_reader [\<lparr>js_seq = Some 7, js_data = invocation_text (''w'', [(''n'', JInt 5)], None)\<rparr>]
       = [Enqueue \<lparr>task_kind = TaskInvoke, task_payload = JNull, task_request = req, task_id = Some 7, task_reply = []\<rparr>, Ack]"
proof -
  have "list_all (\<lambda>(seq :: 64 word, x). sendable x) [(7, ''w'', [(''n'', JInt 5)], None)]"
    by (simp add: sendable_def wire_value_def parse_input_field_def Let_def)
  from invocations_reach_worker [OF reads_python_reader this] show ?thesis
    by (auto simp: list_all2_Cons1 request_of_def)
qed

text \<open>
  C14: A published status is understood. The client's handler reads from a status message of the worker
  the id of the invocation, also above 2^63, and records under it the failed flag and the time.
\<close>

theorem status_reaches_client:
  "handle_msg (status_message i failed completed_at) c
   = (Inr (), record_metric (uint i) (JObj (status_json i failed completed_at)) c)"
proof -
  have "loads (dump_flat (status_json i failed completed_at)) = Inr (JObj (dict_of (status_json i failed completed_at)))"
    by (rule loads_flat) (simp_all add: status_json_def)
  also have "dict_of (status_json i failed completed_at) = status_json i failed completed_at" by (simp add: status_json_def)
  finally show ?thesis
    by (simp add: handle_msg_def status_message_def) (simp add: status_json_def coerce_request_id_def)
qed

text \<open>
  C16: Deleted resources are cleaned up in time. From the start of the dispatcher on, the invocations
  that were scheduled without an error number a thousand per cleanup and those counted since: at most
  a thousand invocations are scheduled before the next cleanup, and the counter never overflows.
\<close>

theorem dispatcher_cleans_up:
  assumes "dispatch_tasks what ms first_dispatcher = (rs, as, st)"
  shows "accepted rs no_dispatch = 1000 * cleanups rs + wf_count st \<and> 0 \<le> wf_count st \<and> wf_count st \<le> 1000"
  using cleanup_turns [OF assms] by (simp add: first_dispatcher_def)

definition one_moment :: "moment list" where
  "one_moment =
     [([''w'' \<mapsto> one_task_workflow], [], \<lparr>task_kind = TaskInvoke, task_payload = JNull,
        task_request = \<lparr>req_workflow_id = ''w'', req_can_abort = False, req_input = []\<rparr>, task_id = Some 7, task_reply = []\<rparr>),
      (Map.empty, [], \<lparr>task_kind = TaskGetResource, task_payload = JStr ''x'', task_request = no_request,
        task_id = None, task_reply = ''r''\<rparr>)]"

theorem dispatcher_cleans_up_witness:
  "\<exists>rs as st. dispatch_tasks (\<lambda>e. []) one_moment first_dispatcher = (rs, as, st)
     \<and> accepted rs no_dispatch = 1000 * cleanups rs + wf_count st \<and> 0 \<le> wf_count st \<and> wf_count st \<le> 1000"
proof -
  obtain rs as st where "dispatch_tasks (\<lambda>e. []) one_moment first_dispatcher = (rs, as, st)" by (metis surj_pair)
  with dispatcher_cleans_up [OF this] show ?thesis by blast
qed

text \<open>
  C5: Every request is answered exactly once. Whatever the tasks are, in any interleaving of the
  dispatcher with the executing behaviours, a worker that has come to rest has sent one answer to
  each reply subject of a read, itself or from a behaviour, and has published one status for each
  invocation of a workflow that was registered when it was dispatched, and none for the others.
\<close>

theorem requests_answered_once:
  assumes "function_host exec" and "dispatch_tasks what ms first_dispatcher = (rs, as, st)"
    and "list_all (\<lambda>(wr, deleted, t). sound_task t) ms" and "distinct (invoke_ids ms)"
    and "(worker_step p exec)\<^sup>*\<^sup>* (rs, no_dispatch, [], fresh_store) ([], d, [], s)"
  shows "d = scheduling st
    \<and> mset (map fst as @ answers (log s)) = mset (concat (map (\<lambda>(wr, deleted, t). asked t) ms))
    \<and> mset (map fst (completions (log s))) = mset (concat (map awaited ms))"
proof -
  note t = dispatched_tasks [OF assms(2,3), unfolded first_dispatcher_def, simplified]
  let ?gs = "groups_of rs no_dispatch"
  let ?s = "serially p exec (behaviours ?gs) fresh_store"
  have "distinct (order_ids rs)" using t assms(4) by simp
  then have ser: "same_but (privates ?gs) ?s s"
    using worker_executions [OF assms(5)]
      function_host.executions_schedule [OF assms(1) _ worker_schedule_ok, of p rs fresh_store "[]" s]
    by (simp add: all_behaviours_def config_store_def groups_of_simps)
  then have logs: "mset (log s) = mset (log ?s)" by (simp add: same_but_def)
  have d: "dispatch_orders rs no_dispatch = (?gs, d)"
    using worker_dispatch [OF assms(5)] by (simp add: groups_of_def prod_eq_iff)
  have "dispatch_ok no_dispatch" by (simp add: dispatch_ok_def globals_def no_dispatch_def)
  from orders_log [OF d this, of p exec fresh_store]
  have "map fst (completions (log ?s)) = concat (map order_statuses rs)" "answers (log ?s) = orders_answers rs no_dispatch"
    by (simp_all add: fresh_store_def)
  moreover have "mset (answers (log s)) = mset (answers (log ?s))" "mset (completions (log s)) = mset (completions (log ?s))"
    using logs answers_mset completions_mset by blast+
  ultimately show ?thesis using t d by (metis mset_append mset_map snd_conv)
qed

theorem requests_answered_once_witness:
  "\<exists>rs as st d s. dispatch_tasks (\<lambda>e. []) one_moment first_dispatcher = (rs, as, st)
     \<and> (worker_step common_platform (run_on_host (ycsb_functions True)))\<^sup>*\<^sup>* (rs, no_dispatch, [], fresh_store) ([], d, [], s)
     \<and> mset (map fst as @ answers (log s)) = {#''r''#} \<and> mset (map fst (completions (log s))) = {#7#}"
proof -
  let ?e = "run_on_host (ycsb_functions True)"
  obtain rs as st where dt: "dispatch_tasks (\<lambda>e. []) one_moment first_dispatcher = (rs, as, st)" by (metis surj_pair)
  obtain c where run: "(worker_step common_platform ?e)\<^sup>*\<^sup>* (rs, no_dispatch, [], fresh_store) c" and left: "steps_left c = 0"
    using worker_ends by blast
  obtain rs' d bs s where c: "c = (rs', d, bs, s)" by (metis surj_pair)
  from left have rest: "rs' = []" "bs = []" by (auto simp: c steps_left_def)
  have "list_all (\<lambda>(wr, deleted, t). sound_task t) one_moment" "distinct (invoke_ids one_moment)"
    by (simp_all add: one_moment_def sound_task_def invoke_ids_def)
  from requests_answered_once [OF ycsb_host.function_host_axioms dt this run [unfolded c rest]]
  have "mset (map fst as @ answers (log s)) = {#''r''#} \<and> mset (map fst (completions (log s))) = {#7#}"
    by (simp add: one_moment_def asked_def awaited_def workflow_find_def)
  then show ?thesis using dt run [unfolded c rest]
    by (intro exI [of _ rs] exI [of _ as] exI [of _ st] exI [of _ d] exI [of _ s]) (simp only: simp_thms)
qed

end
