(* ===== verification/NumpyVersion.thy ===== *)
theory NumpyVersion
  imports PyText
begin

section \<open>numpy: versions and the names of its types\<close>

text \<open>
  \<open>numpy/lib/_version.py\<close> and \<open>numpy/core/_string_helpers.py\<close>, the copies under
  \<open>applications/hotel-reservation/function\<close>: the class \<open>NumpyVersion\<close> with its regular expressions
  as scanners, and the case functions that build the names of the types.
\<close>

subsection \<open>Case without a locale\<close>

text \<open>The tables hold all characters below 256, with the letters exchanged.\<close>

definition all_chars :: string where
  "all_chars = map char_of [0..<256::nat]"

definition ascii_upper_chars :: string where
  "ascii_upper_chars = take 26 (drop 65 all_chars)"

definition ascii_lower_chars :: string where
  "ascii_lower_chars = take 26 (drop 97 all_chars)"

definition lower_table :: string where
  "lower_table = take 65 all_chars @ ascii_lower_chars @ drop (65 + 26) all_chars"

definition upper_table :: string where
  "upper_table = take 97 all_chars @ ascii_upper_chars @ drop (97 + 26) all_chars"

text \<open>\<open>str.translate\<close>: a character beyond the table stays, which none of the model's is.\<close>

definition str_translate :: "string \<Rightarrow> string \<Rightarrow> string" where
  "str_translate table s = map (\<lambda>c. if of_char c < length table then table ! of_char c else c) s"

definition english_lower :: "string \<Rightarrow> string" where
  "english_lower s = str_translate lower_table s"

definition english_upper :: "string \<Rightarrow> string" where
  "english_upper s = str_translate upper_table s"

definition english_capitalize :: "string \<Rightarrow> string" where
  "english_capitalize s = (case s of [] \<Rightarrow> s | c # cs \<Rightarrow> english_upper [c] @ cs)"

lemma all_chars_nth: "i < 256 \<Longrightarrow> all_chars ! i = char_of i" "length all_chars = 256"
  by (simp_all add: all_chars_def)

lemma table_nth:
  assumes "i < 256"
  shows "lower_table ! i = char_of (if 65 \<le> i \<and> i \<le> 90 then i + 32 else i)"
    and "upper_table ! i = char_of (if 97 \<le> i \<and> i \<le> 122 then i - 32 else i)"
  using assms
  by (auto simp: lower_table_def upper_table_def ascii_lower_chars_def ascii_upper_chars_def nth_append all_chars_nth)

lemma table_length: "length lower_table = 256" "length upper_table = 256"
  by (simp_all add: lower_table_def upper_table_def ascii_lower_chars_def ascii_upper_chars_def all_chars_nth)

text \<open>Lower and upper case change the 26 letters only, and each by 32.\<close>

lemma english_cases:
  "english_lower s = map (\<lambda>c. let i = of_char c :: nat in char_of (if 65 \<le> i \<and> i \<le> 90 then i + 32 else i)) s"
  "english_upper s = map (\<lambda>c. let i = of_char c :: nat in char_of (if 97 \<le> i \<and> i \<le> 122 then i - 32 else i)) s"
  by (simp_all add: english_lower_def english_upper_def str_translate_def table_nth table_length Let_def del: char_of_nat)

subsection \<open>Reading a version\<close>

record numpy_version =
  vstring :: string
  version :: string
  major :: int
  minor :: int
  bugfix :: int
  pre_release :: string
  is_devversion :: bool

text \<open>\<open>\d+\<close>, and \<open>\d+\.\d+\.\d+\<close> at the start of a text: the three numbers and the rest.\<close>

definition match_digits :: "string \<Rightarrow> (string \<times> string) option" where
  "match_digits s = (case takeWhile is_digit s of [] \<Rightarrow> None | ds \<Rightarrow> Some (ds, dropWhile is_digit s))"

definition match_dot :: "string \<Rightarrow> string option" where
  "match_dot s = (case s of c # cs \<Rightarrow> if c = CHR ''.'' then Some cs else None | [] \<Rightarrow> None)"

definition match_main :: "string \<Rightarrow> (string \<times> string \<times> string \<times> string) option" where
  "match_main s =
     Option.bind (match_digits s) (\<lambda>(a, s). Option.bind (match_dot s) (\<lambda>s.
     Option.bind (match_digits s) (\<lambda>(b, s). Option.bind (match_dot s) (\<lambda>s.
     Option.bind (match_digits s) (\<lambda>(c, s). Some (a, b, c, s))))))"

text \<open>\<open>a\d\<close>, \<open>b\d\<close> and \<open>rc\d\<close>: one digit, whatever follows.\<close>

definition match_tag :: "string \<Rightarrow> string \<Rightarrow> string option" where
  "match_tag tag s =
     (case drop (length tag) s of
        [] \<Rightarrow> None
      | d # ds \<Rightarrow> if take (length tag) s = tag \<and> is_digit d then Some (tag @ [d]) else None)"

definition match_pre_release :: "string \<Rightarrow> string" where
  "match_pre_release s =
     (case filter (\<lambda>m. m \<noteq> None) [match_tag ''a'' s, match_tag ''b'' s, match_tag ''rc'' s] of
        Some m # _ \<Rightarrow> m
      | _ \<Rightarrow> [])"

text \<open>\<open>.dev\<close> anywhere: the point stands for any character but a line feed.\<close>

fun search_dev :: "string \<Rightarrow> bool" where
  "search_dev [] = False"
| "search_dev (c # cs) = (c \<noteq> CHR 0x0A \<and> take 3 cs = ''dev'' \<or> search_dev cs)"

definition numpy_version_of :: "string \<Rightarrow> numpy_version py" where
  "numpy_version_of s =
     (case match_main s of
        None \<Rightarrow> Inl ValueError
      | Some (a, b, c, rest) \<Rightarrow>
          Inr \<lparr>vstring = s, version = a @ ''.'' @ b @ ''.'' @ c,
            major = digits_val a, minor = digits_val b, bugfix = digits_val c,
            pre_release = (if rest = [] then ''final'' else match_pre_release rest),
            is_devversion = search_dev s\<rparr>)"

subsection \<open>Comparing versions\<close>

definition compare_version :: "numpy_version \<Rightarrow> numpy_version \<Rightarrow> int" where
  "compare_version v w =
     (if major v = major w then
        if minor v = minor w then
          if bugfix v = bugfix w then 0
          else if bugfix v > bugfix w then 1
          else -1
        else if minor v > minor w then 1
        else -1
      else if major v > major w then 1
      else -1)"

definition compare_pre_release :: "numpy_version \<Rightarrow> numpy_version \<Rightarrow> int" where
  "compare_pre_release v w =
     (if pre_release v = pre_release w then 0
      else if pre_release v = ''final'' then 1
      else if pre_release w = ''final'' then -1
      else if str_lt (pre_release w) (pre_release v) then 1
      else -1)"

datatype version_operand = VersionText string | Version numpy_version | NoVersion

definition version_operand_of :: "version_operand \<Rightarrow> numpy_version py" where
  "version_operand_of x =
     (case x of VersionText s \<Rightarrow> numpy_version_of s | Version w \<Rightarrow> Inr w | NoVersion \<Rightarrow> Inl ValueError)"

definition compare_parsed :: "numpy_version \<Rightarrow> numpy_version \<Rightarrow> int" where
  "compare_parsed v w =
     (let vercmp = compare_version v w
      in if vercmp = 0 then
           (let vercmp = compare_pre_release v w
            in if vercmp = 0 then
                 if is_devversion v = is_devversion w then 0
                 else if is_devversion v then -1
                 else 1
               else vercmp)
         else vercmp)"

definition compare_with :: "numpy_version \<Rightarrow> version_operand \<Rightarrow> int py" where
  "compare_with v other = rbind (version_operand_of other) (\<lambda>w. Inr (compare_parsed v w))"

definition version_lt :: "numpy_version \<Rightarrow> version_operand \<Rightarrow> bool py" where
  "version_lt v other = rbind (compare_with v other) (\<lambda>c. Inr (c < 0))"

definition version_le :: "numpy_version \<Rightarrow> version_operand \<Rightarrow> bool py" where
  "version_le v other = rbind (compare_with v other) (\<lambda>c. Inr (c \<le> 0))"

definition version_eq :: "numpy_version \<Rightarrow> version_operand \<Rightarrow> bool py" where
  "version_eq v other = rbind (compare_with v other) (\<lambda>c. Inr (c = 0))"

definition version_ne :: "numpy_version \<Rightarrow> version_operand \<Rightarrow> bool py" where
  "version_ne v other = rbind (compare_with v other) (\<lambda>c. Inr (c \<noteq> 0))"

definition version_gt :: "numpy_version \<Rightarrow> version_operand \<Rightarrow> bool py" where
  "version_gt v other = rbind (compare_with v other) (\<lambda>c. Inr (c > 0))"

definition version_ge :: "numpy_version \<Rightarrow> version_operand \<Rightarrow> bool py" where
  "version_ge v other = rbind (compare_with v other) (\<lambda>c. Inr (c \<ge> 0))"

definition version_repr :: "numpy_version \<Rightarrow> string" where
  "version_repr v = ''NumpyVersion('' @ vstring v @ '')''"

text \<open>The parts of a version that are compared, and their order.\<close>

definition release :: "numpy_version \<Rightarrow> int list" where
  "release v = [major v, minor v, bugfix v]"

definition same_version :: "numpy_version \<Rightarrow> numpy_version \<Rightarrow> bool" where
  "same_version v w \<longleftrightarrow> release v = release w \<and> pre_release v = pre_release w \<and> is_devversion v = is_devversion w"

lemmas compare_defs = compare_parsed_def compare_version_def compare_pre_release_def Let_def

lemma compare_range: "compare_parsed v w \<in> {-1, 0, 1}"
  by (simp add: compare_defs)

lemma compare_antisym: "compare_parsed w v = - compare_parsed v w"
  using str_lt_total [of "pre_release v" "pre_release w"] str_lt_trans [of "pre_release v" "pre_release w" "pre_release v"]
  by (auto simp: compare_defs)

lemma compare_zero: "compare_parsed v w = 0 \<longleftrightarrow> same_version v w"
  by (auto simp: compare_defs same_version_def release_def)

text \<open>Less than, part by part.\<close>

definition release_less :: "numpy_version \<Rightarrow> numpy_version \<Rightarrow> bool" where
  "release_less v w \<longleftrightarrow>
     major v < major w \<or> major v = major w \<and> (minor v < minor w \<or> minor v = minor w \<and> bugfix v < bugfix w)"

definition pre_release_less :: "string \<Rightarrow> string \<Rightarrow> bool" where
  "pre_release_less s t \<longleftrightarrow> s \<noteq> ''final'' \<and> (t = ''final'' \<or> str_lt s t)"

lemma release_less_trans: "release_less u v \<Longrightarrow> release_less v w \<Longrightarrow> release_less u w"
  unfolding release_less_def by linarith

lemma release_less_same:
  "release u = release v \<Longrightarrow> release_less u w = release_less v w"
  "release u = release v \<Longrightarrow> release_less w u = release_less w v"
  by (simp_all add: release_less_def release_def)

lemma pre_release_less_trans: "pre_release_less s t \<Longrightarrow> pre_release_less t r \<Longrightarrow> pre_release_less s r"
  unfolding pre_release_less_def using str_lt_trans by blast

lemma compare_negative:
  "compare_parsed v w < 0 \<longleftrightarrow>
     release_less v w \<or> release v = release w \<and> (pre_release_less (pre_release v) (pre_release w)
       \<or> pre_release v = pre_release w \<and> is_devversion v \<and> \<not> is_devversion w)"
proof (cases "release v = release w \<and> pre_release v \<noteq> pre_release w")
  case True
  then show ?thesis
    using str_lt_total [of "pre_release v" "pre_release w"] str_lt_trans [of "pre_release v" "pre_release w" "pre_release v"]
    by (auto simp: compare_defs release_def release_less_def pre_release_less_def)
next
  case False
  then show ?thesis
    by (simp add: compare_defs release_def release_less_def pre_release_less_def)
qed

lemma compare_trans: "compare_parsed u v < 0 \<Longrightarrow> compare_parsed v w < 0 \<Longrightarrow> compare_parsed u w < 0"
  unfolding compare_negative
  using release_less_trans [of u v w] release_less_same [of u v w] release_less_same [of v w u]
    pre_release_less_trans [of "pre_release u" "pre_release v" "pre_release w"]
  by metis

text \<open>
  The comparison of versions is an order: it depends on the three numbers, the pre-release and the
  development flag only, exchanging the two sides exchanges the result, and less than is transitive.
  An object that is neither a text nor a version, and a text without three numbers, are refused.
\<close>

lemma numpy_versions_ordered:
  shows "compare_with v (Version v') = Inr (compare_parsed v v')"
    and "compare_parsed v' v = - compare_parsed v v'"
    and "(compare_parsed v v' = 0) = same_version v v'"
    and "compare_parsed u v < 0 \<and> compare_parsed v v' < 0 \<Longrightarrow> compare_parsed u v' < 0"
    and "compare_with v NoVersion = Inl ValueError"
    and "match_main s = None \<Longrightarrow> compare_with v (VersionText s) = Inl ValueError"
proof -
  show "compare_parsed v' v = - compare_parsed v v'" by (rule compare_antisym)
  show "(compare_parsed v v' = 0) = same_version v v'" by (rule compare_zero)
  show "compare_parsed u v < 0 \<and> compare_parsed v v' < 0 \<Longrightarrow> compare_parsed u v' < 0" using compare_trans by blast
qed (simp_all add: compare_with_def version_operand_of_def numpy_version_of_def)

text \<open>The number of a pre-release is its first digit: the tenth equals the first.\<close>

lemma tenth_alpha_is_first:
  "rbind (numpy_version_of ''1.8.0a10'') (\<lambda>v. version_eq v (VersionText ''1.8.0a1'')) = Inr True"
  by code_simp

lemma version_examples:
  "rbind (numpy_version_of ''1.8.0rc1'') (\<lambda>v. version_lt v (VersionText ''1.8.0'')) = Inr True"
  "rbind (numpy_version_of ''1.8.0.dev-f1234afa'') (\<lambda>v. version_lt v (VersionText ''1.8.0a1'')) = Inr True"
  "numpy_version_of ''1.7'' = Inl ValueError"
  by code_simp+

end
