(* ===== verification/WitTypes.thy ===== *)
theory WitTypes
  imports PyCore
begin

section \<open>The generated interface of the functions: \<open>wit_world\<close>\<close>

text \<open>
  The Python modules that \<open>componentize-py\<close> generates from the interface description of the
  worker; the repository holds three identical copies, and the ones under
  \<open>applications/ycsb\<close> are modelled. A variant is a datatype whose constructors are the
  source's dataclasses (whose equality is structural), a payload class is a record-like datatype.
  A resource class is a datatype of the calls of its methods: in the modules as they stand in
  the repository every method raises \<open>NotImplementedError\<close>, except \<open>__enter__\<close>, which
  returns its object. The functions only use the imports \<open>get\<close> and \<open>set\<close>, which the worker
  replaces (\<open>FunctionApi\<close>, \<open>Storage\<close>).
\<close>

subsection \<open>Results and the key-value imports\<close>

datatype 'a wit_some = Some_value 'a

datatype ('a, 'e) wit_result = Ok 'a | Err 'e

datatype kv_import = Kv_get string | Kv_set string bytes | Kv_delete string

definition kv_stub :: "kv_import \<Rightarrow> 'a py" where
  "kv_stub c = Inl NotImplementedError"

text \<open>An object of a resource class is known by its handle.\<close>

type_synonym handle = nat

datatype func_handler_call = FuncHandler_handle string

definition func_handler_stub :: "func_handler_call \<Rightarrow> string py" where
  "func_handler_stub c = Inl NotImplementedError"

definition outgoing_handler_stub :: "handle \<Rightarrow> handle py" where
  "outgoing_handler_stub request = Inl NotImplementedError"

definition poll_stub :: "handle list \<Rightarrow> int list py" where
  "poll_stub pollables = Inl NotImplementedError"

subsection \<open>Methods, schemes and errors of HTTP\<close>

datatype dns_error_payload = DnsErrorPayload "string option" "int option"

datatype tls_alert_received_payload = TlsAlertReceivedPayload "int option" "string option"

datatype field_size_payload = FieldSizePayload "string option" "int option"

type_synonym wit_error = handle

datatype wit_method =
    Method_Get
  | Method_Head
  | Method_Post
  | Method_Put
  | Method_Delete
  | Method_Connect
  | Method_Options
  | Method_Trace
  | Method_Patch
  | Method_Other string

datatype scheme =
    Scheme_Http
  | Scheme_Https
  | Scheme_Other string

datatype error_code =
    ErrorCode_DnsTimeout
  | ErrorCode_DnsError dns_error_payload
  | ErrorCode_DestinationNotFound
  | ErrorCode_DestinationUnavailable
  | ErrorCode_DestinationIpProhibited
  | ErrorCode_DestinationIpUnroutable
  | ErrorCode_ConnectionRefused
  | ErrorCode_ConnectionTerminated
  | ErrorCode_ConnectionTimeout
  | ErrorCode_ConnectionReadTimeout
  | ErrorCode_ConnectionWriteTimeout
  | ErrorCode_ConnectionLimitReached
  | ErrorCode_TlsProtocolError
  | ErrorCode_TlsCertificateError
  | ErrorCode_TlsAlertReceived tls_alert_received_payload
  | ErrorCode_HttpRequestDenied
  | ErrorCode_HttpRequestLengthRequired
  | ErrorCode_HttpRequestBodySize "int option"
  | ErrorCode_HttpRequestMethodInvalid
  | ErrorCode_HttpRequestUriInvalid
  | ErrorCode_HttpRequestUriTooLong
  | ErrorCode_HttpRequestHeaderSectionSize "int option"
  | ErrorCode_HttpRequestHeaderSize "field_size_payload option"
  | ErrorCode_HttpRequestTrailerSectionSize "int option"
  | ErrorCode_HttpRequestTrailerSize field_size_payload
  | ErrorCode_HttpResponseIncomplete
  | ErrorCode_HttpResponseHeaderSectionSize "int option"
  | ErrorCode_HttpResponseHeaderSize field_size_payload
  | ErrorCode_HttpResponseBodySize "int option"
  | ErrorCode_HttpResponseTrailerSectionSize "int option"
  | ErrorCode_HttpResponseTrailerSize field_size_payload
  | ErrorCode_HttpResponseTransferCoding "string option"
  | ErrorCode_HttpResponseContentCoding "string option"
  | ErrorCode_HttpResponseTimeout
  | ErrorCode_HttpUpgradeFailed
  | ErrorCode_HttpProtocolError
  | ErrorCode_LoopDetected
  | ErrorCode_ConfigurationError
  | ErrorCode_InternalError "string option"

datatype header_error =
    HeaderError_InvalidSyntax
  | HeaderError_Forbidden
  | HeaderError_Immutable

subsection \<open>Resources of HTTP\<close>

datatype fields_call =
    Fields_init
  | Fields_from_list "(string \<times> bytes) list"
  | Fields_get string
  | Fields_has string
  | Fields_set string "bytes list"
  | Fields_delete string
  | Fields_append string bytes
  | Fields_entries
  | Fields_clone
  | Fields_enter
  | Fields_exit

definition fields_call_result :: "handle \<Rightarrow> fields_call \<Rightarrow> handle py" where
  "fields_call_result self c = (case c of Fields_enter \<Rightarrow> Inr self | _ \<Rightarrow> Inl NotImplementedError)"

datatype outgoing_body_call =
    OutgoingBody_write
  | OutgoingBody_finish handle "handle option"
  | OutgoingBody_enter
  | OutgoingBody_exit

definition outgoing_body_call_result :: "handle \<Rightarrow> outgoing_body_call \<Rightarrow> handle py" where
  "outgoing_body_call_result self c = (case c of OutgoingBody_enter \<Rightarrow> Inr self | _ \<Rightarrow> Inl NotImplementedError)"

datatype outgoing_request_call =
    OutgoingRequest_init handle
  | OutgoingRequest_body
  | OutgoingRequest_method
  | OutgoingRequest_set_method wit_method
  | OutgoingRequest_path_with_query
  | OutgoingRequest_set_path_with_query "string option"
  | OutgoingRequest_scheme
  | OutgoingRequest_set_scheme "scheme option"
  | OutgoingRequest_authority
  | OutgoingRequest_set_authority "string option"
  | OutgoingRequest_headers
  | OutgoingRequest_enter
  | OutgoingRequest_exit

definition outgoing_request_call_result :: "handle \<Rightarrow> outgoing_request_call \<Rightarrow> handle py" where
  "outgoing_request_call_result self c = (case c of OutgoingRequest_enter \<Rightarrow> Inr self | _ \<Rightarrow> Inl NotImplementedError)"

datatype future_trailers_call =
    FutureTrailers_get
  | FutureTrailers_enter
  | FutureTrailers_exit

definition future_trailers_call_result :: "handle \<Rightarrow> future_trailers_call \<Rightarrow> handle py" where
  "future_trailers_call_result self c = (case c of FutureTrailers_enter \<Rightarrow> Inr self | _ \<Rightarrow> Inl NotImplementedError)"

datatype incoming_body_call =
    IncomingBody_stream
  | IncomingBody_finish handle
  | IncomingBody_enter
  | IncomingBody_exit

definition incoming_body_call_result :: "handle \<Rightarrow> incoming_body_call \<Rightarrow> handle py" where
  "incoming_body_call_result self c = (case c of IncomingBody_enter \<Rightarrow> Inr self | _ \<Rightarrow> Inl NotImplementedError)"

datatype incoming_response_call =
    IncomingResponse_status
  | IncomingResponse_headers
  | IncomingResponse_consume
  | IncomingResponse_enter
  | IncomingResponse_exit

definition incoming_response_call_result :: "handle \<Rightarrow> incoming_response_call \<Rightarrow> handle py" where
  "incoming_response_call_result self c = (case c of IncomingResponse_enter \<Rightarrow> Inr self | _ \<Rightarrow> Inl NotImplementedError)"

datatype future_incoming_response_call =
    FutureIncomingResponse_get
  | FutureIncomingResponse_enter
  | FutureIncomingResponse_exit

definition future_incoming_response_call_result :: "handle \<Rightarrow> future_incoming_response_call \<Rightarrow> handle py" where
  "future_incoming_response_call_result self c = (case c of FutureIncomingResponse_enter \<Rightarrow> Inr self | _ \<Rightarrow> Inl NotImplementedError)"

subsection \<open>Streams, errors and polling\<close>

datatype stream_error =
    StreamError_LastOperationFailed wit_error
  | StreamError_Closed

datatype input_stream_call =
    InputStream_read int
  | InputStream_blocking_read int
  | InputStream_skip int
  | InputStream_blocking_skip int
  | InputStream_subscribe
  | InputStream_enter
  | InputStream_exit

definition input_stream_call_result :: "handle \<Rightarrow> input_stream_call \<Rightarrow> handle py" where
  "input_stream_call_result self c = (case c of InputStream_enter \<Rightarrow> Inr self | _ \<Rightarrow> Inl NotImplementedError)"

datatype output_stream_call =
    OutputStream_check_write
  | OutputStream_write bytes
  | OutputStream_blocking_write_and_flush bytes
  | OutputStream_flush
  | OutputStream_blocking_flush
  | OutputStream_subscribe
  | OutputStream_write_zeroes int
  | OutputStream_blocking_write_zeroes_and_flush int
  | OutputStream_splice handle int
  | OutputStream_blocking_splice handle int
  | OutputStream_enter
  | OutputStream_exit

definition output_stream_call_result :: "handle \<Rightarrow> output_stream_call \<Rightarrow> handle py" where
  "output_stream_call_result self c = (case c of OutputStream_enter \<Rightarrow> Inr self | _ \<Rightarrow> Inl NotImplementedError)"

datatype error_call =
    Error_to_debug_string
  | Error_enter
  | Error_exit

definition error_call_result :: "handle \<Rightarrow> error_call \<Rightarrow> handle py" where
  "error_call_result self c = (case c of Error_enter \<Rightarrow> Inr self | _ \<Rightarrow> Inl NotImplementedError)"

datatype pollable_call =
    Pollable_ready
  | Pollable_block
  | Pollable_enter
  | Pollable_exit

definition pollable_call_result :: "handle \<Rightarrow> pollable_call \<Rightarrow> handle py" where
  "pollable_call_result self c = (case c of Pollable_enter \<Rightarrow> Inr self | _ \<Rightarrow> Inl NotImplementedError)"

end
