(* ===== verification/Zipf.thy ===== *)
theory Zipf
  imports PyText
begin

section \<open>The Zipfian generator of the YCSB workload\<close>

text \<open>
  \<open>applications/ycsb/zipfian_generator.py\<close>. The power function of the C library is the
  argument \<open>fpow\<close>, which may raise; the random numbers are arguments of the steps.
\<close>

type_synonym fpow = "rat \<Rightarrow> rat \<Rightarrow> rat py"

record zipf =
  z_max :: int
  z_min :: int
  z_items :: int
  z_constant :: rat
  z_zeta :: rat
  z_base :: int
  z_theta :: rat
  z_alpha :: rat
  z_count_for_zeta :: int
  z_eta :: rat

definition py_fdiv :: "rat \<Rightarrow> rat \<Rightarrow> rat py" where
  "py_fdiv x y = (if y = 0 then Inl ZeroDivisionError else Inr (fdiv x y))"

fun zeta_sum :: "fpow \<Rightarrow> nat \<Rightarrow> int \<Rightarrow> rat \<Rightarrow> rat \<Rightarrow> rat py" where
  "zeta_sum fpow 0 st theta s = Inr s"
| "zeta_sum fpow (Suc k) st theta s =
     rbind (fpow (of_pyint (st + 1)) theta) (\<lambda>p. rbind (py_fdiv 1 p) (\<lambda>q.
       zeta_sum fpow k (st + 1) theta (fadd s q)))"

text \<open>The call with two parameters: the sum over \<open>range(0, n)\<close>.\<close>

definition zeta_static :: "fpow \<Rightarrow> int \<Rightarrow> rat \<Rightarrow> rat py" where
  "zeta_static fpow n theta = zeta_sum fpow (nat n) 0 theta 0"

definition zipf_next :: "fpow \<Rightarrow> zipf \<Rightarrow> rat \<Rightarrow> int py" where
  "zipf_next fpow z u =
     (let uz = fmul u (z_zeta z)
      in if uz < 1 then Inr (z_base z)
         else rbind (fpow (1 / 2) (z_theta z)) (\<lambda>h.
              if uz < fadd 1 h then Inr (z_base z + 1)
              else rbind (fpow (fadd (fsub (fmul (z_eta z) u) (z_eta z)) 1) (z_alpha z)) (\<lambda>p.
                   Inr (z_base z + rat_trunc (fmul (of_pyint (z_items z)) p)))))"

text \<open>
  The constructor: \<open>items\<close> or the bounds \<open>mn\<close> and \<open>mx\<close>. It divides by \<open>items\<close> also when only
  the bounds were given, and it draws one number.
\<close>

definition zipf_init ::
  "fpow \<Rightarrow> int option \<Rightarrow> int \<Rightarrow> int \<Rightarrow> rat option \<Rightarrow> rat \<Rightarrow> zipf py" where
  "zipf_init fpow items mn mx zipf_const u =
     (let lo = (case items of Some n \<Rightarrow> 0 | None \<Rightarrow> mn);
          hi = (case items of Some n \<Rightarrow> n - 1 | None \<Rightarrow> mx);
          theta = (case zipf_const of Some c \<Rightarrow> c | None \<Rightarrow> dec 99 (-2))
      in rbind (zeta_static fpow (hi - lo + 1) theta) (\<lambda>zeta.
         rbind (zeta_static fpow 2 theta) (\<lambda>zeta2theta.
         rbind (py_fdiv 1 (fsub 1 theta)) (\<lambda>alpha.
         rbind (of_option TypeError items) (\<lambda>n.
         rbind (py_fdiv 2 (of_pyint n)) (\<lambda>r.
         rbind (fpow r (fsub 1 theta)) (\<lambda>p.
         rbind (py_fdiv zeta2theta zeta) (\<lambda>q.
         rbind (py_fdiv (fsub 1 p) (fsub 1 q)) (\<lambda>eta.
         let z = \<lparr>z_max = hi, z_min = lo, z_items = hi - lo + 1, z_constant = theta, z_zeta = zeta,
                  z_base = lo, z_theta = theta, z_alpha = alpha, z_count_for_zeta = n, z_eta = eta\<rparr>
         in rbind (zipf_next fpow z u) (\<lambda>_. Inr z))))))))))"

subsection \<open>Choosing the two accounts of a transfer\<close>

text \<open>
  \<open>while key2 == key\<close>: draw until the key differs. \<open>draws\<close> are the indices that the Zipfian
  generator yields from position \<open>n\<close> on; \<open>None\<close> stands for a loop that never ends.
\<close>

partial_function (option) draw_other ::
  "int list \<Rightarrow> int \<Rightarrow> (nat \<Rightarrow> int py) \<Rightarrow> nat \<Rightarrow> (int \<times> nat) py option" where
  "draw_other keys key draws n =
     (case rbind (draws n) (py_index keys) of
        Inl e \<Rightarrow> Some (Inl e)
      | Inr key2 \<Rightarrow> if key2 = key then draw_other keys key draws (n + 1) else Some (Inr (key2, n + 1)))"

definition next_transfer ::
  "int list \<Rightarrow> int py \<Rightarrow> (nat \<Rightarrow> int py) \<Rightarrow> nat \<Rightarrow> ((string \<times> string \<times> string) \<times> nat) py option" where
  "next_transfer keys uniform draws n =
     (case rbind uniform (py_index keys) of
        Inl e \<Rightarrow> Some (Inl e)
      | Inr key \<Rightarrow> map_option (\<lambda>r. rbind r (\<lambda>(key2, m).
          Inr ((''yscb_transfer'', int_str key, int_str key2), m))) (draw_other keys key draws n))"

definition differs :: "int list \<Rightarrow> int \<Rightarrow> nat \<Rightarrow> (int \<times> nat) py \<Rightarrow> bool" where
  "differs keys key n r = (case r of Inl e \<Rightarrow> True | Inr (k, m) \<Rightarrow> k \<noteq> key \<and> k \<in> set keys \<and> n < m)"

lemma draw_other_differs:
  assumes "draw_other keys key draws n = Some r"
  shows "differs keys key n r"
proof (rule draw_other.raw_induct [where P = "\<lambda>keys key draws n r. differs keys key n r", OF _ assms])
  fix loop :: "int list \<Rightarrow> int \<Rightarrow> (nat \<Rightarrow> int py) \<Rightarrow> nat \<Rightarrow> (int \<times> nat) py option" and keys key draws n r
  assume IH: "\<And>keys key draws n r. loop keys key draws n = Some r \<Longrightarrow> differs keys key n r"
    and step: "(case rbind (draws n) (py_index keys) of
        Inl e \<Rightarrow> Some (Inl e)
      | Inr key2 \<Rightarrow> if key2 = key then loop keys key draws (n + 1) else Some (Inr (key2, n + 1))) = Some r"
  show "differs keys key n r"
  proof (cases "rbind (draws n) (py_index keys)")
    case (Inl e)
    with step show ?thesis by (auto simp: differs_def)
  next
    case (Inr key2)
    then have mem: "key2 \<in> set keys"
      by (auto simp: rbind_Inr_iff py_index_def Let_def split: if_splits)
    show ?thesis
    proof (cases "key2 = key")
      case True
      with step Inr have "loop keys key draws (n + 1) = Some r" by simp
      from IH [OF this] show ?thesis by (auto simp: differs_def split: sum.splits)
    next
      case False
      with step Inr mem show ?thesis by (auto simp: differs_def)
    qed
  qed
qed

lemma draw_other_ends:
  assumes "draw_other keys key draws n = Some r"
  shows "\<exists>i. rbind (draws i) (py_index keys) \<noteq> Inr key"
proof (rule draw_other.raw_induct
    [where P = "\<lambda>keys key draws n r. \<exists>i. rbind (draws i) (py_index keys) \<noteq> Inr key", OF _ assms])
  fix loop :: "int list \<Rightarrow> int \<Rightarrow> (nat \<Rightarrow> int py) \<Rightarrow> nat \<Rightarrow> (int \<times> nat) py option" and keys key draws n r
  assume IH: "\<And>keys key draws n r. loop keys key draws n = Some r \<Longrightarrow> \<exists>i. rbind (draws i) (py_index keys) \<noteq> Inr key"
    and step: "(case rbind (draws n) (py_index keys) of
        Inl e \<Rightarrow> Some (Inl e)
      | Inr key2 \<Rightarrow> if key2 = key then loop keys key draws (n + 1) else Some (Inr (key2, n + 1))) = Some r"
  show "\<exists>i. rbind (draws i) (py_index keys) \<noteq> Inr key"
  proof (cases "rbind (draws n) (py_index keys) = Inr key")
    case True
    with step have "loop keys key draws (n + 1) = Some r" by simp
    from IH [OF this] show ?thesis .
  qed blast
qed

lemma draw_other_stuck:
  "(\<And>i. rbind (draws i) (py_index keys) = Inr key) \<Longrightarrow> draw_other keys key draws n = None"
  using draw_other_ends [of keys key draws n] by (meson not_None_eq)

lemma next_transfer_shape:
  assumes t: "next_transfer keys uniform draws n = Some (Inr ((w, a, b), m))"
  shows "w = ''yscb_transfer'' \<and> a \<noteq> b \<and> n < m
      \<and> (\<exists>j\<in>set keys. \<exists>k\<in>set keys. a = int_str j \<and> b = int_str k)"
proof -
  obtain key where key: "rbind uniform (py_index keys) = Inr key"
    using t by (auto simp: next_transfer_def split: sum.splits)
  with t obtain key2 where k2: "draw_other keys key draws n = Some (Inr (key2, m))"
    "w = ''yscb_transfer''" "a = int_str key" "b = int_str key2"
    by (auto simp: next_transfer_def rbind_Inr_iff)
  have "key \<in> set keys" using key by (auto simp: rbind_Inr_iff py_index_def Let_def split: if_splits)
  with k2 draw_other_differs [OF k2(1), unfolded differs_def] show ?thesis by auto
qed

lemma next_transfer_single:
  "(\<And>i. draws i = Inr 0) \<Longrightarrow> next_transfer [key] (Inr 0) draws n = None"
  using draw_other_stuck [of draws "[key]" key n] by (simp add: next_transfer_def py_index_def)

subsection \<open>Properties\<close>

text \<open>
  Two accounts break the generator. With exactly two items both quotients of the
  constructor are one, and the division by their difference raises, for every power function
  and every exponent. And a generator can only be built from a number of items: with bounds
  alone the constructor always raises.
\<close>

lemma zipf_two_items_raises:
  assumes "zeta_static fpow 2 theta = Inr z" and "z \<noteq> 0" and "fsub 1 theta \<noteq> 0"
    and "fpow 1 (fsub 1 theta) = Inr p"
  shows "zipf_init fpow (Some 2) mn mx (Some theta) u = Inl ZeroDivisionError
    \<and> (\<forall>z. zipf_init fpow None mn mx c u \<noteq> Inr z)"
proof -
  have "zipf_init fpow None mn mx c u \<noteq> Inr z" for z
    by (simp add: zipf_init_def rbind_Inr_iff Let_def)
  moreover
  have "fdiv 2 (of_pyint 2) = 1" "fdiv z z = 1"
    using assms(2) by (simp_all add: of_pyint_exact fdiv_def)
  then have "zipf_init fpow (Some 2) mn mx (Some theta) u = Inl ZeroDivisionError"
    using assms by (simp add: zipf_init_def py_fdiv_def fsub_def of_pyint_exact Let_def)
  ultimately show ?thesis by blast
qed

text \<open>
  C35: A transfer names two different accounts of the list; with a single account the
  generator never yields one: the loop that looks for another key does not end.
\<close>

theorem next_transfer_accounts:
  "(next_transfer keys uniform draws n = Some (Inr ((w, a, b), m)) \<longrightarrow>
      w = ''yscb_transfer'' \<and> a \<noteq> b \<and> n < m
      \<and> (\<exists>j\<in>set keys. \<exists>k\<in>set keys. a = int_str j \<and> b = int_str k))
   \<and> ((\<forall>i. draws i = Inr 0) \<longrightarrow> next_transfer [key] (Inr 0) draws n = None)"
  using next_transfer_shape next_transfer_single by blast

theorem next_transfer_accounts_witness:
  "next_transfer [5] (Inr 0) (\<lambda>i. Inr 0) 0 = None"
  using next_transfer_accounts [of "[]" "Inl IndexError" "\<lambda>i. Inr 0" 0 _ _ _ _ 5] by blast

end
