(* ===== verification/YcsbClient.thy ===== *)
theory YcsbClient
  imports Bench Zipf
begin

section \<open>The YCSB benchmark program\<close>

text \<open>
  \<open>applications/ycsb/client-nats.py\<close>: the settings read from the command line, the registration
  of the two workflows and the initial balances, the generator of transfers, the workers and the
  main program. The random numbers are the stream \<open>rnd\<close>, the power function of the C library is
  \<open>fpow\<close>; a generator that never yields makes the worker, and the program, never return (\<open>None\<close>).
\<close>

subsection \<open>Settings\<close>

record ycsb_settings =
  y_threads :: int
  n_entities :: int
  zipf_const :: json
  messages_per_second :: int
  y_seconds :: int
  save_dir :: string
  y_warmup_seconds :: int
  run_with_validation :: bool

definition ycsb_settings_of :: "string list \<Rightarrow> ycsb_settings py" where
  "ycsb_settings_of argv =
     rbind (rbind (argv_get argv 1) int_of_str) (\<lambda>threads.
     rbind (rbind (argv_get argv 2) int_of_str) (\<lambda>n.
     rbind (rbind (argv_get argv 3) float_of_str) (\<lambda>c.
     rbind (rbind (argv_get argv 4) int_of_str) (\<lambda>rate.
     rbind (rbind (argv_get argv 5) int_of_str) (\<lambda>secs.
     rbind (argv_get argv 6) (\<lambda>dir.
     rbind (rbind (argv_get argv 7) int_of_str) (\<lambda>warmup.
     rbind (argv_get argv 8) (\<lambda>validate.
     Inr \<lparr>y_threads = threads, n_entities = n, zipf_const = c, messages_per_second = rate,
          y_seconds = secs, save_dir = dir, y_warmup_seconds = warmup,
          run_with_validation = (str_lower validate = ''true'')\<rparr>))))))))"

definition starting_money :: int where "starting_money = 1000000"

definition key_list :: "ycsb_settings \<Rightarrow> int list" where
  "key_list y = [0..n_entities y - 1]"

definition ycsb_client_args :: client_args where
  "ycsb_client_args = bench_client_args (JInt 600)"

subsection \<open>Registration and initial balances\<close>

definition yscb_write_workflow :: "(string \<times> json) list" where
  "yscb_write_workflow = workflow_json ''yscb_write''
     [task_json ''write'' [(''key'', ''&key:w''), (''value'', ''$value'')]]"

definition yscb_transfer_workflow :: "(string \<times> json) list" where
  "yscb_transfer_workflow = workflow_json ''yscb_transfer''
     [task_json ''transfer'' [(''from'', ''&from:w''), (''to'', ''&to:w'')]]"

definition ycsb_init :: "world \<Rightarrow> string \<Rightarrow> int list \<Rightarrow> unit client_op" where
  "ycsb_init w function_dir keys =
     pbind (register_functions (w_net w) (w_malformed w) (w_fs w) [''write'', ''transfer''] function_dir) (\<lambda>_.
     pbind (register_workflow (w_net w) (w_malformed w) yscb_write_workflow) (\<lambda>_.
     pbind (register_workflow (w_net w) (w_malformed w) yscb_transfer_workflow) (\<lambda>_.
     init_data w ''yscb_write'' False (map (\<lambda>k. (int_str k, JInt starting_money)) keys))))"

subsection \<open>The generator of transfers\<close>

text \<open>
  Both generators draw one number in their constructor, the uniform one after the Zipfian one.
  A constant that is no finite number only occurs with arguments such as \<open>nan\<close>; the arithmetic
  of the model has no value for it, and the generator raises.
\<close>

definition ycsb_generators :: "fpow \<Rightarrow> (nat \<Rightarrow> rat) \<Rightarrow> int \<Rightarrow> json \<Rightarrow> (zipf \<times> zipf) py" where
  "ycsb_generators fpow rnd n c =
     (case c of
        JFloat theta \<Rightarrow>
          rbind (zipf_init fpow (Some n) 0 0 (Some theta) (rnd 0)) (\<lambda>zipf_gen.
          rbind (zipf_init fpow (Some n) 0 0 (Some 0) (rnd 1)) (\<lambda>uniform_gen.
          Inr (zipf_gen, uniform_gen)))
      | _ \<Rightarrow> Inl ValueError)"

definition ycsb_request :: "string \<times> string \<times> string \<Rightarrow> request" where
  "ycsb_request t = (case t of (wf_id, key1, key2) \<Rightarrow> (wf_id, [(''from'', JStr key1), (''to'', JStr key2)], None))"

text \<open>The first \<open>k\<close> requests, up to the first exception; \<open>pos\<close> is the position in the stream.\<close>

fun ycsb_stream ::
  "fpow \<Rightarrow> (nat \<Rightarrow> rat) \<Rightarrow> int list \<Rightarrow> zipf \<times> zipf \<Rightarrow> nat \<Rightarrow> nat \<Rightarrow> request py list option" where
  "ycsb_stream fpow rnd keys gens 0 pos = Some []"
| "ycsb_stream fpow rnd keys gens (Suc k) pos =
     (case next_transfer keys (zipf_next fpow (snd gens) (rnd pos))
             (\<lambda>i. zipf_next fpow (fst gens) (rnd i)) (pos + 1) of
        None \<Rightarrow> None
      | Some (Inl e) \<Rightarrow> Some [Inl e]
      | Some (Inr (t, pos')) \<Rightarrow>
          map_option (\<lambda>rs. Inr (ycsb_request t) # rs) (ycsb_stream fpow rnd keys gens k pos'))"

definition transactional_ycsb_generator ::
  "fpow \<Rightarrow> (nat \<Rightarrow> rat) \<Rightarrow> int list \<Rightarrow> int \<Rightarrow> json \<Rightarrow> nat \<Rightarrow> request py list option" where
  "transactional_ycsb_generator fpow rnd keys n c k =
     (if k = 0 then Some []
      else case ycsb_generators fpow rnd n c of
             Inl e \<Rightarrow> Some [Inl e]
           | Inr gens \<Rightarrow> ycsb_stream fpow rnd keys gens k 2)"

subsection \<open>The workers and the main program\<close>

text \<open>What one process finds: the world, its random numbers, its clock and its timer.\<close>

record ycsb_process =
  p_world :: world
  p_rnd :: "nat \<Rightarrow> rat"
  p_epoch_ms :: "nat \<Rightarrow> int"
  p_elapsed :: "nat \<Rightarrow> rat"

definition ycsb_meta :: "(nat \<Rightarrow> int) \<Rightarrow> nat \<Rightarrow> request \<Rightarrow> req_meta" where
  "ycsb_meta epoch_ms n r =
     (case r of (wf_id, inp, _) \<Rightarrow>
        \<lparr>m_op = wf_id @ '' '' @ str_join ''->'' (map (py_str \<circ> snd) inp), m_started = epoch_ms n,
         m_completed = None, m_latency = None\<rparr>)"

definition ycsb_bench :: "ycsb_settings \<Rightarrow> ycsb_process \<Rightarrow> request py list \<Rightarrow> req_meta bench" where
  "ycsb_bench y p rs =
     \<lparr>b_seconds = y_seconds y, b_rate = messages_per_second y, b_sleeps_per_second = 10,
      b_sleep_time = JFloat (dec 85 (-4)), b_elapsed = p_elapsed p,
      b_request = (\<lambda>n. case nth_opt rs n of Some r \<Rightarrow> r | None \<Rightarrow> Inl OtherError),
      b_meta = ycsb_meta (p_epoch_ms p)\<rparr>"

definition ycsb_run_worker ::
  "environ \<Rightarrow> fpow \<Rightarrow> ycsb_settings \<Rightarrow> ycsb_process \<Rightarrow> (int, req_meta) pydict py option" where
  "ycsb_run_worker env fpow y p =
     (case client_init env ycsb_client_args of
        Inl e \<Rightarrow> Some (Inl e)
      | Inr c \<Rightarrow>
          map_option (\<lambda>rs. fst (bench_runner (p_world p) (ycsb_bench y p rs) \<lparr>self = c, trace = []\<rparr>))
            (transactional_ycsb_generator fpow (p_rnd p) (key_list y) (n_entities y) (zipf_const y)
               (nat (y_seconds y) * nat (messages_per_second y))))"

text \<open>The pool returns when every worker has; \<open>gather\<close> then raises the exception of one of them.\<close>

definition ycsb_run_pool ::
  "environ \<Rightarrow> fpow \<Rightarrow> ycsb_settings \<Rightarrow> (int \<Rightarrow> ycsb_process) \<Rightarrow> (int, req_meta) pydict list py option" where
  "ycsb_run_pool env fpow y procs =
     (if \<exists>i\<in>set [0..y_threads y - 1]. ycsb_run_worker env fpow y (procs i) = None then None
      else Some (run_pool (\<lambda>i. the (ycsb_run_worker env fpow y (procs i))) (y_threads y)))"

text \<open>A pool that never returns only matters when the program gets that far.\<close>

definition ycsb_main ::
  "environ \<Rightarrow> fpow \<Rightarrow> string \<Rightarrow> ycsb_settings \<Rightarrow> world \<Rightarrow> (int \<Rightarrow> ycsb_process) \<Rightarrow> (csv_row list py \<times> session) py option" where
  "ycsb_main env fpow function_dir y w procs =
     (case client_init env ycsb_client_args of
        Inl e \<Rightarrow> Some (Inl e)
      | Inr c \<Rightarrow>
          let init = ycsb_init w function_dir (key_list y); s = \<lparr>self = c, trace = []\<rparr>
          in case ycsb_run_pool env fpow y procs of
               Some pool \<Rightarrow> Some (Inr (client_main w False init pool s))
             | None \<Rightarrow>
                 (case pbind (connect (w_net w) (w_installed w) True) (\<lambda>_. init) s of
                    (Inr u, t) \<Rightarrow> None
                  | (Inl e, t) \<Rightarrow> Some (Inr (client_main w False init (Inl e) s))))"

text \<open>
  The program: after the main part the metrics are computed from the CSV file, which
  \<open>read_csv\<close> reads back from the rows.
\<close>

definition ycsb_program ::
  "environ \<Rightarrow> fpow \<Rightarrow> stats_ops \<Rightarrow> (csv_row list \<Rightarrow> req_row list) \<Rightarrow> string \<Rightarrow> string list \<Rightarrow> world
     \<Rightarrow> (int \<Rightarrow> ycsb_process) \<Rightarrow> (string \<times> json) py option" where
  "ycsb_program env fpow st read_csv function_dir argv w procs =
     (case ycsb_settings_of argv of
        Inl e \<Rightarrow> Some (Inl e)
      | Inr y \<Rightarrow>
          map_option (\<lambda>r. rbind r (\<lambda>(rows, s). rbind rows (\<lambda>rows.
              ycsb_metrics_main st (read_csv rows) (n_entities y) (messages_per_second y) (zipf_const y)
                (y_threads y) (y_warmup_seconds y) (save_dir y) (run_with_validation y))))
            (ycsb_main env fpow function_dir y w procs))"

subsection \<open>Lemmas on the generator\<close>

lemma ycsb_stream_transfers:
  "ycsb_stream fpow rnd keys gens k pos = Some rs \<Longrightarrow> Inr r \<in> set rs \<Longrightarrow>
     \<exists>a\<in>set keys. \<exists>b\<in>set keys. a \<noteq> b
       \<and> r = (''yscb_transfer'', [(''from'', JStr (int_str a)), (''to'', JStr (int_str b))], None)"
proof (induction fpow rnd keys gens k pos arbitrary: rs rule: ycsb_stream.induct)
  case (1 fpow rnd keys gens pos)
  then show ?case by simp
next
  case (2 fpow rnd keys gens k pos)
  let ?nt = "next_transfer keys (zipf_next fpow (snd gens) (rnd pos)) (\<lambda>i. zipf_next fpow (fst gens) (rnd i)) (pos + 1)"
  from "2.prems" obtain t pos' rs' where t: "?nt = Some (Inr (t, pos'))"
    "ycsb_stream fpow rnd keys gens k pos' = Some rs'" "rs = Inr (ycsb_request t) # rs'"
    by (auto split: option.splits sum.splits)
  obtain wid a b where abc: "t = (wid, a, b)" by (cases t)
  from next_transfer_shape [OF t(1) [unfolded abc]] "2.IH" [OF t(1) refl refl t(2)] "2.prems"(2) t(3) abc show ?case
    by (auto simp: ycsb_request_def)
qed

lemma ycsb_stream_length: "ycsb_stream fpow rnd keys gens k pos = Some rs \<Longrightarrow> length rs \<le> k"
  by (induction fpow rnd keys gens k pos arbitrary: rs rule: ycsb_stream.induct)
    (auto split: option.splits sum.splits)

subsection \<open>Properties\<close>

text \<open>
  C37: Every request of the workload is a transfer between two different accounts that the
  initial data holds, and there are never more than asked for.
\<close>

theorem ycsb_transfers_valid:
  assumes "transactional_ycsb_generator fpow rnd [0..n - 1] n c k = Some rs" and "Inr r \<in> set rs"
  shows "length rs \<le> k \<and> (\<exists>a b. 0 \<le> a \<and> a < n \<and> 0 \<le> b \<and> b < n \<and> a \<noteq> b
      \<and> r = (''yscb_transfer'', [(''from'', JStr (int_str a)), (''to'', JStr (int_str b))], None))"
proof -
  obtain gens where g: "k \<noteq> 0" "ycsb_stream fpow rnd [0..n - 1] gens k 2 = Some rs"
    using assms by (auto simp: transactional_ycsb_generator_def split: if_splits sum.splits)
  from ycsb_stream_transfers [OF g(2) assms(2)] ycsb_stream_length [OF g(2)] show ?thesis by fastforce
qed

definition two_values :: "nat \<Rightarrow> rat" where "two_values i = (if even i then 0 else 1 / 4)"

definition four_zipf :: zipf where
  "four_zipf = \<lparr>z_max = 3, z_min = 0, z_items = 4, z_constant = 0, z_zeta = 4, z_base = 0, z_theta = 0,
     z_alpha = 1, z_count_for_zeta = 4, z_eta = 0\<rparr>"

lemma small_floats [simp]: "fl 2 = 2" "fl 3 = 3" "fl 4 = 4" "fl (1 / 2) = 1 / 2"
  using fl_of_int [of 2] fl_of_int [of 3] fl_of_int [of 4] fl_exact [of "1 / 2" 1 "- 1"]
  by (simp_all add: power_int_minus)

lemma zeta_four: "zeta_static (\<lambda>x y. Inr 1) 4 0 = Inr 4" "zeta_static (\<lambda>x y. Inr 1) 2 0 = Inr 2"
  by (simp_all add: zeta_static_def eval_nat_numeral py_fdiv_def fdiv_def fadd_def)

lemma four_zipf_next: "zipf_next (\<lambda>x y. Inr 1) four_zipf 0 = Inr 0" "zipf_next (\<lambda>x y. Inr 1) four_zipf (1 / 4) = Inr 1"
  by (simp_all add: zipf_next_def four_zipf_def fmul_def fadd_def)

lemma four_generators: "ycsb_generators (\<lambda>x y. Inr 1) two_values 4 (JFloat 0) = Inr (four_zipf, four_zipf)"
proof -
  have "zipf_init (\<lambda>x y. Inr 1) (Some 4) 0 0 (Some 0) u = rbind (zipf_next (\<lambda>x y. Inr 1) four_zipf u) (\<lambda>_. Inr four_zipf)" for u
    by (simp add: zipf_init_def zeta_four py_fdiv_def fdiv_def fsub_def of_pyint_def four_zipf_def Let_def)
  then show ?thesis by (simp add: ycsb_generators_def two_values_def four_zipf_next)
qed

lemma four_accounts_stream:
  "transactional_ycsb_generator (\<lambda>x y. Inr 1) two_values [0..4 - 1] 4 (JFloat 0) 1 =
     Some [Inr (''yscb_transfer'', [(''from'', JStr (int_str 0)), (''to'', JStr (int_str 1))], None)]"
  by (simp add: transactional_ycsb_generator_def four_generators next_transfer_def two_values_def four_zipf_next
      py_index_def upto.simps draw_other.simps ycsb_request_def)

theorem ycsb_transfers_valid_witness:
  "\<exists>rs r a b. transactional_ycsb_generator (\<lambda>x y. Inr 1) two_values [0..4 - 1] 4 (JFloat 0) 1 = Some rs
     \<and> Inr r \<in> set rs \<and> 0 \<le> a \<and> a < 4 \<and> 0 \<le> b \<and> b < (4::int) \<and> a \<noteq> b
     \<and> r = (''yscb_transfer'', [(''from'', JStr (int_str a)), (''to'', JStr (int_str b))], None)"
proof -
  let ?r = "(''yscb_transfer'', [(''from'', JStr (int_str 0)), (''to'', JStr (int_str 1))], None)"
  from ycsb_transfers_valid [OF four_accounts_stream, of ?r] four_accounts_stream show ?thesis by fastforce
qed



definition no_load :: ycsb_settings where
  "no_load = \<lparr>y_threads = 0, n_entities = 0, zipf_const = JFloat 0, messages_per_second = 0, y_seconds = 0,
     save_dir = ''d'', y_warmup_seconds = 0, run_with_validation = False\<rparr>"


end
