(* ===== verification/Spec2Isabelle.thy ===== *)
theory Spec2Isabelle
  imports AbortBench Cleaned CreateConfig EinsumPath HotelClient NatsWorker NumpyVersion WitTypes YcsbClient YcsbFunctions
begin

text \<open>
  \<^bold>\<open>The program.\<close> DeterSL runs serverless workflows with deterministic transactions. A client (Python)
  registers functions and workflows with a worker (C++) and publishes invocations through NATS; the
  worker executes every invocation as a transaction on keyed resources, in the effect one after the
  other in the order in which the dispatcher has taken them, and publishes a status for each of them.

  \<^item> \<open>src/src/nats/worker.cpp\<close>: three threads. The core thread answers registrations and reads, the invoke
    thread pulls invocations, the dispatcher takes the tasks of both from one queue, in order.
  \<^item> \<open>src/src/workflow\<close>: registrations build a graph of the workflow and bind its functions; an invocation
    is turned into behaviours, closures that the runtime runs while they hold their cowns.
  \<^item> \<open>src/src/execution\<close>, \<open>src/src/storage\<close>: a task runs a WebAssembly function on the resources bound to
    it; what it writes stays pending until the final behaviour of the invocation commits or aborts it.
  \<^item> \<open>src/applications/*/function\<close>: the functions (Python, compiled to WebAssembly).
  \<^item> \<open>src/detersl_client\<close>: the client library; \<open>src/applications/*/client-nats.py\<close>: the benchmarks; with
    \<open>calculate_metrics.py\<close> and \<open>src/scripts/create_config.py\<close> around them.

  In the theories the leading \<open>src/\<close> is left out of the names of the files.

  \<^bold>\<open>Foundations.\<close>
  \<^item> \<open>Prelude\<close>: results (\<open>Inl\<close> an error), the state-and-exception monad, dictionaries, byte strings; the
    collections \<open>py_monad\<close> and \<open>dict_laws\<close>.
  \<^item> \<open>PyCore\<close>, \<open>PyText\<close>, \<open>PyFloat\<close>, \<open>PyRandom\<close>, \<open>PyJson\<close>: what the Python code uses of the language and its
    library. Floats are rationals rounded to 53 bits by every operation (\<open>fl\<close>). Lemmas: \<open>int.to_bytes\<close> and
    \<open>from_bytes\<close> are inverse, numerals are read back, and \<open>loads_dumps\<close>: what \<open>dumps\<close> writes is read back.
  \<^item> \<open>CppJson\<close>: the accessors of \<open>nlohmann::json\<close>; a failing one is a value of \<open>cpperr\<close>.

  \<^bold>\<open>The worker.\<close>
  \<^item> \<open>Storage\<close>: \<open>Resource\<close>, \<open>ResourceStorage\<close>, the host object. Every operation keeps \<open>resource_inv\<close>; commit
    and abort are stated over the abstract values \<open>committed_value\<close> and \<open>pending_value\<close>. The locale
    \<open>kv_interface\<close> is what a function relies on; it is interpreted by the worker's own storage.
  \<^item> \<open>FastJson\<close>, \<open>FuncInfo\<close>, \<open>WorkflowModel\<close>: the messages and their conversions, with round trips.
  \<^item> \<open>Bindings\<close>, \<open>Graph\<close>: placeholders, \<open>build_graph\<close>, the comparison of choices. Exactly the well-formed
    workflows are accepted, and their graphs are well formed.
  \<^item> \<open>Registry\<close>: the registries and registrars. The locales \<open>registry\<close> and \<open>once_registry\<close> hold the laws of
    lookup and entry, interpreted by the registry of functions and by the one of workflows.
  \<^item> \<open>Behaviours\<close>: the closures as data, their effect (\<open>perform_behaviour\<close>), and the runtime as the step
    relation \<open>finishes\<close>: a behaviour may finish when none before it conflicts with it.
  \<^item> \<open>Serial\<close>: any execution of scheduled behaviours has the effect of the serial one, up to the resources
    and choices private to one invocation. The locale \<open>function_host\<close> holds the one law that this needs of
    the functions (\<open>sandboxed\<close>: they change uncommitted data only).
  \<^item> \<open>Host\<close>: \<open>wasm_runner.hpp\<close> with the functions of the applications; interprets \<open>function_host\<close> by them.
  \<^item> \<open>Scheduler\<close>: \<open>scheduler.cpp\<close>, from an invocation to its behaviours; whatever it schedules meets the
    assumptions of \<open>Serial\<close> (\<open>dispatched_orders\<close>).
  \<^item> \<open>Execution\<close>: dispatcher and runtime interleaved (\<open>worker_step\<close>); serializability, progress, determinism.
  \<^item> \<open>Paths\<close>, \<open>Names\<close>, \<open>Specification\<close>, \<open>Refinement\<close>: the abstract specification. \<open>spec_log\<close> executes a log of
    orders on a map from names to resources: an invocation walks along one path of its graph (\<open>spec_walk\<close>)
    and at the end keeps all it has written or nothing. \<open>Paths\<close>: running the behaviours of a tree of
    branches under their guards is walking along the selected ones. \<open>Names\<close>: names and cowns correspond,
    and the behaviours of an invocation mirror its graph. \<open>Specification\<close>: the simulation for one
    invocation. \<open>Refinement\<close>: the theorem for every interleaving of every log.
  \<^item> \<open>Cleanup\<close>: the queue of deletions and the numbers of uses that decide on a cleanup. The marks of the
    scheduled behaviours number the uses of a name in order (\<open>counted\<close>), the invariant \<open>tended\<close> orders the
    queue and the unfinished behaviours by them, and so a cleanup takes out only what is deleted and what
    no unfinished behaviour writes. \<open>double_name_unsafe\<close>: with a task that names a resource twice it may not.
  \<^item> \<open>Cleaned\<close>: the refinement for logs with cleanups (\<open>spec_runs\<close>): at a cleanup the specification forgets
    names of deleted resources, which reads as before (\<open>forgotten_reads\<close>).
  \<^item> \<open>NatsWorker\<close>: one turn of each of the three threads, the configuration and the status message; the
    clients' messages are read as they were meant, and each request is answered once.

  \<^bold>\<open>The functions and the clients.\<close>
  \<^item> \<open>FunctionApi\<close>, \<open>WitTypes\<close>: the interface of a function as it is used, and the generated modules.
  \<^item> \<open>YcsbFunctions\<close>, \<open>HotelFunctions\<close>, \<open>AbortFunctions\<close>: all functions of the three applications, and
    \<open>stages_only\<close> for each of them, which \<open>Host\<close> needs.
  \<^item> \<open>Client\<close>, \<open>ClientMetrics\<close>: \<open>AsyncDeterSLClient\<close>. The waiting calls and the pull loop are a transition
    system (\<open>sys_next\<close>, \<open>sys_reach\<close>) with the invariant \<open>sys_inv\<close>.
  \<^item> \<open>Bench\<close>: what the benchmark programs share; \<open>Zipf\<close>, \<open>YcsbClient\<close>, \<open>HotelClient\<close>, \<open>ChoiceBench\<close>,
    \<open>AbortBench\<close>: the programs; \<open>Metrics\<close>, \<open>CreateConfig\<close>: evaluation and configuration.
  \<^item> \<open>EinsumPath\<close>, \<open>NumpyVersion\<close>: of the copy of numpy that lies beside the hotel functions, the modules
    that are logic in Python: the search for the order of the contractions of an Einstein sum (every order
    found can be carried out, the optimal one is the cheapest), the comparison of versions, the case functions.

  \<^bold>\<open>Parameters and hypotheses.\<close> Code that is not part of the repository is an argument of the definitions.
  \<^item> The record \<open>platform\<close> holds what C++ leaves open (\<open>std::sort\<close> on equivalent elements, casts out of range,
    reads past the end of a buffer); \<open>common_platform\<close> is an instance. The parsers of JSON, the compiler of
    functions and the texts of exceptions are the arguments of \<open>Registry\<close> and \<open>NatsWorker\<close>; \<open>reads_python\<close> says
    that a parser reads what Python's \<open>dumps\<close> writes, and the reader of \<open>PyJson\<close> does (\<open>reads_python_reader\<close>).
  \<^item> The executor of functions is any with \<open>function_host\<close>, which those of the repository are.
  \<^item> NATS is the function \<open>net\<close> from the actions so far to an answer or an exception; clocks, random numbers
    (\<open>rng_ok\<close>), files, arguments and environment variables, the elementary functions of numpy (\<open>np_ops\<close>),
    the power function and the statistics of pandas are arguments as well.
  \<^item> The logs of \<open>Refinement\<close> and \<open>Cleaned\<close> have distinct stream numbers, and (\<open>plain_order\<close>,
    \<open>cleanable_order\<close>) no request or workflow spells a name like those of the local resources of an
    invocation, and an invocation that cannot abort finds all its inputs (else its workflow stops in the
    middle, which \<open>Execution\<close> covers, but not the specification).
  \<^item> \<open>Cleanup\<close> and \<open>Cleaned\<close> ask for tasks that name a resource once (\<open>names_once\<close>) and for less than \<open>2^31\<close>
    uses, the range of the numbers in the closures; \<open>Cleanup\<close> asks nothing of the executor of functions.

  \<^bold>\<open>Bounds and termination.\<close> \<open>loads\<close> has the length of the text as fuel; every call consumes a character,
  and \<open>loads_dumps\<close> shows that it is enough for every written text. The scheduler's queue ends because
  each turn takes the nodes of one list off it (\<open>queue_nodes\<close>), the walks because the nodes left get fewer
  (\<open>nodes_in\<close>, \<open>spawn_size\<close>). An execution of the worker has at most \<open>steps_left\<close> steps. The search for a second
  account may never end and is a \<open>partial_function\<close>. The loops that read from NATS run over a list of what
  arrives. Stream numbers and counts of uses are 64-bit words, the numbers of choices 32-bit words.

  \<^bold>\<open>Not modelled.\<close> The wrappers around the NATS C library (\<open>nats/connection.cpp\<close>), the start of the program
  and of the engine (\<open>main.cpp\<close>, \<open>wasm_executioner.hpp\<close>): calls into libraries without logic of their own.
  Printing, the pinning of threads, and the two bounded queues of the worker as such: a full queue
  delays and changes no order. Vendored code (the rest of numpy, Verona, snmalloc) and two further copies
  of the generated modules. Build files, containers and shell scripts. Plots and tables of the evaluation.
\<close>

end
